(* ===== verification/Rust_Prelude.thy ===== *)
theory Rust_Prelude
  imports
    Main
    "HOL-Library.Signed_Division"
    "HOL-Library.Char_ord"
    "HOL-Library.List_Lexorder"
    "HOL-Library.Product_Lexorder"
    "HOL-Library.Option_ord"
    "HOL-Library.Multiset"
begin

text \<open>
  What the component theories share: the outcome type of fallible Rust code, the fixed-width
  integers with their range tests, the list and string operations of the Rust standard library
  that the sources call, and the generic lemmas about them.

  \<^item> \<open>('e, 'a) res\<close> is \<open>Result<'a, 'e>\<close> with one more outcome, \<open>Panic\<close>: a slice index out of
    range, a division by zero, or an unchecked operator whose exact result leaves its type. (A
    debug build panics there and a release build wraps; where a theorem excludes \<open>Panic\<close>, both
    builds compute the value of the model.)
  \<^item> Integers are \<open>int\<close>, and every operation that can leave its width tests it.
  \<^item> Text is \<open>string\<close>, a list of bytes compared lexicographically, as \<open>str\<close> is.
\<close>

named_theorems res_simps "evaluation of fallible code whose steps succeed"
named_theorems width_simps "the ranges of the fixed-width integers"
named_theorems res_rel_intros "relating two runs of the same fallible code"

section \<open>Outcomes\<close>

datatype 'e fault = Err 'e | Panic

type_synonym ('e, 'a) res = "'e fault + 'a"

definition rbind :: "('e, 'a) res \<Rightarrow> ('a \<Rightarrow> ('e, 'b) res) \<Rightarrow> ('e, 'b) res" where
  "rbind m f = (case m of Inl e \<Rightarrow> Inl e | Inr x \<Rightarrow> f x)"

definition rmap :: "('a \<Rightarrow> 'b) \<Rightarrow> ('e, 'a) res \<Rightarrow> ('e, 'b) res" where
  "rmap f m = rbind m (\<lambda>x. Inr (f x))"

definition ok_or :: "'a option \<Rightarrow> 'e \<Rightarrow> ('e, 'a) res" where
  "ok_or x e = (case x of None \<Rightarrow> Inl (Err e) | Some v \<Rightarrow> Inr v)"

text \<open>\<open>xs[i]\<close>: panics out of range.\<close>

definition index_res :: "'a list \<Rightarrow> nat \<Rightarrow> ('e, 'a) res" where
  "index_res xs i = (if i < length xs then Inr (xs ! i) else Inl Panic)"

text \<open>\<open>iter.map(f).collect::<Result<Vec<_>, _>>()\<close>: stops at the first error.\<close>

fun rmapM :: "('a \<Rightarrow> ('e, 'b) res) \<Rightarrow> 'a list \<Rightarrow> ('e, 'b list) res" where
  "rmapM f [] = Inr []"
| "rmapM f (x # xs) = rbind (f x) (\<lambda>y. rbind (rmapM f xs) (\<lambda>ys. Inr (y # ys)))"

text \<open>\<open>iter.try_fold(init, f)\<close>.\<close>

fun rfold :: "('s \<Rightarrow> 'a \<Rightarrow> ('e, 's) res) \<Rightarrow> 's \<Rightarrow> 'a list \<Rightarrow> ('e, 's) res" where
  "rfold f s [] = Inr s"
| "rfold f s (x # xs) = rbind (f s x) (\<lambda>s'. rfold f s' xs)"

lemma rbind_Inr [simp]: "rbind (Inr x) f = f x"
  by (simp add: rbind_def)

lemma rbind_Inl [simp]: "rbind (Inl e) f = Inl e"
  by (simp add: rbind_def)

lemma rmap_Inr [simp]: "rmap f (Inr x) = Inr (f x)"
  by (simp add: rmap_def)

lemma rmap_Inl [simp]: "rmap f (Inl e) = Inl e"
  by (simp add: rmap_def)

lemma ok_or_simps [simp]: "ok_or (Some v) e = Inr v" "ok_or None e = Inl (Err e)"
  by (simp_all add: ok_or_def)

lemma rbind_eq_Inr: "rbind m f = Inr y \<longleftrightarrow> (\<exists>x. m = Inr x \<and> f x = Inr y)"
  by (cases m) auto

lemma rbind_eq_Inl: "rbind m f = Inl e \<longleftrightarrow> m = Inl e \<or> (\<exists>x. m = Inr x \<and> f x = Inl e)"
  by (cases m) auto

lemma rmap_eq_Inr: "rmap f m = Inr y \<longleftrightarrow> (\<exists>x. m = Inr x \<and> y = f x)"
  by (cases m) auto

lemma rmap_eq_Inl [simp]: "rmap f m = Inl e \<longleftrightarrow> m = Inl e"
  by (cases m) auto

lemma index_res_Inr: "index_res xs i = Inr x \<longleftrightarrow> i < length xs \<and> xs ! i = x"
  by (auto simp: index_res_def)

lemma rbind_cong [fundef_cong]:
  "m = m' \<Longrightarrow> (\<And>x. m' = Inr x \<Longrightarrow> f x = f' x) \<Longrightarrow> rbind m f = rbind m' f'"
  by (cases m') auto

lemma rmapM_length: "rmapM f xs = Inr ys \<Longrightarrow> length ys = length xs"
  by (induction xs arbitrary: ys) (auto simp: rbind_eq_Inr)

lemma rmapM_nth: "rmapM f xs = Inr ys \<Longrightarrow> i < length xs \<Longrightarrow> f (xs ! i) = Inr (ys ! i)"
  by (induction xs arbitrary: ys i) (auto simp: rbind_eq_Inr nth_Cons split: nat.splits)

lemma rmapM_eq_map: "(\<And>x. x \<in> set xs \<Longrightarrow> f x = Inr (g x)) \<Longrightarrow> rmapM f xs = Inr (map g xs)"
  by (induction xs) auto

lemma rmapM_Inl: "rmapM f xs = Inl e \<Longrightarrow> \<exists>x \<in> set xs. f x = Inl e"
  by (induction xs) (auto simp: rbind_eq_Inl)

subsection \<open>Two runs side by side\<close>

text \<open>
  \<open>res_rel R m m'\<close>: whenever both runs return, their values are related. It composes along
  \<^const>\<open>rbind\<close>, so a monotonicity claim about fallible code follows its structure.
\<close>

definition res_rel :: "('a \<Rightarrow> 'b \<Rightarrow> bool) \<Rightarrow> ('e, 'a) res \<Rightarrow> ('e, 'b) res \<Rightarrow> bool" where
  "res_rel R m m' \<longleftrightarrow> (\<forall>x y. m = Inr x \<longrightarrow> m' = Inr y \<longrightarrow> R x y)"

lemma res_relD: "res_rel R m m' \<Longrightarrow> m = Inr x \<Longrightarrow> m' = Inr y \<Longrightarrow> R x y"
  by (simp add: res_rel_def)

lemma res_rel_Inr [simp]: "res_rel R (Inr x) (Inr y) = R x y"
  by (simp add: res_rel_def)

lemma res_rel_Inl [simp]: "res_rel R (Inl e) m" "res_rel R m (Inl e)"
  by (simp_all add: res_rel_def)

lemma res_rel_bind [res_rel_intros]:
  assumes "res_rel R m m'" and "\<And>x y. R x y \<Longrightarrow> res_rel S (f x) (g y)"
  shows "res_rel S (rbind m f) (rbind m' g)"
  using assms by (cases m; cases m') (auto simp: res_rel_def)

lemma res_rel_mono: "res_rel R m m' \<Longrightarrow> (\<And>x y. R x y \<Longrightarrow> S x y) \<Longrightarrow> res_rel S m m'"
  by (auto simp: res_rel_def)

lemma res_rel_rmapM:
  assumes "list_all2 R xs ys" and "\<And>x y. R x y \<Longrightarrow> res_rel S (f x) (g y)"
  shows "res_rel (list_all2 S) (rmapM f xs) (rmapM g ys)"
  using assms(1)
proof (induction rule: list_all2_induct)
  case Nil
  show ?case by simp
next
  case (Cons x xs y ys)
  show ?case
    by (auto intro!: res_rel_bind [OF assms(2) [OF Cons.hyps(1)]] res_rel_bind [OF Cons.IH])
qed

section \<open>Fixed-width integers\<close>

definition u8_ok :: "int \<Rightarrow> bool" where "u8_ok x \<longleftrightarrow> 0 \<le> x \<and> x < 2 ^ 8"
definition u16_ok :: "int \<Rightarrow> bool" where "u16_ok x \<longleftrightarrow> 0 \<le> x \<and> x < 2 ^ 16"
definition u32_ok :: "int \<Rightarrow> bool" where "u32_ok x \<longleftrightarrow> 0 \<le> x \<and> x < 2 ^ 32"
definition u64_ok :: "int \<Rightarrow> bool" where "u64_ok x \<longleftrightarrow> 0 \<le> x \<and> x < 2 ^ 64"
definition i64_ok :: "int \<Rightarrow> bool" where "i64_ok x \<longleftrightarrow> - (2 ^ 63) \<le> x \<and> x < 2 ^ 63"
definition i128_ok :: "int \<Rightarrow> bool" where "i128_ok x \<longleftrightarrow> - (2 ^ 127) \<le> x \<and> x < 2 ^ 127"

lemmas width_defs [width_simps] =
  u8_ok_def u16_ok_def u32_ok_def u64_ok_def i64_ok_def i128_ok_def

text \<open>\<open>checked_add\<close>, \<open>checked_mul\<close>, \<open>try_from\<close>: \<open>None\<close> when the exact value does not fit.\<close>

definition fits :: "(int \<Rightarrow> bool) \<Rightarrow> int \<Rightarrow> int option" where
  "fits width v = (if width v then Some v else None)"

text \<open>An unchecked operator on \<open>i128\<close>.\<close>

definition raw128 :: "int \<Rightarrow> ('e, int) res" where
  "raw128 v = (if i128_ok v then Inr v else Inl Panic)"

lemma fits_eq_Some [simp]: "fits w v = Some x \<longleftrightarrow> w v \<and> x = v"
  by (auto simp: fits_def)

lemma fits_eq_None [simp]: "fits w v = None \<longleftrightarrow> \<not> w v"
  by (auto simp: fits_def)

lemma raw128_eq_Inr [simp]: "raw128 v = Inr x \<longleftrightarrow> i128_ok v \<and> x = v"
  by (auto simp: raw128_def)

lemma raw128_ok: "i128_ok v \<Longrightarrow> raw128 v = Inr v"
  by (simp add: raw128_def)

lemma i64_ok_i128: "i64_ok x \<Longrightarrow> i128_ok x"
  by (simp add: width_simps)

lemma u32_ok_i128: "u32_ok x \<Longrightarrow> i128_ok x"
  by (simp add: width_simps)

lemma i128_ok_convex: "i128_ok a \<Longrightarrow> i128_ok b \<Longrightarrow> a \<le> x \<Longrightarrow> x \<le> b \<Longrightarrow> i128_ok x"
  by (simp add: width_simps)

end
