(* ===== verification/Lineage_Values.thy ===== *)
theory Lineage_Values
  imports Rust_Prelude
begin

text \<open>
  The record values every layer shares (\<open>src/src/domain/lineage/value.rs\<close>): times that may be an
  instant, a whole UTC day or unknown, with the three-valued comparison the gates rely on; record
  ids; evidence locators. The text form of a time goes through the \<open>chrono\<close> crate and is not
  modelled; a \<open>time\<close> value is what the parser returns.
\<close>

section \<open>Text\<close>

text \<open>\<open>str::strip_prefix\<close> and \<open>str::split_once\<close> at a one-byte separator.\<close>

fun strip_prefix :: "string \<Rightarrow> string \<Rightarrow> string option" where
  "strip_prefix [] s = Some s"
| "strip_prefix (p # ps) [] = None"
| "strip_prefix (p # ps) (c # cs) = (if p = c then strip_prefix ps cs else None)"

fun split_once :: "char \<Rightarrow> string \<Rightarrow> (string \<times> string) option" where
  "split_once d [] = None"
| "split_once d (c # cs) =
     (if c = d then Some ([], cs) else map_option (\<lambda>(a, b). (c # a, b)) (split_once d cs))"

definition starts_with :: "string \<Rightarrow> string \<Rightarrow> bool" where
  "starts_with p s \<longleftrightarrow> strip_prefix p s \<noteq> None"

text \<open>\<open>slice::join\<close>.\<close>

fun join :: "string \<Rightarrow> string list \<Rightarrow> string" where
  "join sep [] = []"
| "join sep [x] = x"
| "join sep (x # xs) = x @ sep @ join sep xs"

definition is_ascii_digit :: "char \<Rightarrow> bool" where
  "is_ascii_digit c \<longleftrightarrow> CHR ''0'' \<le> c \<and> c \<le> CHR ''9''"

definition is_ascii_lowercase :: "char \<Rightarrow> bool" where
  "is_ascii_lowercase c \<longleftrightarrow> CHR ''a'' \<le> c \<and> c \<le> CHR ''z''"

definition is_ascii_uppercase :: "char \<Rightarrow> bool" where
  "is_ascii_uppercase c \<longleftrightarrow> CHR ''A'' \<le> c \<and> c \<le> CHR ''Z''"

definition is_ascii_alphanumeric :: "char \<Rightarrow> bool" where
  "is_ascii_alphanumeric c \<longleftrightarrow> is_ascii_digit c \<or> is_ascii_lowercase c \<or> is_ascii_uppercase c"

lemma strip_prefix_Some_iff: "strip_prefix p s = Some r \<longleftrightarrow> s = p @ r"
  by (induction p s rule: strip_prefix.induct) auto

lemma strip_prefix_append [simp]: "strip_prefix p (p @ r) = Some r"
  by (simp add: strip_prefix_Some_iff)

text \<open>
  \<open>str::trim\<close>: drops leading and trailing characters with the Unicode property \<open>White_Space\<close>. A text is its
  UTF-8 bytes: six of these characters are one byte, the others are listed by their encoding. The lead byte of an
  encoding is no continuation byte, so at the end of a well-formed text the bytes of an encoding are that character.
\<close>

definition is_space :: "char \<Rightarrow> bool" where
  "is_space c \<longleftrightarrow> c \<in> {CHR '' '', CHR 0x09, CHR 0x0A, CHR 0x0B, CHR 0x0C, CHR 0x0D}"

definition is_ascii :: "char \<Rightarrow> bool" where
  "is_ascii c \<longleftrightarrow> (case c of Char _ _ _ _ _ _ _ b \<Rightarrow> \<not> b)"

text \<open>U+0085, U+00A0, U+1680, U+2000 to U+200A, U+2028, U+2029, U+202F, U+205F and U+3000.\<close>

definition wide_spaces :: "string list" where
  "wide_spaces =
     [[CHR 0xC2, CHR 0x85], [CHR 0xC2, CHR 0xA0], [CHR 0xE1, CHR 0x9A, CHR 0x80],
      [CHR 0xE2, CHR 0x80, CHR 0x80], [CHR 0xE2, CHR 0x80, CHR 0x81], [CHR 0xE2, CHR 0x80, CHR 0x82],
      [CHR 0xE2, CHR 0x80, CHR 0x83], [CHR 0xE2, CHR 0x80, CHR 0x84], [CHR 0xE2, CHR 0x80, CHR 0x85],
      [CHR 0xE2, CHR 0x80, CHR 0x86], [CHR 0xE2, CHR 0x80, CHR 0x87], [CHR 0xE2, CHR 0x80, CHR 0x88],
      [CHR 0xE2, CHR 0x80, CHR 0x89], [CHR 0xE2, CHR 0x80, CHR 0x8A], [CHR 0xE2, CHR 0x80, CHR 0xA8],
      [CHR 0xE2, CHR 0x80, CHR 0xA9], [CHR 0xE2, CHR 0x80, CHR 0xAF], [CHR 0xE2, CHR 0x81, CHR 0x9F],
      [CHR 0xE3, CHR 0x80, CHR 0x80]]"

text \<open>\<open>s\<close> without the first text of a list it starts with, if any.\<close>

fun strip_one :: "string list \<Rightarrow> string \<Rightarrow> string option" where
  "strip_one [] s = None"
| "strip_one (w # ws) s = (case strip_prefix w s of Some r \<Rightarrow> Some r | None \<Rightarrow> strip_one ws s)"

text \<open>One white space off the front, if there is one; \<open>wide\<close> holds the encodings of the others.\<close>

fun strip_space :: "string list \<Rightarrow> string \<Rightarrow> string option" where
  "strip_space wide [] = None"
| "strip_space wide (c # cs) =
     (if is_ascii c then if is_space c then Some cs else None else strip_one wide (c # cs))"

lemma strip_one_Some: "strip_one ws s = Some r \<Longrightarrow> \<exists>w \<in> set ws. s = w @ r"
  by (induction ws) (auto simp: strip_prefix_Some_iff split: option.splits)

lemma strip_space_Some:
  "strip_space wide s = Some r \<Longrightarrow> (\<exists>c. is_space c \<and> s = c # r) \<or> (\<exists>w \<in> set wide. s = w @ r)"
  by (cases s) (auto dest!: strip_one_Some split: if_splits)

text \<open>The bytes read backwards, for the end of a text: the last character is white space when its bytes are.\<close>

definition wide_at :: "bool \<Rightarrow> string list" where
  "wide_at backwards = (if backwards then map rev wide_spaces else wide_spaces)"

lemma wide_at_ne: "w \<in> set (wide_at b) \<Longrightarrow> w \<noteq> [] \<and> list_all (\<lambda>c. \<not> is_ascii c) w"
  by (cases b) (auto simp: wide_at_def wide_spaces_def is_ascii_def)

function trim_front :: "bool \<Rightarrow> string \<Rightarrow> string" where
  "trim_front b s = (case strip_space (wide_at b) s of None \<Rightarrow> s | Some r \<Rightarrow> trim_front b r)"
  by auto

termination
  by (relation "measure (\<lambda>(b, s). length s)") (auto dest!: strip_space_Some wide_at_ne)

declare trim_front.simps [simp del]

definition trim :: "string \<Rightarrow> string" where
  "trim s = rev (trim_front True (rev (trim_front False s)))"

lemma trim_front_keeps:
  assumes "c \<in> set s" "is_ascii c" "\<not> is_space c"
  shows "c \<in> set (trim_front b s)"
  using assms(1)
proof (induction b s rule: trim_front.induct)
  case (1 b s)
  show ?case
  proof (cases "strip_space (wide_at b) s")
    case None
    with "1.prems" show ?thesis by (simp add: trim_front.simps)
  next
    case (Some r)
    from strip_space_Some [OF this] have "c \<in> set r"
      using "1.prems" assms(2,3) wide_at_ne by (auto simp: list_all_iff)
    with "1.IH" [OF Some] Some show ?thesis by (subst trim_front.simps) simp
  qed
qed

text \<open>A text with a visible ASCII character is not blank, and a leading blank does not count.\<close>

lemma trim_ne: "c \<in> set s \<Longrightarrow> is_ascii c \<Longrightarrow> \<not> is_space c \<Longrightarrow> trim s \<noteq> []"
  unfolding trim_def by (metis empty_iff empty_set rev_is_Nil_conv set_rev trim_front_keeps)

lemma trim_ne_Cons: "is_ascii c \<Longrightarrow> \<not> is_space c \<Longrightarrow> trim (c # s) \<noteq> []"
  by (rule trim_ne [of c]) simp_all

lemma trim_space_Cons [simp]: "trim (CHR '' '' # s) = trim s"
  by (simp add: trim_def trim_front.simps [of False "_ # _"] is_ascii_def is_space_def)

lemma split_once_append: "d \<notin> set a \<Longrightarrow> split_once d (a @ d # b) = Some (a, b)"
  by (induction a) auto

lemma split_onceD: "split_once d s = Some (a, b) \<Longrightarrow> s = a @ d # b \<and> d \<notin> set a"
proof (induction s arbitrary: a)
  case Nil
  then show ?case by simp
next
  case (Cons c s)
  show ?case
  proof (cases "c = d")
    case True
    with Cons.prems show ?thesis by simp
  next
    case False
    with Cons.prems obtain a' where "split_once d s = Some (a', b)" "a = c # a'" by auto
    with Cons.IH [of a'] False show ?thesis by simp
  qed
qed

lemma split_once_Some_iff: "split_once d s = Some (a, b) \<longleftrightarrow> s = a @ d # b \<and> d \<notin> set a"
  using split_onceD split_once_append by blast

lemma split_once_None_iff: "split_once d s = None \<longleftrightarrow> d \<notin> set s"
  by (induction s) auto

definition UNKNOWN :: string where "UNKNOWN = ''UNKNOWN''"

section \<open>Record ids\<close>

definition valid_id :: "string \<Rightarrow> bool" where
  "valid_id s \<longleftrightarrow> s \<noteq> [] \<and> length s \<le> 80 \<and> is_ascii_alphanumeric (hd s) \<and>
     list_all (\<lambda>c. is_ascii_alphanumeric c \<or> c \<in> {CHR ''.'', CHR ''_'', CHR ''-''}) s"

section \<open>Times\<close>

definition DAY_MS :: int where "DAY_MS = 86400000"

datatype time = At int | Day int | TimeUnknown

datatype time_order = NotAfter | After | Ambiguous | OrderUnknown

fun is_known :: "time \<Rightarrow> bool" where
  "is_known TimeUnknown = False"
| "is_known _ = True"

fun earliest :: "time \<Rightarrow> int option" where
  "earliest (At t) = Some t"
| "earliest (Day t) = Some t"
| "earliest TimeUnknown = None"

fun latest :: "time \<Rightarrow> int option" where
  "latest (At t) = Some t"
| "latest (Day d) = Some (d + DAY_MS - 1)"
| "latest TimeUnknown = None"

fun window_end :: "time \<Rightarrow> int option" where
  "window_end (At t) = Some t"
| "window_end (Day d) = Some (d + DAY_MS)"
| "window_end TimeUnknown = None"

definition torder :: "time \<Rightarrow> time \<Rightarrow> time_order" where
  "torder a b =
     (case (earliest a, latest a, earliest b, latest b) of
        (Some a_lo, Some a_hi, Some b_lo, Some b_hi) \<Rightarrow>
          (if a_hi \<le> b_lo then NotAfter else if a_lo > b_hi then After else Ambiguous)
      | (Some _, _, Some _, _) \<Rightarrow> Ambiguous
      | _ \<Rightarrow> OrderUnknown)"

definition sort_key_of :: "time \<Rightarrow> bool \<times> int" where
  "sort_key_of t = (\<not> is_known t, case earliest t of Some x \<Rightarrow> x | None \<Rightarrow> 2 ^ 63 - 1)"

definition windows_overlap :: "time \<times> time \<Rightarrow> time \<times> time \<Rightarrow> bool option" where
  "windows_overlap a b =
     (case (earliest (fst a), window_end (snd a), earliest (fst b), window_end (snd b)) of
        (Some a_lo, Some a_hi, Some b_lo, Some b_hi) \<Rightarrow> Some (a_lo < b_hi \<and> b_lo < a_hi)
      | _ \<Rightarrow> None)"

text \<open>The instants a time may stand for.\<close>

definition instants :: "time \<Rightarrow> int set" where
  "instants t = (case t of At x \<Rightarrow> {x} | Day d \<Rightarrow> {d ..< d + DAY_MS} | TimeUnknown \<Rightarrow> UNIV)"

lemma earliest_None_iff [simp]: "earliest t = None \<longleftrightarrow> t = TimeUnknown"
  by (cases t) auto

lemma latest_None_iff [simp]: "latest t = None \<longleftrightarrow> t = TimeUnknown"
  by (cases t) auto

lemma is_known_iff: "is_known t \<longleftrightarrow> t \<noteq> TimeUnknown"
  by (cases t) auto

text \<open>
  The comparison is sound and complete for what it claims: \<open>NotAfter\<close> and \<open>After\<close> are decided
  exactly when every pair of instants the two times may stand for agrees.
\<close>

lemma torder_NotAfter_iff:
  "torder a b = NotAfter \<longleftrightarrow>
     is_known a \<and> is_known b \<and> (\<forall>x \<in> instants a. \<forall>y \<in> instants b. x \<le> y)"
proof (cases a; cases b)
  fix x y assume "a = Day x" "b = Day y"
  moreover have "(\<forall>u \<in> {x ..< x + DAY_MS}. \<forall>v \<in> {y ..< y + DAY_MS}. u \<le> v) \<longleftrightarrow> x + DAY_MS - 1 \<le> y"
  proof
    assume "\<forall>u \<in> {x ..< x + DAY_MS}. \<forall>v \<in> {y ..< y + DAY_MS}. u \<le> v"
    from this [rule_format, of "x + DAY_MS - 1" y] show "x + DAY_MS - 1 \<le> y"
      by (simp add: DAY_MS_def)
  qed auto
  ultimately show ?thesis by (auto simp: torder_def instants_def)
next
  fix x y assume "a = Day x" "b = At y"
  moreover have "(\<forall>u \<in> {x ..< x + DAY_MS}. u \<le> y) \<longleftrightarrow> x + DAY_MS - 1 \<le> y"
  proof
    assume "\<forall>u \<in> {x ..< x + DAY_MS}. u \<le> y"
    from this [rule_format, of "x + DAY_MS - 1"] show "x + DAY_MS - 1 \<le> y"
      by (simp add: DAY_MS_def)
  qed auto
  ultimately show ?thesis by (auto simp: torder_def instants_def)
next
  fix x y assume "a = At x" "b = Day y"
  moreover have "(\<forall>v \<in> {y ..< y + DAY_MS}. x \<le> v) \<longleftrightarrow> x \<le> y"
    by (auto simp: DAY_MS_def)
  ultimately show ?thesis by (auto simp: torder_def instants_def)
qed (auto simp: torder_def instants_def)

lemma torder_After_iff:
  "torder a b = After \<longleftrightarrow>
     is_known a \<and> is_known b \<and> (\<forall>x \<in> instants a. \<forall>y \<in> instants b. y < x)"
proof (cases a; cases b)
  fix x y assume "a = Day x" "b = Day y"
  moreover have "(\<forall>u \<in> {x ..< x + DAY_MS}. \<forall>v \<in> {y ..< y + DAY_MS}. v < u) \<longleftrightarrow> y + DAY_MS - 1 < x"
  proof
    assume "\<forall>u \<in> {x ..< x + DAY_MS}. \<forall>v \<in> {y ..< y + DAY_MS}. v < u"
    from this [rule_format, of x "y + DAY_MS - 1"] show "y + DAY_MS - 1 < x"
      by (simp add: DAY_MS_def)
  qed auto
  ultimately show ?thesis by (auto simp: torder_def instants_def DAY_MS_def)
next
  fix x y assume "a = At x" "b = Day y"
  moreover have "(\<forall>v \<in> {y ..< y + DAY_MS}. v < x) \<longleftrightarrow> y + DAY_MS - 1 < x"
  proof
    assume "\<forall>v \<in> {y ..< y + DAY_MS}. v < x"
    from this [rule_format, of "y + DAY_MS - 1"] show "y + DAY_MS - 1 < x"
      by (simp add: DAY_MS_def)
  qed auto
  ultimately show ?thesis by (auto simp: torder_def instants_def DAY_MS_def)
next
  fix x y assume "a = Day x" "b = At y"
  moreover have "(\<forall>u \<in> {x ..< x + DAY_MS}. y < u) \<longleftrightarrow> y < x"
    by (auto simp: DAY_MS_def)
  ultimately show ?thesis by (auto simp: torder_def instants_def DAY_MS_def)
qed (auto simp: torder_def instants_def)

lemma torder_unknown [simp]:
  "torder TimeUnknown b = OrderUnknown" "torder a TimeUnknown = OrderUnknown"
  by (cases a; cases b; simp add: torder_def)+

lemma not_known_torder: "torder a b \<noteq> OrderUnknown \<Longrightarrow> is_known a \<and> is_known b"
  by (cases a; cases b) auto

lemma torder_trans: "torder a b = NotAfter \<Longrightarrow> torder b c = NotAfter \<Longrightarrow> torder a c = NotAfter"
  by (cases a; cases b; cases c) (auto simp: torder_def DAY_MS_def split: if_splits)

section \<open>Locators\<close>

text \<open>\<open>str::split\<close> at one byte: the pieces between separators, at least one.\<close>

fun split_on :: "char \<Rightarrow> string \<Rightarrow> string list" where
  "split_on d [] = [[]]"
| "split_on d (c # cs) =
     (if c = d then [] # split_on d cs
      else (case split_on d cs of [] \<Rightarrow> [[c]] | w # ws \<Rightarrow> (c # w) # ws))"

definition is_lower_hex :: "char \<Rightarrow> bool" where
  "is_lower_hex c \<longleftrightarrow> is_ascii_digit c \<or> CHR ''a'' \<le> c \<and> c \<le> CHR ''f''"

definition valid_sha256 :: "string \<Rightarrow> bool" where
  "valid_sha256 s \<longleftrightarrow> length s = 64 \<and> list_all is_lower_hex s"

definition valid_commit :: "string \<Rightarrow> bool" where
  "valid_commit s \<longleftrightarrow> length s = 40 \<and> list_all is_lower_hex s"

definition valid_item_path :: "string \<Rightarrow> bool" where
  "valid_item_path p \<longleftrightarrow> p \<noteq> [] \<and> \<not> starts_with ''/'' p \<and> CHR 0x5C \<notin> set p \<and>
     list_all (\<lambda>seg. seg \<noteq> [] \<and> seg \<noteq> ''.'' \<and> seg \<noteq> ''..'') (split_on CHR ''/'' p)"

datatype record_kind =
  RkFamily | RkVariant | RkExperiment | RkEpisode | RkIncident | RkCapability | RkGeneration
  | RkEvidence | RkRanking

definition record_kind_all :: "record_kind list" where
  "record_kind_all = [RkFamily, RkVariant, RkExperiment, RkEpisode, RkIncident, RkCapability,
     RkGeneration, RkEvidence, RkRanking]"

fun record_kind_name :: "record_kind \<Rightarrow> string" where
  "record_kind_name RkFamily = ''family''"
| "record_kind_name RkVariant = ''variant''"
| "record_kind_name RkExperiment = ''experiment''"
| "record_kind_name RkEpisode = ''episode''"
| "record_kind_name RkIncident = ''incident''"
| "record_kind_name RkCapability = ''capability''"
| "record_kind_name RkGeneration = ''generation''"
| "record_kind_name RkEvidence = ''evidence''"
| "record_kind_name RkRanking = ''ranking''"

definition record_kind_parse :: "string \<Rightarrow> record_kind option" where
  "record_kind_parse s = find (\<lambda>k. record_kind_name k = s) record_kind_all"

datatype locator =
    LRepo string
  | LRun string string "string option"
  | LVault string string
  | LState string string
  | LGit string
  | LRecord record_kind string
  | LUrl string
  | LUnknown

text \<open>\<open><first segment>/<the rest>\<close> with both valid; \<open>None\<close> is a refused text.\<close>

definition split_first :: "string \<Rightarrow> (string \<times> string) option" where
  "split_first rest =
     (case split_once CHR ''/'' rest of
        None \<Rightarrow> None
      | Some (a, b) \<Rightarrow> if \<not> valid_item_path a \<or> \<not> valid_item_path b then None else Some (a, b))"

definition locator_from_str :: "string \<Rightarrow> locator option" where
  "locator_from_str s =
     (if s = UNKNOWN then Some LUnknown
      else case split_once CHR '':'' s of
        None \<Rightarrow> None
      | Some (scheme, rest) \<Rightarrow>
          if scheme = ''repo'' then (if valid_item_path rest then Some (LRepo rest) else None)
          else if scheme = ''run'' then
            (case split_first rest of
               None \<Rightarrow> None
             | Some (state, tail) \<Rightarrow>
                 (case split_once CHR ''/'' tail of
                    Some (i, file) \<Rightarrow> Some (LRun state i (Some file))
                  | None \<Rightarrow> Some (LRun state tail None)))
          else if scheme = ''vault'' then
            map_option (\<lambda>(snapshot, path). LVault snapshot path) (split_first rest)
          else if scheme = ''state'' then
            map_option (\<lambda>(state, path). LState state path) (split_first rest)
          else if scheme = ''git'' then (if valid_commit rest then Some (LGit rest) else None)
          else if scheme = ''record'' then
            (case split_once CHR ''/'' rest of
               None \<Rightarrow> None
             | Some (kind, i) \<Rightarrow>
                 (case record_kind_parse kind of
                    None \<Rightarrow> None
                  | Some k \<Rightarrow> if \<not> valid_id i then None else Some (LRecord k i)))
          else if scheme = ''url'' then
            (if starts_with ''https://'' rest \<and> length rest > 8 then Some (LUrl rest) else None)
          else None)"

fun locator_display :: "locator \<Rightarrow> string" where
  "locator_display (LRepo p) = ''repo:'' @ p"
| "locator_display (LRun state i (Some file)) = ''run:'' @ state @ ''/'' @ i @ ''/'' @ file"
| "locator_display (LRun state i None) = ''run:'' @ state @ ''/'' @ i"
| "locator_display (LVault snapshot p) = ''vault:'' @ snapshot @ ''/'' @ p"
| "locator_display (LState state p) = ''state:'' @ state @ ''/'' @ p"
| "locator_display (LGit c) = ''git:'' @ c"
| "locator_display (LRecord k i) = ''record:'' @ record_kind_name k @ ''/'' @ i"
| "locator_display (LUrl u) = ''url:'' @ u"
| "locator_display LUnknown = UNKNOWN"

lemma find_inj: "inj f \<Longrightarrow> find (\<lambda>k. f k = s) ks = Some k \<longleftrightarrow> k \<in> set ks \<and> f k = s"
  by (induction ks) (auto dest: injD)

lemma record_kind_name_inj: "inj record_kind_name"
proof (rule injI)
  show "record_kind_name a = record_kind_name b \<Longrightarrow> a = b" for a b by (cases a; cases b) simp_all
qed

lemma record_kind_all: "k \<in> set record_kind_all"
  by (cases k) (simp_all add: record_kind_all_def)

lemma record_kind_parse_Some_iff: "record_kind_parse s = Some k \<longleftrightarrow> s = record_kind_name k"
  by (auto simp: record_kind_parse_def find_inj [OF record_kind_name_inj] record_kind_all)

lemma record_kind_parse_name [simp]: "record_kind_parse (record_kind_name k) = Some k"
  by (simp add: record_kind_parse_Some_iff)

lemma split_first_Some_iff:
  "split_first r = Some (a, b) \<longleftrightarrow>
     r = a @ CHR ''/'' # b \<and> CHR ''/'' \<notin> set a \<and> valid_item_path a \<and> valid_item_path b"
proof -
  have "split_first r = Some (a, b) \<longleftrightarrow>
      split_once CHR ''/'' r = Some (a, b) \<and> valid_item_path a \<and> valid_item_path b"
    by (auto simp: split_first_def split: option.splits if_splits)
  then show ?thesis by (auto simp: split_once_Some_iff)
qed

text \<open>The text of an accepted locator is canonical: printing gives the parsed text back.\<close>

lemma locator_display_from_str: "locator_from_str s = Some l \<Longrightarrow> locator_display l = s"
  by (auto simp: locator_from_str_def split_first_Some_iff record_kind_parse_Some_iff
      dest!: split_onceD split: if_splits option.splits)

text \<open>The locators some text denotes.\<close>

fun locator_ok :: "locator \<Rightarrow> bool" where
  "locator_ok (LRepo p) = valid_item_path p"
| "locator_ok (LRun state i file) =
     (CHR ''/'' \<notin> set state \<and> CHR ''/'' \<notin> set i \<and> valid_item_path state \<and>
      valid_item_path (case file of None \<Rightarrow> i | Some f \<Rightarrow> i @ ''/'' @ f))"
| "locator_ok (LVault a b) = (CHR ''/'' \<notin> set a \<and> valid_item_path a \<and> valid_item_path b)"
| "locator_ok (LState a b) = (CHR ''/'' \<notin> set a \<and> valid_item_path a \<and> valid_item_path b)"
| "locator_ok (LGit c) = valid_commit c"
| "locator_ok (LRecord k i) = valid_id i"
| "locator_ok (LUrl u) = (starts_with ''https://'' u \<and> length u > 8)"
| "locator_ok LUnknown = True"

lemma slash_notin_kind: "CHR ''/'' \<notin> set (record_kind_name k)"
  by (cases k) auto

lemma split_once_None: "d \<notin> set s \<Longrightarrow> split_once d s = None"
  by (simp add: split_once_None_iff)

lemma split_first_append:
  "CHR ''/'' \<notin> set a \<Longrightarrow> valid_item_path a \<Longrightarrow> valid_item_path b \<Longrightarrow>
   split_first (a @ CHR ''/'' # b) = Some (a, b)"
  by (simp add: split_first_Some_iff)

lemma locator_from_str_display:
  assumes "locator_ok l"
  shows "locator_from_str (locator_display l) = Some l"
proof (cases l)
  case (LRun st i f)
  with assms show ?thesis
    by (cases f) (simp_all add: locator_from_str_def UNKNOWN_def split_first_append
        split_once_append split_once_None)
qed (use assms in \<open>simp_all add: locator_from_str_def UNKNOWN_def split_first_append
  split_once_append slash_notin_kind record_kind_parse_Some_iff\<close>)

lemma locator_from_str_ok: "locator_from_str s = Some l \<Longrightarrow> locator_ok l"
  by (auto simp: locator_from_str_def split_first_Some_iff split_once_None_iff
      dest!: split_onceD split: if_splits option.splits)

text \<open>Parsing and printing are inverse on exactly the valid locators.\<close>

lemma locator_from_str_iff: "locator_from_str s = Some l \<longleftrightarrow> locator_ok l \<and> s = locator_display l"
  using locator_display_from_str locator_from_str_display locator_from_str_ok by auto

end
