(* ===== verification/Soe_Value.thy ===== *)
theory Soe_Value
  imports Lineage_Values
begin

text \<open>
  The values of the Software Opportunity Engine (\<open>src/src/domain/soe/value.rs\<close>): exact money in
  minor units with its decimal text, currencies, basis points, FX rates, three-point estimates
  that may be unknown, and schema tags. A \<open>ValueError\<close> is modelled by its code; its message is
  text for a reader that no code inspects.

  Shown here: printing then parsing an amount, a rate or a schema tag gives it back; the two
  divisions are the floor and the ceiling; a conversion rounds against the candidate and is
  monotone.
\<close>

section \<open>Refusals\<close>

datatype code =
    INVALID_AMOUNT | INVALID_CURRENCY | CURRENCY_MISMATCH | INVALID_BPS | INVALID_RATE
  | INVALID_ESTIMATE | INVALID_RANGE | INVALID_SCHEMA | SCHEMA_UNSUPPORTED | SCHEMA_MISMATCH
  | OVERFLOW | INVALID_RECORD | INVALID_ID | INVALID_VERSION | INVALID_FIELD | INVALID_TIME
  | DUPLICATE | FUTURE_LEAKAGE | FAKE_RECURRING | REVENUE_MODEL_MISMATCH | DEAL_REVIEW_MISSING
  | PRIVATE_LOCATOR | OPERATOR_PROFILE_UNSIGNED | PROFILE_MISMATCH | COMPUTED_FIELD
  | UNSUPPORTED_EVIDENCE | FACT_WITHOUT_EVIDENCE | UNTRACED_EVIDENCE | UNKNOWN_FIELD
  | UNKNOWN_TARGET | CHAIN_BROKEN | EVIDENCE_BEFORE_FREEZE | HIT_AFTER_DEADLINE
  | MISS_BEFORE_DEADLINE | HORIZON_TOO_LONG | UNKNOWN_ITEM

type_synonym 'a vres = "(code, 'a) res"

section \<open>Decimal text\<close>

text \<open>\<open>str::parse\<close> of an all-digit text, and \<open>Display\<close> of a natural number.\<close>

definition digit_val :: "char \<Rightarrow> int" where
  "digit_val c = int (of_char c) - 48"

definition push_digit :: "int \<Rightarrow> char \<Rightarrow> int" where
  "push_digit n c = 10 * n + digit_val c"

definition digits_val :: "string \<Rightarrow> int" where
  "digits_val s = foldl push_digit 0 s"

definition digit_char :: "nat \<Rightarrow> char" where
  "digit_char d = char_of (48 + d)"

fun nat_text :: "nat \<Rightarrow> string" where
  "nat_text n = (if n < 10 then [digit_char n] else nat_text (n div 10) @ [digit_char (n mod 10)])"

declare nat_text.simps [simp del]

text \<open>\<open>format!("{part:0width$}")\<close>: at least \<open>width\<close> digits, zero-padded on the left.\<close>

definition padded :: "nat \<Rightarrow> nat \<Rightarrow> string" where
  "padded width n = replicate (width - length (nat_text n)) CHR ''0'' @ nat_text n"

definition digits_only :: "string \<Rightarrow> bool" where
  "digits_only t \<longleftrightarrow> t \<noteq> [] \<and> list_all is_ascii_digit t"

text \<open>
  \<open>parse_scaled\<close>; \<open>None\<close> is a refused text (the caller gives the code). The two \<open>i128\<close> products
  and the sum stay in range: at most 30 integer digits, checked before they are read.
\<close>

definition parse_scaled :: "string \<Rightarrow> nat \<Rightarrow> int option" where
  "parse_scaled s digits =
     (let (neg, body) = (case strip_prefix ''-'' s of Some r \<Rightarrow> (True, r) | None \<Rightarrow> (False, s));
          (whole, frac) = (case split_once CHR ''.'' body of
                             Some (i, f) \<Rightarrow> (i, Some f) | None \<Rightarrow> (body, None))
      in if \<not> digits_only whole then None
         else case (case frac of
                      None \<Rightarrow> Some []
                    | Some f \<Rightarrow> if \<not> digits_only f then None
                                else if length f > digits then None else Some f) of
           None \<Rightarrow> None
         | Some fr \<Rightarrow>
             if length whole > 30 then None
             else let part = (if fr = [] then 0 else digits_val fr * 10 ^ (digits - length fr));
                      v = digits_val whole * 10 ^ digits + part
                  in Some (if neg then - v else v))"

text \<open>The loop \<open>while frac.ends_with('0') { frac.pop(); }\<close>.\<close>

definition trim_zeros :: "string \<Rightarrow> string" where
  "trim_zeros s = rev (dropWhile (\<lambda>c. c = CHR ''0'') (rev s))"

definition format_scaled :: "int \<Rightarrow> nat \<Rightarrow> bool \<Rightarrow> string" where
  "format_scaled v digits trimmed =
     (let a = nat \<bar>v\<bar>; sign = (if v < 0 then ''-'' else '''');
          whole = a div 10 ^ digits; part = a mod 10 ^ digits;
          frac0 = padded digits part;
          frac = (if trimmed then trim_zeros frac0 else frac0)
      in if frac = [] then sign @ nat_text whole
         else sign @ nat_text whole @ ''.'' @ frac)"

section \<open>Rounding\<close>

text \<open>
  Rust's \<open>/\<close> and \<open>%\<close> truncate: \<open>sdiv\<close> and \<open>smod\<close>. A zero divisor and a quotient out of range
  (\<open>i128::MIN / -1\<close>) panic.
\<close>

definition div_floor :: "int \<Rightarrow> int \<Rightarrow> int vres" where
  "div_floor n d =
     (if d = 0 \<or> \<not> i128_ok (n sdiv d) then Inl Panic
      else let q = n sdiv d
           in if n smod d \<noteq> 0 \<and> ((n < 0) \<noteq> (d < 0)) then raw128 (q - 1) else Inr q)"

definition div_ceil :: "int \<Rightarrow> int \<Rightarrow> int vres" where
  "div_ceil n d =
     (if d = 0 \<or> \<not> i128_ok (n sdiv d) then Inl Panic
      else let q = n sdiv d
           in if n smod d \<noteq> 0 \<and> ((n < 0) = (d < 0)) then raw128 (q + 1) else Inr q)"

datatype flow = Inflow | Outflow

fun flow_div :: "flow \<Rightarrow> int \<Rightarrow> int \<Rightarrow> int vres" where
  "flow_div Inflow n d = div_floor n d"
| "flow_div Outflow n d = div_ceil n d"

section \<open>Minor units, currencies, money\<close>

definition MINOR_DIGITS :: nat where "MINOR_DIGITS = 2"
definition MINOR_PER_UNIT :: int where "MINOR_PER_UNIT = 100"

text \<open>An amount in minor units, an \<open>i64\<close>.\<close>

type_synonym minor = int

definition minor_units :: "int \<Rightarrow> minor vres" where
  "minor_units whole = ok_or (fits i64_ok (whole * MINOR_PER_UNIT)) INVALID_AMOUNT"

definition minor_from_i128 :: "int \<Rightarrow> minor vres" where
  "minor_from_i128 v = ok_or (fits i64_ok v) OVERFLOW"

definition minor_checked_add :: "minor \<Rightarrow> minor \<Rightarrow> minor vres" where
  "minor_checked_add a b = ok_or (fits i64_ok (a + b)) OVERFLOW"

definition minor_checked_mul :: "minor \<Rightarrow> int \<Rightarrow> minor vres" where
  "minor_checked_mul a n = ok_or (fits i64_ok (a * n)) OVERFLOW"

definition minor_mul_div :: "minor \<Rightarrow> int \<Rightarrow> int \<Rightarrow> flow \<Rightarrow> minor vres" where
  "minor_mul_div a num den fl =
     (if den \<le> 0 then Inl (Err OVERFLOW)
      else rbind (raw128 (a * num)) (\<lambda>p. rbind (flow_div fl p den) minor_from_i128))"

definition minor_from_str :: "string \<Rightarrow> minor vres" where
  "minor_from_str s =
     rbind (ok_or (parse_scaled s MINOR_DIGITS) INVALID_AMOUNT)
       (\<lambda>v. ok_or (fits i64_ok v) INVALID_AMOUNT)"

definition minor_display :: "minor \<Rightarrow> string" where
  "minor_display m = format_scaled m MINOR_DIGITS False"

text \<open>What the deserializer visits: a string, an integer of either sign, or a float (refused).\<close>

datatype minor_input = MStr string | MI64 int | MU64 int | MF64

fun minor_visit :: "minor_input \<Rightarrow> minor vres" where
  "minor_visit (MStr v) = minor_from_str v"
| "minor_visit (MI64 v) = minor_units v"
| "minor_visit (MU64 v) = rbind (ok_or (fits i64_ok v) INVALID_AMOUNT) minor_units"
| "minor_visit MF64 = Inl (Err INVALID_AMOUNT)"

datatype currency = Eur | Usd | Gbp | Chf | Kzt | Rub | Cny

definition currency_all :: "currency list" where
  "currency_all = [Eur, Usd, Gbp, Chf, Kzt, Rub, Cny]"

fun currency_code :: "currency \<Rightarrow> string" where
  "currency_code Eur = ''EUR''"
| "currency_code Usd = ''USD''"
| "currency_code Gbp = ''GBP''"
| "currency_code Chf = ''CHF''"
| "currency_code Kzt = ''KZT''"
| "currency_code Rub = ''RUB''"
| "currency_code Cny = ''CNY''"

definition currency_parse :: "string \<Rightarrow> currency option" where
  "currency_parse s = find (\<lambda>c. currency_code c = s) currency_all"

definition currency_from_str :: "string \<Rightarrow> currency vres" where
  "currency_from_str s = ok_or (currency_parse s) INVALID_CURRENCY"

record money =
  m_minor :: minor
  m_currency :: currency

datatype ordering = Less | Equal | Greater

definition int_cmp :: "int \<Rightarrow> int \<Rightarrow> ordering" where
  "int_cmp a b = (if a < b then Less else if a = b then Equal else Greater)"

definition money_partial_cmp :: "money \<Rightarrow> money \<Rightarrow> ordering option" where
  "money_partial_cmp a b =
     (if m_currency a = m_currency b then Some (int_cmp (m_minor a) (m_minor b)) else None)"

definition money_display :: "money \<Rightarrow> string" where
  "money_display m = minor_display (m_minor m) @ '' '' @ currency_code (m_currency m)"

section \<open>Basis points\<close>

definition BPS_FULL :: int where "BPS_FULL = 10000"

type_synonym bps = int

definition bps_ok :: "bps \<Rightarrow> bool" where "bps_ok b \<longleftrightarrow> 0 \<le> b \<and> b \<le> BPS_FULL"

definition bps_new :: "int \<Rightarrow> bps vres" where
  "bps_new v = ok_or (Option.bind (fits u16_ok v) (\<lambda>b. if b \<le> BPS_FULL then Some b else None)) INVALID_BPS"

section \<open>FX\<close>

definition RATE_DIGITS :: nat where "RATE_DIGITS = 8"
definition RATE_SCALE :: int where "RATE_SCALE = 100000000"

record currency_pair =
  cp_base :: currency
  cp_quote :: currency

definition currency_pair_from_str :: "string \<Rightarrow> currency_pair vres" where
  "currency_pair_from_str s =
     rbind (ok_or (split_once CHR ''/'' s) INVALID_RATE) (\<lambda>(b, q).
     rbind (currency_from_str b) (\<lambda>base.
     rbind (currency_from_str q) (\<lambda>quote.
     if base = quote then Inl (Err INVALID_RATE)
     else Inr \<lparr>cp_base = base, cp_quote = quote\<rparr>)))"

definition currency_pair_display :: "currency_pair \<Rightarrow> string" where
  "currency_pair_display p = currency_code (cp_base p) @ ''/'' @ currency_code (cp_quote p)"

record fx_rate =
  fx_pair :: currency_pair
  fx_rate_e8 :: int
  fx_source :: locator
  fx_as_of :: time

definition rate_parse :: "string \<Rightarrow> int vres" where
  "rate_parse s =
     rbind (ok_or (parse_scaled s RATE_DIGITS) INVALID_RATE) (\<lambda>v.
     ok_or (Option.bind (fits u64_ok v) (\<lambda>r. if r > 0 then Some r else None)) INVALID_RATE)"

definition rate_text :: "int \<Rightarrow> string" where
  "rate_text v = format_scaled v RATE_DIGITS True"

definition fx_product :: "fx_rate \<Rightarrow> money \<Rightarrow> int vres" where
  "fx_product r native =
     (if m_currency native \<noteq> cp_base (fx_pair r) then Inl (Err CURRENCY_MISMATCH)
      else raw128 (m_minor native * fx_rate_e8 r))"

definition fx_convert :: "fx_rate \<Rightarrow> money \<Rightarrow> flow \<Rightarrow> money vres" where
  "fx_convert r native fl =
     rbind (fx_product r native) (\<lambda>p.
     rbind (flow_div fl p RATE_SCALE) (\<lambda>q.
     rbind (minor_from_i128 q) (\<lambda>m.
     Inr \<lparr>m_minor = m, m_currency = cp_quote (fx_pair r)\<rparr>)))"

section \<open>Estimates, scenarios, assumptions\<close>

datatype scenario = Downside | Base | Upside

datatype side = Favorable | Adverse

datatype better = Higher | Lower

fun scenario_side :: "scenario \<Rightarrow> side option" where
  "scenario_side Downside = Some Adverse"
| "scenario_side Base = None"
| "scenario_side Upside = Some Favorable"

datatype 'a est = EUnknown "string option" | Range (low: 'a) (base: 'a) (high: 'a)

definition est_unknown :: "string \<Rightarrow> 'a est" where
  "est_unknown reason = (let r = trim reason in EUnknown (if r \<noteq> [] then Some r else None))"

fun est_is_known :: "'a est \<Rightarrow> bool" where
  "est_is_known (Range _ _ _) = True"
| "est_is_known (EUnknown _) = False"

fun est_base :: "'a est \<Rightarrow> 'a option" where
  "est_base (Range _ b _) = Some b"
| "est_base (EUnknown _) = None"

fun est_end :: "'a est \<Rightarrow> side \<Rightarrow> better \<Rightarrow> 'a option" where
  "est_end (EUnknown _) s b = None"
| "est_end (Range l m h) Favorable Higher = Some h"
| "est_end (Range l m h) Adverse Lower = Some h"
| "est_end (Range l m h) Favorable Lower = Some l"
| "est_end (Range l m h) Adverse Higher = Some l"

definition est_pick :: "'a est \<Rightarrow> scenario \<Rightarrow> better \<Rightarrow> 'a option" where
  "est_pick e s b = (case scenario_side s of None \<Rightarrow> est_base e | Some sd \<Rightarrow> est_end e sd b)"

text \<open>\<open>Est::range\<close> over a partial comparison, as the source's \<open>PartialOrd\<close> bound.\<close>

definition est_range :: "('a \<Rightarrow> 'a \<Rightarrow> ordering option) \<Rightarrow> 'a \<Rightarrow> 'a \<Rightarrow> 'a \<Rightarrow> 'a est vres" where
  "est_range cmp l m h =
     (let le = (\<lambda>a b. cmp a b = Some Less \<or> cmp a b = Some Equal)
      in if \<not> le l m \<or> \<not> le m h then Inl (Err INVALID_RANGE) else Inr (Range l m h))"

definition est_point :: "'a \<Rightarrow> 'a est" where
  "est_point v = Range v v v"

definition parse_unknown :: "string \<Rightarrow> string option vres" where
  "parse_unknown s =
     (if s = UNKNOWN then Inr None
      else case Option.bind (strip_prefix UNKNOWN s) (strip_prefix '':'') of
        Some reason \<Rightarrow>
          if trim reason \<noteq> [] then Inr (Some (trim reason)) else Inl (Err INVALID_ESTIMATE)
      | None \<Rightarrow> Inl (Err INVALID_ESTIMATE))"

definition unknown_text :: "string option \<Rightarrow> string" where
  "unknown_text r = (case r of None \<Rightarrow> UNKNOWN | Some r \<Rightarrow> UNKNOWN @ '': '' @ r)"

datatype 'a est_input = EStr string | EMap 'a 'a 'a

fun est_visit :: "('a \<Rightarrow> 'a \<Rightarrow> ordering option) \<Rightarrow> 'a est_input \<Rightarrow> 'a est vres" where
  "est_visit cmp (EStr v) = rmap EUnknown (parse_unknown v)"
| "est_visit cmp (EMap l m h) = est_range cmp l m h"

record 'a assumption =
  a_value :: "'a est"
  a_evidence :: "locator list"
  a_as_of :: time
  a_note :: "string option"

definition is_evidenced :: "'a assumption \<Rightarrow> bool" where
  "is_evidenced a \<longleftrightarrow> list_ex (\<lambda>l. l \<noteq> LUnknown) (a_evidence a)"

section \<open>Schema tags\<close>

definition SCHEMA_V1 :: int where "SCHEMA_V1 = 1"
definition SCHEMA_PREFIX :: string where "SCHEMA_PREFIX = ''soe.''"

record schema_tag =
  st_record :: string
  st_version :: int

definition valid_record_name :: "string \<Rightarrow> bool" where
  "valid_record_name s \<longleftrightarrow> s \<noteq> [] \<and> length s \<le> 64 \<and> is_ascii_lowercase (hd s) \<and>
     list_all (\<lambda>c. is_ascii_lowercase c \<or> is_ascii_digit c \<or> c = CHR ''_'') s"

definition schema_tag_from_str :: "string \<Rightarrow> schema_tag vres" where
  "schema_tag_from_str s =
     (case Option.bind (strip_prefix SCHEMA_PREFIX s) (split_once CHR ''/'') of
        None \<Rightarrow> Inl (Err INVALID_SCHEMA)
      | Some (rec, version) \<Rightarrow>
          let digits_ok = (version \<noteq> [] \<and> list_all is_ascii_digit version \<and>
                           \<not> starts_with ''0'' version)
          in if \<not> valid_record_name rec \<or> \<not> digits_ok then Inl (Err INVALID_SCHEMA)
             else case fits u32_ok (digits_val version) of
               None \<Rightarrow> Inl (Err INVALID_SCHEMA)
             | Some v \<Rightarrow>
                 if v \<noteq> SCHEMA_V1 then Inl (Err SCHEMA_UNSUPPORTED)
                 else Inr \<lparr>st_record = rec, st_version = v\<rparr>)"

definition schema_tag_display :: "schema_tag \<Rightarrow> string" where
  "schema_tag_display t = SCHEMA_PREFIX @ st_record t @ ''/'' @ nat_text (nat (st_version t))"

definition schema_tag_v1 :: "string \<Rightarrow> schema_tag vres" where
  "schema_tag_v1 rec = schema_tag_from_str (SCHEMA_PREFIX @ rec @ ''/'' @ nat_text (nat SCHEMA_V1))"

definition schema_tag_require :: "schema_tag \<Rightarrow> string \<Rightarrow> unit vres" where
  "schema_tag_require t rec =
     (if st_record t = rec then Inr () else Inl (Err SCHEMA_MISMATCH))"

section \<open>Lemmas: rounding\<close>

text \<open>The ceiling, over Isabelle's flooring division.\<close>

abbreviation cdiv :: "int \<Rightarrow> int \<Rightarrow> int" where
  "cdiv n d \<equiv> - ((- n) div d)"

lemma sdiv_pos: "0 < d \<Longrightarrow> n sdiv d = (if 0 \<le> n then n div d else - ((- n) div d))" for n d :: int
  by (auto simp: signed_divide_int_def sgn_if)

lemma smod_pos: "0 < d \<Longrightarrow> n smod d = (if 0 \<le> n then n mod d else - ((- n) mod d))" for n d :: int
  by (auto simp: signed_modulo_int_def sgn_if)

lemma div_le_self: "0 < d \<Longrightarrow> 0 \<le> n \<Longrightarrow> 0 \<le> n div d \<and> n div d \<le> n" for n d :: int
proof -
  assume d: "0 < d" and n: "0 \<le> n"
  then have "0 \<le> n div d" by (simp add: pos_imp_zdiv_nonneg_iff)
  moreover have "n div d \<le> n"
    using zdiv_mono2 [of n 1 d] d n by simp
  ultimately show ?thesis by simp
qed

lemma div_lower: "0 < d \<Longrightarrow> n < 0 \<Longrightarrow> n \<le> n div d \<and> n div d < 0" for n d :: int
proof -
  assume d: "0 < d" and n: "n < 0"
  then have "n div d < 0" by (simp add: neg_imp_zdiv_neg_iff pos_imp_zdiv_neg_iff)
  moreover have "n \<le> n div d"
    using zdiv_mono2_neg [of n 1 d] d n by simp
  ultimately show ?thesis by simp
qed

lemma div_i128: "0 < d \<Longrightarrow> i128_ok n \<Longrightarrow> i128_ok (n div d)"
  using div_le_self [of d n] div_lower [of d n] by (cases "0 \<le> n") (auto simp: width_simps)

lemma cdiv_i128: "0 < d \<Longrightarrow> i128_ok n \<Longrightarrow> i128_ok (cdiv n d)"
  using div_le_self [of d "- n"] div_lower [of d "- n"] by (cases "0 \<le> - n") (auto simp: width_simps)

lemma sdiv_i128: "0 < d \<Longrightarrow> i128_ok n \<Longrightarrow> i128_ok (n sdiv d)"
  by (simp add: sdiv_pos div_i128 cdiv_i128)

lemma div_floor_pos [res_simps]: "0 < d \<Longrightarrow> i128_ok n \<Longrightarrow> div_floor n d = Inr (n div d)"
proof -
  assume d: "0 < d" and n: "i128_ok n"
  have "n < 0 \<Longrightarrow> n div d = (if (- n) mod d = 0 then - ((- n) div d) else - ((- n) div d) - 1)"
    using zdiv_zminus1_eq_if [of d "- n"] d by simp
  then show ?thesis
    using d sdiv_i128 [OF d n] div_i128 [OF d n]
    by (auto simp: div_floor_def Let_def sdiv_pos smod_pos raw128_def split: if_splits)
qed

lemma div_ceil_pos [res_simps]: "0 < d \<Longrightarrow> i128_ok n \<Longrightarrow> div_ceil n d = Inr (cdiv n d)"
proof -
  assume d: "0 < d" and n: "i128_ok n"
  have "0 \<le> n \<Longrightarrow> (- n) div d = (if n mod d = 0 then - (n div d) else - (n div d) - 1)"
    using zdiv_zminus1_eq_if [of d n] d by simp
  then show ?thesis
    using d sdiv_i128 [OF d n] cdiv_i128 [OF d n]
    by (auto simp: div_ceil_def Let_def sdiv_pos smod_pos raw128_def add.commute split: if_splits)
qed

lemma cdiv_mono: "0 < d \<Longrightarrow> a \<le> b \<Longrightarrow> cdiv a d \<le> cdiv b d"
  by (simp add: zdiv_mono1)

lemma floor_le_ceil: "0 < d \<Longrightarrow> n div d \<le> cdiv n d"
  using zdiv_zminus1_eq_if [of d n] by (auto split: if_splits)

lemma div_times_le: "0 < d \<Longrightarrow> d * (n div d) \<le> n" for n d :: int
  by (metis add_le_cancel_left add.right_neutral mult_div_mod_eq pos_mod_sign)

lemma cdiv_times_ge: "0 < d \<Longrightarrow> n \<le> d * cdiv n d"
  using div_times_le [of d "- n"] by simp

text \<open>\<open>flow_div\<close> brackets the exact quotient: it never flatters the candidate.\<close>

fun qdiv :: "flow \<Rightarrow> int \<Rightarrow> int \<Rightarrow> int" where
  "qdiv Inflow n d = n div d"
| "qdiv Outflow n d = cdiv n d"

lemma flow_div_pos [res_simps]: "0 < d \<Longrightarrow> i128_ok n \<Longrightarrow> flow_div fl n d = Inr (qdiv fl n d)"
  by (cases fl) (simp_all add: res_simps)

lemma qdiv_mono: "0 < d \<Longrightarrow> a \<le> b \<Longrightarrow> qdiv fl a d \<le> qdiv fl b d"
  by (cases fl) (simp_all add: zdiv_mono1)

lemma qdiv_i128: "0 < d \<Longrightarrow> i128_ok n \<Longrightarrow> i128_ok (qdiv fl n d)"
  by (cases fl) (simp_all add: div_i128 cdiv_i128)

lemma flow_div_never_flatters:
  assumes "0 < d" and "i128_ok n"
  shows "\<exists>q. flow_div Inflow n d = Inr q \<and> q * d \<le> n \<and> n < (q + 1) * d"
    and "\<exists>q. flow_div Outflow n d = Inr q \<and> n \<le> q * d \<and> (q - 1) * d < n"
proof -
  have "(n div d) * d \<le> n \<and> n < (n div d + 1) * d" for n
    using assms(1) div_times_le [of d n] pos_mod_bound [of d n]
    by (simp add: minus_mult_div_eq_mod [symmetric] algebra_simps)
  from this [of n] this [of "- n"]
  show "\<exists>q. flow_div Inflow n d = Inr q \<and> q * d \<le> n \<and> n < (q + 1) * d"
    and "\<exists>q. flow_div Outflow n d = Inr q \<and> n \<le> q * d \<and> (q - 1) * d < n"
    using assms by (auto simp: res_simps algebra_simps)
qed

section \<open>Lemmas: decimal text\<close>

lemma of_char_digit [simp]: "d < 10 \<Longrightarrow> of_char (digit_char d) = (48 + d :: nat)"
  by (simp add: digit_char_def)

lemma digit_val_char [simp]: "d < 10 \<Longrightarrow> digit_val (digit_char d) = int d"
  by (simp add: digit_val_def digit_char_def)

lemma digit_char_digit [simp]: "d < 10 \<Longrightarrow> is_ascii_digit (digit_char d)"
  by (simp add: is_ascii_digit_def digit_char_def less_eq_char_def)

lemma digits_val_append: "digits_val (a @ b) = digits_val a * 10 ^ length b + digits_val b"
proof -
  have "foldl push_digit x b = x * 10 ^ length b + foldl push_digit 0 b" for x
  proof (induction b arbitrary: x)
    case Nil
    show ?case by simp
  next
    case (Cons c b)
    have e: "foldl push_digit y (c # b) = push_digit y c * 10 ^ length b + foldl push_digit 0 b" for y
      using Cons [of "push_digit y c"] by simp
    have "push_digit x c * 10 ^ length b = x * 10 ^ length (c # b) + push_digit 0 c * 10 ^ length b"
      by (simp add: push_digit_def algebra_simps)
    with e [of x] e [of 0] show ?case by linarith
  qed
  from this [of "foldl push_digit 0 a"] show ?thesis by (simp add: digits_val_def)
qed

lemma digits_val_Nil [simp]: "digits_val [] = 0"
  by (simp add: digits_val_def)

lemma digits_val_single [simp]: "digits_val [c] = digit_val c"
  by (simp add: digits_val_def push_digit_def)

lemma digits_val_Cons: "digits_val (c # b) = digit_val c * 10 ^ length b + digits_val b"
  using digits_val_append [of "[c]" b] by simp

lemma digits_val_nat_text [simp]: "digits_val (nat_text n) = int n"
proof (induction n rule: nat_text.induct)
  case (1 n)
  then show ?case
    by (subst nat_text.simps) (auto simp: digits_val_append of_nat_mod zdiv_int)
qed

lemma nat_text_digits: "list_all is_ascii_digit (nat_text n)"
proof (induction n rule: nat_text.induct)
  case (1 n)
  then show ?case by (subst nat_text.simps) auto
qed

lemma nat_text_ne [simp]: "nat_text n \<noteq> []"
  by (subst nat_text.simps) simp

lemma digits_only_nat_text [simp]: "digits_only (nat_text n)"
  by (simp add: digits_only_def nat_text_digits)

lemma nat_text_length: "0 < k \<Longrightarrow> n < 10 ^ k \<Longrightarrow> length (nat_text n) \<le> k"
proof (induction n arbitrary: k rule: nat_text.induct)
  case (1 n)
  show ?case
  proof (cases "n < 10")
    case True
    with 1(2) show ?thesis by (subst nat_text.simps) simp
  next
    case False
    with 1(3) have k: "1 < k"
      by (metis One_nat_def Suc_lessI 1(2) power_one_right)
    then obtain j where j: "k = Suc j" "0 < j" by (cases k) auto
    with 1(3) have "n div 10 < 10 ^ j" by (simp add: less_mult_imp_div_less mult.commute)
    with 1(1) False j have "length (nat_text (n div 10)) \<le> j" by blast
    with False j show ?thesis by (subst nat_text.simps) simp
  qed
qed

lemma digits_val_zeros [simp]: "digits_val (replicate k CHR ''0'') = 0"
  by (induction k) (simp_all add: digits_val_Cons digit_val_def)

lemma padded_props:
  assumes "0 < k" and "n < 10 ^ k"
  shows "length (padded k n) = k" and "digits_val (padded k n) = int n"
    and "digits_only (padded k n)"
proof -
  have "length (nat_text n) \<le> k" by (rule nat_text_length [OF assms])
  then show "length (padded k n) = k" by (simp add: padded_def)
  show "digits_val (padded k n) = int n"
    by (simp add: padded_def digits_val_append)
  show "digits_only (padded k n)"
    using nat_text_digits [of n]
    by (auto simp: padded_def digits_only_def list_all_iff is_ascii_digit_def)
qed

lemma trim_zeros_split: "\<exists>k. s = trim_zeros s @ replicate k CHR ''0''"
proof -
  let ?P = "\<lambda>c. c = CHR ''0''"
  have "takeWhile ?P xs = replicate (length (takeWhile ?P xs)) CHR ''0''" for xs
    by (induction xs) auto
  then obtain k where k: "takeWhile ?P (rev s) = replicate k CHR ''0''" by blast
  have "s = rev (dropWhile ?P (rev s)) @ rev (takeWhile ?P (rev s))"
    by (metis rev_append rev_rev_ident takeWhile_dropWhile_id)
  with k show ?thesis by (auto simp: trim_zeros_def intro: exI [of _ k])
qed

lemma not_digit [simp]:
  "\<not> is_ascii_digit CHR ''.''" "\<not> is_ascii_digit CHR ''-''" "\<not> is_ascii_digit CHR ''/''"
  by (simp_all add: is_ascii_digit_def less_eq_char_def)

text \<open>Parsing a sign, a whole part of at most 30 digits and a fraction.\<close>

lemma strip_prefix_minus: "digits_only w \<Longrightarrow> strip_prefix ''-'' (w @ r) = None"
  by (cases w) (auto simp: digits_only_def)

lemma dot_notin: "digits_only w \<Longrightarrow> CHR ''.'' \<notin> set w"
  by (auto simp: digits_only_def list_all_iff)

lemma parse_scaled_frac:
  assumes "digits_only w" "length w \<le> 30" "digits_only f" "length f \<le> k"
  shows "parse_scaled (w @ ''.'' @ f) k =
      Some (digits_val w * 10 ^ k + digits_val f * 10 ^ (k - length f))"
    and "parse_scaled (''-'' @ w @ ''.'' @ f) k =
      Some (- (digits_val w * 10 ^ k + digits_val f * 10 ^ (k - length f)))"
  using assms
  by (auto simp: parse_scaled_def Let_def strip_prefix_minus split_once_append dot_notin
      digits_only_def [of "[]"])

lemma parse_scaled_whole:
  assumes "digits_only w" "length w \<le> 30"
  shows "parse_scaled w k = Some (digits_val w * 10 ^ k)"
    and "parse_scaled (''-'' @ w) k = Some (- (digits_val w * 10 ^ k))"
  using assms strip_prefix_minus [of w "[]"]
  by (auto simp: parse_scaled_def Let_def split_once_None dot_notin)

lemma nat_abs_split: "int (nat \<bar>v\<bar> div 10 ^ k) * 10 ^ k + int (nat \<bar>v\<bar> mod 10 ^ k) = \<bar>v\<bar>"
proof -
  have "nat \<bar>v\<bar> = nat \<bar>v\<bar> div 10 ^ k * 10 ^ k + nat \<bar>v\<bar> mod 10 ^ k"
    by (rule div_mult_mod_eq [symmetric])
  then have "int (nat \<bar>v\<bar>) = int (nat \<bar>v\<bar> div 10 ^ k * 10 ^ k + nat \<bar>v\<bar> mod 10 ^ k)"
    by presburger
  then show ?thesis by simp
qed

lemma parse_format_scaled:
  assumes k: "0 < k" and v: "\<bar>v\<bar> < 10 ^ (30 + k)"
  shows "parse_scaled (format_scaled v k t) k = Some v"
proof -
  define w where "w = nat \<bar>v\<bar> div 10 ^ k"
  define p where "p = nat \<bar>v\<bar> mod 10 ^ k"
  define sg where "sg = (if v < 0 then ''-'' else '''')"
  have abs: "int w * 10 ^ k + int p = \<bar>v\<bar>" by (simp add: w_def p_def nat_abs_split)
  have "nat \<bar>v\<bar> < 10 ^ (30 + k)"
    using v by (metis abs_ge_zero nat_less_iff of_nat_numeral of_nat_power)
  then have "w < 10 ^ 30" by (simp add: w_def less_mult_imp_div_less power_add)
  then have wl: "length (nat_text w) \<le> 30" by (rule nat_text_length [rotated]) simp
  have pk: "p < 10 ^ k" by (simp add: p_def)
  note pad = padded_props [OF k pk]
  obtain j where j: "padded k p = trim_zeros (padded k p) @ replicate j CHR ''0''"
    using trim_zeros_split by blast
  define f where "f = (if t then trim_zeros (padded k p) else padded k p)"
  have fval: "digits_val f * 10 ^ (k - length f) = int p" and flen: "length f \<le> k"
  proof -
    have "k = length (trim_zeros (padded k p)) + j"
      using arg_cong [OF j, of length] pad(1) by simp
    then have "k - length (trim_zeros (padded k p)) = j" "length (trim_zeros (padded k p)) \<le> k"
      by simp_all
    moreover have "digits_val (trim_zeros (padded k p)) * 10 ^ j = int p"
      using arg_cong [OF j, of digits_val] pad(2) by (simp add: digits_val_append)
    ultimately show "digits_val f * 10 ^ (k - length f) = int p" "length f \<le> k"
      using pad by (auto simp: f_def)
  qed
  have fdig: "f \<noteq> [] \<Longrightarrow> digits_only f"
    using pad(3) j by (auto simp: f_def digits_only_def) (metis list_all_append)
  have fmt: "format_scaled v k t = (if f = [] then sg @ nat_text w else sg @ nat_text w @ ''.'' @ f)"
    by (simp add: format_scaled_def Let_def w_def p_def f_def sg_def)
  note parse = parse_scaled_frac [OF digits_only_nat_text wl fdig flen]
    parse_scaled_whole [OF digits_only_nat_text wl]
  show ?thesis
    using abs fval parse unfolding fmt sg_def by (cases "f = []"; cases "v < 0") auto
qed

section \<open>Round trips and rounding of the values\<close>

lemma minor_from_str_display: "i64_ok m \<Longrightarrow> minor_from_str (minor_display m) = Inr m"
proof -
  assume m: "i64_ok m"
  then have "parse_scaled (minor_display m) MINOR_DIGITS = Some m"
    unfolding minor_display_def by (intro parse_format_scaled) (auto simp: MINOR_DIGITS_def width_simps)
  with m show ?thesis by (simp add: minor_from_str_def fits_def)
qed

lemma rate_parse_text: "u64_ok v \<Longrightarrow> 0 < v \<Longrightarrow> rate_parse (rate_text v) = Inr v"
proof -
  assume v: "u64_ok v" "0 < v"
  then have "parse_scaled (rate_text v) RATE_DIGITS = Some v"
    unfolding rate_text_def by (intro parse_format_scaled) (auto simp: RATE_DIGITS_def width_simps)
  with v show ?thesis by (simp add: rate_parse_def fits_def)
qed

lemma currency_parse_Some_iff: "currency_parse s = Some c \<longleftrightarrow> s = currency_code c"
  by (cases c) (auto simp: currency_parse_def currency_all_def)

lemma currency_from_str_iff: "currency_from_str s = Inr c \<longleftrightarrow> s = currency_code c"
  by (auto simp: currency_from_str_def ok_or_def currency_parse_Some_iff [symmetric]
      split: option.splits)

lemma slash_notin_currency: "CHR ''/'' \<notin> set (currency_code c)"
  by (cases c) auto

lemma currency_pair_from_str_iff:
  "currency_pair_from_str s = Inr p \<longleftrightarrow>
     s = currency_pair_display p \<and> cp_base p \<noteq> cp_quote p"
proof
  assume "currency_pair_from_str s = Inr p"
  then show "s = currency_pair_display p \<and> cp_base p \<noteq> cp_quote p"
    by (auto simp: currency_pair_from_str_def rbind_eq_Inr currency_from_str_iff ok_or_def
        currency_pair_display_def dest!: split_onceD split: option.splits if_splits)
next
  assume p: "s = currency_pair_display p \<and> cp_base p \<noteq> cp_quote p"
  have "currency_from_str (currency_code c) = Inr c" for c
    by (simp add: currency_from_str_iff)
  with p show "currency_pair_from_str s = Inr p"
    by (simp add: currency_pair_from_str_def currency_pair_display_def split_once_append
        slash_notin_currency)
qed

definition schema_tag_ok :: "schema_tag \<Rightarrow> bool" where
  "schema_tag_ok t \<longleftrightarrow> valid_record_name (st_record t) \<and> st_version t = SCHEMA_V1"

lemma slash_notin_record_name: "valid_record_name r \<Longrightarrow> CHR ''/'' \<notin> set r"
  by (auto simp: valid_record_name_def list_all_iff is_ascii_lowercase_def less_eq_char_def)

lemma nat_text_1: "nat_text (nat SCHEMA_V1) = ''1''"
  by code_simp

lemma digit_1: "is_ascii_digit CHR ''1''" "digit_val CHR ''1'' = 1"
  by code_simp+

lemma schema_tag_from_str_display:
  assumes "schema_tag_ok t"
  shows "schema_tag_from_str (schema_tag_display t) = Inr t"
proof -
  from assms have rec: "valid_record_name (st_record t)" and v: "st_version t = 1"
    by (simp_all add: schema_tag_ok_def SCHEMA_V1_def)
  have "schema_tag_display t = SCHEMA_PREFIX @ st_record t @ CHR ''/'' # ''1''"
    using nat_text_1 by (simp add: schema_tag_display_def v SCHEMA_V1_def)
  with rec v show ?thesis
    by (simp add: schema_tag_from_str_def split_once_append slash_notin_record_name Let_def
        starts_with_def digit_1 fits_def width_simps SCHEMA_V1_def)
qed

lemma schema_tag_from_str_ok: "schema_tag_from_str s = Inr t \<Longrightarrow> schema_tag_ok t"
  by (auto simp: schema_tag_from_str_def schema_tag_ok_def Let_def split: option.splits if_splits)

lemma schema_tag_v1_require:
  assumes "schema_tag_v1 rec = Inr t"
  shows "schema_tag_require t rec = Inr ()"
proof -
  from assms have "schema_tag_from_str (SCHEMA_PREFIX @ rec @ CHR ''/'' # ''1'') = Inr t"
    by (simp add: schema_tag_v1_def nat_text_1)
  moreover obtain a b where ab: "split_once CHR ''/'' (rec @ CHR ''/'' # ''1'') = Some (a, b)"
    using split_once_None_iff [of "CHR ''/''" "rec @ CHR ''/'' # ''1''"] by fastforce
  ultimately have t: "st_record t = a" and b: "list_all is_ascii_digit b"
    by (auto simp: schema_tag_from_str_def Let_def split: if_splits option.splits)
  from b have "CHR ''/'' \<notin> set b" by (auto simp: list_all_iff)
  moreover from ab have "a @ CHR ''/'' # b = rec @ CHR ''/'' # ''1''" "CHR ''/'' \<notin> set a"
    by (simp_all add: split_once_Some_iff)
  ultimately have "a = rec" by (simp add: append_Cons_eq_iff)
  with t show ?thesis by (simp add: schema_tag_require_def)
qed

subsection \<open>Estimates\<close>

text \<open>A known estimate is ordered: \<open>low \<le> base \<le> high\<close>; the deserializer makes no other.\<close>

fun est_ok :: "('a::linorder \<Rightarrow> bool) \<Rightarrow> 'a est \<Rightarrow> bool" where
  "est_ok P (EUnknown r) = True"
| "est_ok P (Range l b h) = (l \<le> b \<and> b \<le> h \<and> P l \<and> P b \<and> P h)"

lemma est_range_ok:
  "est_range (\<lambda>a b. Some (int_cmp a b)) l b h = Inr e \<longleftrightarrow> e = Range l b h \<and> l \<le> b \<and> b \<le> h"
  by (auto simp: est_range_def Let_def int_cmp_def split: if_splits)

lemma est_visit_ordered: "est_visit (\<lambda>a b. Some (int_cmp a b)) i = Inr e \<Longrightarrow> est_ok (\<lambda>_. True) e"
  by (cases i) (auto simp: est_range_ok rmap_eq_Inr)

lemma parse_unknown_text: "trim r = r \<Longrightarrow> r \<noteq> [] \<Longrightarrow> parse_unknown (unknown_text (Some r)) = Inr (Some r)"
proof -
  assume r: "trim r = r" "r \<noteq> []"
  then have "trim (CHR '' '' # r) = r"
    by simp
  with r show ?thesis
    by (simp add: parse_unknown_def unknown_text_def UNKNOWN_def)
qed

lemma est_end_better:
  assumes "est_ok P e"
  shows "est_end e Adverse Higher = Some a \<Longrightarrow> est_base e = Some b \<Longrightarrow> a \<le> b"
    and "est_base e = Some b \<Longrightarrow> est_end e Favorable Higher = Some c \<Longrightarrow> b \<le> c"
    and "est_end e Adverse Lower = Some a \<Longrightarrow> est_base e = Some b \<Longrightarrow> b \<le> a"
    and "est_base e = Some b \<Longrightarrow> est_end e Favorable Lower = Some c \<Longrightarrow> c \<le> b"
  using assms by (cases e; auto)+

lemma est_pick_known: "est_pick e s bt = None \<longleftrightarrow> \<not> est_is_known e"
  by (cases e; cases s; cases bt) (auto simp: est_pick_def)

lemma est_pick_ok: "est_ok P e \<Longrightarrow> est_pick e s bt = Some v \<Longrightarrow> P v"
  by (cases e; cases s; cases bt) (auto simp: est_pick_def)

subsection \<open>Conversion\<close>

definition fx_ok :: "fx_rate \<Rightarrow> bool" where
  "fx_ok r \<longleftrightarrow> 0 < fx_rate_e8 r \<and> u64_ok (fx_rate_e8 r)"

lemma fx_product_eq:
  assumes "fx_ok r" and "i64_ok (m_minor n)" and "m_currency n = cp_base (fx_pair r)"
  shows "fx_product r n = Inr (m_minor n * fx_rate_e8 r)"
    and "i128_ok (m_minor n * fx_rate_e8 r)"
proof -
  have "\<bar>m_minor n * fx_rate_e8 r\<bar> \<le> 2 ^ 63 * (2 ^ 64 - 1)"
    unfolding abs_mult using assms(1,2) by (intro mult_mono) (auto simp: fx_ok_def width_simps)
  then show "i128_ok (m_minor n * fx_rate_e8 r)" by (simp add: width_simps abs_le_iff)
  then show "fx_product r n = Inr (m_minor n * fx_rate_e8 r)"
    using assms(3) by (simp add: fx_product_def raw128_def)
qed

lemma fx_convert_eq:
  assumes "fx_ok r" and "i64_ok (m_minor n)" and "m_currency n = cp_base (fx_pair r)"
  shows "fx_convert r n fl =
    (let q = qdiv fl (m_minor n * fx_rate_e8 r) RATE_SCALE
     in if i64_ok q then Inr \<lparr>m_minor = q, m_currency = cp_quote (fx_pair r)\<rparr>
        else Inl (Err OVERFLOW))"
  using fx_product_eq [OF assms]
  by (simp add: fx_convert_def res_simps RATE_SCALE_def minor_from_i128_def fits_def Let_def)

end
