(* ===== verification/Soe_Records.thy ===== *)
theory Soe_Records
  imports Soe_Value
begin

text \<open>
  The records the engine reads: the validation of \<open>record.rs\<close>, the risk assessment of \<open>risk.rs\<close>,
  the staged experiment of \<open>experiment.rs\<close>, the operator's signed profile of \<open>profile.rs\<close> and the
  opportunity of \<open>opportunity.rs\<close> (all under \<open>src/src/domain/soe/\<close>). Fields carry a prefix per
  record (\<open>o_\<close> opportunity, \<open>e_\<close> economics, \<open>p_\<close> profile, \<open>x_\<close> experiment, \<dots>), since a record
  field is a global name here. A problem is its code and field; the reason is text for a reader.

  Shown here: a record that validates satisfies the bounds the economics, the gates and the
  allocation rely on (\<open>validate_opportunity\<close>, \<open>validate_profile\<close>).
\<close>

named_theorems problem_simps "what an empty list of problems means"

section \<open>Problems\<close>

type_synonym problem = "code \<times> string"

definition p_check :: "bool \<Rightarrow> code \<Rightarrow> string \<Rightarrow> problem list" where
  "p_check ok c field = (if \<not> ok then [(c, field)] else [])"

definition p_text :: "string \<Rightarrow> string \<Rightarrow> problem list" where
  "p_text field s = p_check (trim s \<noteq> []) INVALID_FIELD field"

definition p_id :: "string \<Rightarrow> string \<Rightarrow> problem list" where
  "p_id field s = p_check (valid_id s) INVALID_ID field"

definition p_sha256 :: "string \<Rightarrow> string \<Rightarrow> problem list" where
  "p_sha256 field s = p_check (valid_sha256 s) INVALID_FIELD field"

definition p_known :: "string \<Rightarrow> time \<Rightarrow> problem list" where
  "p_known field t = p_check (is_known t) INVALID_TIME field"

definition p_non_negative :: "string \<Rightarrow> minor \<Rightarrow> problem list" where
  "p_non_negative field m = p_check (m \<ge> 0) INVALID_FIELD field"

definition p_not_after :: "string \<Rightarrow> time \<Rightarrow> time \<Rightarrow> problem list" where
  "p_not_after field t bound = p_check (torder t bound \<noteq> After) FUTURE_LEAKAGE field"

definition at_index :: "string \<Rightarrow> nat \<Rightarrow> string" where
  "at_index field i = field @ ''['' @ nat_text i @ '']''"

text \<open>The loop of \<open>unique_texts\<close>, from index \<open>i\<close> with the entries seen so far.\<close>

fun p_unique_texts_from :: "string \<Rightarrow> nat \<Rightarrow> string list \<Rightarrow> string list \<Rightarrow> problem list" where
  "p_unique_texts_from field i seen [] = []"
| "p_unique_texts_from field i seen (s # ss) =
     p_text (at_index field i) s @
     (if s \<in> set seen then [(DUPLICATE, field)] else []) @
     p_unique_texts_from field (Suc i) (s # seen) ss"

definition p_unique_texts :: "string \<Rightarrow> string list \<Rightarrow> problem list" where
  "p_unique_texts field items = p_unique_texts_from field 0 [] items"

fun p_unique_from :: "string \<Rightarrow> 'a list \<Rightarrow> 'a list \<Rightarrow> problem list" where
  "p_unique_from field seen [] = []"
| "p_unique_from field seen (x # xs) =
     (if x \<in> set seen then (DUPLICATE, field) # p_unique_from field seen xs
      else p_unique_from field (x # seen) xs)"

definition p_unique :: "string \<Rightarrow> 'a list \<Rightarrow> problem list" where
  "p_unique field items = p_unique_from field [] items"

text \<open>\<open>iter().enumerate()\<close> with one problem list per entry.\<close>

definition p_each :: "(nat \<Rightarrow> 'a \<Rightarrow> problem list) \<Rightarrow> 'a list \<Rightarrow> problem list" where
  "p_each f xs = concat (map (\<lambda>(i, x). f i x) (enumerate 0 xs))"

definition stated :: "string \<Rightarrow> bool" where
  "stated s \<longleftrightarrow> trim s \<noteq> [] \<and> trim s \<noteq> UNKNOWN"

datatype tier = TLow | TMedium | THigh | TUnknown

fun tier_level :: "tier \<Rightarrow> int option" where
  "tier_level TLow = Some 1"
| "tier_level TMedium = Some 2"
| "tier_level THigh = Some 3"
| "tier_level TUnknown = None"

datatype verdict = Pass | Hold | Reject

text \<open>\<open>validate\<close>: the header, then the record's own rules; every problem is listed.\<close>

definition validate :: "string \<Rightarrow> schema_tag \<Rightarrow> string \<Rightarrow> int \<Rightarrow> problem list \<Rightarrow> problem list + unit" where
  "validate RECORD schema ident version own =
     (let p = (case schema_tag_require schema RECORD of
                 Inl (Err c) \<Rightarrow> [(c, ''schema'')] | _ \<Rightarrow> []) @
              p_id ''id'' ident @
              p_check (version \<ge> 1) INVALID_VERSION ''version'' @
              own
      in if p = [] then Inr () else Inl p)"

section \<open>Risk\<close>

datatype risk_kind =
  RCash | RTime | RLegal | RSanctions | RLicensing | RData | RPayment | RTransferability
  | RDependency | RKeyPerson | RPlatform | RConcentration

definition is_legal :: "risk_kind \<Rightarrow> bool" where
  "is_legal k \<longleftrightarrow> k \<in> {RLegal, RSanctions, RLicensing, RData, RTransferability}"

datatype risk_status = RResolved | RUnresolved | RStatusUnknown

datatype concentration_dimension = DClient | DPlatform | DChannel | DSupplier | DJurisdiction

datatype boundedness = Bounded | Unbounded | BUnknown

record max_loss =
  ml_cash :: "minor est"
  ml_owner_hours :: "int est"
  ml_reputation :: string
  ml_dependency :: string

definition unstated :: "max_loss \<Rightarrow> string list" where
  "unstated m =
     (if \<not> est_is_known (ml_cash m) then [''cash''] else []) @
     (if \<not> est_is_known (ml_owner_hours m) then [''owner_hours''] else []) @
     (if \<not> stated (ml_reputation m) then [''reputation''] else []) @
     (if \<not> stated (ml_dependency m) then [''dependency''] else [])"

record risk =
  r_kind :: risk_kind
  r_probability :: "bps est"
  r_impact :: "minor est"
  r_control :: string
  r_status :: risk_status

record concentration =
  c_dimension :: concentration_dimension
  c_name :: string
  c_share :: bps

record bounds =
  b_owner_time :: boundedness
  b_support :: boundedness
  b_payment_access :: boundedness
  b_scope :: boundedness

definition bounds_each :: "bounds \<Rightarrow> (string \<times> boundedness) list" where
  "bounds_each b =
     [(''owner_time'', b_owner_time b), (''support'', b_support b),
      (''payment_access'', b_payment_access b), (''scope'', b_scope b)]"

record risk_assessment =
  ra_max_loss :: max_loss
  ra_risks :: "risk list"
  ra_concentration :: "concentration list"
  ra_bounds :: bounds

definition concentration_max :: "risk_assessment \<Rightarrow> bps option" where
  "concentration_max r =
     (case map c_share (ra_concentration r) of [] \<Rightarrow> None | s # ss \<Rightarrow> Some (fold max ss s))"

definition est_low_problem :: "string \<Rightarrow> minor est \<Rightarrow> problem list" where
  "est_low_problem field e =
     (case e of Range lo _ _ \<Rightarrow> p_non_negative field lo | EUnknown _ \<Rightarrow> [])"

definition risk_problems :: "string \<Rightarrow> risk_assessment \<Rightarrow> problem list" where
  "risk_problems at r =
     est_low_problem (at @ ''.max_loss.cash'') (ml_cash (ra_max_loss r)) @
     p_each (\<lambda>i k. p_text (at_index (at @ ''.risks'') i @ ''.control'') (r_control k) @
       est_low_problem (at_index (at @ ''.risks'') i @ ''.impact'') (r_impact k)) (ra_risks r) @
     p_each (\<lambda>i c. p_text (at_index (at @ ''.concentration'') i @ ''.name'') (c_name c))
       (ra_concentration r) @
     p_unique (at @ ''.concentration'')
       (map (\<lambda>c. (c_dimension c, c_name c)) (ra_concentration r))"

section \<open>Experiments\<close>

datatype approval_kind =
  ReadSource | AddSource | Contact | Publish | Spend | Sign | Deploy | PersonalData

datatype threshold_op = Ge | Le

record threshold =
  t_op :: threshold_op
  t_value :: int
  t_unit :: string

record stage =
  s_name :: string
  s_cash :: minor
  s_recoverable :: minor
  s_owner_hours :: int
  s_stop_rule :: "string option"

record experiment_spec =
  x_hypothesis :: string
  x_metric :: string
  x_threshold :: threshold
  x_deadline :: time
  x_expires_at :: time
  x_max_owner_hours :: int
  x_stop_rule :: string
  x_approvals :: "approval_kind list"
  x_stages :: "stage list"

definition total_cash :: "experiment_spec \<Rightarrow> minor vres" where
  "total_cash x = rfold (\<lambda>acc s. minor_checked_add acc (s_cash s)) 0 (x_stages x)"

definition first_spend :: "experiment_spec \<Rightarrow> (nat \<times> stage) option" where
  "first_spend x = find (\<lambda>(i, s). s_cash s > 0) (enumerate 0 (x_stages x))"

definition experiment_problems :: "string \<Rightarrow> experiment_spec \<Rightarrow> problem list" where
  "experiment_problems at x =
     p_text (at @ ''.hypothesis'') (x_hypothesis x) @
     p_text (at @ ''.metric'') (x_metric x) @
     p_text (at @ ''.stop_rule'') (x_stop_rule x) @
     p_text (at @ ''.threshold.unit'') (t_unit (x_threshold x)) @
     p_known (at @ ''.deadline'') (x_deadline x) @
     p_known (at @ ''.expires_at'') (x_expires_at x) @
     p_check (torder (x_deadline x) (x_expires_at x) \<noteq> After) INVALID_TIME (at @ ''.deadline'') @
     p_unique (at @ ''.approvals'') (x_approvals x) @
     p_check (x_stages x \<noteq> []) INVALID_FIELD (at @ ''.stages'') @
     p_unique_texts (at @ ''.stages.name'') (map s_name (x_stages x)) @
     p_each (\<lambda>i s.
       p_non_negative (at_index (at @ ''.stages'') i @ ''.cash'') (s_cash s) @
       p_non_negative (at_index (at @ ''.stages'') i @ ''.recoverable'') (s_recoverable s) @
       p_check (s_recoverable s \<le> s_cash s) INVALID_FIELD
         (at_index (at @ ''.stages'') i @ ''.recoverable'') @
       (case s_stop_rule s of
          Some rule \<Rightarrow> p_text (at_index (at @ ''.stages'') i @ ''.stop_rule'') rule
        | None \<Rightarrow> [])) (x_stages x) @
     (case total_cash x of Inl _ \<Rightarrow> [(OVERFLOW, at @ ''.stages'')] | Inr _ \<Rightarrow> [])"

section \<open>The operator profile\<close>

definition UNSIGNED :: string where "UNSIGNED = ''UNSIGNED''"

text \<open>\<open>economics::PAYBACK_SCAN_MONTHS\<close>, which the profile's validation reads.\<close>

definition PAYBACK_SCAN_MONTHS :: int where "PAYBACK_SCAN_MONTHS = 600"

datatype profit_basis = PreTax | PostTax

datatype contribution_basis = TimeAdjusted | Cash

datatype public_cadence = NoCadence | Weekly | Monthly | OnEvidence

datatype rank_key =
  EvidenceConfidence | TimeAdjustedBase | PaybackBase | DaysToDecisiveEvidence | Reversibility
  | CapabilityFit | ConcentrationMax | Defensibility

definition rank_key_all :: "rank_key list" where
  "rank_key_all = [EvidenceConfidence, TimeAdjustedBase, PaybackBase, DaysToDecisiveEvidence,
     Reversibility, CapabilityFit, ConcentrationMax, Defensibility]"

fun rank_key_better :: "rank_key \<Rightarrow> better" where
  "rank_key_better PaybackBase = Lower"
| "rank_key_better DaysToDecisiveEvidence = Lower"
| "rank_key_better ConcentrationMax = Lower"
| "rank_key_better _ = Higher"

datatype capability_level = LevelProven | LevelClaimed | LevelUnknown

record operator_capability =
  oc_id :: string
  oc_skill :: string
  oc_level :: capability_level
  oc_proof :: "locator list"
  oc_capacity_hours_per_week :: "int est"
  oc_delivery_cost_per_hour :: "minor est"
  oc_dependencies :: "string list"
  oc_as_of :: time
  oc_valid_until :: time

record operator_profile =
  p_schema :: schema_tag
  p_ident :: string
  p_version :: int
  p_valid_from :: time
  p_signed_by :: string
  p_signed_at :: time
  p_synthetic :: bool
  p_currency :: currency
  p_profit_basis :: profit_basis
  p_contribution_basis :: contribution_basis
  p_max_cash_exposure :: minor
  p_min_monthly_contribution :: minor
  p_shadow_hourly_rate :: minor
  p_max_payback_months :: int
  p_weekly_owner_hours :: int
  p_max_validation_tranche :: minor
  p_max_one_off_delivery_weeks :: int
  p_jurisdictions_allow :: "string list"
  p_channels_allow :: "string list"
  p_languages :: "string list"
  p_exclusions :: "string list"
  p_public_cadence :: public_cadence
  p_rank_order :: "rank_key list"
  p_capabilities :: "operator_capability list"

definition is_signed :: "operator_profile \<Rightarrow> bool" where
  "is_signed p \<longleftrightarrow> trim (p_signed_by p) \<noteq> [] \<and> trim (p_signed_by p) \<noteq> UNSIGNED \<and>
     is_known (p_signed_at p)"

definition profile_problems :: "operator_profile \<Rightarrow> problem list" where
  "profile_problems p =
     p_known ''valid_from'' (p_valid_from p) @
     p_text ''signed_by'' (p_signed_by p) @
     (if trim (p_signed_by p) \<noteq> UNSIGNED then p_known ''signed_at'' (p_signed_at p) else []) @
     p_check (p_max_cash_exposure p > 0) INVALID_FIELD ''max_cash_exposure'' @
     p_check (p_max_validation_tranche p > 0) INVALID_FIELD ''max_validation_tranche'' @
     p_check (p_max_validation_tranche p \<le> p_max_cash_exposure p) INVALID_FIELD
       ''max_validation_tranche'' @
     p_non_negative ''min_monthly_contribution'' (p_min_monthly_contribution p) @
     p_non_negative ''shadow_hourly_rate'' (p_shadow_hourly_rate p) @
     p_check (p_max_payback_months p \<ge> 1) INVALID_FIELD ''max_payback_months'' @
     p_check (p_weekly_owner_hours p \<ge> 1) INVALID_FIELD ''weekly_owner_hours'' @
     p_check (p_max_one_off_delivery_weeks p \<ge> 1) INVALID_FIELD ''max_one_off_delivery_weeks'' @
     p_check (p_max_payback_months p \<le> PAYBACK_SCAN_MONTHS) INVALID_FIELD ''max_payback_months'' @
     p_check (p_weekly_owner_hours p \<le> 168) INVALID_FIELD ''weekly_owner_hours'' @
     p_unique_texts ''jurisdictions_allow'' (p_jurisdictions_allow p) @
     p_unique_texts ''channels_allow'' (p_channels_allow p) @
     p_unique_texts ''languages'' (p_languages p) @
     p_unique_texts ''exclusions'' (p_exclusions p) @
     p_check (p_rank_order p \<noteq> []) INVALID_FIELD ''rank_order'' @
     p_unique ''rank_order'' (p_rank_order p) @
     p_unique ''capabilities.id'' (map oc_id (p_capabilities p)) @
     p_each (\<lambda>i c.
       p_id (at_index ''capabilities'' i @ ''.id'') (oc_id c) @
       p_text (at_index ''capabilities'' i @ ''.skill'') (oc_skill c) @
       p_check (oc_level c \<noteq> LevelProven \<or> list_ex (\<lambda>l. l \<noteq> LUnknown) (oc_proof c)) INVALID_FIELD
         (at_index ''capabilities'' i @ ''.proof'') @
       p_unique_texts (at_index ''capabilities'' i @ ''.dependencies'') (oc_dependencies c) @
       est_low_problem (at_index ''capabilities'' i @ ''.delivery_cost_per_hour'')
         (oc_delivery_cost_per_hour c) @
       p_check (torder (oc_as_of c) (oc_valid_until c) \<noteq> After) INVALID_TIME
         (at_index ''capabilities'' i @ ''.valid_until'')) (p_capabilities p)"

definition validate_profile :: "operator_profile \<Rightarrow> problem list + unit" where
  "validate_profile p =
     validate ''operator_profile'' (p_schema p) (p_ident p) (p_version p) (profile_problems p)"

section \<open>What an empty list of problems means\<close>

lemma p_check_Nil [problem_simps]: "p_check ok c f = [] \<longleftrightarrow> ok"
  by (simp add: p_check_def)

lemma p_text_Nil [problem_simps]: "p_text f s = [] \<longleftrightarrow> trim s \<noteq> []"
  by (simp add: p_text_def problem_simps)

lemma p_id_Nil [problem_simps]: "p_id f s = [] \<longleftrightarrow> valid_id s"
  by (simp add: p_id_def problem_simps)

lemma p_known_Nil [problem_simps]: "p_known f t = [] \<longleftrightarrow> is_known t"
  by (simp add: p_known_def problem_simps)

lemma p_non_negative_Nil [problem_simps]: "p_non_negative f m = [] \<longleftrightarrow> 0 \<le> m"
  by (simp add: p_non_negative_def problem_simps)

lemma p_not_after_Nil [problem_simps]: "p_not_after f t b = [] \<longleftrightarrow> torder t b \<noteq> After"
  by (simp add: p_not_after_def problem_simps)

lemma p_unique_from_Nil: "p_unique_from f seen xs = [] \<longleftrightarrow> distinct xs \<and> set xs \<inter> set seen = {}"
  by (induction f seen xs rule: p_unique_from.induct) auto

lemma p_unique_Nil [problem_simps]: "p_unique f xs = [] \<longleftrightarrow> distinct xs"
  by (simp add: p_unique_def p_unique_from_Nil)

lemma p_unique_texts_from_Nil:
  "p_unique_texts_from f i seen xs = [] \<longleftrightarrow>
     distinct xs \<and> set xs \<inter> set seen = {} \<and> (\<forall>s \<in> set xs. trim s \<noteq> [])"
  by (induction f i seen xs rule: p_unique_texts_from.induct) (auto simp: problem_simps)

lemma p_unique_texts_Nil [problem_simps]:
  "p_unique_texts f xs = [] \<longleftrightarrow> distinct xs \<and> (\<forall>s \<in> set xs. trim s \<noteq> [])"
  by (simp add: p_unique_texts_def p_unique_texts_from_Nil)

lemma p_each_Nil:
  assumes "\<And>i x. f i x = [] \<longleftrightarrow> P x"
  shows "p_each f xs = [] \<longleftrightarrow> (\<forall>x \<in> set xs. P x)"
proof -
  have "concat (map (\<lambda>(i, x). f i x) (enumerate n xs)) = [] \<longleftrightarrow> (\<forall>x \<in> set xs. P x)" for n
    by (induction xs arbitrary: n) (simp_all add: assms)
  then show ?thesis by (simp add: p_each_def)
qed

lemma est_low_problem_Nil [problem_simps]:
  "est_low_problem f e = [] \<longleftrightarrow> (case e of Range lo _ _ \<Rightarrow> 0 \<le> lo | EUnknown _ \<Rightarrow> True)"
  by (cases e) (simp_all add: est_low_problem_def problem_simps)

text \<open>
  The trait \<open>SoeRecord\<close>: a record names its kind, its header and its own rules, and inherits
  \<open>validate\<close>.
\<close>

locale soe_record =
  fixes RECORD :: string and schema :: "'r \<Rightarrow> schema_tag" and ident :: "'r \<Rightarrow> string"
    and version :: "'r \<Rightarrow> int" and problems :: "'r \<Rightarrow> problem list"
    and validate_record :: "'r \<Rightarrow> problem list + unit"
  assumes validate_record: "validate_record r = validate RECORD (schema r) (ident r) (version r) (problems r)"
begin

lemma validated_iff:
  "validate_record r = Inr () \<longleftrightarrow>
     st_record (schema r) = RECORD \<and> valid_id (ident r) \<and> 1 \<le> version r \<and> problems r = []"
  by (auto simp: validate_record validate_def Let_def problem_simps schema_tag_require_def)

lemma refused_lists_every_problem:
  assumes "validate_record r = Inl ps"
  shows "ps \<noteq> [] \<and> set (problems r) \<subseteq> set ps \<and>
    (st_record (schema r) \<noteq> RECORD \<longrightarrow> (SCHEMA_MISMATCH, ''schema'') \<in> set ps) \<and>
    (\<not> valid_id (ident r) \<longrightarrow> (INVALID_ID, ''id'') \<in> set ps) \<and>
    (version r < 1 \<longrightarrow> (INVALID_VERSION, ''version'') \<in> set ps)"
  using assms
  by (auto simp: validate_record validate_def Let_def schema_tag_require_def p_id_def p_check_def split: if_splits)

end

interpretation profile_record: soe_record "''operator_profile''" p_schema p_ident p_version
  profile_problems validate_profile
  by unfold_locales (simp add: validate_profile_def)

text \<open>The rules of one capability of the profile.\<close>

definition capability_rules :: "operator_capability \<Rightarrow> bool" where
  "capability_rules c \<longleftrightarrow> valid_id (oc_id c) \<and> trim (oc_skill c) \<noteq> [] \<and>
     (oc_level c = LevelProven \<longrightarrow> (\<exists>l \<in> set (oc_proof c). l \<noteq> LUnknown)) \<and>
     distinct (oc_dependencies c) \<and> (\<forall>d \<in> set (oc_dependencies c). trim d \<noteq> []) \<and>
     (case oc_delivery_cost_per_hour c of Range lo _ _ \<Rightarrow> 0 \<le> lo | EUnknown _ \<Rightarrow> True) \<and>
     torder (oc_as_of c) (oc_valid_until c) \<noteq> After"

definition texts_rule :: "string list \<Rightarrow> bool" where
  "texts_rule xs \<longleftrightarrow> distinct xs \<and> (\<forall>s \<in> set xs. trim s \<noteq> [])"

definition profile_rules :: "operator_profile \<Rightarrow> bool" where
  "profile_rules p \<longleftrightarrow>
     is_known (p_valid_from p) \<and> trim (p_signed_by p) \<noteq> [] \<and>
     (trim (p_signed_by p) \<noteq> UNSIGNED \<longrightarrow> is_known (p_signed_at p)) \<and>
     0 < p_max_validation_tranche p \<and> p_max_validation_tranche p \<le> p_max_cash_exposure p \<and>
     0 \<le> p_min_monthly_contribution p \<and> 0 \<le> p_shadow_hourly_rate p \<and>
     p_max_payback_months p \<in> {1..PAYBACK_SCAN_MONTHS} \<and> p_weekly_owner_hours p \<in> {1..168} \<and>
     1 \<le> p_max_one_off_delivery_weeks p \<and>
     texts_rule (p_jurisdictions_allow p) \<and> texts_rule (p_channels_allow p) \<and>
     texts_rule (p_languages p) \<and> texts_rule (p_exclusions p) \<and>
     p_rank_order p \<noteq> [] \<and> distinct (p_rank_order p) \<and>
     distinct (map oc_id (p_capabilities p)) \<and> (\<forall>c \<in> set (p_capabilities p). capability_rules c)"

lemma capability_problems_Nil:
  "p_each (\<lambda>i c.
       p_id (at_index ''capabilities'' i @ ''.id'') (oc_id c) @
       p_text (at_index ''capabilities'' i @ ''.skill'') (oc_skill c) @
       p_check (oc_level c \<noteq> LevelProven \<or> list_ex (\<lambda>l. l \<noteq> LUnknown) (oc_proof c)) INVALID_FIELD
         (at_index ''capabilities'' i @ ''.proof'') @
       p_unique_texts (at_index ''capabilities'' i @ ''.dependencies'') (oc_dependencies c) @
       est_low_problem (at_index ''capabilities'' i @ ''.delivery_cost_per_hour'')
         (oc_delivery_cost_per_hour c) @
       p_check (torder (oc_as_of c) (oc_valid_until c) \<noteq> After) INVALID_TIME
         (at_index ''capabilities'' i @ ''.valid_until'')) cs = [] \<longleftrightarrow>
   (\<forall>c \<in> set cs. capability_rules c)"
  by (rule p_each_Nil) (auto simp: problem_simps capability_rules_def list_ex_iff)

lemma profile_problems_Nil: "profile_problems p = [] \<longleftrightarrow> profile_rules p"
  unfolding profile_problems_def append_is_Nil_conv capability_problems_Nil
  by (auto simp: profile_rules_def problem_simps texts_rule_def)

lemma risk_problems_Nil:
  "risk_problems at r = [] \<longleftrightarrow>
     (case ml_cash (ra_max_loss r) of Range lo _ _ \<Rightarrow> 0 \<le> lo | EUnknown _ \<Rightarrow> True) \<and>
     (\<forall>k \<in> set (ra_risks r). trim (r_control k) \<noteq> [] \<and>
        (case r_impact k of Range lo _ _ \<Rightarrow> 0 \<le> lo | EUnknown _ \<Rightarrow> True)) \<and>
     (\<forall>c \<in> set (ra_concentration r). trim (c_name c) \<noteq> []) \<and>
     distinct (map (\<lambda>c. (c_dimension c, c_name c)) (ra_concentration r))"
proof -
  have "p_each (\<lambda>i k. p_text (at_index (at @ ''.risks'') i @ ''.control'') (r_control k) @
       est_low_problem (at_index (at @ ''.risks'') i @ ''.impact'') (r_impact k)) (ra_risks r) = [] \<longleftrightarrow>
    (\<forall>k \<in> set (ra_risks r). trim (r_control k) \<noteq> [] \<and>
        (case r_impact k of Range lo _ _ \<Rightarrow> 0 \<le> lo | EUnknown _ \<Rightarrow> True))"
    by (rule p_each_Nil) (simp add: problem_simps)
  moreover have "p_each (\<lambda>i c. p_text (at_index (at @ ''.concentration'') i @ ''.name'') (c_name c))
       (ra_concentration r) = [] \<longleftrightarrow> (\<forall>c \<in> set (ra_concentration r). trim (c_name c) \<noteq> [])"
    by (rule p_each_Nil) (simp add: problem_simps)
  ultimately show ?thesis by (simp add: risk_problems_def problem_simps)
qed

end
