(* ===== verification/Soe_Opportunity.thy ===== *)
theory Soe_Opportunity
  imports Soe_Records
begin

text \<open>
  The opportunity record (\<open>src/src/domain/soe/opportunity.rs\<close>): mechanism, revenue model, economic
  inputs with their dotted field names, jurisdictions, diligence, and the validation of the whole
  record. A mutable view of one input (\<open>InputMut\<close>) is its current value with the function that
  writes a new one back.

  Shown here: the mutable view and the listing name the same inputs, and a write changes the named
  input only; what a validated opportunity and profile guarantee.
\<close>

section \<open>Definitions\<close>

datatype mechanism =
  AcquireTransform | Automate | Integrate | RescueMigrate | Productize | BuildAdjacent
  | WhiteLabel | License | PartnerRevshare | HighTicketDelivery | MHold | MReject

datatype revenue_model =
    Recurring "int assumption" "bps assumption" "bps assumption" "minor assumption"
      "bps assumption"
      \<comment> \<open>leads per month, conversion, churn per month, price per month, collection loss\<close>
  | OneOff "minor assumption" "bps assumption" "int assumption" "int assumption" "bps assumption"
      \<comment> \<open>contract value, win probability, delivery weeks, owner hours in total, collection loss\<close>
  | Acquisition "minor assumption" "bps assumption" "bps assumption"
      \<comment> \<open>asset monthly revenue, churn per month, collection loss\<close>
  | RevenueShare "minor assumption" "bps assumption" "bps assumption"
      \<comment> \<open>partner monthly revenue, share, collection loss\<close>

datatype input =
    ICount "int assumption"
  | IShare "bps assumption"
  | IAmount "minor assumption"

fun revenue_kind :: "revenue_model \<Rightarrow> string" where
  "revenue_kind (Recurring _ _ _ _ _) = ''RECURRING''"
| "revenue_kind (OneOff _ _ _ _ _) = ''ONE_OFF''"
| "revenue_kind (Acquisition _ _ _) = ''ACQUISITION''"
| "revenue_kind (RevenueShare _ _ _) = ''REVENUE_SHARE''"

fun revenue_inputs :: "revenue_model \<Rightarrow> (string \<times> input) list" where
  "revenue_inputs (Recurring leads conv churn price loss) =
     [(''leads_per_month'', ICount leads), (''conversion'', IShare conv),
      (''churn_per_month'', IShare churn), (''price_per_month'', IAmount price),
      (''collection_loss'', IShare loss)]"
| "revenue_inputs (OneOff val win weeks hours loss) =
     [(''contract_value'', IAmount val), (''win_probability'', IShare win),
      (''delivery_weeks'', ICount weeks), (''owner_hours_total'', ICount hours),
      (''collection_loss'', IShare loss)]"
| "revenue_inputs (Acquisition asset churn loss) =
     [(''asset_monthly_revenue'', IAmount asset), (''churn_per_month'', IShare churn),
      (''collection_loss'', IShare loss)]"
| "revenue_inputs (RevenueShare partner share loss) =
     [(''partner_monthly_revenue'', IAmount partner), (''share'', IShare share),
      (''collection_loss'', IShare loss)]"

text \<open>A mutable reference: the value it reads and the structure a write gives.\<close>

datatype 'r input_mut =
    MCount "int assumption" "int assumption \<Rightarrow> 'r"
  | MShare "bps assumption" "bps assumption \<Rightarrow> 'r"
  | MAmount "minor assumption" "minor assumption \<Rightarrow> 'r"

fun revenue_inputs_mut :: "revenue_model \<Rightarrow> (string \<times> revenue_model input_mut) list" where
  "revenue_inputs_mut (Recurring leads conv churn price loss) =
     [(''leads_per_month'', MCount leads (\<lambda>v. Recurring v conv churn price loss)),
      (''conversion'', MShare conv (\<lambda>v. Recurring leads v churn price loss)),
      (''churn_per_month'', MShare churn (\<lambda>v. Recurring leads conv v price loss)),
      (''price_per_month'', MAmount price (\<lambda>v. Recurring leads conv churn v loss)),
      (''collection_loss'', MShare loss (\<lambda>v. Recurring leads conv churn price v))]"
| "revenue_inputs_mut (OneOff val win weeks hours loss) =
     [(''contract_value'', MAmount val (\<lambda>v. OneOff v win weeks hours loss)),
      (''win_probability'', MShare win (\<lambda>v. OneOff val v weeks hours loss)),
      (''delivery_weeks'', MCount weeks (\<lambda>v. OneOff val win v hours loss)),
      (''owner_hours_total'', MCount hours (\<lambda>v. OneOff val win weeks v loss)),
      (''collection_loss'', MShare loss (\<lambda>v. OneOff val win weeks hours v))]"
| "revenue_inputs_mut (Acquisition asset churn loss) =
     [(''asset_monthly_revenue'', MAmount asset (\<lambda>v. Acquisition v churn loss)),
      (''churn_per_month'', MShare churn (\<lambda>v. Acquisition asset v loss)),
      (''collection_loss'', MShare loss (\<lambda>v. Acquisition asset churn v))]"
| "revenue_inputs_mut (RevenueShare partner share loss) =
     [(''partner_monthly_revenue'', MAmount partner (\<lambda>v. RevenueShare v share loss)),
      (''share'', MShare share (\<lambda>v. RevenueShare partner v loss)),
      (''collection_loss'', MShare loss (\<lambda>v. RevenueShare partner share v))]"

record input_state =
  is_field :: string
  is_known_input :: bool
  is_evidenced_input :: bool
  is_as_of :: time

fun input_state_of :: "string \<Rightarrow> input \<Rightarrow> input_state" where
  "input_state_of f (ICount a) =
     \<lparr>is_field = f, is_known_input = est_is_known (a_value a),
      is_evidenced_input = is_evidenced a, is_as_of = a_as_of a\<rparr>"
| "input_state_of f (IShare a) =
     \<lparr>is_field = f, is_known_input = est_is_known (a_value a),
      is_evidenced_input = is_evidenced a, is_as_of = a_as_of a\<rparr>"
| "input_state_of f (IAmount a) =
     \<lparr>is_field = f, is_known_input = est_is_known (a_value a),
      is_evidenced_input = is_evidenced a, is_as_of = a_as_of a\<rparr>"

fun input_evidence :: "input \<Rightarrow> locator list" where
  "input_evidence (ICount a) = a_evidence a"
| "input_evidence (IShare a) = a_evidence a"
| "input_evidence (IAmount a) = a_evidence a"

fun input_is_known :: "input \<Rightarrow> bool" where
  "input_is_known (ICount a) = est_is_known (a_value a)"
| "input_is_known (IShare a) = est_is_known (a_value a)"
| "input_is_known (IAmount a) = est_is_known (a_value a)"

fun est_reason :: "'a est \<Rightarrow> string option" where
  "est_reason (EUnknown r) = r"
| "est_reason (Range _ _ _) = None"

fun unknown_reason :: "input \<Rightarrow> string option" where
  "unknown_reason (ICount a) = est_reason (a_value a)"
| "unknown_reason (IShare a) = est_reason (a_value a)"
| "unknown_reason (IAmount a) = est_reason (a_value a)"

fun amount_low :: "input \<Rightarrow> minor option" where
  "amount_low (IAmount a) = (case a_value a of Range lo _ _ \<Rightarrow> Some lo | EUnknown _ \<Rightarrow> None)"
| "amount_low _ = None"

record initial_capital =
  ic_acquisition :: "minor assumption"
  ic_setup :: "minor assumption"
  ic_validation :: "minor assumption"
  ic_working_capital :: "minor assumption"

datatype revenue_quality = QRecurring | QContracted | QTransactional | QOneOff | QSpeculative

datatype tax_review = TaxUnknown | TaxReviewed

record economic_inputs =
  e_currency :: currency
  e_fx :: "fx_rate option"
  e_revenue :: revenue_model
  e_variable_cost :: "bps assumption"
  e_fixed_costs_per_month :: "minor assumption"
  e_owner_hours_per_month :: "int assumption"
  e_ramp_months :: "int assumption"
  e_initial :: initial_capital
  e_revenue_quality :: revenue_quality
  e_tax_review :: tax_review

definition econ_inputs :: "economic_inputs \<Rightarrow> (string \<times> input) list" where
  "econ_inputs e =
     map (\<lambda>(f, i). (''economics.revenue.'' @ f, i)) (revenue_inputs (e_revenue e)) @
     [(''economics.variable_cost'', IShare (e_variable_cost e)),
      (''economics.fixed_costs_per_month'', IAmount (e_fixed_costs_per_month e)),
      (''economics.owner_hours_per_month'', ICount (e_owner_hours_per_month e)),
      (''economics.ramp_months'', ICount (e_ramp_months e)),
      (''economics.initial.acquisition'', IAmount (ic_acquisition (e_initial e))),
      (''economics.initial.setup'', IAmount (ic_setup (e_initial e))),
      (''economics.initial.validation'', IAmount (ic_validation (e_initial e))),
      (''economics.initial.working_capital'', IAmount (ic_working_capital (e_initial e)))]"

definition input_states :: "economic_inputs \<Rightarrow> input_state list" where
  "input_states e = map (\<lambda>(f, i). input_state_of f i) (econ_inputs e)"

definition econ_input :: "economic_inputs \<Rightarrow> string \<Rightarrow> input option" where
  "econ_input e field = map_option snd (find (\<lambda>(f, _). f = field) (econ_inputs e))"

fun map_mut :: "('r \<Rightarrow> 's) \<Rightarrow> 'r input_mut \<Rightarrow> 's input_mut" where
  "map_mut g (MCount a w) = MCount a (g \<circ> w)"
| "map_mut g (MShare a w) = MShare a (g \<circ> w)"
| "map_mut g (MAmount a w) = MAmount a (g \<circ> w)"

definition input_mut :: "economic_inputs \<Rightarrow> string \<Rightarrow> economic_inputs input_mut option" where
  "input_mut e field =
     (case strip_prefix ''economics.'' field of
        None \<Rightarrow> None
      | Some rest \<Rightarrow>
          (case strip_prefix ''revenue.'' rest of
             Some name \<Rightarrow>
               map_option (\<lambda>(_, m). map_mut (\<lambda>r. e\<lparr>e_revenue := r\<rparr>) m)
                 (find (\<lambda>(f, _). f = name) (revenue_inputs_mut (e_revenue e)))
           | None \<Rightarrow>
               let i = e_initial e
               in if rest = ''variable_cost'' then
                    Some (MShare (e_variable_cost e) (\<lambda>v. e\<lparr>e_variable_cost := v\<rparr>))
                  else if rest = ''fixed_costs_per_month'' then
                    Some (MAmount (e_fixed_costs_per_month e) (\<lambda>v. e\<lparr>e_fixed_costs_per_month := v\<rparr>))
                  else if rest = ''owner_hours_per_month'' then
                    Some (MCount (e_owner_hours_per_month e) (\<lambda>v. e\<lparr>e_owner_hours_per_month := v\<rparr>))
                  else if rest = ''ramp_months'' then
                    Some (MCount (e_ramp_months e) (\<lambda>v. e\<lparr>e_ramp_months := v\<rparr>))
                  else if rest = ''initial.acquisition'' then
                    Some (MAmount (ic_acquisition i) (\<lambda>v. e\<lparr>e_initial := i\<lparr>ic_acquisition := v\<rparr>\<rparr>))
                  else if rest = ''initial.setup'' then
                    Some (MAmount (ic_setup i) (\<lambda>v. e\<lparr>e_initial := i\<lparr>ic_setup := v\<rparr>\<rparr>))
                  else if rest = ''initial.validation'' then
                    Some (MAmount (ic_validation i) (\<lambda>v. e\<lparr>e_initial := i\<lparr>ic_validation := v\<rparr>\<rparr>))
                  else if rest = ''initial.working_capital'' then
                    Some (MAmount (ic_working_capital i)
                      (\<lambda>v. e\<lparr>e_initial := i\<lparr>ic_working_capital := v\<rparr>\<rparr>))
                  else None))"

record jurisdictions =
  j_customer :: string
  j_operator :: string
  j_entity :: string
  j_delivery :: string
  j_tax :: string
  j_payment :: string
  j_data :: string

definition jurisdictions_each :: "jurisdictions \<Rightarrow> (string \<times> string) list" where
  "jurisdictions_each j =
     [(''customer'', j_customer j), (''operator'', j_operator j), (''entity'', j_entity j),
      (''delivery'', j_delivery j), (''tax'', j_tax j), (''payment'', j_payment j),
      (''data'', j_data j)]"

datatype diligence_status = Verified | SellerClaim | Unverified | RedFlag | DiligenceUnknown

record diligence_block =
  d_status :: diligence_status
  d_evidence :: "locator list"
  d_note :: "string option"

record deal_review =
  dr_identity :: diligence_block
  dr_ownership :: diligence_block
  dr_revenue_proof :: diligence_block
  dr_costs :: diligence_block
  dr_technical :: diligence_block
  dr_distribution :: diligence_block
  dr_legal :: diligence_block
  dr_transition :: diligence_block
  dr_red_flags :: "string list"

definition deal_blocks :: "deal_review \<Rightarrow> (string \<times> diligence_block) list" where
  "deal_blocks d =
     [(''identity'', dr_identity d), (''ownership'', dr_ownership d),
      (''revenue_proof'', dr_revenue_proof d), (''costs'', dr_costs d),
      (''technical'', dr_technical d), (''distribution'', dr_distribution d),
      (''legal'', dr_legal d), (''transition'', dr_transition d)]"

record ordinal =
  od_defensibility :: tier
  od_reversibility :: tier

record opportunity =
  o_schema :: schema_tag
  o_ident :: string
  o_version :: int
  o_as_of :: time
  o_customer :: string
  o_pain :: string
  o_mechanism :: mechanism
  o_alternatives :: "mechanism list"
  o_requires_skills :: "string list"
  o_signals :: "string list"
  o_jurisdictions :: jurisdictions
  o_economics :: economic_inputs
  o_risk :: risk_assessment
  o_experiment :: "experiment_spec option"
  o_deal :: "deal_review option"
  o_ordinal :: ordinal

definition opportunity_problems :: "opportunity \<Rightarrow> problem list" where
  "opportunity_problems o1 =
     (let e = o_economics o1 in
     p_known ''as_of'' (o_as_of o1) @
     p_text ''customer'' (o_customer o1) @
     p_text ''pain'' (o_pain o1) @
     p_unique ''alternatives'' (o_alternatives o1) @
     p_check (o_mechanism o1 \<notin> set (o_alternatives o1)) DUPLICATE ''alternatives'' @
     p_unique_texts ''requires_skills'' (o_requires_skills o1) @
     p_unique_texts ''signals'' (o_signals o1) @
     concat (map (\<lambda>(f, v). p_text (''jurisdictions.'' @ f) v)
       (jurisdictions_each (o_jurisdictions o1))) @
     (if o_mechanism o1 = HighTicketDelivery \<and> revenue_kind (e_revenue e) = ''RECURRING'' then
        [(FAKE_RECURRING, ''economics.revenue.kind'')]
      else if o_mechanism o1 = PartnerRevshare \<and> revenue_kind (e_revenue e) \<noteq> ''REVENUE_SHARE'' then
        [(REVENUE_MODEL_MISMATCH, ''economics.revenue.kind'')]
      else if o_mechanism o1 = AcquireTransform \<and> revenue_kind (e_revenue e) \<noteq> ''ACQUISITION'' then
        [(REVENUE_MODEL_MISMATCH, ''economics.revenue.kind'')]
      else []) @
     p_check (o_mechanism o1 \<noteq> AcquireTransform \<or> o_deal o1 \<noteq> None) DEAL_REVIEW_MISSING ''deal'' @
     (case e_fx e of
        Some fx \<Rightarrow>
          p_check (cp_base (fx_pair fx) = e_currency e) INVALID_FIELD ''economics.fx.pair'' @
          p_not_after ''economics.fx.as_of'' (fx_as_of fx) (o_as_of o1)
      | None \<Rightarrow> []) @
     concat (map (\<lambda>(field, i).
       (case amount_low i of Some lo \<Rightarrow> p_non_negative field lo | None \<Rightarrow> []) @
       p_not_after (field @ ''.as_of'') (is_as_of (input_state_of field i)) (o_as_of o1))
       (econ_inputs e)) @
     risk_problems ''risk'' (o_risk o1) @
     (case o_experiment o1 of
        Some x \<Rightarrow>
          experiment_problems ''experiment'' x @
          p_check (torder (o_as_of o1) (x_deadline x) \<noteq> After) INVALID_TIME ''experiment.deadline''
      | None \<Rightarrow> []) @
     (case o_deal o1 of
        Some d \<Rightarrow>
          concat (map (\<lambda>(f, b).
            p_check (d_status b \<noteq> Verified \<or> list_ex (\<lambda>l. l \<noteq> LUnknown) (d_evidence b))
              INVALID_FIELD (''deal.'' @ f)) (deal_blocks d)) @
          p_unique_texts ''deal.red_flags'' (dr_red_flags d)
      | None \<Rightarrow> []))"

definition validate_opportunity :: "opportunity \<Rightarrow> problem list + unit" where
  "validate_opportunity o1 =
     validate ''opportunity'' (o_schema o1) (o_ident o1) (o_version o1) (opportunity_problems o1)"

section \<open>Views of one input\<close>

fun mut_value :: "'r input_mut \<Rightarrow> input" where
  "mut_value (MCount a w) = ICount a"
| "mut_value (MShare a w) = IShare a"
| "mut_value (MAmount a w) = IAmount a"

text \<open>A write through the view with a value of its own kind.\<close>

fun mut_write :: "'r input_mut \<Rightarrow> input \<Rightarrow> 'r option" where
  "mut_write (MCount _ w) (ICount v) = Some (w v)"
| "mut_write (MShare _ w) (IShare v) = Some (w v)"
| "mut_write (MAmount _ w) (IAmount v) = Some (w v)"
| "mut_write _ _ = None"

definition set_input :: "string \<Rightarrow> input \<Rightarrow> (string \<times> input) list \<Rightarrow> (string \<times> input) list" where
  "set_input f i = map (\<lambda>(g, j). (g, if g = f then i else j))"

lemma revenue_inputs_mut_values:
  "map (\<lambda>(f, m). (f, mut_value m)) (revenue_inputs_mut r) = revenue_inputs r"
  by (cases r) simp_all

lemma mut_write_Some:
  "mut_write (MCount a w) i = Some r \<longleftrightarrow> (\<exists>v. i = ICount v \<and> r = w v)"
  "mut_write (MShare b x) i = Some r \<longleftrightarrow> (\<exists>v. i = IShare v \<and> r = x v)"
  "mut_write (MAmount c y) i = Some r \<longleftrightarrow> (\<exists>v. i = IAmount v \<and> r = y v)"
  by (cases i; auto)+

lemma revenue_inputs_mut_writes:
  "list_all (\<lambda>(f, m). \<forall>i r'. mut_write m i = Some r' \<longrightarrow>
     revenue_inputs r' = set_input f i (revenue_inputs r)) (revenue_inputs_mut r)"
  by (cases r) (auto simp: mut_write_Some set_input_def)

lemma find_map_pair:
  "find (\<lambda>(f, _). f = k) (map (\<lambda>(f, x). (f, g x)) xs) = map_option (\<lambda>(f, x). (f, g x)) (find (\<lambda>(f, _). f = k) xs)"
  by (induction xs) auto

lemma find_map_prefix:
  "find (\<lambda>(f, _). f = p @ k) (map (\<lambda>(f, x). (p @ f, x)) xs) =
   map_option (\<lambda>(f, x). (p @ f, x)) (find (\<lambda>(f, _). f = k) xs)"
  by (induction xs) auto

lemma find_append: "find P (xs @ ys) = (case find P xs of None \<Rightarrow> find P ys | r \<Rightarrow> r)"
  by (induction xs) auto

lemma mut_value_map_mut [simp]: "mut_value (map_mut g m) = mut_value m"
  by (cases m) simp_all

lemma mut_write_map_mut: "mut_write (map_mut g m) i = map_option g (mut_write m i)"
  by (cases m; cases i) simp_all

lemma find_revenue_prefix_None:
  "(\<And>t. k \<noteq> ''economics.revenue.'' @ t) \<Longrightarrow>
   find (\<lambda>(f, _). f = k) (map (\<lambda>(f, i). (''economics.revenue.'' @ f, i)) xs) = None"
  by (induction xs) auto

text \<open>The inputs outside the revenue model, by the rest of their field name.\<close>

lemma input_mut_revenue:
  "input_mut e (''economics.revenue.'' @ name) =
     map_option (\<lambda>(_, m). map_mut (\<lambda>r. e\<lparr>e_revenue := r\<rparr>) m)
       (find (\<lambda>(f, _). f = name) (revenue_inputs_mut (e_revenue e)))"
  using strip_prefix_append [of "''economics.''" "''revenue.'' @ name"]
    strip_prefix_append [of "''revenue.''" name]
  by (simp add: input_mut_def)

lemma econ_input_revenue:
  "econ_input e (''economics.revenue.'' @ name) =
     map_option snd (find (\<lambda>(f, _). f = name) (revenue_inputs (e_revenue e)))"
  unfolding econ_input_def econ_inputs_def find_append find_map_prefix
  by (cases "find (\<lambda>(f, _). f = name) (revenue_inputs (e_revenue e))") auto

lemma input_mut_value_revenue:
  "map_option mut_value (input_mut e (''economics.revenue.'' @ name)) =
     econ_input e (''economics.revenue.'' @ name)"
  unfolding input_mut_revenue econ_input_revenue revenue_inputs_mut_values [symmetric] find_map_pair
  by (cases "find (\<lambda>(f, _). f = name) (revenue_inputs_mut (e_revenue e))") auto

lemma input_mut_value_other:
  assumes "\<And>t. field \<noteq> ''economics.revenue.'' @ t"
  shows "map_option mut_value (input_mut e field) = econ_input e field"
proof (cases "strip_prefix ''economics.'' field")
  case None
  then have no: "field \<noteq> ''economics.'' @ t" for t by (auto simp: strip_prefix_Some_iff)
  have "econ_input e field = None"
    unfolding econ_input_def econ_inputs_def find_append find_revenue_prefix_None [OF assms]
    using no [of "''variable_cost''"] no [of "''fixed_costs_per_month''"]
      no [of "''owner_hours_per_month''"] no [of "''ramp_months''"] no [of "''initial.acquisition''"]
      no [of "''initial.setup''"] no [of "''initial.validation''"] no [of "''initial.working_capital''"]
    by auto
  with None show ?thesis by (simp add: input_mut_def)
next
  case (Some rest)
  then have f: "field = ''economics.'' @ rest" by (simp add: strip_prefix_Some_iff)
  with assms have no: "rest \<noteq> ''revenue.'' @ t" for t by auto
  then have "strip_prefix ''revenue.'' rest = None"
    by (cases "strip_prefix ''revenue.'' rest") (auto simp: strip_prefix_Some_iff)
  with Some show ?thesis
    unfolding econ_input_def econ_inputs_def find_append find_revenue_prefix_None [OF assms]
    by (simp add: f input_mut_def Let_def)
qed

lemma input_mut_value: "map_option mut_value (input_mut e field) = econ_input e field"
  using input_mut_value_revenue input_mut_value_other by (cases "\<exists>t. field = ''economics.revenue.'' @ t") blast+

definition same_frame :: "economic_inputs \<Rightarrow> economic_inputs \<Rightarrow> bool" where
  "same_frame e e' \<longleftrightarrow> e_currency e' = e_currency e \<and> e_fx e' = e_fx e \<and>
     e_revenue_quality e' = e_revenue_quality e \<and> e_tax_review e' = e_tax_review e \<and>
     revenue_kind (e_revenue e') = revenue_kind (e_revenue e)"

lemma revenue_mut_kinds:
  "list_all (\<lambda>(f, m). \<forall>i r'. mut_write m i = Some r' \<longrightarrow> revenue_kind r' = revenue_kind r)
     (revenue_inputs_mut r)"
  by (cases r) (auto simp: mut_write_Some)

lemma set_input_append: "set_input f i (xs @ ys) = set_input f i xs @ set_input f i ys"
  by (simp add: set_input_def)

lemma set_input_prefix:
  "set_input (p @ f) i (map (\<lambda>(g, j). (p @ g, j)) xs) = map (\<lambda>(g, j). (p @ g, j)) (set_input f i xs)"
  by (auto simp: set_input_def)

lemma set_input_other:
  "(\<And>t. f \<noteq> p @ t) \<Longrightarrow> set_input f i (map (\<lambda>(g, j). (p @ g, j)) xs) = map (\<lambda>(g, j). (p @ g, j)) xs"
  by (induction xs) (fastforce simp: set_input_def)+

lemma find_fst_eq: "find (\<lambda>(f, _). f = k) xs = Some (f, x) \<Longrightarrow> f = k"
  by (induction xs) (auto split: if_splits)

lemma input_mut_write_revenue:
  assumes "input_mut e (''economics.revenue.'' @ name) = Some m" "mut_write m i = Some e'"
  shows "econ_inputs e' = set_input (''economics.revenue.'' @ name) i (econ_inputs e) \<and> same_frame e e'"
proof -
  obtain v where v: "find (\<lambda>(f, _). f = name) (revenue_inputs_mut (e_revenue e)) = Some (name, v)"
    and m: "m = map_mut (\<lambda>r. e\<lparr>e_revenue := r\<rparr>) v"
    using assms(1) find_fst_eq unfolding input_mut_revenue by fastforce
  obtain r where r: "mut_write v i = Some r" and e': "e' = e\<lparr>e_revenue := r\<rparr>"
    using assms(2) by (auto simp: m mut_write_map_mut)
  have mem: "(name, v) \<in> set (revenue_inputs_mut (e_revenue e))"
    using v by (metis find_Some_iff nth_mem)
  have "revenue_inputs r = set_input name i (revenue_inputs (e_revenue e))"
    and "revenue_kind r = revenue_kind (e_revenue e)"
    using mem r revenue_inputs_mut_writes [of "e_revenue e"] revenue_mut_kinds [of "e_revenue e"]
    by (auto simp: list_all_iff)
  then show ?thesis
    unfolding econ_inputs_def set_input_append set_input_prefix
    by (simp add: e' same_frame_def) (simp add: set_input_def)
qed

definition other_inputs :: "economic_inputs \<Rightarrow> (string \<times> input) list" where
  "other_inputs e =
     [(''variable_cost'', IShare (e_variable_cost e)),
      (''fixed_costs_per_month'', IAmount (e_fixed_costs_per_month e)),
      (''owner_hours_per_month'', ICount (e_owner_hours_per_month e)),
      (''ramp_months'', ICount (e_ramp_months e)),
      (''initial.acquisition'', IAmount (ic_acquisition (e_initial e))),
      (''initial.setup'', IAmount (ic_setup (e_initial e))),
      (''initial.validation'', IAmount (ic_validation (e_initial e))),
      (''initial.working_capital'', IAmount (ic_working_capital (e_initial e)))]"

lemma econ_inputs_split:
  "econ_inputs e = map (\<lambda>(f, i). (''economics.revenue.'' @ f, i)) (revenue_inputs (e_revenue e)) @
     map (\<lambda>(f, i). (''economics.'' @ f, i)) (other_inputs e)"
  by (simp add: econ_inputs_def other_inputs_def)

definition other_inputs_mut :: "economic_inputs \<Rightarrow> (string \<times> economic_inputs input_mut) list" where
  "other_inputs_mut e = (let i = e_initial e in
     [(''variable_cost'', MShare (e_variable_cost e) (\<lambda>v. e\<lparr>e_variable_cost := v\<rparr>)),
      (''fixed_costs_per_month'', MAmount (e_fixed_costs_per_month e) (\<lambda>v. e\<lparr>e_fixed_costs_per_month := v\<rparr>)),
      (''owner_hours_per_month'', MCount (e_owner_hours_per_month e) (\<lambda>v. e\<lparr>e_owner_hours_per_month := v\<rparr>)),
      (''ramp_months'', MCount (e_ramp_months e) (\<lambda>v. e\<lparr>e_ramp_months := v\<rparr>)),
      (''initial.acquisition'', MAmount (ic_acquisition i) (\<lambda>v. e\<lparr>e_initial := i\<lparr>ic_acquisition := v\<rparr>\<rparr>)),
      (''initial.setup'', MAmount (ic_setup i) (\<lambda>v. e\<lparr>e_initial := i\<lparr>ic_setup := v\<rparr>\<rparr>)),
      (''initial.validation'', MAmount (ic_validation i) (\<lambda>v. e\<lparr>e_initial := i\<lparr>ic_validation := v\<rparr>\<rparr>)),
      (''initial.working_capital'', MAmount (ic_working_capital i)
         (\<lambda>v. e\<lparr>e_initial := i\<lparr>ic_working_capital := v\<rparr>\<rparr>))])"

lemma input_mut_other:
  "strip_prefix ''revenue.'' rest = None \<Longrightarrow>
   input_mut e (''economics.'' @ rest) = map_option snd (find (\<lambda>(f, _). f = rest) (other_inputs_mut e))"
  unfolding input_mut_def strip_prefix_append option.case
  by (simp only: option.case) (simp add: other_inputs_mut_def Let_def)

lemma other_inputs_mut_writes:
  "list_all (\<lambda>(f, m). \<forall>i e'. mut_write m i = Some e' \<longrightarrow>
     other_inputs e' = set_input f i (other_inputs e) \<and> same_frame e e' \<and> e_revenue e' = e_revenue e)
     (other_inputs_mut e)"
  unfolding other_inputs_mut_def Let_def list.pred_inject case_prod_conv mut_write_Some
  by (intro conjI allI impI; (elim exE conjE)?; simp add: same_frame_def set_input_def other_inputs_def)

lemma input_mut_write_other:
  assumes no: "\<And>t. field \<noteq> ''economics.revenue.'' @ t"
    and m: "input_mut e field = Some m" and w: "mut_write m i = Some e'"
  shows "econ_inputs e' = set_input field i (econ_inputs e) \<and> same_frame e e'"
proof -
  obtain rest where rest: "strip_prefix ''economics.'' field = Some rest"
    using m by (auto simp: input_mut_def split: option.splits)
  then have f: "field = ''economics.'' @ rest" by (simp add: strip_prefix_Some_iff)
  with no have "strip_prefix ''revenue.'' rest = None"
    by (cases "strip_prefix ''revenue.'' rest") (auto simp: strip_prefix_Some_iff)
  with m f have "(rest, m) \<in> set (other_inputs_mut e)"
    using find_fst_eq by (fastforce simp del: append.simps simp: input_mut_other find_Some_iff in_set_conv_nth)
  with w have "other_inputs e' = set_input rest i (other_inputs e) \<and> same_frame e e' \<and>
      e_revenue e' = e_revenue e"
    using other_inputs_mut_writes [of e] by (auto simp: list_all_iff)
  then show ?thesis
    unfolding econ_inputs_split set_input_append set_input_other [OF no]
    unfolding f set_input_prefix by simp
qed

lemma input_mut_write:
  "input_mut e field = Some m \<Longrightarrow> mut_write m i = Some e' \<Longrightarrow>
   econ_inputs e' = set_input field i (econ_inputs e) \<and> same_frame e e'"
  using input_mut_write_revenue input_mut_write_other
  by (cases "\<exists>t. field = ''economics.revenue.'' @ t") blast+

section \<open>What validation guarantees\<close>

interpretation opportunity_record: soe_record "''opportunity''" o_schema o_ident o_version
  opportunity_problems validate_opportunity
  by unfold_locales (simp add: validate_opportunity_def)

text \<open>What the Rust types guarantee of the inputs before any validation.\<close>

fun input_typed :: "input \<Rightarrow> bool" where
  "input_typed (ICount a) = est_ok u32_ok (a_value a)"
| "input_typed (IShare a) = est_ok bps_ok (a_value a)"
| "input_typed (IAmount a) = est_ok i64_ok (a_value a)"

definition econ_typed :: "economic_inputs \<Rightarrow> bool" where
  "econ_typed e \<longleftrightarrow> list_all (\<lambda>(f, i). input_typed i) (econ_inputs e) \<and>
     (case e_fx e of None \<Rightarrow> True | Some r \<Rightarrow> fx_ok r)"

lemma validated_amounts:
  assumes "validate_opportunity o1 = Inr ()" "(f, i) \<in> set (econ_inputs (o_economics o1))"
  shows "(case amount_low i of Some lo \<Rightarrow> 0 \<le> lo | None \<Rightarrow> True) \<and>
    torder (is_as_of (input_state_of f i)) (o_as_of o1) \<noteq> After"
proof -
  have "opportunity_problems o1 = []"
    using assms(1) by (simp add: opportunity_record.validated_iff)
  then have "(case amount_low i of Some lo \<Rightarrow> p_non_negative f lo | None \<Rightarrow> []) @
       p_not_after (f @ ''.as_of'') (is_as_of (input_state_of f i)) (o_as_of o1) = []"
    using assms(2) by (fastforce simp: opportunity_problems_def Let_def)
  then show ?thesis by (auto simp: problem_simps split: option.splits)
qed

text \<open>The inputs of a validated opportunity: ordered ranges, counts in \<open>u32\<close>, shares of at most
  100 percent, amounts that are not negative.\<close>

definition amount_ok :: "int \<Rightarrow> bool" where "amount_ok x \<longleftrightarrow> 0 \<le> x \<and> i64_ok x"

fun input_ok :: "input \<Rightarrow> bool" where
  "input_ok (ICount a) = est_ok u32_ok (a_value a)"
| "input_ok (IShare a) = est_ok bps_ok (a_value a)"
| "input_ok (IAmount a) = est_ok amount_ok (a_value a)"

definition econ_ok :: "economic_inputs \<Rightarrow> bool" where
  "econ_ok e \<longleftrightarrow> list_all (\<lambda>(f, i). input_ok i) (econ_inputs e) \<and>
     (case e_fx e of None \<Rightarrow> True | Some r \<Rightarrow> fx_ok r)"

definition opportunity_typed :: "opportunity \<Rightarrow> bool" where
  "opportunity_typed o1 \<longleftrightarrow> econ_typed (o_economics o1) \<and>
     list_all (\<lambda>k. est_ok bps_ok (r_probability k) \<and> est_ok i64_ok (r_impact k)) (ra_risks (o_risk o1))"

lemma econ_ok_if_validated:
  assumes "validate_opportunity o1 = Inr ()" "econ_typed (o_economics o1)"
  shows "econ_ok (o_economics o1)"
proof -
  have "input_ok i" if "(f, i) \<in> set (econ_inputs (o_economics o1))" for f i
  proof -
    have "input_typed i" using assms(2) that by (auto simp: econ_typed_def list_all_iff)
    with validated_amounts [OF assms(1) that] show ?thesis
      by (cases i; cases "a_value (case i of IAmount a \<Rightarrow> a)") (auto simp: amount_ok_def split: est.splits)
  qed
  with assms(2) show ?thesis by (auto simp: econ_ok_def econ_typed_def list_all_iff)
qed

definition risk_ok :: "risk_assessment \<Rightarrow> bool" where
  "risk_ok r \<longleftrightarrow> (\<forall>k \<in> set (ra_risks r). est_ok bps_ok (r_probability k) \<and> est_ok amount_ok (r_impact k))"

lemma risk_ok_if_validated:
  assumes "validate_opportunity o1 = Inr ()" "opportunity_typed o1"
  shows "risk_ok (o_risk o1)"
proof -
  have "risk_problems ''risk'' (o_risk o1) = []"
    using assms(1) by (simp add: opportunity_record.validated_iff opportunity_problems_def Let_def)
  then have low: "case r_impact k of Range lo _ _ \<Rightarrow> 0 \<le> lo | EUnknown _ \<Rightarrow> True"
    if "k \<in> set (ra_risks (o_risk o1))" for k
    using that unfolding risk_problems_Nil by blast
  have "est_ok amount_ok (r_impact k)" if "k \<in> set (ra_risks (o_risk o1))" for k
    using low [OF that] assms(2) that
    by (cases "r_impact k") (auto simp: opportunity_typed_def list_all_iff amount_ok_def)
  with assms(2) show ?thesis by (auto simp: risk_ok_def opportunity_typed_def list_all_iff)
qed

end
