(* ===== verification/Soe_Economics.thy ===== *)
theory Soe_Economics
  imports Soe_Opportunity
begin

text \<open>
  The deterministic economics of one opportunity (\<open>src/src/domain/soe/economics.rs\<close>): the downside,
  base and upside figures from its input ranges. Everything is integer arithmetic: \<open>i128\<close> inside,
  with checked products and sums (\<open>Err OVERFLOW\<close>) and unchecked differences (\<open>Panic\<close> where they
  would leave the type), \<open>i64\<close> minor units out. A figure that needs an unknown input is \<open>MUnknown\<close>
  with the fields it lacks, sorted, never 0.

  The hash of the inputs (\<open>inputs_sha256\<close>) goes through \<open>serde_json\<close> and the \<open>sha2\<close> crate; it is the
  argument \<open>hash\<close> of \<open>scenarios\<close>.
\<close>

section \<open>Output\<close>

definition ECONOMICS_VERSION :: int where "ECONOMICS_VERSION = 1"
definition MILLI :: int where "MILLI = 1000"
definition FULL :: int where "FULL = BPS_FULL"

definition f_LEADS :: string where "f_LEADS = ''economics.revenue.leads_per_month''"
definition f_CONVERSION :: string where "f_CONVERSION = ''economics.revenue.conversion''"
definition f_CHURN :: string where "f_CHURN = ''economics.revenue.churn_per_month''"
definition f_PRICE :: string where "f_PRICE = ''economics.revenue.price_per_month''"
definition f_COLLECTION_LOSS :: string where "f_COLLECTION_LOSS = ''economics.revenue.collection_loss''"
definition f_CONTRACT_VALUE :: string where "f_CONTRACT_VALUE = ''economics.revenue.contract_value''"
definition f_WIN_PROBABILITY :: string where "f_WIN_PROBABILITY = ''economics.revenue.win_probability''"
definition f_DELIVERY_WEEKS :: string where "f_DELIVERY_WEEKS = ''economics.revenue.delivery_weeks''"
definition f_OWNER_HOURS_TOTAL :: string where
  "f_OWNER_HOURS_TOTAL = ''economics.revenue.owner_hours_total''"
definition f_ASSET_REVENUE :: string where "f_ASSET_REVENUE = ''economics.revenue.asset_monthly_revenue''"
definition f_PARTNER_REVENUE :: string where
  "f_PARTNER_REVENUE = ''economics.revenue.partner_monthly_revenue''"
definition f_SHARE :: string where "f_SHARE = ''economics.revenue.share''"
definition f_VARIABLE_COST :: string where "f_VARIABLE_COST = ''economics.variable_cost''"
definition f_FIXED_COSTS :: string where "f_FIXED_COSTS = ''economics.fixed_costs_per_month''"
definition f_OWNER_HOURS :: string where "f_OWNER_HOURS = ''economics.owner_hours_per_month''"
definition f_RAMP :: string where "f_RAMP = ''economics.ramp_months''"
definition f_ACQUISITION :: string where "f_ACQUISITION = ''economics.initial.acquisition''"
definition f_SETUP :: string where "f_SETUP = ''economics.initial.setup''"
definition f_VALIDATION :: string where "f_VALIDATION = ''economics.initial.validation''"
definition f_WORKING_CAPITAL :: string where "f_WORKING_CAPITAL = ''economics.initial.working_capital''"
definition f_FX :: string where "f_FX = ''economics.fx''"

datatype 'a metric = Known 'a | MUnknown "string list"

fun metric_known :: "'a metric \<Rightarrow> 'a option" where
  "metric_known (Known v) = Some v"
| "metric_known (MUnknown _) = None"

text \<open>A value, or the set of input fields it lacks (a \<open>BTreeSet\<close>).\<close>

type_synonym 'a need = "string set + 'a"

definition metric_of :: "'a need \<Rightarrow> 'a metric" where
  "metric_of n = (case n of Inr v \<Rightarrow> Known v | Inl lacking \<Rightarrow> MUnknown (sorted_list_of_set lacking))"

datatype payback = Months int | NotReached

fun payback_le :: "payback \<Rightarrow> payback \<Rightarrow> bool" where
  "payback_le (Months a) (Months b) = (a \<le> b)"
| "payback_le NotReached (Months b) = False"
| "payback_le p NotReached = True"

record loss_range =
  lr_low :: minor
  lr_high :: minor

record scenario_metrics =
  sm_scenario :: scenario
  sm_monthly_revenue_collected :: "minor metric"
  sm_monthly_cash_contribution :: "minor metric"
  sm_owner_hours_per_month :: "int metric"
  sm_owner_time_cost :: "minor metric"
  sm_time_adjusted_contribution :: "minor metric"
  sm_initial_capital :: "minor metric"
  sm_payback :: "payback metric"
  sm_payback_time_adjusted :: "payback metric"
  sm_occupied_months :: "int metric option"

fun sm_contribution :: "scenario_metrics \<Rightarrow> contribution_basis \<Rightarrow> minor metric" where
  "sm_contribution s TimeAdjusted = sm_time_adjusted_contribution s"
| "sm_contribution s Cash = sm_monthly_cash_contribution s"

record scenarios =
  sc_economics_version :: int
  sc_inputs_sha256 :: string
  sc_currency :: currency
  sc_native_currency :: currency
  sc_basis :: profit_basis
  sc_run_rate_month :: int
  sc_downside :: scenario_metrics
  sc_base :: scenario_metrics
  sc_upside :: scenario_metrics
  sc_expected_loss :: "loss_range metric"

section \<open>Unknown-safe plumbing\<close>

definition pick :: "'a assumption \<Rightarrow> scenario \<Rightarrow> better \<Rightarrow> string \<Rightarrow> 'a need" where
  "pick a s b field = (case est_pick (a_value a) s b of Some v \<Rightarrow> Inr v | None \<Rightarrow> Inl {field})"

text \<open>\<open>Ctx\<close>: the lacking fields collected so far.\<close>

definition ctx_get :: "'a need \<Rightarrow> string set \<Rightarrow> 'a option \<times> string set" where
  "ctx_get n lacking = (case n of Inr v \<Rightarrow> (Some v, lacking) | Inl f \<Rightarrow> (None, lacking \<union> f))"

definition need :: "(string set \<Rightarrow> ('a option \<times> string set) vres) \<Rightarrow> 'a need vres" where
  "need f =
     rbind (f {}) (\<lambda>(v, lacking).
       Inr (case v of Some x \<Rightarrow> (if lacking = {} then Inr x else Inl lacking) | None \<Rightarrow> Inl lacking))"

text \<open>
  Every closure given to \<open>need\<close> has one shape: get all its inputs, return \<open>Ok(None)\<close> unless all are
  there, else compute. \<open>need1\<close> \<dots> \<open>need7\<close> are that shape for the number of inputs.
\<close>

definition need1 :: "'a need \<Rightarrow> ('a \<Rightarrow> 'r vres) \<Rightarrow> 'r need vres" where
  "need1 na f = need (\<lambda>c0. case ctx_get na c0 of (a, c1) \<Rightarrow>
     (case a of Some a \<Rightarrow> rmap (\<lambda>v. (Some v, c1)) (f a) | _ \<Rightarrow> Inr (None, c1)))"

definition need2 :: "'a need \<Rightarrow> 'b need \<Rightarrow> ('a \<Rightarrow> 'b \<Rightarrow> 'r vres) \<Rightarrow> 'r need vres" where
  "need2 na nb f = need (\<lambda>c0. case ctx_get na c0 of (a, c1) \<Rightarrow> case ctx_get nb c1 of (b, c2) \<Rightarrow>
     (case (a, b) of (Some a, Some b) \<Rightarrow> rmap (\<lambda>v. (Some v, c2)) (f a b) | _ \<Rightarrow> Inr (None, c2)))"

definition need3 ::
  "'a need \<Rightarrow> 'b need \<Rightarrow> 'c need \<Rightarrow> ('a \<Rightarrow> 'b \<Rightarrow> 'c \<Rightarrow> 'r vres) \<Rightarrow> 'r need vres" where
  "need3 na nb nc f = need (\<lambda>c0. case ctx_get na c0 of (a, c1) \<Rightarrow> case ctx_get nb c1 of (b, c2) \<Rightarrow>
     case ctx_get nc c2 of (c, c3) \<Rightarrow>
     (case (a, b, c) of
        (Some a, Some b, Some c) \<Rightarrow> rmap (\<lambda>v. (Some v, c3)) (f a b c) | _ \<Rightarrow> Inr (None, c3)))"

definition need4 :: "'a need \<Rightarrow> 'b need \<Rightarrow> 'c need \<Rightarrow> 'd need \<Rightarrow>
    ('a \<Rightarrow> 'b \<Rightarrow> 'c \<Rightarrow> 'd \<Rightarrow> 'r vres) \<Rightarrow> 'r need vres" where
  "need4 na nb nc nd f = need (\<lambda>c0. case ctx_get na c0 of (a, c1) \<Rightarrow>
     case ctx_get nb c1 of (b, c2) \<Rightarrow> case ctx_get nc c2 of (c, c3) \<Rightarrow>
     case ctx_get nd c3 of (d, c4) \<Rightarrow>
     (case (a, b, c, d) of
        (Some a, Some b, Some c, Some d) \<Rightarrow> rmap (\<lambda>v. (Some v, c4)) (f a b c d)
      | _ \<Rightarrow> Inr (None, c4)))"

definition need5 :: "'a need \<Rightarrow> 'b need \<Rightarrow> 'c need \<Rightarrow> 'd need \<Rightarrow> 'e need \<Rightarrow>
    ('a \<Rightarrow> 'b \<Rightarrow> 'c \<Rightarrow> 'd \<Rightarrow> 'e \<Rightarrow> 'r vres) \<Rightarrow> 'r need vres" where
  "need5 na nb nc nd ne f = need (\<lambda>c0. case ctx_get na c0 of (a, c1) \<Rightarrow>
     case ctx_get nb c1 of (b, c2) \<Rightarrow> case ctx_get nc c2 of (c, c3) \<Rightarrow>
     case ctx_get nd c3 of (d, c4) \<Rightarrow> case ctx_get ne c4 of (e, c5) \<Rightarrow>
     (case (a, b, c, d, e) of
        (Some a, Some b, Some c, Some d, Some e) \<Rightarrow> rmap (\<lambda>v. (Some v, c5)) (f a b c d e)
      | _ \<Rightarrow> Inr (None, c5)))"

definition need7 :: "'a need \<Rightarrow> 'b need \<Rightarrow> 'c need \<Rightarrow> 'd need \<Rightarrow> 'e need \<Rightarrow> 'g need \<Rightarrow> 'h need \<Rightarrow>
    ('a \<Rightarrow> 'b \<Rightarrow> 'c \<Rightarrow> 'd \<Rightarrow> 'e \<Rightarrow> 'g \<Rightarrow> 'h \<Rightarrow> 'r vres) \<Rightarrow> 'r need vres" where
  "need7 na nb nc nd ne ng nh f = need (\<lambda>c0. case ctx_get na c0 of (a, c1) \<Rightarrow>
     case ctx_get nb c1 of (b, c2) \<Rightarrow> case ctx_get nc c2 of (c, c3) \<Rightarrow>
     case ctx_get nd c3 of (d, c4) \<Rightarrow> case ctx_get ne c4 of (e, c5) \<Rightarrow>
     case ctx_get ng c5 of (g, c6) \<Rightarrow> case ctx_get nh c6 of (h, c7) \<Rightarrow>
     (case (a, b, c, d, e, g, h) of
        (Some a, Some b, Some c, Some d, Some e, Some g, Some h) \<Rightarrow>
          rmap (\<lambda>v. (Some v, c7)) (f a b c d e g h)
      | _ \<Rightarrow> Inr (None, c7)))"

definition econ_mul :: "int \<Rightarrow> int \<Rightarrow> int vres" where
  "econ_mul a b = ok_or (fits i128_ok (a * b)) OVERFLOW"

definition econ_add :: "int \<Rightarrow> int \<Rightarrow> int vres" where
  "econ_add a b = ok_or (fits i128_ok (a + b)) OVERFLOW"

definition econ_minor :: "int \<Rightarrow> minor vres" where
  "econ_minor v = ok_or (fits i64_ok v) OVERFLOW"

definition as_metric :: "int need \<Rightarrow> minor metric vres" where
  "as_metric n = rmap metric_of (need1 n econ_minor)"

record fx_conv =
  fc_native :: currency
  fc_rate :: "fx_rate option"

definition fx_conv_convert :: "fx_conv \<Rightarrow> int \<Rightarrow> flow \<Rightarrow> int vres" where
  "fx_conv_convert f native fl =
     (case fc_rate f of
        None \<Rightarrow> Inr native
      | Some r \<Rightarrow>
          rbind (econ_minor native) (\<lambda>m.
          rbind (fx_convert r \<lparr>m_minor = m, m_currency = fc_native f\<rparr> fl) (\<lambda>q.
          Inr (m_minor q))))"

definition fx_for :: "economic_inputs \<Rightarrow> currency \<Rightarrow> fx_conv need" where
  "fx_for e target =
     (if e_currency e = target then Inr \<lparr>fc_native = e_currency e, fc_rate = None\<rparr>
      else case e_fx e of
        Some r \<Rightarrow>
          if cp_base (fx_pair r) = e_currency e \<and> cp_quote (fx_pair r) = target
          then Inr \<lparr>fc_native = e_currency e, fc_rate = Some r\<rparr> else Inl {f_FX}
      | None \<Rightarrow> Inl {f_FX})"

definition to_currency :: "economic_inputs \<Rightarrow> currency \<Rightarrow> minor \<Rightarrow> flow \<Rightarrow> minor option vres" where
  "to_currency e target native fl =
     (case fx_for e target of
        Inr fx \<Rightarrow> rbind (fx_conv_convert fx native fl) (\<lambda>v. rmap Some (econ_minor v))
      | Inl _ \<Rightarrow> Inr None)"

record knobs =
  k_rate :: int
  k_horizon :: int
  k_fx :: "fx_conv need"

section \<open>Expected loss\<close>

text \<open>The loop over the risks, with the lacking fields and the two running sums.\<close>

fun expected_loss_from ::
  "nat \<Rightarrow> string list \<Rightarrow> int \<Rightarrow> int \<Rightarrow> risk list \<Rightarrow> (string list \<times> int \<times> int) vres" where
  "expected_loss_from i lacking lo hi [] = Inr (lacking, lo, hi)"
| "expected_loss_from i lacking lo hi (r # rs) =
     (case (r_probability r, r_impact r) of
        (Range p_lo _ p_hi, Range i_lo _ i_hi) \<Rightarrow>
          rbind (econ_mul p_lo i_lo) (\<lambda>m1.
          rbind (div_floor m1 FULL) (\<lambda>q1.
          rbind (econ_add lo q1) (\<lambda>lo'.
          rbind (econ_mul p_hi i_hi) (\<lambda>m2.
          rbind (div_ceil m2 FULL) (\<lambda>q2.
          rbind (econ_add hi q2) (\<lambda>hi'.
          expected_loss_from (Suc i) lacking lo' hi' rs))))))
      | (p, imp) \<Rightarrow>
          expected_loss_from (Suc i)
            (lacking @
             (if \<not> est_is_known p then [at_index ''risk.risks'' i @ ''.probability''] else []) @
             (if \<not> est_is_known imp then [at_index ''risk.risks'' i @ ''.impact''] else []))
            lo hi rs)"

definition expected_loss :: "risk_assessment \<Rightarrow> loss_range metric vres" where
  "expected_loss risk =
     rbind (expected_loss_from 0 [] 0 0 (ra_risks risk)) (\<lambda>(lacking, lo, hi).
     if lacking \<noteq> [] then Inr (MUnknown lacking)
     else rbind (econ_minor lo) (\<lambda>l. rbind (econ_minor hi) (\<lambda>h.
       Inr (Known \<lparr>lr_low = l, lr_high = h\<rparr>))))"

section \<open>Revenue by month\<close>

datatype stream =
    SRecurring int int int int \<comment> \<open>won, keep, price, collect\<close>
  | SDecay int int int \<comment> \<open>first, keep, collect\<close>
  | SFlat int \<comment> \<open>collected\<close>

text \<open>One month of \<open>Stream::revenue\<close>: the running base and the month's collected revenue.\<close>

fun month_step :: "stream \<Rightarrow> int \<Rightarrow> int \<Rightarrow> int \<Rightarrow> (int \<times> int) vres" where
  "month_step (SRecurring won keep price collect) ramp month bs =
     (if month > ramp then
        rbind (econ_mul bs keep) (\<lambda>m.
        rbind (div_floor m FULL) (\<lambda>q.
        rbind (econ_add q won) (\<lambda>bs'.
        rbind (econ_mul bs' price) (\<lambda>p.
        rbind (econ_mul p collect) (\<lambda>c.
        rbind (div_floor c (MILLI * FULL)) (\<lambda>r. Inr (bs', r)))))))
      else Inr (bs, 0))"
| "month_step (SDecay first keep collect) ramp month bs =
     rbind (if month > 1 then rbind (econ_mul bs keep) (\<lambda>m. div_floor m FULL) else Inr bs) (\<lambda>bs'.
     if month > ramp then
       rbind (econ_mul bs' collect) (\<lambda>c. rbind (div_floor c FULL) (\<lambda>r. Inr (bs', r)))
     else Inr (bs', 0))"
| "month_step (SFlat collected) ramp month bs =
     Inr (bs, if month > ramp then collected else 0)"

fun revenue_from :: "stream \<Rightarrow> int \<Rightarrow> int \<Rightarrow> nat \<Rightarrow> int \<Rightarrow> int list vres" where
  "revenue_from st ramp month 0 bs = Inr []"
| "revenue_from st ramp month (Suc n) bs =
     rbind (month_step st ramp month bs) (\<lambda>(bs', r).
     rbind (revenue_from st ramp (month + 1) n bs') (\<lambda>rs. Inr (r # rs)))"

fun stream_start :: "stream \<Rightarrow> int" where
  "stream_start (SDecay first _ _) = first"
| "stream_start _ = 0"

definition stream_revenue :: "stream \<Rightarrow> int \<Rightarrow> int \<Rightarrow> int list vres" where
  "stream_revenue st ramp months = revenue_from st ramp 1 (nat months) (stream_start st)"

definition cash_of :: "int \<Rightarrow> int \<Rightarrow> int \<Rightarrow> int vres" where
  "cash_of revenue variable fixed =
     rbind (econ_mul revenue variable) (\<lambda>m.
     rbind (div_ceil m FULL) (\<lambda>q.
     rbind (raw128 (revenue - q)) (\<lambda>d. raw128 (d - fixed))))"

text \<open>The scan of \<open>payback\<close>: month index and running sum; a month's value may itself be an error.\<close>

fun payback_scan :: "int \<Rightarrow> int \<Rightarrow> int \<Rightarrow> int vres list \<Rightarrow> payback vres" where
  "payback_scan initial i sm [] = Inr NotReached"
| "payback_scan initial i sm (c # cs) =
     rbind c (\<lambda>v. rbind (econ_add sm v) (\<lambda>sm'.
     if sm' \<ge> initial then Inr (Months (i + 1)) else payback_scan initial (i + 1) sm' cs))"

definition payback_of :: "int vres list \<Rightarrow> int \<Rightarrow> payback vres" where
  "payback_of monthly initial =
     (if initial \<le> 0 then Inr (Months 0)
      else payback_scan initial 0 0 (take (nat PAYBACK_SCAN_MONTHS) monthly))"

section \<open>One scenario\<close>

record common =
  cm_variable :: "int need"
  cm_fixed :: "int need"
  cm_hours :: "int need"
  cm_ramp :: "int need"
  cm_initial :: "int need"

definition common_pick :: "economic_inputs \<Rightarrow> scenario \<Rightarrow> common vres" where
  "common_pick e s =
     rbind (need4 (pick (ic_acquisition (e_initial e)) s Lower f_ACQUISITION)
                  (pick (ic_setup (e_initial e)) s Lower f_SETUP)
                  (pick (ic_validation (e_initial e)) s Lower f_VALIDATION)
                  (pick (ic_working_capital (e_initial e)) s Lower f_WORKING_CAPITAL)
             (\<lambda>a b c d. rfold econ_add 0 [a, b, c, d])) (\<lambda>initial.
     Inr \<lparr>cm_variable = pick (e_variable_cost e) s Lower f_VARIABLE_COST,
          cm_fixed = pick (e_fixed_costs_per_month e) s Lower f_FIXED_COSTS,
          cm_hours = pick (e_owner_hours_per_month e) s Lower f_OWNER_HOURS,
          cm_ramp = pick (e_ramp_months e) s Lower f_RAMP,
          cm_initial = initial\<rparr>)"

definition run_rate :: "stream need \<Rightarrow> common \<Rightarrow> knobs \<Rightarrow> scenario \<Rightarrow> scenario_metrics vres" where
  "run_rate st cm k s =
     (let months = max (k_horizon k) PAYBACK_SCAN_MONTHS; h = nat (k_horizon k - 1) in
     rbind (need2 st (cm_ramp cm) (\<lambda>st ramp. stream_revenue st ramp months)) (\<lambda>revenue.
     rbind (need3 revenue (cm_variable cm) (cm_fixed cm)
       (\<lambda>revenue v f. rmapM (\<lambda>r. cash_of r v f) revenue)) (\<lambda>cash.
     rbind (need1 (cm_hours cm) (\<lambda>hours. econ_mul hours (k_rate k))) (\<lambda>owner_cost.
     rbind (need2 revenue (k_fx k)
       (\<lambda>revenue fx. rbind (index_res revenue h) (\<lambda>r. fx_conv_convert fx r Inflow))) (\<lambda>revenue_h.
     rbind (need2 cash (k_fx k)
       (\<lambda>cash fx. rbind (index_res cash h) (\<lambda>r. fx_conv_convert fx r Inflow))) (\<lambda>cash_h.
     rbind (need2 cash_h owner_cost (\<lambda>cash cost. raw128 (cash - cost))) (\<lambda>time_adjusted.
     rbind (need2 (cm_initial cm) (k_fx k)
       (\<lambda>initial fx. fx_conv_convert fx initial Outflow)) (\<lambda>initial_capital.
     rbind (need2 cash (cm_initial cm) (\<lambda>cash initial. payback_of (map Inr cash) initial)) (\<lambda>cash_payback.
     rbind (need4 cash owner_cost initial_capital (k_fx k)
       (\<lambda>cash cost initial fx.
          payback_of (map (\<lambda>v. rbind (fx_conv_convert fx v Inflow) (\<lambda>x. raw128 (x - cost))) cash)
            initial)) (\<lambda>ta_payback.
     rbind (as_metric revenue_h) (\<lambda>m_revenue.
     rbind (as_metric cash_h) (\<lambda>m_cash.
     rbind (as_metric owner_cost) (\<lambda>m_owner.
     rbind (as_metric time_adjusted) (\<lambda>m_ta.
     rbind (as_metric initial_capital) (\<lambda>m_initial.
     Inr \<lparr>sm_scenario = s,
          sm_monthly_revenue_collected = m_revenue,
          sm_monthly_cash_contribution = m_cash,
          sm_owner_hours_per_month = metric_of (cm_hours cm),
          sm_owner_time_cost = m_owner,
          sm_time_adjusted_contribution = m_ta,
          sm_initial_capital = m_initial,
          sm_payback = metric_of cash_payback,
          sm_payback_time_adjusted = metric_of ta_payback,
          sm_occupied_months = None\<rparr>)))))))))))))))"

record one_off_deal =
  od_contract :: "int need"
  od_win :: "int need"
  od_loss :: "int need"
  od_hours_total :: "int need"

definition occupied :: "int \<Rightarrow> int vres" where
  "occupied weeks = rbind (raw128 (weeks * 12)) (\<lambda>n. rbind (div_ceil n 52) (\<lambda>q. Inr (max q 1)))"

definition engagement :: "int \<Rightarrow> int \<Rightarrow> int \<Rightarrow> int \<Rightarrow> int vres list" where
  "engagement ramp occ during_ramp during =
     replicate (nat ramp) (Inr during_ramp) @ replicate (nat occ) (Inr during)"

definition need_map :: "('a \<Rightarrow> 'b vres) \<Rightarrow> 'a need \<Rightarrow> 'b need vres" where
  "need_map f n = (case n of Inl l \<Rightarrow> Inr (Inl l) | Inr v \<Rightarrow> rmap Inr (f v))"

definition one_off :: "one_off_deal \<Rightarrow> common \<Rightarrow> knobs \<Rightarrow> int need \<Rightarrow> scenario \<Rightarrow> scenario_metrics vres" where
  "one_off d cm k weeks s =
     rbind (need_map occupied weeks) (\<lambda>occ.
     rbind (need3 (od_contract d) (od_win d) (od_loss d) (\<lambda>contract win loss.
       rbind (econ_mul contract win) (\<lambda>p.
       rbind (raw128 (FULL - loss)) (\<lambda>keep.
       rbind (econ_mul p keep) (\<lambda>q. div_floor q (FULL * FULL)))))) (\<lambda>expected.
     rbind (need4 expected (cm_variable cm) (cm_fixed cm) occ (\<lambda>e v f occ.
       rbind (econ_mul e v) (\<lambda>m. rbind (div_ceil m FULL) (\<lambda>q.
       rbind (raw128 (e - q)) (\<lambda>d1. rbind (econ_mul f occ) (\<lambda>fo.
       rbind (raw128 (d1 - fo)) (\<lambda>net. div_floor net occ))))))) (\<lambda>cash_pm.
     rbind (need3 (cm_hours cm) (od_hours_total d) occ (\<lambda>h t occ.
       rbind (div_ceil t occ) (\<lambda>q. rbind (raw128 (h + q)) (\<lambda>x.
       ok_or (fits u32_ok x) OVERFLOW)))) (\<lambda>hours_pm.
     rbind (need3 (cm_hours cm) (od_hours_total d) occ (\<lambda>h t occ.
       rbind (econ_mul h (k_rate k)) (\<lambda>a. rbind (econ_mul t (k_rate k)) (\<lambda>b.
       rbind (div_ceil b occ) (\<lambda>q. econ_add a q))))) (\<lambda>owner_cost.
     rbind (need3 expected occ (k_fx k) (\<lambda>e occ fx.
       rbind (div_floor e occ) (\<lambda>q. fx_conv_convert fx q Inflow))) (\<lambda>revenue_pm.
     rbind (need2 cash_pm (k_fx k) (\<lambda>cash fx. fx_conv_convert fx cash Inflow)) (\<lambda>cash.
     rbind (need2 cash owner_cost (\<lambda>cash cost. raw128 (cash - cost))) (\<lambda>time_adjusted.
     rbind (need2 (cm_initial cm) (k_fx k)
       (\<lambda>initial fx. fx_conv_convert fx initial Outflow)) (\<lambda>initial_capital.
     rbind (need5 (cm_ramp cm) (cm_fixed cm) occ cash_pm (cm_initial cm)
       (\<lambda>ramp f occ cash initial.
          rbind (raw128 (- f)) (\<lambda>nf. payback_of (engagement ramp occ nf cash) initial))) (\<lambda>cash_payback.
     rbind (need7 (cm_ramp cm) (cm_fixed cm) (cm_hours cm) occ time_adjusted initial_capital (k_fx k)
       (\<lambda>ramp f h occ ta initial fx.
          rbind (raw128 (- f)) (\<lambda>nf. rbind (fx_conv_convert fx nf Inflow) (\<lambda>c.
          rbind (econ_mul h (k_rate k)) (\<lambda>hc. rbind (raw128 (c - hc)) (\<lambda>ramp_month.
          payback_of (engagement ramp occ ramp_month ta) initial)))))) (\<lambda>ta_payback.
     rbind (as_metric revenue_pm) (\<lambda>m_revenue.
     rbind (as_metric cash) (\<lambda>m_cash.
     rbind (as_metric owner_cost) (\<lambda>m_owner.
     rbind (as_metric time_adjusted) (\<lambda>m_ta.
     rbind (as_metric initial_capital) (\<lambda>m_initial.
     Inr \<lparr>sm_scenario = s,
          sm_monthly_revenue_collected = m_revenue,
          sm_monthly_cash_contribution = m_cash,
          sm_owner_hours_per_month = metric_of hours_pm,
          sm_owner_time_cost = m_owner,
          sm_time_adjusted_contribution = m_ta,
          sm_initial_capital = m_initial,
          sm_payback = metric_of cash_payback,
          sm_payback_time_adjusted = metric_of ta_payback,
          sm_occupied_months = Some (metric_of occ)\<rparr>))))))))))))))))"

text \<open>\<open>combine\<close>: per figure, the worse (downside) or better (upside) of the two delivery ends.\<close>

fun metric_both :: "('a \<Rightarrow> 'a \<Rightarrow> bool) \<Rightarrow> 'a metric \<Rightarrow> 'a metric \<Rightarrow> bool \<Rightarrow> 'a metric" where
  "metric_both le (Known x) (Known y) lowest =
     Known (if lowest then (if le x y then x else y) else (if le x y then y else x))"
| "metric_both le a b lowest = a"

definition combine :: "scenario_metrics \<Rightarrow> scenario_metrics \<Rightarrow> scenario \<Rightarrow> scenario_metrics" where
  "combine short long s =
     (let worst = (s = Downside); income = worst; cost = (\<not> worst) in
     \<lparr>sm_scenario = s,
      sm_monthly_revenue_collected = metric_both (\<le>)
        (sm_monthly_revenue_collected short) (sm_monthly_revenue_collected long) income,
      sm_monthly_cash_contribution = metric_both (\<le>)
        (sm_monthly_cash_contribution short) (sm_monthly_cash_contribution long) income,
      sm_owner_hours_per_month = metric_both (\<le>)
        (sm_owner_hours_per_month short) (sm_owner_hours_per_month long) cost,
      sm_owner_time_cost = metric_both (\<le>)
        (sm_owner_time_cost short) (sm_owner_time_cost long) cost,
      sm_time_adjusted_contribution = metric_both (\<le>)
        (sm_time_adjusted_contribution short) (sm_time_adjusted_contribution long) income,
      sm_initial_capital = metric_both (\<le>)
        (sm_initial_capital short) (sm_initial_capital long) cost,
      sm_payback = metric_both payback_le (sm_payback short) (sm_payback long) cost,
      sm_payback_time_adjusted = metric_both payback_le
        (sm_payback_time_adjusted short) (sm_payback_time_adjusted long) cost,
      sm_occupied_months = (if worst then sm_occupied_months long else sm_occupied_months short)\<rparr>)"

definition weeks_need :: "int option \<Rightarrow> int need" where
  "weeks_need w = (case w of Some v \<Rightarrow> Inr v | None \<Rightarrow> Inl {f_DELIVERY_WEEKS})"

text \<open>
  The stream of a model picked for one scenario. \<open>OneOff\<close> has no stream: \<open>scenario\<close> returns before it
  would build one.
\<close>

fun stream_of :: "revenue_model \<Rightarrow> scenario \<Rightarrow> stream need vres" where
  "stream_of (Recurring leads conv churn price loss) s =
     need5 (pick leads s Higher f_LEADS) (pick conv s Higher f_CONVERSION)
           (pick churn s Lower f_CHURN) (pick price s Higher f_PRICE)
           (pick loss s Lower f_COLLECTION_LOSS)
       (\<lambda>leads conv churn price loss.
          rbind (econ_mul leads conv) (\<lambda>a. rbind (econ_mul a MILLI) (\<lambda>b.
          rbind (div_floor b FULL) (\<lambda>won.
          rbind (raw128 (FULL - churn)) (\<lambda>keep. rbind (raw128 (FULL - loss)) (\<lambda>collect.
          Inr (SRecurring won keep price collect)))))))"
| "stream_of (Acquisition asset churn loss) s =
     need3 (pick asset s Higher f_ASSET_REVENUE) (pick churn s Lower f_CHURN)
           (pick loss s Lower f_COLLECTION_LOSS)
       (\<lambda>first churn loss.
          rbind (raw128 (FULL - churn)) (\<lambda>keep. rbind (raw128 (FULL - loss)) (\<lambda>collect.
          Inr (SDecay first keep collect))))"
| "stream_of (RevenueShare partner share loss) s =
     need3 (pick partner s Higher f_PARTNER_REVENUE) (pick share s Higher f_SHARE)
           (pick loss s Lower f_COLLECTION_LOSS)
       (\<lambda>partner share loss.
          rbind (econ_mul partner share) (\<lambda>p. rbind (raw128 (FULL - loss)) (\<lambda>keep.
          rbind (econ_mul p keep) (\<lambda>q. rbind (div_floor q (FULL * FULL)) (\<lambda>c.
          Inr (SFlat c))))))"
| "stream_of (OneOff _ _ _ _ _) s = Inl Panic"

fun scenario_of :: "economic_inputs \<Rightarrow> knobs \<Rightarrow> scenario \<Rightarrow> scenario_metrics vres" where
  "scenario_of e k s =
     rbind (common_pick e s) (\<lambda>cm.
     case e_revenue e of
       OneOff contract_value win_probability delivery_weeks owner_hours_total collection_loss \<Rightarrow>
         let deal = \<lparr>od_contract = pick contract_value s Higher f_CONTRACT_VALUE,
                     od_win = pick win_probability s Higher f_WIN_PROBABILITY,
                     od_loss = pick collection_loss s Lower f_COLLECTION_LOSS,
                     od_hours_total = pick owner_hours_total s Lower f_OWNER_HOURS_TOTAL\<rparr>;
             at = (\<lambda>w. one_off deal cm k (weeks_need w) s);
             est = a_value delivery_weeks
         in if s = Base then at (est_base est)
            else rbind (at (est_end est Favorable Lower)) (\<lambda>short.
                 rbind (at (est_end est Adverse Lower)) (\<lambda>long.
                 Inr (combine short long s)))
     | m \<Rightarrow> rbind (stream_of m s) (\<lambda>st. run_rate st cm k s))"

section \<open>The three scenarios\<close>

definition knobs_of :: "economic_inputs \<Rightarrow> operator_profile \<Rightarrow> knobs" where
  "knobs_of e p =
     \<lparr>k_rate = p_shadow_hourly_rate p, k_horizon = max (p_max_payback_months p) 1,
      k_fx = fx_for e (p_currency p)\<rparr>"

definition loss_in_profile_currency :: "fx_conv need \<Rightarrow> loss_range metric \<Rightarrow> loss_range metric vres" where
  "loss_in_profile_currency kfx native =
     (case native of
        Known r \<Rightarrow>
          rmap metric_of (need1 kfx (\<lambda>fx.
            rbind (fx_conv_convert fx (lr_low r) Inflow) (\<lambda>a. rbind (econ_minor a) (\<lambda>lo.
            rbind (fx_conv_convert fx (lr_high r) Outflow) (\<lambda>b. rbind (econ_minor b) (\<lambda>hi.
            Inr \<lparr>lr_low = lo, lr_high = hi\<rparr>))))))
      | MUnknown lacking \<Rightarrow> Inr (MUnknown lacking))"

definition scenarios_of ::
  "(opportunity \<Rightarrow> operator_profile \<Rightarrow> string vres) \<Rightarrow> opportunity \<Rightarrow> operator_profile \<Rightarrow> scenarios vres" where
  "scenarios_of hash opp p =
     (let e = o_economics opp; k = knobs_of e p in
     rbind (expected_loss (o_risk opp)) (\<lambda>native.
     rbind (loss_in_profile_currency (k_fx k) native) (\<lambda>loss.
     rbind (hash opp p) (\<lambda>sha.
     rbind (scenario_of e k Downside) (\<lambda>downside.
     rbind (scenario_of e k Base) (\<lambda>bs.
     rbind (scenario_of e k Upside) (\<lambda>upside.
     Inr \<lparr>sc_economics_version = ECONOMICS_VERSION,
          sc_inputs_sha256 = sha,
          sc_currency = p_currency p,
          sc_native_currency = e_currency e,
          sc_basis = PreTax,
          sc_run_rate_month = k_horizon k,
          sc_downside = downside,
          sc_base = bs,
          sc_upside = upside,
          sc_expected_loss = loss\<rparr>)))))))"

end
