(* ===== verification/Soe_Scenarios.thy ===== *)
theory Soe_Scenarios
  imports Soe_Economics
begin

text \<open>
  Two runs of the economics side by side: the figures of a better scenario are no worse than those
  of a worse one. The relation \<open>figures_le\<close> orders every figure its own way round (income up, cost
  down, payback sooner) and makes both runs know the same figures; it follows the structure of
  \<open>scenario_of\<close> step by step. A one-off deal is ordered in its monthly levels only
  (\<open>level_figures_le\<close>); what is not ordered there is shown by an example.
\<close>

section \<open>What the checked operations return\<close>

lemma econ_mul_Inr [simp]: "econ_mul a b = Inr x \<longleftrightarrow> i128_ok (a * b) \<and> x = a * b"
  by (auto simp: econ_mul_def ok_or_def fits_def)

lemma econ_add_Inr [simp]: "econ_add a b = Inr x \<longleftrightarrow> i128_ok (a + b) \<and> x = a + b"
  by (auto simp: econ_add_def ok_or_def fits_def)

lemma econ_minor_Inr [simp]: "econ_minor v = Inr x \<longleftrightarrow> i64_ok v \<and> x = v"
  by (auto simp: econ_minor_def ok_or_def fits_def)

lemma div_floor_InrD: "0 < d \<Longrightarrow> div_floor n d = Inr x \<Longrightarrow> x = n div d"
proof -
  assume d: "0 < d" and x: "div_floor n d = Inr x"
  have "n < 0 \<Longrightarrow> n div d = (if (- n) mod d = 0 then - ((- n) div d) else - ((- n) div d) - 1)"
    using zdiv_zminus1_eq_if [of d "- n"] d by simp
  with d x show ?thesis
    by (auto simp: div_floor_def Let_def sdiv_pos smod_pos split: if_splits)
qed

lemma div_ceil_InrD: "0 < d \<Longrightarrow> div_ceil n d = Inr x \<Longrightarrow> x = cdiv n d"
proof -
  assume d: "0 < d" and x: "div_ceil n d = Inr x"
  have "0 \<le> n \<Longrightarrow> (- n) div d = (if n mod d = 0 then - (n div d) else - (n div d) - 1)"
    using zdiv_zminus1_eq_if [of d n] d by simp
  with d x show ?thesis
    by (auto simp: div_ceil_def Let_def sdiv_pos smod_pos split: if_splits)
qed

lemma FULL_pos [simp]: "0 < FULL" "0 < FULL * FULL" "0 < MILLI * FULL"
  by (simp_all add: FULL_def BPS_FULL_def MILLI_def)

section \<open>Needs\<close>

definition lack :: "'a need \<Rightarrow> string set" where
  "lack n = (case n of Inl l \<Rightarrow> l | Inr _ \<Rightarrow> {})"

lemma lack_simps [simp]: "lack (Inl l) = l" "lack (Inr v) = {}"
  by (simp_all add: lack_def)

lemma need1_eq: "need1 na f = (case na of Inr a \<Rightarrow> rmap Inr (f a) | Inl l \<Rightarrow> Inr (Inl l))"
  by (cases na; cases "f (projr na)") (auto simp: need1_def need_def ctx_get_def)

lemma need2_eq:
  "need2 na nb f =
     (case (na, nb) of (Inr a, Inr b) \<Rightarrow> rmap Inr (f a b) | _ \<Rightarrow> Inr (Inl (lack na \<union> lack nb)))"
  by (cases na; cases nb; cases "f (projr na) (projr nb)") (auto simp: need2_def need_def ctx_get_def)

lemma need3_eq:
  "need3 na nb nc f =
     (case (na, nb, nc) of
        (Inr a, Inr b, Inr c) \<Rightarrow> rmap Inr (f a b c)
      | _ \<Rightarrow> Inr (Inl (lack na \<union> lack nb \<union> lack nc)))"
  by (cases na; cases nb; cases nc; cases "f (projr na) (projr nb) (projr nc)")
    (auto simp: need3_def need_def ctx_get_def)

lemma need4_eq:
  "need4 na nb nc nd f =
     (case (na, nb, nc, nd) of
        (Inr a, Inr b, Inr c, Inr d) \<Rightarrow> rmap Inr (f a b c d)
      | _ \<Rightarrow> Inr (Inl (lack na \<union> lack nb \<union> lack nc \<union> lack nd)))"
  by (cases na; cases nb; cases nc; cases nd;
      cases "f (projr na) (projr nb) (projr nc) (projr nd)")
    (auto simp: need4_def need_def ctx_get_def)

lemma need5_eq:
  "need5 na nb nc nd ne f =
     (case (na, nb, nc, nd, ne) of
        (Inr a, Inr b, Inr c, Inr d, Inr e) \<Rightarrow> rmap Inr (f a b c d e)
      | _ \<Rightarrow> Inr (Inl (lack na \<union> lack nb \<union> lack nc \<union> lack nd \<union> lack ne)))"
  by (cases na; cases nb; cases nc; cases nd; cases ne;
      cases "f (projr na) (projr nb) (projr nc) (projr nd) (projr ne)")
    (auto simp: need5_def need_def ctx_get_def)

lemma need7_eq:
  "need7 na nb nc nd ne ng nh f =
     (case (na, nb, nc, nd, ne, ng, nh) of
        (Inr a, Inr b, Inr c, Inr d, Inr e, Inr g, Inr h) \<Rightarrow> rmap Inr (f a b c d e g h)
      | _ \<Rightarrow> Inr (Inl (lack na \<union> lack nb \<union> lack nc \<union> lack nd \<union> lack ne \<union> lack ng \<union> lack nh)))"
  by (cases na; cases nb; cases nc; cases nd; cases ne; cases ng; cases nh;
      cases "f (projr na) (projr nb) (projr nc) (projr nd) (projr ne) (projr ng) (projr nh)")
    (auto simp: need7_def need_def ctx_get_def)

text \<open>
  Two needs are related when they lack the same fields, or both have a value and the values are
  related. Related inputs give related results.
\<close>

abbreviation need_rel :: "('a \<Rightarrow> 'b \<Rightarrow> bool) \<Rightarrow> 'a need \<Rightarrow> 'b need \<Rightarrow> bool" where
  "need_rel R \<equiv> rel_sum (=) R"

lemma need_rel_cases:
  assumes "need_rel R n n'"
  obtains l where "n = Inl l" "n' = Inl l" | a b where "n = Inr a" "n' = Inr b" "R a b"
  using assms by (cases n; cases n') auto

lemma res_rel_rmap_Inr: "res_rel R m m' \<Longrightarrow> res_rel (need_rel R) (rmap Inr m) (rmap Inr m')"
  by (auto simp: res_rel_def rmap_eq_Inr)

lemma need1_rel:
  assumes "need_rel R na na'" and "\<And>a a'. R a a' \<Longrightarrow> res_rel T (f a) (f' a')"
  shows "res_rel (need_rel T) (need1 na f) (need1 na' f')"
  by (rule need_rel_cases [OF assms(1)]) (auto simp: need1_eq assms(2) res_rel_rmap_Inr)

lemma need2_rel:
  assumes "need_rel R na na'" "need_rel S nb nb'"
    and "\<And>a a' b b'. R a a' \<Longrightarrow> S b b' \<Longrightarrow> res_rel T (f a b) (f' a' b')"
  shows "res_rel (need_rel T) (need2 na nb f) (need2 na' nb' f')"
  by (rule need_rel_cases [OF assms(1)]; rule need_rel_cases [OF assms(2)])
    (auto simp: need2_eq assms(3) res_rel_rmap_Inr)

lemma need3_rel:
  assumes "need_rel R na na'" "need_rel S nb nb'" "need_rel U nc nc'"
    and "\<And>a a' b b' c c'. R a a' \<Longrightarrow> S b b' \<Longrightarrow> U c c' \<Longrightarrow> res_rel T (f a b c) (f' a' b' c')"
  shows "res_rel (need_rel T) (need3 na nb nc f) (need3 na' nb' nc' f')"
  by (rule need_rel_cases [OF assms(1)]; rule need_rel_cases [OF assms(2)];
      rule need_rel_cases [OF assms(3)])
    (auto simp: need3_eq assms(4) res_rel_rmap_Inr)

lemma need4_rel:
  assumes "need_rel R na na'" "need_rel S nb nb'" "need_rel U nc nc'" "need_rel V nd nd'"
    and "\<And>a a' b b' c c' d d'. R a a' \<Longrightarrow> S b b' \<Longrightarrow> U c c' \<Longrightarrow> V d d' \<Longrightarrow>
      res_rel T (f a b c d) (f' a' b' c' d')"
  shows "res_rel (need_rel T) (need4 na nb nc nd f) (need4 na' nb' nc' nd' f')"
  by (rule need_rel_cases [OF assms(1)]; rule need_rel_cases [OF assms(2)];
      rule need_rel_cases [OF assms(3)]; rule need_rel_cases [OF assms(4)])
    (auto simp: need4_eq assms(5) res_rel_rmap_Inr)

lemma need5_rel:
  assumes "need_rel R na na'" "need_rel S nb nb'" "need_rel U nc nc'" "need_rel V nd nd'"
    "need_rel W ne ne'"
    and "\<And>a a' b b' c c' d d' e e'. R a a' \<Longrightarrow> S b b' \<Longrightarrow> U c c' \<Longrightarrow> V d d' \<Longrightarrow> W e e' \<Longrightarrow>
      res_rel T (f a b c d e) (f' a' b' c' d' e')"
  shows "res_rel (need_rel T) (need5 na nb nc nd ne f) (need5 na' nb' nc' nd' ne' f')"
  by (rule need_rel_cases [OF assms(1)]; rule need_rel_cases [OF assms(2)];
      rule need_rel_cases [OF assms(3)]; rule need_rel_cases [OF assms(4)];
      rule need_rel_cases [OF assms(5)])
    (auto simp: need5_eq assms(6) res_rel_rmap_Inr)

section \<open>Streams\<close>

abbreviation nnle :: "int \<Rightarrow> int \<Rightarrow> bool" where
  "nnle x y \<equiv> 0 \<le> x \<and> x \<le> y"

fun stream_le :: "stream \<Rightarrow> stream \<Rightarrow> bool" where
  "stream_le (SRecurring w k p c) (SRecurring w' k' p' c') =
     (nnle w w' \<and> nnle k k' \<and> nnle p p' \<and> nnle c c')"
| "stream_le (SDecay f k c) (SDecay f' k' c') = (nnle f f' \<and> nnle k k' \<and> nnle c c')"
| "stream_le (SFlat c) (SFlat c') = nnle c c'"
| "stream_le _ _ = False"

lemma nnle_mul: "nnle a a' \<Longrightarrow> nnle b b' \<Longrightarrow> nnle (a * b) (a' * b')"
  by (auto intro: mult_mono)

lemma nnle_div: "0 < d \<Longrightarrow> nnle a a' \<Longrightarrow> nnle (a div d) (a' div d)"
  by (auto simp: zdiv_mono1 pos_imp_zdiv_nonneg_iff)

lemma nnle_add: "nnle a a' \<Longrightarrow> nnle b b' \<Longrightarrow> nnle (a + b) (a' + b')"
  by auto

lemma mul_rel [res_rel_intros]:
  "nnle a a' \<Longrightarrow> nnle b b' \<Longrightarrow> res_rel nnle (econ_mul a b) (econ_mul a' b')"
  using nnle_mul [of a a' b b'] by (auto simp: res_rel_def)

lemma add_rel [res_rel_intros]:
  "nnle a a' \<Longrightarrow> nnle b b' \<Longrightarrow> res_rel nnle (econ_add a b) (econ_add a' b')"
  by (auto simp: res_rel_def)

lemma div_floor_rel [res_rel_intros]:
  assumes "0 < d" "nnle a a'"
  shows "res_rel nnle (div_floor a d) (div_floor a' d)"
  unfolding res_rel_def using assms nnle_div div_floor_InrD by metis

definition step_le :: "int \<times> int \<Rightarrow> int \<times> int \<Rightarrow> bool" where
  "step_le x y \<longleftrightarrow> nnle (fst x) (fst y) \<and> nnle (snd x) (snd y)"

text \<open>A recurring stream has no customers before its ramp ends.\<close>

definition ramp_empty :: "stream \<Rightarrow> int \<Rightarrow> int \<Rightarrow> int \<Rightarrow> bool" where
  "ramp_empty st ramp m bs \<longleftrightarrow>
     (case st of SRecurring _ _ _ _ \<Rightarrow> m \<le> ramp \<longrightarrow> bs = 0 | _ \<Rightarrow> True)"

lemma month_step_ramp_empty:
  "ramp_empty st ramp m bs \<Longrightarrow> month_step st ramp m bs = Inr (bs', r) \<Longrightarrow> ramp_empty st ramp (m + 1) bs'"
  by (cases st) (auto simp: ramp_empty_def split: if_splits)

lemma month_step_nonneg:
  assumes "stream_le st st" "0 \<le> bs" "month_step st ramp m bs = Inr (bs', r)"
  shows "0 \<le> bs' \<and> 0 \<le> r"
proof (cases st)
  case (SRecurring w k p c)
  show ?thesis
  proof (cases "m > ramp")
    case True
    with assms SRecurring obtain q where q: "div_floor (bs * k) FULL = Inr q" "bs' = q + w"
      and r: "div_floor (bs' * p * c) (MILLI * FULL) = Inr r"
      by (auto simp: rbind_eq_Inr)
    have "q = bs * k div FULL" "r = bs' * p * c div (MILLI * FULL)"
      using q r div_floor_InrD FULL_pos by blast+
    with q SRecurring assms(1,2) show ?thesis
      by (auto simp: pos_imp_zdiv_nonneg_iff)
  qed (use assms SRecurring in auto)
next
  case (SDecay f k c)
  obtain b where b: "(if m > 1 then rbind (econ_mul bs k) (\<lambda>m. div_floor m FULL) else Inr bs) = Inr b"
    and bs': "bs' = b"
    and r: "(if m > ramp then div_floor (b * c) FULL else Inr 0) = Inr r"
    using assms(3) SDecay by (auto simp: rbind_eq_Inr split: if_splits)
  have "0 \<le> b"
    using b assms(1,2) SDecay FULL_pos div_floor_InrD [of FULL "bs * k"]
    by (auto simp: rbind_eq_Inr pos_imp_zdiv_nonneg_iff split: if_splits)
  moreover have "0 \<le> r"
    using r \<open>0 \<le> b\<close> assms(1) SDecay div_floor_InrD [of FULL "b * c"]
    by (auto simp: pos_imp_zdiv_nonneg_iff split: if_splits)
  ultimately show ?thesis using bs' by simp
qed (use assms in \<open>auto split: if_splits\<close>)

lemma stream_le_refl: "stream_le st st' \<Longrightarrow> stream_le st' st' \<and> stream_le st st"
  by (cases st; cases st') auto

lemma month_step_rel:
  assumes le: "stream_le st st'" "nnle bs bs'" and ramp: "ramp' \<le> ramp"
    and empty: "ramp_empty st ramp m bs"
  shows "res_rel step_le (month_step st ramp m bs) (month_step st' ramp' m bs')"
proof (cases st)
  case (SRecurring w k p c)
  then obtain w' k' p' c' where st': "st' = SRecurring w' k' p' c'"
    using le by (cases st') auto
  show ?thesis
  proof (cases "m > ramp")
    case True
    with le SRecurring st' ramp show ?thesis
      by (auto simp: step_le_def intro!: res_rel_intros)
  next
    case False
    with SRecurring empty have "bs = 0" by (simp add: ramp_empty_def)
    with False SRecurring show ?thesis
      using month_step_nonneg [of st' bs' ramp' m] stream_le_refl [OF le(1)] le(2)
      by (auto simp: res_rel_def step_le_def)
  qed
next
  case (SDecay f k c)
  then obtain f' k' c' where st': "st' = SDecay f' k' c'"
    using le by (cases st') auto
  have "res_rel nnle (if m > 1 then rbind (econ_mul bs k) (\<lambda>m. div_floor m FULL) else Inr bs)
      (if m > 1 then rbind (econ_mul bs' k') (\<lambda>m. div_floor m FULL) else Inr bs')"
    using le SDecay st' by (auto intro!: res_rel_intros)
  then show ?thesis
    unfolding SDecay st' month_step.simps
  proof (rule res_rel_bind)
    fix b b' assume b: "nnle b b'"
    have "m > ramp' \<Longrightarrow> \<not> m > ramp \<Longrightarrow> rbind (econ_mul b' c') (\<lambda>c. rbind (div_floor c FULL) (\<lambda>r. Inr (b', r))) = Inr y
      \<Longrightarrow> step_le (b, 0) y" for y
      using b le SDecay st' div_floor_InrD [of FULL "b' * c'"]
      by (auto simp: rbind_eq_Inr step_le_def pos_imp_zdiv_nonneg_iff)
    moreover have "c \<le> c'" "0 \<le> c" using le SDecay st' by auto
    ultimately show "res_rel step_le
        (if ramp < m then rbind (econ_mul b c) (\<lambda>c. rbind (div_floor c FULL) (\<lambda>r. Inr (b, r))) else Inr (b, 0))
        (if ramp' < m then rbind (econ_mul b' c') (\<lambda>c. rbind (div_floor c FULL) (\<lambda>r. Inr (b', r))) else Inr (b', 0))"
      using b ramp by (auto simp: step_le_def res_rel_def [of _ "Inr _"] intro!: res_rel_intros)
  qed
next
  case (SFlat c)
  with le ramp show ?thesis by (cases st') (auto simp: step_le_def)
qed

lemma revenue_from_rel:
  assumes "stream_le st st'" "nnle bs bs'" "ramp' \<le> ramp" "ramp_empty st ramp m bs"
  shows "res_rel (list_all2 nnle) (revenue_from st ramp m n bs) (revenue_from st' ramp' m n bs')"
  using assms(2,4)
proof (induction n arbitrary: m bs bs')
  case 0
  show ?case by simp
next
  case (Suc n)
  have "res_rel (\<lambda>x y. step_le x y \<and> ramp_empty st ramp (m + 1) (fst x))
      (month_step st ramp m bs) (month_step st' ramp' m bs')"
    using month_step_rel [OF assms(1) Suc.prems(1) assms(3) Suc.prems(2)]
      month_step_ramp_empty [OF Suc.prems(2)]
    by (auto simp: res_rel_def)
  then show ?case
    unfolding revenue_from.simps
  proof (rule res_rel_bind)
    fix x y assume xy: "step_le x y \<and> ramp_empty st ramp (m + 1) (fst x)"
    obtain b r where x: "x = (b, r)" by (cases x)
    obtain b' r' where y: "y = (b', r')" by (cases y)
    show "res_rel (list_all2 nnle)
        (case x of (bs', r) \<Rightarrow> rbind (revenue_from st ramp (m + 1) n bs') (\<lambda>rs. Inr (r # rs)))
        (case y of (bs', r) \<Rightarrow> rbind (revenue_from st' ramp' (m + 1) n bs') (\<lambda>rs. Inr (r # rs)))"
      using xy by (auto simp: x y step_le_def intro!: res_rel_bind [OF Suc.IH])
  qed
qed

lemma stream_revenue_rel:
  assumes "stream_le st st'" "ramp' \<le> ramp"
  shows "res_rel (list_all2 nnle) (stream_revenue st ramp n) (stream_revenue st' ramp' n)"
  unfolding stream_revenue_def
  by (rule revenue_from_rel) (use assms in \<open>cases st; cases st'; auto simp: ramp_empty_def\<close>)+

section \<open>Cash, conversion and payback\<close>

lemma minus_cdiv: "0 < d \<Longrightarrow> r - cdiv (r * v) d = r * (d - v) div d"
proof -
  assume d: "0 < d"
  have "r * (d - v) = - (r * v) + r * d" by (simp add: algebra_simps)
  then have "r * (d - v) div d = - (r * v) div d + r"
    using d div_mult_self1 [of d "- (r * v)" r] by simp
  then show ?thesis by simp
qed

lemma cash_of_InrD:
  assumes "cash_of r v f = Inr x"
  shows "x = r * (FULL - v) div FULL - f"
proof -
  obtain q where q: "div_ceil (r * v) FULL = Inr q" and x: "x = r - q - f"
    using assms unfolding cash_of_def by (auto simp: rbind_eq_Inr raw128_def split: if_splits)
  have "q = cdiv (r * v) FULL"
    using q by (rule div_ceil_InrD [OF FULL_pos(1)])
  with x minus_cdiv [OF FULL_pos(1), of r v] show ?thesis by linarith
qed

abbreviation costs :: "int \<Rightarrow> int \<Rightarrow> bool" where
  "costs x y \<equiv> 0 \<le> y \<and> y \<le> x"

lemma cash_of_rel:
  assumes "nnle r r'" "costs v v'" "v \<le> FULL" "f' \<le> f"
  shows "res_rel (\<le>) (cash_of r v f) (cash_of r' v' f')"
proof -
  have "r * (FULL - v) div FULL \<le> r' * (FULL - v') div FULL"
    using assms by (intro zdiv_mono1 mult_mono) auto
  with assms(4) show ?thesis by (auto simp: res_rel_def dest!: cash_of_InrD)
qed

definition fx_conv_ok :: "fx_conv \<Rightarrow> bool" where
  "fx_conv_ok f \<longleftrightarrow> (case fc_rate f of None \<Rightarrow> True | Some r \<Rightarrow> fx_ok r \<and> cp_base (fx_pair r) = fc_native f)"

definition conv_val :: "fx_conv \<Rightarrow> int \<Rightarrow> flow \<Rightarrow> int" where
  "conv_val f a fl = (case fc_rate f of None \<Rightarrow> a | Some r \<Rightarrow> qdiv fl (a * fx_rate_e8 r) RATE_SCALE)"

lemma conv_InrD: "fx_conv_ok f \<Longrightarrow> fx_conv_convert f a fl = Inr x \<Longrightarrow> x = conv_val f a fl"
  by (auto simp: fx_conv_convert_def fx_conv_ok_def conv_val_def rbind_eq_Inr fx_convert_eq Let_def
      split: option.splits if_splits)

lemma conv_val_mono: "fx_conv_ok f \<Longrightarrow> a \<le> b \<Longrightarrow> conv_val f a fl \<le> conv_val f b fl"
  by (auto simp: conv_val_def fx_conv_ok_def fx_ok_def RATE_SCALE_def intro!: qdiv_mono mult_right_mono
      split: option.splits)

lemma conv_rel:
  "fx_conv_ok f \<Longrightarrow> a \<le> b \<Longrightarrow> res_rel (\<le>) (fx_conv_convert f a fl) (fx_conv_convert f b fl)"
  unfolding res_rel_def by (metis conv_InrD conv_val_mono)

lemma conv_rel_flip:
  "fx_conv_ok f \<Longrightarrow> b \<le> a \<Longrightarrow> res_rel (\<ge>) (fx_conv_convert f a fl) (fx_conv_convert f b fl)"
  unfolding res_rel_def by (metis conv_InrD conv_val_mono)

lemma payback_scan_ge: "payback_scan initial i sm cs = Inr (Months j) \<Longrightarrow> i + 1 \<le> j"
  by (induction initial i sm cs rule: payback_scan.induct)
    (fastforce simp: rbind_eq_Inr split: if_splits)+

abbreviation sooner :: "payback \<Rightarrow> payback \<Rightarrow> bool" where
  "sooner p p' \<equiv> payback_le p' p"

lemma payback_scan_rel:
  assumes "list_all2 (res_rel (\<le>)) cs cs'" "initial' \<le> initial"
  shows "sm \<le> sm' \<Longrightarrow> res_rel sooner (payback_scan initial i sm cs) (payback_scan initial' i sm' cs')"
  using assms(1)
proof (induction cs arbitrary: cs' i sm sm')
  case Nil
  then show ?case by simp
next
  case (Cons c cs)
  then obtain c' cs2 where cs': "cs' = c' # cs2" and c: "res_rel (\<le>) c c'"
    and cs2: "list_all2 (res_rel (\<le>)) cs cs2"
    by (auto simp: list_all2_Cons1)
  show ?case
    unfolding cs' payback_scan.simps
  proof (rule res_rel_bind [OF c], rule res_rel_bind [where R = "(\<le>)"])
    fix v v' :: int assume "v \<le> v'"
    with Cons.prems(1) show "res_rel (\<le>) (econ_add sm v) (econ_add sm' v')"
      by (auto simp: res_rel_def)
  next
    fix x y :: int assume xy: "x \<le> y"
    have late: "payback_scan initial (i + 1) x cs = Inr p \<Longrightarrow> payback_le (Months (i + 1)) p" for p
      using payback_scan_ge [of initial "i + 1" x cs] by (cases p) fastforce+
    show "res_rel sooner
        (if initial \<le> x then Inr (Months (i + 1)) else payback_scan initial (i + 1) x cs)
        (if initial' \<le> y then Inr (Months (i + 1)) else payback_scan initial' (i + 1) y cs2)"
      using Cons.IH [OF xy cs2, of "i + 1"] xy assms(2) late by (auto simp: res_rel_def)
  qed
qed

lemma payback_of_months_nonneg: "payback_of cs initial = Inr p \<Longrightarrow> payback_le (Months 0) p"
  using payback_scan_ge [of initial 0 0] by (cases p) (fastforce simp: payback_of_def split: if_splits)+

lemma payback_of_rel:
  assumes "list_all2 (res_rel (\<le>)) cs cs'" "initial' \<le> initial"
  shows "res_rel sooner (payback_of cs initial) (payback_of cs' initial')"
proof (cases "initial' \<le> 0")
  case True
  then show ?thesis
    using payback_of_months_nonneg by (auto simp: payback_of_def [of cs'] res_rel_def)
next
  case False
  with assms(2) have "\<not> initial \<le> 0" by simp
  with False show ?thesis
    unfolding payback_of_def
    using payback_scan_rel [OF list_all2_takeI [OF assms(1)] assms(2), of 0 0] by simp
qed

section \<open>Inputs picked for two scenarios\<close>

fun scen_le :: "scenario \<Rightarrow> scenario \<Rightarrow> bool" where
  "scen_le Downside _ = True"
| "scen_le Base Downside = False"
| "scen_le Base _ = True"
| "scen_le Upside s = (s = Upside)"

lemma pick_higher:
  "est_ok P (a_value a) \<Longrightarrow> scen_le s s' \<Longrightarrow>
   need_rel (\<lambda>x y. x \<le> y \<and> P x \<and> P y) (pick a s Higher f) (pick a s' Higher f)"
  by (cases "a_value a"; cases s; cases s') (auto simp: pick_def est_pick_def)

lemma pick_lower:
  "est_ok P (a_value a) \<Longrightarrow> scen_le s s' \<Longrightarrow>
   need_rel (\<lambda>x y. y \<le> x \<and> P x \<and> P y) (pick a s Lower f) (pick a s' Lower f)"
  by (cases "a_value a"; cases s; cases s') (auto simp: pick_def est_pick_def)

definition common_le :: "common \<Rightarrow> common \<Rightarrow> bool" where
  "common_le cm cm' \<longleftrightarrow>
     need_rel (\<lambda>x y. 0 \<le> y \<and> y \<le> x \<and> x \<le> FULL) (cm_variable cm) (cm_variable cm') \<and>
     need_rel costs (cm_fixed cm) (cm_fixed cm') \<and>
     need_rel costs (cm_hours cm) (cm_hours cm') \<and>
     need_rel costs (cm_ramp cm) (cm_ramp cm') \<and>
     need_rel costs (cm_initial cm) (cm_initial cm')"

lemma costs_add_rel [res_rel_intros]:
  "costs a a' \<Longrightarrow> costs b b' \<Longrightarrow> res_rel costs (econ_add a b) (econ_add a' b')"
  by (auto simp: res_rel_def)

abbreviation share_costs :: "int \<Rightarrow> int \<Rightarrow> bool" where
  "share_costs x y \<equiv> 0 \<le> y \<and> y \<le> x \<and> x \<le> FULL"

text \<open>What one input gives two scenarios, by its kind and by which side is better.\<close>

lemma pick_up:
  assumes "scen_le s s'" "est_ok P (a_value a)" "\<And>x. P x \<Longrightarrow> 0 \<le> x"
  shows "need_rel nnle (pick a s Higher f) (pick a s' Higher f)"
  by (rule sum.rel_mono_strong [OF pick_higher [OF assms(2,1)]]) (auto dest: assms(3))

lemma pick_down:
  assumes "scen_le s s'" "est_ok P (a_value a)" "\<And>x. P x \<Longrightarrow> 0 \<le> x"
  shows "need_rel costs (pick a s Lower f) (pick a s' Lower f)"
  by (rule sum.rel_mono_strong [OF pick_lower [OF assms(2,1)]]) (auto dest: assms(3))

lemma input_kinds:
  "amount_ok x \<Longrightarrow> 0 \<le> x" "u32_ok x \<Longrightarrow> 0 \<le> x" "bps_ok x \<Longrightarrow> 0 \<le> x" "bps_ok x \<Longrightarrow> x \<le> FULL"
  by (simp_all add: amount_ok_def u32_ok_def bps_ok_def FULL_def)

lemma share_down:
  assumes "scen_le s s'" "input_ok (IShare a)"
  shows "need_rel share_costs (pick a s Lower f) (pick a s' Lower f)"
  using assms by (intro sum.rel_mono_strong [OF pick_lower [of bps_ok]]) (auto dest: input_kinds)

lemma pick_rels:
  assumes "scen_le s s'"
  shows
    amount_up: "input_ok (IAmount a) \<Longrightarrow> need_rel nnle (pick a s Higher f) (pick a s' Higher f)"
    and count_up: "input_ok (ICount a) \<Longrightarrow> need_rel nnle (pick a s Higher f) (pick a s' Higher f)"
    and share_up: "input_ok (IShare a) \<Longrightarrow> need_rel nnle (pick a s Higher f) (pick a s' Higher f)"
    and amount_down: "input_ok (IAmount a) \<Longrightarrow> need_rel costs (pick a s Lower f) (pick a s' Lower f)"
    and count_down: "input_ok (ICount a) \<Longrightarrow> need_rel costs (pick a s Lower f) (pick a s' Lower f)"
  by (simp_all only: input_ok.simps)
    (blast intro: pick_up [OF assms] pick_down [OF assms] input_kinds)+

lemma common_pick_rel:
  assumes "econ_ok e" "scen_le s s'"
  shows "res_rel common_le (common_pick e s) (common_pick e s')"
proof -
  note am = amount_down [OF assms(2)] and ct = count_down [OF assms(2)] and sh = share_down [OF assms(2)]
  have e: "input_ok (IShare (e_variable_cost e))" "input_ok (IAmount (e_fixed_costs_per_month e))"
    "input_ok (ICount (e_owner_hours_per_month e))" "input_ok (ICount (e_ramp_months e))"
    "input_ok (IAmount (ic_acquisition (e_initial e)))" "input_ok (IAmount (ic_setup (e_initial e)))"
    "input_ok (IAmount (ic_validation (e_initial e)))"
    "input_ok (IAmount (ic_working_capital (e_initial e)))"
    using assms(1) by (simp_all add: econ_ok_def econ_inputs_def)
  have initial: "res_rel (need_rel costs)
      (need4 (pick (ic_acquisition (e_initial e)) s Lower f_ACQUISITION)
        (pick (ic_setup (e_initial e)) s Lower f_SETUP)
        (pick (ic_validation (e_initial e)) s Lower f_VALIDATION)
        (pick (ic_working_capital (e_initial e)) s Lower f_WORKING_CAPITAL)
        (\<lambda>a b c d. rfold econ_add 0 [a, b, c, d]))
      (need4 (pick (ic_acquisition (e_initial e)) s' Lower f_ACQUISITION)
        (pick (ic_setup (e_initial e)) s' Lower f_SETUP)
        (pick (ic_validation (e_initial e)) s' Lower f_VALIDATION)
        (pick (ic_working_capital (e_initial e)) s' Lower f_WORKING_CAPITAL)
        (\<lambda>a b c d. rfold econ_add 0 [a, b, c, d]))"
    by (rule need4_rel [OF am [OF e(5)] am [OF e(6)] am [OF e(7)] am [OF e(8)]])
      (auto simp: res_rel_def rbind_eq_Inr)
  show ?thesis
    unfolding common_pick_def
    by (rule res_rel_bind [OF initial]) (simp add: common_le_def am [OF e(2)] ct [OF e(3)] ct [OF e(4)] sh [OF e(1)])
qed

section \<open>The figures of two scenarios\<close>

definition knobs_ok :: "knobs \<Rightarrow> bool" where
  "knobs_ok k \<longleftrightarrow> 0 \<le> k_rate k \<and> 1 \<le> k_horizon k \<and>
     (case k_fx k of Inl _ \<Rightarrow> True | Inr fx \<Rightarrow> fx_conv_ok fx)"

text \<open>
  Scenario \<open>m'\<close> is at least as good as \<open>m\<close>: both know the same figures, and each one both know is
  ordered the right way round (income up, cost down, payback sooner).
\<close>

definition level_figures_le :: "scenario_metrics \<Rightarrow> scenario_metrics \<Rightarrow> bool" where
  "level_figures_le m m' \<longleftrightarrow>
     rel_metric (\<le>) (sm_monthly_revenue_collected m) (sm_monthly_revenue_collected m') \<and>
     rel_metric (\<le>) (sm_monthly_cash_contribution m) (sm_monthly_cash_contribution m') \<and>
     rel_metric (\<ge>) (sm_owner_hours_per_month m) (sm_owner_hours_per_month m') \<and>
     rel_metric (\<ge>) (sm_owner_time_cost m) (sm_owner_time_cost m') \<and>
     rel_metric (\<ge>) (sm_initial_capital m) (sm_initial_capital m')"

definition figures_le :: "scenario_metrics \<Rightarrow> scenario_metrics \<Rightarrow> bool" where
  "figures_le m m' \<longleftrightarrow> level_figures_le m m' \<and>
     rel_metric (\<le>) (sm_time_adjusted_contribution m) (sm_time_adjusted_contribution m') \<and>
     rel_metric sooner (sm_payback m) (sm_payback m') \<and>
     rel_metric sooner (sm_payback_time_adjusted m) (sm_payback_time_adjusted m')"

lemma metric_of_rel: "need_rel R n n' \<Longrightarrow> rel_metric R (metric_of n) (metric_of n')"
  by (erule need_rel_cases) (auto simp: metric_of_def)

lemma as_metric_rel:
  "need_rel R n n' \<Longrightarrow> res_rel (rel_metric R) (as_metric n) (as_metric n')"
  by (erule need_rel_cases)
    (auto simp: as_metric_def need1_eq res_rel_def rmap_eq_Inr metric_of_def)

lemma metric_costs: "rel_metric costs m m' \<Longrightarrow> rel_metric (\<ge>) m m'"
  by (rule metric.rel_mono_strong [where R = costs]) auto

lemma fx_need_rel:
  "knobs_ok k \<Longrightarrow> need_rel (\<lambda>f f'. f' = f \<and> fx_conv_ok f) (k_fx k) (k_fx k)"
  by (cases "k_fx k") (auto simp: knobs_ok_def)

lemma index_rel:
  "list_all2 R xs ys \<Longrightarrow> res_rel R (index_res xs i) (index_res ys i)"
  by (auto simp: res_rel_def index_res_def list_all2_nthD split: if_splits)

lemma raw_diff_rel: "a \<le> a' \<Longrightarrow> b' \<le> b \<Longrightarrow> res_rel (\<le>) (raw128 (a - b)) (raw128 (a' - b'))"
  by (auto simp: res_rel_def)

lemma full_minus_rel: "share_costs x y \<Longrightarrow> res_rel nnle (raw128 (FULL - x)) (raw128 (FULL - y))"
  by (auto simp: res_rel_def)

lemma nnle_refl: "0 \<le> x \<Longrightarrow> nnle x x"
  by simp

lemma stream_of_rel:
  assumes "list_all (\<lambda>(f, i). input_ok i) (revenue_inputs m)" "scen_le s s'"
  shows "res_rel (need_rel stream_le) (stream_of m s) (stream_of m s')"
proof (cases m)
  case (Recurring leads conv churn price loss)
  with assms(1) have i: "input_ok (ICount leads)" "input_ok (IShare conv)" "input_ok (IShare churn)"
    "input_ok (IAmount price)" "input_ok (IShare loss)"
    by simp_all
  show ?thesis
    unfolding Recurring stream_of.simps
  proof (rule need5_rel [OF count_up [OF assms(2) i(1)] share_up [OF assms(2) i(2)]
        share_down [OF assms(2) i(3)] amount_up [OF assms(2) i(4)] share_down [OF assms(2) i(5)]])
    fix l l' c c' ch ch' p p' lo lo'
    assume "nnle l l'" "nnle c c'" "share_costs ch ch'" "nnle p p'" "share_costs lo lo'"
    then show "res_rel stream_le
      (rbind (econ_mul l c) (\<lambda>a. rbind (econ_mul a MILLI) (\<lambda>b. rbind (div_floor b FULL) (\<lambda>won.
        rbind (raw128 (FULL - ch)) (\<lambda>keep. rbind (raw128 (FULL - lo)) (\<lambda>collect.
        Inr (SRecurring won keep p collect)))))))
      (rbind (econ_mul l' c') (\<lambda>a. rbind (econ_mul a MILLI) (\<lambda>b. rbind (div_floor b FULL) (\<lambda>won.
        rbind (raw128 (FULL - ch')) (\<lambda>keep. rbind (raw128 (FULL - lo')) (\<lambda>collect.
        Inr (SRecurring won keep p' collect)))))))"
      by (intro res_rel_bind [OF mul_rel] res_rel_bind [OF div_floor_rel] res_rel_bind [OF full_minus_rel])
        (auto simp: MILLI_def)
  qed
next
  case (Acquisition asset churn loss)
  with assms(1) have i: "input_ok (IAmount asset)" "input_ok (IShare churn)" "input_ok (IShare loss)"
    by simp_all
  show ?thesis
    unfolding Acquisition stream_of.simps
    by (rule need3_rel [OF amount_up [OF assms(2) i(1)] share_down [OF assms(2) i(2)]
          share_down [OF assms(2) i(3)]])
      (intro res_rel_bind [OF full_minus_rel]; simp)
next
  case (RevenueShare partner share loss)
  with assms(1) have i: "input_ok (IAmount partner)" "input_ok (IShare share)" "input_ok (IShare loss)"
    by simp_all
  show ?thesis
    unfolding RevenueShare stream_of.simps
    by (rule need3_rel [OF amount_up [OF assms(2) i(1)] share_up [OF assms(2) i(2)]
          share_down [OF assms(2) i(3)]])
      (intro res_rel_bind [OF mul_rel] res_rel_bind [OF div_floor_rel] res_rel_bind [OF full_minus_rel]; simp)
qed simp

lemma mul_costs_rel: "costs a a' \<Longrightarrow> 0 \<le> r \<Longrightarrow> res_rel costs (econ_mul a r) (econ_mul a' r)"
  by (auto simp: res_rel_def mult_right_mono)

lemma map_conv_rel:
  assumes "fx_conv_ok fx" "cost' \<le> cost" "list_all2 (\<le>) xs ys"
  shows "list_all2 (res_rel (\<le>))
    (map (\<lambda>v. rbind (fx_conv_convert fx v fl) (\<lambda>x. raw128 (x - cost))) xs)
    (map (\<lambda>v. rbind (fx_conv_convert fx v fl) (\<lambda>x. raw128 (x - cost'))) ys)"
  using assms(3)
  by (auto simp: list_all2_map1 list_all2_map2 elim!: list_all2_mono
      intro!: res_rel_bind [OF conv_rel [OF assms(1)]] raw_diff_rel assms(2))

lemma run_rate_rel:
  assumes st: "need_rel stream_le st st'" and cm: "common_le cm cm'" and k: "knobs_ok k"
  shows "res_rel figures_le (run_rate st cm k s) (run_rate st' cm' k s')"
proof -
  note fx = fx_need_rel [OF k]
  have c: "need_rel share_costs (cm_variable cm) (cm_variable cm')"
    "need_rel costs (cm_fixed cm) (cm_fixed cm')" "need_rel costs (cm_hours cm) (cm_hours cm')"
    "need_rel costs (cm_ramp cm) (cm_ramp cm')" "need_rel costs (cm_initial cm) (cm_initial cm')"
    using cm by (simp_all add: common_le_def)
  have rate: "0 \<le> k_rate k" using k by (simp add: knobs_ok_def)
  have hours: "rel_metric (\<ge>) (metric_of (cm_hours cm)) (metric_of (cm_hours cm'))"
    by (rule metric_of_rel, rule sum.rel_mono_strong [OF c(3)]) auto
  show ?thesis
    unfolding run_rate_def Let_def
    apply (rule res_rel_bind)
     apply (rule need2_rel [OF st c(4)], rule stream_revenue_rel, assumption, simp)
    apply (rule res_rel_bind)
     apply (rule need3_rel [OF _ c(1,2)], assumption)
     apply (rule res_rel_rmapM, assumption, rule cash_of_rel; simp)
    apply (rule res_rel_bind)
     apply (rule need1_rel [OF c(3)], rule mul_costs_rel [OF _ rate], assumption)
    apply (rule res_rel_bind [where R = "need_rel (\<le>)"])
     apply (rule need2_rel [OF _ fx], assumption)
     apply (rule res_rel_bind [OF index_rel], assumption, force intro: conv_rel)
    apply (rule res_rel_bind [where R = "need_rel (\<le>)"])
     apply (rule need2_rel [OF _ fx], assumption)
     apply (rule res_rel_bind [OF index_rel], assumption, force intro: conv_rel)
    apply (rule res_rel_bind [where R = "need_rel (\<le>)"])
     apply (rule need2_rel, assumption, assumption, rule raw_diff_rel; simp)
    apply (rule res_rel_bind [where R = "need_rel (\<ge>)"])
     apply (rule need2_rel [OF c(5) fx], force intro: conv_rel_flip)
    apply (rule res_rel_bind [where R = "need_rel sooner"])
     apply (rule need2_rel [OF _ c(5)], assumption)
     apply (rule payback_of_rel, simp add: list_all2_map1 list_all2_map2, simp)
    apply (rule res_rel_bind [where R = "need_rel sooner"])
     apply (rule need4_rel [OF _ _ _ fx], assumption, assumption, assumption)
     apply (rule payback_of_rel, force intro: map_conv_rel, simp)
    apply (rule res_rel_bind [OF as_metric_rel], assumption)+
    by (simp add: figures_le_def level_figures_le_def hours metric_of_rel metric_costs)
qed

lemma run_rate_ordered:
  assumes "econ_ok e" "knobs_ok k" "scen_le s s'" "\<forall>c w d h l. e_revenue e \<noteq> OneOff c w d h l"
  shows "res_rel figures_le (scenario_of e k s) (scenario_of e k s')"
proof -
  have "list_all (\<lambda>(f, i). input_ok i) (revenue_inputs (e_revenue e))"
    using assms(1) by (auto simp: econ_ok_def econ_inputs_def list_all_iff)
  then have "res_rel (need_rel stream_le) (stream_of (e_revenue e) s) (stream_of (e_revenue e) s')"
    using assms(3) by (rule stream_of_rel)
  then show ?thesis
    using assms(4) unfolding scenario_of.simps
    by (cases "e_revenue e")
     (auto intro!: res_rel_bind [OF common_pick_rel [OF assms(1,3)]]
       intro: res_rel_bind run_rate_rel [OF _ _ assms(2)])
qed

section \<open>One-off deals\<close>

text \<open>
  \<open>up\<close>: the second engagement is no longer than the first, so its monthly income is no lower.
  \<open>dn\<close>: it is no shorter, so its monthly hours are no higher.
\<close>

definition level_figs :: "bool \<Rightarrow> bool \<Rightarrow> scenario_metrics \<Rightarrow> scenario_metrics \<Rightarrow> bool" where
  "level_figs up dn m m' \<longleftrightarrow>
     rel_metric (\<lambda>x y. up \<longrightarrow> x \<le> y) (sm_monthly_revenue_collected m) (sm_monthly_revenue_collected m') \<and>
     rel_metric (\<lambda>x y. up \<longrightarrow> x \<le> y) (sm_monthly_cash_contribution m) (sm_monthly_cash_contribution m') \<and>
     rel_metric (\<lambda>x y. dn \<longrightarrow> y \<le> x) (sm_owner_hours_per_month m) (sm_owner_hours_per_month m') \<and>
     rel_metric (\<lambda>x y. dn \<longrightarrow> y \<le> x) (sm_owner_time_cost m) (sm_owner_time_cost m') \<and>
     rel_metric (\<ge>) (sm_initial_capital m) (sm_initial_capital m')"

definition deal_le :: "one_off_deal \<Rightarrow> one_off_deal \<Rightarrow> bool" where
  "deal_le d d' \<longleftrightarrow>
     need_rel nnle (od_contract d) (od_contract d') \<and> need_rel nnle (od_win d) (od_win d') \<and>
     need_rel share_costs (od_loss d) (od_loss d') \<and>
     need_rel costs (od_hours_total d) (od_hours_total d')"

definition weeks_rel :: "bool \<Rightarrow> bool \<Rightarrow> int \<Rightarrow> int \<Rightarrow> bool" where
  "weeks_rel up dn o1 o2 \<longleftrightarrow> 0 < o1 \<and> 0 < o2 \<and> (up \<longrightarrow> o2 \<le> o1) \<and> (dn \<longrightarrow> o1 \<le> o2)"

lemma occupied_InrD: "occupied w = Inr x \<Longrightarrow> x = max (cdiv (w * 12) 52) 1"
  using div_ceil_InrD [of 52 "w * 12"] by (auto simp: occupied_def rbind_eq_Inr)

lemma occupied_rel:
  assumes "need_rel (\<lambda>w w'. (up \<longrightarrow> w' \<le> w) \<and> (dn \<longrightarrow> w \<le> w')) n n'"
  shows "res_rel (need_rel (weeks_rel up dn)) (need_map occupied n) (need_map occupied n')"
proof -
  have "w \<le> w' \<Longrightarrow> max (cdiv (w * 12) 52) 1 \<le> max (cdiv (w' * 12) 52) 1" for w w' :: int
    using cdiv_mono [of 52 "w * 12" "w' * 12"] by linarith
  with assms show ?thesis
    by (cases rule: need_rel_cases)
      (auto simp: need_map_def res_rel_def rmap_eq_Inr weeks_rel_def dest!: occupied_InrD)
qed

lemma div_antimono: "0 \<le> a \<Longrightarrow> 0 < b \<Longrightarrow> b \<le> c \<Longrightarrow> a div c \<le> a div (b::int)"
  by (rule zdiv_mono2)

lemma cdiv_antimono: "0 \<le> a \<Longrightarrow> 0 < b \<Longrightarrow> b \<le> c \<Longrightarrow> cdiv a c \<le> cdiv a b"
  by (cases "a = 0") (simp_all add: zdiv_mono2_neg)

lemma div_both: "0 \<le> a \<Longrightarrow> a \<le> a' \<Longrightarrow> 0 < b' \<Longrightarrow> b' \<le> b \<Longrightarrow> a div b \<le> a' div (b'::int)"
  using div_antimono [of a b' b] zdiv_mono1 [of a a' b'] by linarith

lemma cdiv_both: "0 \<le> a' \<Longrightarrow> a' \<le> a \<Longrightarrow> 0 < b \<Longrightarrow> b \<le> b' \<Longrightarrow> cdiv a' b' \<le> cdiv a b"
  using cdiv_antimono [of a' b b'] cdiv_mono [of b a' a] by linarith

lemma one_off_cash_InrD:
  assumes "rbind (econ_mul e v) (\<lambda>m. rbind (div_ceil m FULL) (\<lambda>q.
       rbind (raw128 (e - q)) (\<lambda>d1. rbind (econ_mul f occ) (\<lambda>fo.
       rbind (raw128 (d1 - fo)) (\<lambda>net. div_floor net occ))))) = Inr x" "0 < occ"
  shows "x = e * (FULL - v) div FULL div occ - f"
proof -
  obtain q where q: "div_ceil (e * v) FULL = Inr q" and x: "div_floor (e - q - f * occ) occ = Inr x"
    using assms(1) by (auto simp: rbind_eq_Inr)
  have "e - q = e * (FULL - v) div FULL"
    using div_ceil_InrD [OF FULL_pos(1) q] minus_cdiv [OF FULL_pos(1), of e v] by linarith
  moreover have "x = (e - q - f * occ) div occ"
    using div_floor_InrD [OF assms(2) x] .
  moreover have "(e - q - f * occ) div occ = (e - q) div occ - f"
    using assms(2) div_mult_self1 [of occ "e - q" "- f"] by simp
  ultimately show ?thesis by simp
qed

lemma one_off_cash_rel:
  assumes "nnle e e'" "share_costs v v'" "costs f f'" "weeks_rel up dn b b'"
  shows "res_rel (\<lambda>x y. up \<longrightarrow> x \<le> y)
    (rbind (econ_mul e v) (\<lambda>m. rbind (div_ceil m FULL) (\<lambda>q.
       rbind (raw128 (e - q)) (\<lambda>d1. rbind (econ_mul f b) (\<lambda>fo.
       rbind (raw128 (d1 - fo)) (\<lambda>net. div_floor net b))))))
    (rbind (econ_mul e' v') (\<lambda>m. rbind (div_ceil m FULL) (\<lambda>q.
       rbind (raw128 (e' - q)) (\<lambda>d1. rbind (econ_mul f' b') (\<lambda>fo.
       rbind (raw128 (d1 - fo)) (\<lambda>net. div_floor net b'))))))"
proof -
  have "nnle (e * (FULL - v) div FULL) (e' * (FULL - v') div FULL)"
    using assms by (intro nnle_div nnle_mul) auto
  then have "up \<Longrightarrow> e * (FULL - v) div FULL div b \<le> e' * (FULL - v') div FULL div b'"
    using assms(4) div_both [of "e * (FULL - v) div FULL" "e' * (FULL - v') div FULL" b' b]
    by (simp add: weeks_rel_def)
  with assms(3,4) show ?thesis
    unfolding res_rel_def weeks_rel_def
    by (auto dest!: one_off_cash_InrD)
qed

lemma expected_rel:
  assumes "nnle c c'" "nnle w w'" "share_costs l l'"
  shows "res_rel nnle
    (rbind (econ_mul c w) (\<lambda>p. rbind (raw128 (FULL - l)) (\<lambda>keep.
       rbind (econ_mul p keep) (\<lambda>q. div_floor q (FULL * FULL)))))
    (rbind (econ_mul c' w') (\<lambda>p. rbind (raw128 (FULL - l')) (\<lambda>keep.
       rbind (econ_mul p keep) (\<lambda>q. div_floor q (FULL * FULL)))))"
  by (intro res_rel_bind [OF mul_rel] res_rel_bind [OF full_minus_rel] div_floor_rel) (use assms in auto)

lemma hours_rel:
  assumes "costs h h'" "costs t t'" "weeks_rel up dn b b'"
  shows "res_rel (\<lambda>x y. dn \<longrightarrow> y \<le> x)
    (rbind (div_ceil t b) (\<lambda>q. rbind (raw128 (h + q)) (\<lambda>x. ok_or (fits u32_ok x) OVERFLOW)))
    (rbind (div_ceil t' b') (\<lambda>q. rbind (raw128 (h' + q)) (\<lambda>x. ok_or (fits u32_ok x) OVERFLOW)))"
proof -
  have "dn \<Longrightarrow> cdiv t' b' \<le> cdiv t b"
    using assms by (intro cdiv_both) (auto simp: weeks_rel_def)
  with assms(1,3) show ?thesis
    unfolding res_rel_def weeks_rel_def
    by (auto simp: rbind_eq_Inr ok_or_def fits_def dest!: div_ceil_InrD split: if_splits)
qed

lemma owner_cost_rel:
  assumes "costs h h'" "costs t t'" "weeks_rel up dn b b'" "0 \<le> r"
  shows "res_rel (\<lambda>x y. dn \<longrightarrow> y \<le> x)
    (rbind (econ_mul h r) (\<lambda>a. rbind (econ_mul t r) (\<lambda>c. rbind (div_ceil c b) (\<lambda>q. econ_add a q))))
    (rbind (econ_mul h' r) (\<lambda>a. rbind (econ_mul t' r) (\<lambda>c. rbind (div_ceil c b') (\<lambda>q. econ_add a q))))"
proof -
  have "dn \<Longrightarrow> cdiv (t' * r) b' \<le> cdiv (t * r) b"
    using assms by (intro cdiv_both) (auto simp: weeks_rel_def mult_right_mono)
  moreover have "h' * r \<le> h * r" using assms by (simp add: mult_right_mono)
  ultimately show ?thesis
    using assms(3) unfolding res_rel_def weeks_rel_def
    by (auto simp: rbind_eq_Inr dest!: div_ceil_InrD)
qed

lemma revenue_pm_rel:
  assumes "nnle e e'" "weeks_rel up dn b b'" "fx_conv_ok fx"
  shows "res_rel (\<lambda>x y. up \<longrightarrow> x \<le> y)
    (rbind (div_floor e b) (\<lambda>q. fx_conv_convert fx q fl))
    (rbind (div_floor e' b') (\<lambda>q. fx_conv_convert fx q fl))"
proof -
  have "up \<Longrightarrow> e div b \<le> e' div b'"
    using assms by (intro div_both) (auto simp: weeks_rel_def)
  then have "up \<Longrightarrow> res_rel (\<le>) (fx_conv_convert fx (e div b) fl) (fx_conv_convert fx (e' div b') fl)"
    by (rule conv_rel [OF assms(3)])
  moreover have "res_rel (\<lambda>x y. x = e div b \<and> y = e' div b') (div_floor e b) (div_floor e' b')"
    using assms(2) div_floor_InrD unfolding res_rel_def weeks_rel_def by metis
  ultimately show ?thesis
    by (cases up) (elim res_rel_bind, simp, simp add: res_rel_def)
qed

lemma one_off_rel:
  assumes d: "deal_le d d'" and cm: "common_le cm cm'" and k: "knobs_ok k"
    and w: "need_rel (\<lambda>w w'. (up \<longrightarrow> w' \<le> w) \<and> (dn \<longrightarrow> w \<le> w')) n n'"
  shows "res_rel (level_figs up dn) (one_off d cm k n s) (one_off d' cm' k n' s')"
proof -
  note fx = fx_need_rel [OF k]
  have c: "need_rel share_costs (cm_variable cm) (cm_variable cm')"
    "need_rel costs (cm_fixed cm) (cm_fixed cm')" "need_rel costs (cm_hours cm) (cm_hours cm')"
    "need_rel costs (cm_initial cm) (cm_initial cm')"
    using cm by (simp_all add: common_le_def)
  have dd: "need_rel nnle (od_contract d) (od_contract d')" "need_rel nnle (od_win d) (od_win d')"
    "need_rel share_costs (od_loss d) (od_loss d')"
    "need_rel costs (od_hours_total d) (od_hours_total d')"
    using d by (simp_all add: deal_le_def)
  have rate: "0 \<le> k_rate k" using k by (simp add: knobs_ok_def)
  have any: "res_rel (\<lambda>_ _. True) m m'" for m :: "('e, 'a) res" and m' :: "('e, 'b) res"
    by (simp add: res_rel_def)
  show ?thesis
    unfolding one_off_def
    apply (rule res_rel_bind [OF occupied_rel [OF w]])
    apply (rule res_rel_bind)
     apply (rule need3_rel [OF dd(1-3)], rule expected_rel; assumption)
    apply (rule res_rel_bind)
     apply (rule need4_rel [OF _ c(1,2)], assumption, assumption, rule one_off_cash_rel; assumption)
    apply (rule res_rel_bind)
     apply (rule need3_rel [OF c(3) dd(4)], assumption, rule hours_rel; assumption)
    apply (rule res_rel_bind)
     apply (rule need3_rel [OF c(3) dd(4)], assumption, rule owner_cost_rel [OF _ _ _ rate]; assumption)
    apply (rule res_rel_bind [where R = "need_rel (\<lambda>x y. up \<longrightarrow> x \<le> y)"])
     apply (rule need3_rel [OF _ _ fx], assumption, assumption, force intro: revenue_pm_rel)
    apply (rule res_rel_bind [where R = "need_rel (\<lambda>x y. up \<longrightarrow> x \<le> y)"])
     apply (rule need2_rel [OF _ fx], assumption, cases up, force intro: conv_rel, simp add: res_rel_def)
    apply (rule res_rel_bind [OF any])
    apply (rule res_rel_bind [where R = "need_rel (\<ge>)"])
     apply (rule need2_rel [OF c(4) fx], force intro: conv_rel_flip)
    apply (rule res_rel_bind [OF any], rule res_rel_bind [OF any])
    apply (rule res_rel_bind [OF as_metric_rel], assumption)
    apply (rule res_rel_bind [OF as_metric_rel], assumption)
    apply (rule res_rel_bind [OF as_metric_rel], assumption)
    apply (rule res_rel_bind [OF any])
    apply (rule res_rel_bind [OF as_metric_rel], assumption)
    by (simp add: level_figs_def metric_of_rel)
qed

lemma both_downside:
  "rel_metric (\<lambda>_ _. True) a m \<Longrightarrow> rel_metric R b m \<Longrightarrow> (\<And>x y z. le x y \<Longrightarrow> R y z \<Longrightarrow> R x z) \<Longrightarrow>
   rel_metric R (metric_both le a b True) m"
  by (cases a; cases b; cases m) auto

lemma both_keep_first:
  "rel_metric R a m \<Longrightarrow> rel_metric (\<lambda>_ _. True) b m \<Longrightarrow> (\<And>x y z. le x y \<Longrightarrow> R x z \<Longrightarrow> R y z) \<Longrightarrow>
   rel_metric R (metric_both le a b False) m"
  by (cases a; cases b; cases m) auto

lemma both_upside_first:
  "rel_metric R m a \<Longrightarrow> rel_metric (\<lambda>_ _. True) m b \<Longrightarrow> (\<And>x y z. le x y \<Longrightarrow> R z x \<Longrightarrow> R z y) \<Longrightarrow>
   rel_metric R m (metric_both le a b False)"
  by (cases a; cases b; cases m) auto

lemma both_upside_second:
  "rel_metric (\<lambda>_ _. True) m a \<Longrightarrow> rel_metric R m b \<Longrightarrow> (\<And>x y z. le x y \<Longrightarrow> R z y \<Longrightarrow> R z x) \<Longrightarrow>
   rel_metric R m (metric_both le a b True)"
  by (cases a; cases b; cases m) auto

lemma combine_downside:
  assumes "level_figs False True short m" "level_figs True False long m"
  shows "level_figures_le (combine short long Downside) m"
  using assms unfolding level_figures_le_def combine_def level_figs_def
  by (auto simp: Let_def intro!: both_downside both_keep_first elim: metric.rel_mono_strong)

lemma combine_upside:
  assumes "level_figs True False m short" "level_figs False True m long"
  shows "level_figures_le m (combine short long Upside)"
  using assms unfolding level_figures_le_def combine_def level_figs_def
  by (auto simp: Let_def intro!: both_upside_first both_upside_second elim: metric.rel_mono_strong)

lemma weeks_pick_rel:
  assumes "est_ok u32_ok est"
  shows "need_rel (\<le>) (weeks_need (est_end est Favorable Lower)) (weeks_need (est_base est))"
    and "need_rel (\<le>) (weeks_need (est_base est)) (weeks_need (est_end est Adverse Lower))"
  using assms by (cases est; simp add: weeks_need_def)+

definition deal_of :: "int assumption \<Rightarrow> int assumption \<Rightarrow> int assumption \<Rightarrow> int assumption \<Rightarrow> scenario \<Rightarrow> one_off_deal" where
  "deal_of c w h l s =
     \<lparr>od_contract = pick c s Higher f_CONTRACT_VALUE, od_win = pick w s Higher f_WIN_PROBABILITY,
      od_loss = pick l s Lower f_COLLECTION_LOSS, od_hours_total = pick h s Lower f_OWNER_HOURS_TOTAL\<rparr>"

lemma scenario_of_one_off:
  assumes "e_revenue e = OneOff c w d h l"
  shows "scenario_of e k Base = rbind (common_pick e Base) (\<lambda>cm.
           one_off (deal_of c w h l Base) cm k (weeks_need (est_base (a_value d))) Base)"
    and "s \<noteq> Base \<Longrightarrow> scenario_of e k s = rbind (common_pick e s) (\<lambda>cm.
           rbind (one_off (deal_of c w h l s) cm k (weeks_need (est_end (a_value d) Favorable Lower)) s) (\<lambda>short.
           rbind (one_off (deal_of c w h l s) cm k (weeks_need (est_end (a_value d) Adverse Lower)) s) (\<lambda>long.
           Inr (combine short long s))))"
  using assms by (simp_all add: deal_of_def Let_def)

lemma deal_of_rel:
  assumes "list_all (\<lambda>(f, i). input_ok i) (revenue_inputs (OneOff c w d h l))" "scen_le s s'"
  shows "deal_le (deal_of c w h l s) (deal_of c w h l s')"
proof -
  have i: "input_ok (IAmount c)" "input_ok (IShare w)" "input_ok (ICount h)" "input_ok (IShare l)"
    using assms(1) by simp_all
  show ?thesis
    by (simp add: deal_le_def deal_of_def amount_up [OF assms(2) i(1)] share_up [OF assms(2) i(2)]
        count_down [OF assms(2) i(3)] share_down [OF assms(2) i(4)])
qed

lemma one_off_ordered:
  assumes e: "econ_ok e" and k: "knobs_ok k" and m: "e_revenue e = OneOff c w d h l"
  shows "res_rel level_figures_le (scenario_of e k Downside) (scenario_of e k Base)"
    and "res_rel level_figures_le (scenario_of e k Base) (scenario_of e k Upside)"
proof -
  have i: "list_all (\<lambda>(f, i). input_ok i) (revenue_inputs (OneOff c w d h l))"
    using e m by (auto simp: econ_ok_def econ_inputs_def list_all_iff)
  then have "est_ok u32_ok (a_value d)" by simp
  note weeks = weeks_pick_rel [OF this]
  have longer: "need_rel (\<lambda>w w'. (False \<longrightarrow> w' \<le> w) \<and> (True \<longrightarrow> w \<le> w')) n n'" if "need_rel (\<le>) n n'" for n n' :: "int need"
    using that by (rule sum.rel_mono_strong) auto
  have shorter: "need_rel (\<lambda>w w'. (True \<longrightarrow> w' \<le> w) \<and> (False \<longrightarrow> w \<le> w')) n' n" if "need_rel (\<le>) n n'" for n n' :: "int need"
    using that by (cases rule: need_rel_cases) auto
  have base: "\<exists>cm. common_pick e Base = Inr cm \<and>
      one_off (deal_of c w h l Base) cm k (weeks_need (est_base (a_value d))) Base = Inr x"
    if "scenario_of e k Base = Inr x" for x
    using that unfolding scenario_of_one_off(1) [OF m] rbind_eq_Inr .
  have ends: "\<exists>cm short long. common_pick e s = Inr cm \<and>
      one_off (deal_of c w h l s) cm k (weeks_need (est_end (a_value d) Favorable Lower)) s = Inr short \<and>
      one_off (deal_of c w h l s) cm k (weeks_need (est_end (a_value d) Adverse Lower)) s = Inr long \<and>
      x = combine short long s"
    if "scenario_of e k s = Inr x" "s \<noteq> Base" for x s
    using that(1) unfolding scenario_of_one_off(2) [OF m that(2)] by (auto simp: rbind_eq_Inr)
  show "res_rel level_figures_le (scenario_of e k Downside) (scenario_of e k Base)"
    unfolding res_rel_def
  proof (intro allI impI)
    fix x y assume x: "scenario_of e k Downside = Inr x" and y: "scenario_of e k Base = Inr y"
    have cm: "res_rel common_le (common_pick e Downside) (common_pick e Base)"
      by (rule common_pick_rel [OF e]) simp
    have deal: "deal_le (deal_of c w h l Downside) (deal_of c w h l Base)"
      by (rule deal_of_rel [OF i]) simp
    show "level_figures_le x y"
      using base [OF y] ends [OF x] combine_downside res_relD [OF cm]
        res_relD [OF one_off_rel [OF deal _ k longer [OF weeks(1)]]]
        res_relD [OF one_off_rel [OF deal _ k shorter [OF weeks(2)]]]
      by (metis scenario.distinct(1))
  qed
  show "res_rel level_figures_le (scenario_of e k Base) (scenario_of e k Upside)"
    unfolding res_rel_def
  proof (intro allI impI)
    fix x y assume x: "scenario_of e k Base = Inr x" and y: "scenario_of e k Upside = Inr y"
    have cm: "res_rel common_le (common_pick e Base) (common_pick e Upside)"
      by (rule common_pick_rel [OF e]) simp
    have deal: "deal_le (deal_of c w h l Base) (deal_of c w h l Upside)"
      by (rule deal_of_rel [OF i]) simp
    show "level_figures_le x y"
      using base [OF x] ends [OF y] combine_upside res_relD [OF cm]
        res_relD [OF one_off_rel [OF deal _ k shorter [OF weeks(1)]]]
        res_relD [OF one_off_rel [OF deal _ k longer [OF weeks(2)]]]
      by (metis scenario.distinct(6))
  qed
qed

section \<open>From a validated record to its scenarios\<close>

lemma knobs_ok_if_validated:
  assumes "econ_ok e" "validate_profile p = Inr ()"
  shows "knobs_ok (knobs_of e p)"
proof -
  have "profile_rules p"
    using assms(2) by (simp add: profile_record.validated_iff profile_problems_Nil)
  with assms(1) show ?thesis
    by (auto simp: knobs_ok_def knobs_of_def profile_rules_def fx_for_def fx_conv_ok_def econ_ok_def
        split: option.splits if_splits)
qed

lemma scenarios_of_parts:
  assumes "scenarios_of hash o1 p = Inr sc"
  shows "scenario_of (o_economics o1) (knobs_of (o_economics o1) p) Downside = Inr (sc_downside sc)"
    and "scenario_of (o_economics o1) (knobs_of (o_economics o1) p) Base = Inr (sc_base sc)"
    and "scenario_of (o_economics o1) (knobs_of (o_economics o1) p) Upside = Inr (sc_upside sc)"
    and "rbind (expected_loss (o_risk o1))
           (loss_in_profile_currency (k_fx (knobs_of (o_economics o1) p))) = Inr (sc_expected_loss sc)"
    and "hash o1 p = Inr (sc_inputs_sha256 sc)"
  using assms by (auto simp: scenarios_of_def Let_def rbind_eq_Inr simp del: scenario_of.simps)

end
