(* ===== verification/Soe_Sample.thy ===== *)
theory Soe_Sample
  imports Soe_Opportunity
begin

text \<open>
  Concrete records on which the properties are instantiated: a revenue-share opportunity, a one-off
  deal and a signed profile, each of which validates.
\<close>

section \<open>Sample records\<close>

definition given :: "'a \<Rightarrow> 'a \<Rightarrow> 'a \<Rightarrow> 'a assumption" where
  "given lo m hi = \<lparr>a_value = Range lo m hi, a_evidence = [LRepo ''notes/evidence.md''], a_as_of = At 100,
     a_note = None\<rparr>"

definition sample_experiment :: experiment_spec where
  "sample_experiment =
     \<lparr>x_hypothesis = ''partners pay'', x_metric = ''signed offers'',
      x_threshold = \<lparr>t_op = Ge, t_value = 2, t_unit = ''offers''\<rparr>, x_deadline = At 2000, x_expires_at = At 3000,
      x_max_owner_hours = 10, x_stop_rule = ''no offer by the deadline'', x_approvals = [Contact],
      x_stages = [\<lparr>s_name = ''calls'', s_cash = 0, s_recoverable = 0, s_owner_hours = 5, s_stop_rule = None\<rparr>,
        \<lparr>s_name = ''pilot'', s_cash = 10000, s_recoverable = 4000, s_owner_hours = 5,
          s_stop_rule = Some ''two refusals''\<rparr>]\<rparr>"

definition sample_economics :: "revenue_model \<Rightarrow> economic_inputs" where
  "sample_economics m =
     \<lparr>e_currency = Eur, e_fx = None, e_revenue = m, e_variable_cost = given 500 1000 2000,
      e_fixed_costs_per_month = given 10000 12000 15000, e_owner_hours_per_month = given 4 5 6,
      e_ramp_months = given 1 2 3,
      e_initial = \<lparr>ic_acquisition = given 0 0 0, ic_setup = given 10000 20000 30000,
        ic_validation = given 5000 5000 10000, ic_working_capital = given 0 0 0\<rparr>,
      e_revenue_quality = QContracted, e_tax_review = TaxReviewed\<rparr>"

definition sample_share :: revenue_model where
  "sample_share = RevenueShare (given 400000 500000 600000) (given 2000 2500 3000) (given 0 100 500)"

definition sample_one_off :: revenue_model where
  "sample_one_off =
     OneOff (given 2000000 3000000 4000000) (given 5000 6000 7000) (given 4 9 12) (given 40 60 80)
       (given 0 100 500)"

text \<open>A one-off deal of 160 EUR with no cost but its owner's four hours and an initial 160 EUR.\<close>

definition plain_one_off :: economic_inputs where
  "plain_one_off = (sample_economics
       (OneOff (given 16000 16000 16000) (given 10000 10000 10000) (given 4 9 16) (given 4 4 4) (given 0 0 0)))
     \<lparr>e_variable_cost := given 0 0 0, e_fixed_costs_per_month := given 0 0 0,
      e_owner_hours_per_month := given 0 0 0, e_ramp_months := given 0 0 0,
      e_initial := \<lparr>ic_acquisition = given 0 0 0, ic_setup = given 16000 16000 16000,
        ic_validation = given 0 0 0, ic_working_capital = given 0 0 0\<rparr>\<rparr>"

definition sample_risk :: risk_assessment where
  "sample_risk =
     \<lparr>ra_max_loss = \<lparr>ml_cash = Range 10000 20000 50000, ml_owner_hours = Range 5 10 20,
        ml_reputation = ''one unhappy partner'', ml_dependency = ''none''\<rparr>,
      ra_risks = [\<lparr>r_kind = RCash, r_probability = Range 1000 2000 3333, r_impact = Range 10000 20000 50001,
        r_control = ''capped tranche'', r_status = RResolved\<rparr>],
      ra_concentration = [\<lparr>c_dimension = DClient, c_name = ''partner'', c_share = 3000\<rparr>],
      ra_bounds = \<lparr>b_owner_time = Bounded, b_support = Bounded, b_payment_access = Bounded, b_scope = Bounded\<rparr>\<rparr>"

definition sample_opportunity :: "mechanism \<Rightarrow> revenue_model \<Rightarrow> opportunity" where
  "sample_opportunity mech m =
     \<lparr>o_schema = \<lparr>st_record = ''opportunity'', st_version = 1\<rparr>, o_ident = ''opp-1'', o_version = 1,
      o_as_of = At 1000, o_customer = ''a partner'', o_pain = ''manual work'', o_mechanism = mech,
      o_alternatives = [Automate], o_requires_skills = [''rust''], o_signals = [''sig-1''],
      o_jurisdictions = \<lparr>j_customer = ''ES'', j_operator = ''ES'', j_entity = ''ES'', j_delivery = ''ES'',
        j_tax = ''ES'', j_payment = ''ES'', j_data = ''ES''\<rparr>,
      o_economics = sample_economics m, o_risk = sample_risk, o_experiment = Some sample_experiment,
      o_deal = None, o_ordinal = \<lparr>od_defensibility = TMedium, od_reversibility = THigh\<rparr>\<rparr>"

definition sample_profile :: operator_profile where
  "sample_profile =
     \<lparr>p_schema = \<lparr>st_record = ''operator_profile'', st_version = 1\<rparr>, p_ident = ''profile-1'', p_version = 1,
      p_valid_from = At 10, p_signed_by = ''owner'', p_signed_at = At 20, p_synthetic = False,
      p_currency = Eur, p_profit_basis = PreTax, p_contribution_basis = TimeAdjusted,
      p_max_cash_exposure = 100000, p_min_monthly_contribution = 20000, p_shadow_hourly_rate = 4000,
      p_max_payback_months = 12, p_weekly_owner_hours = 20, p_max_validation_tranche = 20000,
      p_max_one_off_delivery_weeks = 12, p_jurisdictions_allow = [''ES''], p_channels_allow = [''email''],
      p_languages = [''en''], p_exclusions = [], p_public_cadence = NoCadence,
      p_rank_order = rank_key_all,
      p_capabilities = [\<lparr>oc_id = ''rust'', oc_skill = ''rust'', oc_level = LevelProven,
        oc_proof = [LRepo ''README.md''], oc_capacity_hours_per_week = Range 5 10 15,
        oc_delivery_cost_per_hour = Range 0 0 0, oc_dependencies = [], oc_as_of = At 10,
        oc_valid_until = At 100000\<rparr>]\<rparr>"

lemma sample_profile_valid: "validate_profile sample_profile = Inr ()"
  by code_simp

lemma sample_share_valid: "validate_opportunity (sample_opportunity PartnerRevshare sample_share) = Inr ()"
  by code_simp

lemma sample_one_off_valid:
  "validate_opportunity (sample_opportunity HighTicketDelivery sample_one_off) = Inr ()"
  by code_simp

lemma sample_typed:
  "opportunity_typed (sample_opportunity PartnerRevshare sample_share)"
  "opportunity_typed (sample_opportunity HighTicketDelivery sample_one_off)"
  by code_simp+

end
