(* ===== verification/Soe_Totality.thy ===== *)
theory Soe_Totality
  imports Soe_Scenarios Soe_Sample
begin

text \<open>
  Which outcomes the economics can have. \<open>runs P m\<close> says that the run \<open>m\<close> does not panic, that its
  only error is \<open>OVERFLOW\<close>, and that its value satisfies \<open>P\<close>; it is carried through every operation
  of \<open>economics.rs\<close> from the bounds that validation gives. So an unchecked difference, an index into
  the month table or a division never fails on a validated opportunity.
\<close>

section \<open>No panic\<close>

definition runs :: "('a \<Rightarrow> bool) \<Rightarrow> 'a vres \<Rightarrow> bool" where
  "runs P m \<longleftrightarrow> (case m of Inr x \<Rightarrow> P x | Inl e \<Rightarrow> e = Err OVERFLOW)"

named_theorems runs_intros "which outcomes a step can have"

lemma runs_simps [simp]: "runs P (Inr x) = P x" "runs P (Inl e) = (e = Err OVERFLOW)"
  by (simp_all add: runs_def)

lemma runs_mono: "runs P m \<Longrightarrow> (\<And>x. P x \<Longrightarrow> Q x) \<Longrightarrow> runs Q m"
  by (cases m) auto

lemma runs_bind: "runs P m \<Longrightarrow> (\<And>x. P x \<Longrightarrow> runs Q (f x)) \<Longrightarrow> runs Q (rbind m f)"
  by (cases m) auto

lemma runs_rmap: "runs (\<lambda>x. P (f x)) m \<Longrightarrow> runs P (rmap f m)"
  by (cases m) auto

lemma runs_minor: "(i64_ok v \<Longrightarrow> P v) \<Longrightarrow> runs P (econ_minor v)"
  by (auto simp: econ_minor_def fits_def)

text \<open>One step at a time: what a step needs, and what is known of its value afterwards.\<close>

lemma runs_steps [runs_intros]:
  "(i128_ok (a * b) \<Longrightarrow> runs Q (f (a * b))) \<Longrightarrow> runs Q (rbind (econ_mul a b) f)"
  "(i128_ok (a + b) \<Longrightarrow> runs Q (f (a + b))) \<Longrightarrow> runs Q (rbind (econ_add a b) f)"
  "(i64_ok v \<Longrightarrow> runs Q (f v)) \<Longrightarrow> runs Q (rbind (econ_minor v) f)"
  "i128_ok v \<Longrightarrow> runs Q (f v) \<Longrightarrow> runs Q (rbind (raw128 v) f)"
  "0 < d \<Longrightarrow> i128_ok n \<Longrightarrow> runs Q (f (n div d)) \<Longrightarrow> runs Q (rbind (div_floor n d) f)"
  "0 < d \<Longrightarrow> i128_ok n \<Longrightarrow> runs Q (f (cdiv n d)) \<Longrightarrow> runs Q (rbind (div_ceil n d) f)"
  by (auto simp: econ_mul_def econ_add_def econ_minor_def fits_def raw128_ok div_floor_pos div_ceil_pos)

lemma runs_lasts [runs_intros]:
  "(i128_ok (a * b) \<Longrightarrow> Q (a * b)) \<Longrightarrow> runs Q (econ_mul a b)"
  "(i128_ok (a + b) \<Longrightarrow> Q (a + b)) \<Longrightarrow> runs Q (econ_add a b)"
  "i128_ok v \<Longrightarrow> Q v \<Longrightarrow> runs Q (raw128 v)"
  "0 < d \<Longrightarrow> i128_ok n \<Longrightarrow> Q (n div d) \<Longrightarrow> runs Q (div_floor n d)"
  "(u32_ok v \<Longrightarrow> Q v) \<Longrightarrow> runs Q (ok_or (fits u32_ok v) OVERFLOW)"
  by (auto simp: econ_mul_def econ_add_def fits_def raw128_ok div_floor_pos)

lemma runs_rmapM:
  "(\<And>x. x \<in> set xs \<Longrightarrow> runs P (f x)) \<Longrightarrow> runs (\<lambda>ys. length ys = length xs \<and> (\<forall>y \<in> set ys. P y)) (rmapM f xs)"
proof (induction xs)
  case (Cons x xs)
  have "runs P (f x)" using Cons.prems by simp
  moreover have "runs (\<lambda>ys. length ys = length xs \<and> (\<forall>y \<in> set ys. P y)) (rmapM f xs)"
    using Cons by simp
  ultimately show ?case by (auto intro!: runs_bind)
qed simp

text \<open>A need whose value, when it has one, satisfies \<open>P\<close>.\<close>

abbreviation need_all :: "('a \<Rightarrow> bool) \<Rightarrow> 'a need \<Rightarrow> bool" where
  "need_all P \<equiv> pred_sum (\<lambda>_. True) P"

lemma need1_runs:
  "need_all P a \<Longrightarrow> (\<And>x. P x \<Longrightarrow> runs Q (f x)) \<Longrightarrow> runs (need_all Q) (need1 a f)"
  by (cases a) (auto simp: need1_eq intro!: runs_rmap)

lemma need2_runs:
  "need_all P a \<Longrightarrow> need_all P2 b \<Longrightarrow> (\<And>x y. P x \<Longrightarrow> P2 y \<Longrightarrow> runs Q (f x y)) \<Longrightarrow>
   runs (need_all Q) (need2 a b f)"
  by (cases a; cases b) (auto simp: need2_eq intro!: runs_rmap)

lemma need3_runs:
  "need_all P a \<Longrightarrow> need_all P2 b \<Longrightarrow> need_all P3 c \<Longrightarrow>
   (\<And>x y z. P x \<Longrightarrow> P2 y \<Longrightarrow> P3 z \<Longrightarrow> runs Q (f x y z)) \<Longrightarrow> runs (need_all Q) (need3 a b c f)"
  by (cases a; cases b; cases c) (auto simp: need3_eq intro!: runs_rmap)

lemma need4_runs:
  "need_all P a \<Longrightarrow> need_all P2 b \<Longrightarrow> need_all P3 c \<Longrightarrow> need_all P4 d \<Longrightarrow>
   (\<And>x y z u. P x \<Longrightarrow> P2 y \<Longrightarrow> P3 z \<Longrightarrow> P4 u \<Longrightarrow> runs Q (f x y z u)) \<Longrightarrow>
   runs (need_all Q) (need4 a b c d f)"
  by (cases a; cases b; cases c; cases d) (auto simp: need4_eq intro!: runs_rmap)

lemma need5_runs:
  "need_all P a \<Longrightarrow> need_all P2 b \<Longrightarrow> need_all P3 c \<Longrightarrow> need_all P4 d \<Longrightarrow> need_all P5 e \<Longrightarrow>
   (\<And>x y z u v. P x \<Longrightarrow> P2 y \<Longrightarrow> P3 z \<Longrightarrow> P4 u \<Longrightarrow> P5 v \<Longrightarrow> runs Q (f x y z u v)) \<Longrightarrow>
   runs (need_all Q) (need5 a b c d e f)"
  by (cases a; cases b; cases c; cases d; cases e) (auto simp: need5_eq intro!: runs_rmap)

lemma need7_runs:
  "need_all P a \<Longrightarrow> need_all P2 b \<Longrightarrow> need_all P3 c \<Longrightarrow> need_all P4 d \<Longrightarrow> need_all P5 e \<Longrightarrow>
   need_all P6 g \<Longrightarrow> need_all P7 h \<Longrightarrow>
   (\<And>x y z u v w t. P x \<Longrightarrow> P2 y \<Longrightarrow> P3 z \<Longrightarrow> P4 u \<Longrightarrow> P5 v \<Longrightarrow> P6 w \<Longrightarrow> P7 t \<Longrightarrow> runs Q (f x y z u v w t)) \<Longrightarrow>
   runs (need_all Q) (need7 a b c d e g h f)"
  by (cases a; cases b; cases c; cases d; cases e; cases g; cases h) (auto simp: need7_eq intro!: runs_rmap)

lemma as_metric_runs: "runs (\<lambda>_. True) (as_metric n)"
  by (cases n) (auto simp: as_metric_def need1_eq intro!: runs_rmap runs_minor)

lemma nn_div: "0 \<le> n \<Longrightarrow> 0 < d \<Longrightarrow> i128_ok n \<Longrightarrow> 0 \<le> n div d \<and> i128_ok (n div d)" for n d :: int
  using pos_imp_zdiv_nonneg_iff [of d n] int_div_less_self [of n d]
  by (cases "d = 1"; cases "n = 0") (auto simp: width_simps)

abbreviation nn :: "int \<Rightarrow> bool" where "nn x \<equiv> 0 \<le> x \<and> i128_ok x"

lemma nn_0: "nn 0"
  by (simp add: width_simps)

definition stream_ok :: "stream \<Rightarrow> bool" where
  "stream_ok st \<longleftrightarrow> stream_le st st \<and> nn (stream_start st) \<and>
     (case st of SFlat c \<Rightarrow> i128_ok c | _ \<Rightarrow> True)"

lemma month_step_runs:
  assumes "stream_ok st" "nn bs"
  shows "runs (\<lambda>(b, r). nn b \<and> nn r) (month_step st ramp m bs)"
proof (cases st)
  case (SRecurring w k p c)
  with assms show ?thesis
    by (auto simp: nn_div nn_0 stream_ok_def intro!: runs_intros)
next
  case (SDecay f k c)
  have "runs nn (if m > 1 then rbind (econ_mul bs k) (\<lambda>m. div_floor m FULL) else Inr bs)"
    using assms SDecay by (auto simp: nn_div stream_ok_def intro!: runs_intros)
  with assms SDecay show ?thesis
    by (auto simp: nn_div nn_0 stream_ok_def intro!: runs_bind [of nn] runs_intros)
next
  case (SFlat c)
  with assms show ?thesis by (simp add: stream_ok_def nn_0)
qed

lemma revenue_from_runs:
  "stream_ok st \<Longrightarrow> nn bs \<Longrightarrow>
   runs (\<lambda>rs. length rs = n \<and> (\<forall>r \<in> set rs. nn r)) (revenue_from st ramp m n bs)"
proof (induction n arbitrary: m bs)
  case (Suc n)
  show ?case
    unfolding revenue_from.simps
  proof (rule runs_bind [OF month_step_runs [OF Suc.prems]], clarify)
    fix b r assume "0 \<le> b" "i128_ok b" "0 \<le> r" "i128_ok r"
    then show "runs (\<lambda>rs. length rs = Suc n \<and> (\<forall>r \<in> set rs. nn r))
        (rbind (revenue_from st ramp (m + 1) n b) (\<lambda>rs. Inr (r # rs)))"
      using Suc.prems by (auto intro!: runs_bind [OF Suc.IH])
  qed
qed simp

lemma stream_revenue_runs:
  "stream_ok st \<Longrightarrow> runs (\<lambda>rs. length rs = nat n \<and> (\<forall>r \<in> set rs. nn r)) (stream_revenue st ramp n)"
  unfolding stream_revenue_def by (rule revenue_from_runs) (auto simp: stream_ok_def)

text \<open>A cash figure: at worst the fixed costs are lost.\<close>

definition cash_range :: "int \<Rightarrow> bool" where
  "cash_range x \<longleftrightarrow> - (2 ^ 63) \<le> x \<and> i128_ok x"

lemma cost_share:
  assumes "0 \<le> r" "0 \<le> v" "v \<le> FULL"
  shows "0 \<le> r - cdiv (r * v) FULL" "r - cdiv (r * v) FULL \<le> r"
proof -
  have "0 \<le> r * (FULL - v) div FULL"
    using assms by (simp add: pos_imp_zdiv_nonneg_iff)
  then show "0 \<le> r - cdiv (r * v) FULL"
    using minus_cdiv [OF FULL_pos(1), of r v] by linarith
  have "- (r * v) div FULL \<le> 0"
    using assms by (simp add: div_nonpos_pos_le0)
  then show "r - cdiv (r * v) FULL \<le> r" by linarith
qed

lemma cash_of_runs:
  assumes "nn r" "0 \<le> v" "v \<le> FULL" "amount_ok f"
  shows "runs cash_range (cash_of r v f)"
  unfolding cash_of_def
  using assms cost_share [of r v]
  by (intro runs_intros) (simp_all add: cash_range_def amount_ok_def width_simps)

lemma conv_runs:
  assumes "fx_conv_ok fx" "i128_ok a"
  shows "runs (\<lambda>x. x = a \<or> i64_ok x) (fx_conv_convert fx a fl)"
  using assms unfolding fx_conv_convert_def fx_conv_ok_def
  by (auto simp: fx_convert_eq Let_def intro!: runs_intros split: option.splits)

lemma payback_scan_runs: "(\<And>c. c \<in> set cs \<Longrightarrow> runs P c) \<Longrightarrow> runs (\<lambda>_. True) (payback_scan initial i sm cs)"
proof (induction cs arbitrary: i sm)
  case (Cons c cs)
  have "runs P c" using Cons.prems by simp
  with Cons show ?case by (auto intro!: runs_bind [of P c] runs_intros)
qed simp

lemma payback_of_runs: "(\<And>c. c \<in> set cs \<Longrightarrow> runs P c) \<Longrightarrow> runs (\<lambda>_. True) (payback_of cs initial)"
  unfolding payback_of_def by (auto intro!: payback_scan_runs [of _ P] dest: in_set_takeD)


definition common_ok :: "common \<Rightarrow> bool" where
  "common_ok cm \<longleftrightarrow>
     need_all (\<lambda>v. 0 \<le> v \<and> v \<le> FULL) (cm_variable cm) \<and> need_all amount_ok (cm_fixed cm) \<and>
     need_all u32_ok (cm_hours cm) \<and> need_all u32_ok (cm_ramp cm) \<and> need_all nn (cm_initial cm)"

text \<open>The knobs of a signed profile: the hourly rate is an \<open>i64\<close>.\<close>

definition knobs_typed :: "knobs \<Rightarrow> bool" where
  "knobs_typed k \<longleftrightarrow> knobs_ok k \<and> i64_ok (k_rate k)"

definition cost_range :: "int \<Rightarrow> bool" where
  "cost_range x \<longleftrightarrow> 0 \<le> x \<and> x \<le> 2 ^ 97"

lemma owner_cost_range:
  assumes "u32_ok h" "0 \<le> r" "i64_ok r"
  shows "0 \<le> h * r" "h * r \<le> 2 ^ 95"
proof -
  show "0 \<le> h * r" using assms by (simp add: u32_ok_def)
  have "h * r \<le> 2 ^ 32 * 2 ^ 63"
    using assms by (intro mult_mono) (simp_all add: width_simps)
  then show "h * r \<le> 2 ^ 95" by simp
qed

lemma fx_need_all: "knobs_ok k \<Longrightarrow> need_all fx_conv_ok (k_fx k)"
  by (cases "k_fx k") (auto simp: knobs_ok_def)

lemma need_all_T: "need_all (\<lambda>_. True) n"
  by (cases n) auto

lemma conv_cash_runs: "fx_conv_ok fx \<Longrightarrow> cash_range a \<Longrightarrow> runs cash_range (fx_conv_convert fx a fl)"
  by (rule runs_mono [OF conv_runs]) (auto simp: cash_range_def width_simps)

lemma conv_any_runs: "fx_conv_ok fx \<Longrightarrow> i128_ok a \<Longrightarrow> runs (\<lambda>_. True) (fx_conv_convert fx a fl)"
  by (rule runs_mono [OF conv_runs]) auto

lemma index_conv_runs:
  assumes "length xs = n \<and> (\<forall>x \<in> set xs. P x)" "i < n" "\<And>a. P a \<Longrightarrow> runs Q (fx_conv_convert f a fl)"
  shows "runs Q (rbind (index_res xs i) (\<lambda>r. fx_conv_convert f r fl))"
  using assms by (simp add: index_res_def)

lemma cash_minus_cost_runs: "cash_range a \<Longrightarrow> cost_range c \<Longrightarrow> runs i128_ok (raw128 (a - c))"
  by (rule runs_intros) (auto simp: cash_range_def cost_range_def width_simps)

lemma run_rate_runs:
  assumes st: "need_all stream_ok st" and cm: "common_ok cm" and k: "knobs_typed k"
  shows "runs (\<lambda>_. True) (run_rate st cm k s)"
proof -
  have kk: "knobs_ok k" and rate: "0 \<le> k_rate k" "i64_ok (k_rate k)" and hz: "1 \<le> k_horizon k"
    using k by (simp_all add: knobs_typed_def knobs_ok_def)
  note fx = fx_need_all [OF kk]
  let ?n = "nat (max (k_horizon k) PAYBACK_SCAN_MONTHS)"
  have h: "nat (k_horizon k - 1) < ?n" using hz by linarith
  have c: "need_all (\<lambda>v. 0 \<le> v \<and> v \<le> FULL) (cm_variable cm)" "need_all amount_ok (cm_fixed cm)"
    "need_all u32_ok (cm_hours cm)" "need_all u32_ok (cm_ramp cm)" "need_all nn (cm_initial cm)"
    using cm by (simp_all add: common_ok_def)
  show ?thesis
    unfolding run_rate_def Let_def
    apply (rule runs_bind)
     apply (rule need2_runs [OF st c(4)], rule stream_revenue_runs, assumption)
    apply (rule runs_bind [where P = "need_all (\<lambda>rs. length rs = ?n \<and> (\<forall>r \<in> set rs. cash_range r))"])
     apply (rule need3_runs [OF _ c(1,2)], assumption)
     apply (rule runs_mono, rule runs_rmapM [where P = cash_range], rule cash_of_runs; simp)
    apply (rule runs_bind [where P = "need_all cost_range"])
     apply (rule need1_runs [OF c(3)])
    subgoal for _ _ x
      using owner_cost_range [of x "k_rate k"] rate by (auto intro!: runs_intros simp: cost_range_def)
    apply (rule runs_bind [where P = "need_all (\<lambda>_. True)"])
     apply (rule need2_runs [OF _ fx], assumption)
     apply (rule index_conv_runs [OF _ h], assumption, rule conv_any_runs; simp)
    apply (rule runs_bind [where P = "need_all cash_range"])
     apply (rule need2_runs [OF _ fx], assumption)
     apply (rule index_conv_runs [OF _ h], assumption, rule conv_cash_runs; simp)
    apply (rule runs_bind [where P = "need_all i128_ok"])
     apply (rule need2_runs, assumption, assumption, rule cash_minus_cost_runs; assumption)
    apply (rule runs_bind [where P = "need_all (\<lambda>_. True)"])
     apply (rule need2_runs [OF c(5) fx], rule conv_any_runs; simp)
    apply (rule runs_bind [where P = "need_all (\<lambda>_. True)"])
     apply (rule need2_runs [OF _ c(5)], assumption, rule payback_of_runs [where P = "\<lambda>_. True"], force)
    apply (rule runs_bind [where P = "need_all (\<lambda>_. True)"])
     apply (rule need4_runs [OF _ _ _ fx], assumption, assumption, assumption)
     apply (rule payback_of_runs [where P = i128_ok])
     apply (force intro!: runs_bind [OF conv_cash_runs] cash_minus_cost_runs)
    by (rule runs_bind [OF as_metric_runs] | simp)+
qed

definition deal_ok :: "one_off_deal \<Rightarrow> bool" where
  "deal_ok d \<longleftrightarrow> need_all amount_ok (od_contract d) \<and> need_all bps_ok (od_win d) \<and>
     need_all bps_ok (od_loss d) \<and> need_all u32_ok (od_hours_total d)"

definition occ_ok :: "int \<Rightarrow> bool" where
  "occ_ok x \<longleftrightarrow> 1 \<le> x \<and> x \<le> 2 ^ 32"

lemma occupied_runs:
  assumes "u32_ok w"
  shows "runs occ_ok (occupied w)"
proof -
  have "- (2 ^ 32) \<le> - (w * 12) div 52"
    using assms zdiv_mono1 [of "- (2 ^ 32 * 52)" "- (w * 12)" 52] by (simp add: width_simps)
  then have "occ_ok (max (cdiv (w * 12) 52) 1)"
    unfolding occ_ok_def by auto
  with assms show ?thesis
    unfolding occupied_def by (intro runs_intros) (simp_all add: width_simps)
qed

lemma occupied_need_runs: "need_all u32_ok n \<Longrightarrow> runs (need_all occ_ok) (need_map occupied n)"
  by (cases n) (auto simp: need_map_def intro!: runs_rmap runs_mono [OF occupied_runs])

lemma expected_runs:
  assumes "amount_ok c" "bps_ok w" "bps_ok l"
  shows "runs nn (rbind (econ_mul c w) (\<lambda>p. rbind (raw128 (FULL - l)) (\<lambda>keep.
       rbind (econ_mul p keep) (\<lambda>q. div_floor q (FULL * FULL)))))"
  using assms
  by (intro runs_intros) (auto simp: nn_div amount_ok_def bps_ok_def FULL_def BPS_FULL_def width_simps)

lemma one_off_cash_runs:
  assumes "nn e" "0 \<le> v" "v \<le> FULL" "amount_ok f" "occ_ok b"
  shows "runs cash_range (rbind (econ_mul e v) (\<lambda>m. rbind (div_ceil m FULL) (\<lambda>q.
       rbind (raw128 (e - q)) (\<lambda>d1. rbind (econ_mul f b) (\<lambda>fo.
       rbind (raw128 (d1 - fo)) (\<lambda>net. div_floor net b))))))"
proof -
  define d1 where "d1 = e - cdiv (e * v) FULL"
  have d1: "0 \<le> d1" "i128_ok d1"
    using cost_share [of e v] assms by (auto simp: d1_def width_simps)
  have b: "0 < b" and f: "0 \<le> f" "f < 2 ^ 63"
    using assms by (simp_all add: occ_ok_def amount_ok_def width_simps)
  have fo: "0 \<le> f * b" using b f by simp
  have "(d1 - f * b) div b = d1 div b - f"
    using b div_mult_self1 [of b d1 "- f"] by simp
  then have "cash_range ((d1 - f * b) div b)"
    using nn_div [of d1 b] d1 b f by (auto simp: cash_range_def width_simps)
  then show ?thesis
    using d1 fo b by (intro runs_intros; (fold d1_def)?; simp add: width_simps)
qed

lemma cdiv_le_self: "0 \<le> a \<Longrightarrow> 1 \<le> b \<Longrightarrow> 0 \<le> cdiv a b \<and> cdiv a b \<le> a"
  using zdiv_mono2_neg [of "- a" 1 b] div_nonpos_pos_le0 [of "- a" b] by (cases "a = 0") auto

lemma hours_runs:
  assumes "u32_ok h" "u32_ok t" "occ_ok b"
  shows "runs u32_ok (rbind (div_ceil t b) (\<lambda>q. rbind (raw128 (h + q)) (\<lambda>x. ok_or (fits u32_ok x) OVERFLOW)))"
  using assms cdiv_le_self [of t b] by (intro runs_intros) (auto simp: width_simps occ_ok_def)

lemma owner_cost_runs:
  assumes "u32_ok h" "u32_ok t" "occ_ok b" "0 \<le> r" "i64_ok r"
  shows "runs cost_range (rbind (econ_mul h r) (\<lambda>a. rbind (econ_mul t r) (\<lambda>c.
    rbind (div_ceil c b) (\<lambda>q. econ_add a q))))"
  using assms owner_cost_range [of h r] owner_cost_range [of t r] cdiv_le_self [of "t * r" b]
  by (intro runs_intros) (auto simp: cost_range_def occ_ok_def)

lemma engagement_runs:
  "i128_ok a \<Longrightarrow> i128_ok b \<Longrightarrow> c \<in> set (engagement ramp occ a b) \<Longrightarrow> runs i128_ok c"
  by (auto simp: engagement_def)

lemma ramp_month_runs:
  assumes "amount_ok f" "u32_ok h" "fx_conv_ok fx" "0 \<le> r" "i64_ok r" "i128_ok ta"
  shows "runs (\<lambda>_. True) (rbind (raw128 (- f)) (\<lambda>nf. rbind (fx_conv_convert fx nf Inflow) (\<lambda>c.
    rbind (econ_mul h r) (\<lambda>hc. rbind (raw128 (c - hc)) (\<lambda>ramp_month.
    payback_of (engagement ramp occ ramp_month ta) initial)))))"
proof -
  have f: "cash_range (- f)" "i128_ok (- f)"
    using assms(1) by (auto simp: amount_ok_def cash_range_def width_simps)
  have hr: "cost_range (h * r)"
    using owner_cost_range [OF assms(2,4,5)] by (simp add: cost_range_def)
  have "runs (\<lambda>_. True) (rbind (econ_mul h r) (\<lambda>hc. rbind (raw128 (c - hc)) (\<lambda>ramp_month.
      payback_of (engagement ramp occ ramp_month ta) initial)))" if "cash_range c" for c
    using payback_of_runs [OF engagement_runs [OF _ assms(6)]]
    by (intro runs_intros runs_bind [OF cash_minus_cost_runs [OF that hr]]) auto
  then show ?thesis
    by (intro runs_intros(4) runs_bind [OF conv_cash_runs [OF assms(3)]] f)
qed

lemma one_off_runs:
  assumes d: "deal_ok d" and cm: "common_ok cm" and k: "knobs_typed k" and w: "need_all u32_ok n"
  shows "runs (\<lambda>_. True) (one_off d cm k n s)"
proof -
  have kk: "knobs_ok k" and rate: "0 \<le> k_rate k" "i64_ok (k_rate k)"
    using k by (simp_all add: knobs_typed_def knobs_ok_def)
  note fx = fx_need_all [OF kk]
  have c: "need_all (\<lambda>v. 0 \<le> v \<and> v \<le> FULL) (cm_variable cm)" "need_all amount_ok (cm_fixed cm)"
    "need_all u32_ok (cm_hours cm)" "need_all u32_ok (cm_ramp cm)" "need_all nn (cm_initial cm)"
    using cm by (simp_all add: common_ok_def)
  have dd: "need_all amount_ok (od_contract d)" "need_all bps_ok (od_win d)"
    "need_all bps_ok (od_loss d)" "need_all u32_ok (od_hours_total d)"
    using d by (simp_all add: deal_ok_def)
  show ?thesis
    unfolding one_off_def
    apply (rule runs_bind [OF occupied_need_runs [OF w]])
    apply (rule runs_bind [where P = "need_all nn"])
     apply (rule need3_runs [OF dd(1-3)], rule expected_runs; assumption)
    apply (rule runs_bind [where P = "need_all cash_range"])
     apply (rule need4_runs [OF _ c(1,2)], assumption, assumption, rule one_off_cash_runs; simp)
    apply (rule runs_bind [where P = "need_all u32_ok"])
     apply (rule need3_runs [OF c(3) dd(4)], assumption, rule hours_runs; assumption)
    apply (rule runs_bind [where P = "need_all cost_range"])
     apply (rule need3_runs [OF c(3) dd(4)], assumption, rule owner_cost_runs [OF _ _ _ rate]; assumption)
    apply (rule runs_bind [where P = "need_all (\<lambda>_. True)"])
     apply (rule need3_runs [OF _ _ fx], assumption, assumption)
     apply (intro runs_intros conv_any_runs; simp add: occ_ok_def nn_div)
    apply (rule runs_bind [where P = "need_all cash_range"])
     apply (rule need2_runs [OF _ fx], assumption, rule conv_cash_runs; assumption)
    apply (rule runs_bind [where P = "need_all i128_ok"])
     apply (rule need2_runs, assumption, assumption, rule cash_minus_cost_runs; assumption)
    apply (rule runs_bind [where P = "need_all (\<lambda>_. True)"])
     apply (rule need2_runs [OF c(5) fx], rule conv_any_runs; simp)
    apply (rule runs_bind [where P = "need_all (\<lambda>_. True)"])
     apply (rule need5_runs [OF c(4,2) _ _ c(5)], assumption, assumption)
     apply (intro runs_intros, force simp: amount_ok_def width_simps)
     apply (rule payback_of_runs, rule engagement_runs; force simp: amount_ok_def width_simps cash_range_def)
    apply (rule runs_bind [where P = "need_all (\<lambda>_. True)"])
     apply (rule need7_runs [OF c(4,2,3) _ _ _ fx], assumption, assumption, assumption)
     apply (rule ramp_month_runs [OF _ _ _ rate]; assumption)
    by (rule runs_bind [OF as_metric_runs] | simp)+
qed

lemma pick_all: "est_ok P (a_value a) \<Longrightarrow> need_all P (pick a s bt f)"
  by (auto simp: pick_def est_pick_ok split: option.splits)

lemma econ_ok_parts:
  assumes "econ_ok e"
  shows "list_all (\<lambda>(f, i). input_ok i) (revenue_inputs (e_revenue e))"
    "est_ok bps_ok (a_value (e_variable_cost e))" "est_ok amount_ok (a_value (e_fixed_costs_per_month e))"
    "est_ok u32_ok (a_value (e_owner_hours_per_month e))" "est_ok u32_ok (a_value (e_ramp_months e))"
    "est_ok amount_ok (a_value (ic_acquisition (e_initial e)))"
    "est_ok amount_ok (a_value (ic_setup (e_initial e)))"
    "est_ok amount_ok (a_value (ic_validation (e_initial e)))"
    "est_ok amount_ok (a_value (ic_working_capital (e_initial e)))"
  using assms by (auto simp: econ_ok_def econ_inputs_def list_all_iff)

lemma common_pick_runs:
  assumes "econ_ok e"
  shows "runs common_ok (common_pick e s)"
proof -
  note p = econ_ok_parts [OF assms]
  have "runs (need_all nn)
     (need4 (pick (ic_acquisition (e_initial e)) s Lower f_ACQUISITION)
       (pick (ic_setup (e_initial e)) s Lower f_SETUP)
       (pick (ic_validation (e_initial e)) s Lower f_VALIDATION)
       (pick (ic_working_capital (e_initial e)) s Lower f_WORKING_CAPITAL)
       (\<lambda>a b c d. rfold econ_add 0 [a, b, c, d]))"
    by (rule need4_runs [OF pick_all [OF p(6)] pick_all [OF p(7)] pick_all [OF p(8)] pick_all [OF p(9)]])
      (auto simp: amount_ok_def intro!: runs_intros)
  moreover have "need_all (\<lambda>v. 0 \<le> v \<and> v \<le> FULL) (pick (e_variable_cost e) s Lower f_VARIABLE_COST)"
    using pick_all [OF p(2)] by (rule sum.pred_mono_strong) (auto dest: input_kinds)
  ultimately show ?thesis
    unfolding common_pick_def
    by (auto simp: common_ok_def pick_all [OF p(3)] pick_all [OF p(4)] pick_all [OF p(5)] intro!: runs_bind)
qed

lemma share_keep: "bps_ok x \<Longrightarrow> nn (FULL - x)"
  by (simp add: bps_ok_def FULL_def BPS_FULL_def width_simps)

lemma stream_of_runs:
  assumes "list_all (\<lambda>(f, i). input_ok i) (revenue_inputs m)" "\<forall>c w d h l. m \<noteq> OneOff c w d h l"
  shows "runs (need_all stream_ok) (stream_of m s)"
proof (cases m)
  case (Recurring leads conv churn price loss)
  with assms(1) have i: "est_ok u32_ok (a_value leads)" "est_ok bps_ok (a_value conv)"
    "est_ok bps_ok (a_value churn)" "est_ok amount_ok (a_value price)" "est_ok bps_ok (a_value loss)"
    by simp_all
  show ?thesis
    unfolding Recurring stream_of.simps
    by (rule need5_runs [OF pick_all [OF i(1)] pick_all [OF i(2)] pick_all [OF i(3)] pick_all [OF i(4)]
          pick_all [OF i(5)]], intro runs_intros)
      (simp_all add: stream_ok_def share_keep nn_0 MILLI_def pos_imp_zdiv_nonneg_iff input_kinds)
next
  case (Acquisition asset churn loss)
  with assms(1) have i: "est_ok amount_ok (a_value asset)" "est_ok bps_ok (a_value churn)"
    "est_ok bps_ok (a_value loss)"
    by simp_all
  show ?thesis
    unfolding Acquisition stream_of.simps
    by (rule need3_runs [OF pick_all [OF i(1)] pick_all [OF i(2)] pick_all [OF i(3)]], intro runs_intros)
      (simp_all add: stream_ok_def share_keep amount_ok_def i64_ok_i128 input_kinds)
next
  case (RevenueShare partner share loss)
  with assms(1) have i: "est_ok amount_ok (a_value partner)" "est_ok bps_ok (a_value share)"
    "est_ok bps_ok (a_value loss)"
    by simp_all
  show ?thesis
    unfolding RevenueShare stream_of.simps
    by (rule need3_runs [OF pick_all [OF i(1)] pick_all [OF i(2)] pick_all [OF i(3)]], intro runs_intros)
      (simp_all add: stream_ok_def share_keep nn_0 nn_div input_kinds)
qed (use assms in auto)

lemma weeks_need_all:
  "est_ok u32_ok est \<Longrightarrow> need_all u32_ok (weeks_need (est_base est)) \<and> need_all u32_ok (weeks_need (est_end est sd Lower))"
  by (cases est; cases sd) (auto simp: weeks_need_def)

lemma scenario_of_runs:
  assumes "econ_ok e" "knobs_typed k"
  shows "runs (\<lambda>_. True) (scenario_of e k s)"
proof (cases "\<exists>c w d h l. e_revenue e = OneOff c w d h l")
  case True
  then obtain c w d h l where m: "e_revenue e = OneOff c w d h l" by blast
  with econ_ok_parts(1) [OF assms(1)]
  have i: "est_ok amount_ok (a_value c)" "est_ok bps_ok (a_value w)" "est_ok u32_ok (a_value d)"
    "est_ok u32_ok (a_value h)" "est_ok bps_ok (a_value l)"
    by simp_all
  have deal: "deal_ok (deal_of c w h l s)" for s
    by (simp add: deal_ok_def deal_of_def pick_all [OF i(1)] pick_all [OF i(2)] pick_all [OF i(4)] pick_all [OF i(5)])
  note o = one_off_runs [OF deal _ assms(2)]
  show ?thesis
    using weeks_need_all [OF i(3)]
    by (cases "s = Base")
      (auto simp: scenario_of_one_off [OF m] simp del: scenario_of.simps
        intro!: runs_bind [OF common_pick_runs [OF assms(1)]] runs_bind [OF o] o)
next
  case False
  have "runs (need_all stream_ok) (stream_of (e_revenue e) s)"
    using stream_of_runs [OF econ_ok_parts(1) [OF assms(1)]] False by simp
  then have "runs (\<lambda>_. True) (rbind (stream_of (e_revenue e) s) (\<lambda>st. run_rate st cm k s))"
    if "common_ok cm" for cm
    using run_rate_runs [OF _ that assms(2)] by (rule runs_bind)
  with False show ?thesis
    by (cases "e_revenue e") (auto intro!: runs_bind [OF common_pick_runs [OF assms(1)]])
qed

text \<open>The running sums of the expected loss stay ordered and not negative.\<close>

lemma expected_loss_from_runs:
  assumes "\<forall>k \<in> set rs. est_ok bps_ok (r_probability k) \<and> est_ok amount_ok (r_impact k)" "0 \<le> lo" "lo \<le> hi"
  shows "runs (\<lambda>(lacking, l, h). 0 \<le> l \<and> l \<le> h) (expected_loss_from i lacking lo hi rs)"
  using assms
proof (induction rs arbitrary: i lacking lo hi)
  case (Cons r rs)
  show ?case
  proof (cases "\<exists>pl pm ph il im ih. r_probability r = Range pl pm ph \<and> r_impact r = Range il im ih")
    case True
    then obtain pl pm ph il im ih where r: "r_probability r = Range pl pm ph" "r_impact r = Range il im ih"
      by blast
    with Cons.prems(1) have b: "0 \<le> pl" "pl \<le> ph" "0 \<le> il" "il \<le> ih"
      by (auto simp: amount_ok_def bps_ok_def)
    then have le: "0 \<le> pl * il" "pl * il \<le> ph * ih" by (auto intro: mult_mono)
    then have "pl * il div FULL \<le> ph * ih div FULL" by (intro zdiv_mono1) auto
    moreover have "ph * ih div FULL \<le> cdiv (ph * ih) FULL"
      by (rule floor_le_ceil [OF FULL_pos(1)])
    moreover have "0 \<le> pl * il div FULL" using le by (simp add: pos_imp_zdiv_nonneg_iff)
    ultimately show ?thesis
      using Cons.prems Cons.IH
      by (simp add: r) (intro runs_intros; simp)
  next
    case False
    then show ?thesis
      using Cons by (auto split: est.splits)
  qed
qed simp

fun loss_ordered :: "loss_range metric \<Rightarrow> bool" where
  "loss_ordered (Known r) = (0 \<le> lr_low r \<and> lr_low r \<le> lr_high r)"
| "loss_ordered (MUnknown l) = (l \<noteq> [])"

lemma expected_loss_runs:
  "risk_ok r \<Longrightarrow> runs (\<lambda>m. loss_ordered m \<and> (\<forall>x. m = Known x \<longrightarrow> i64_ok (lr_low x) \<and> i64_ok (lr_high x)))
     (expected_loss r)"
  unfolding expected_loss_def
  by (rule runs_bind [OF expected_loss_from_runs]) (auto simp: risk_ok_def intro!: runs_intros)

lemma conv_val_flow: "fx_conv_ok f \<Longrightarrow> a \<le> b \<Longrightarrow> conv_val f a Inflow \<le> conv_val f b Outflow"
  using conv_val_mono [of f a b Inflow] floor_le_ceil [of RATE_SCALE]
  by (auto simp: conv_val_def RATE_SCALE_def split: option.splits intro: order_trans)

lemma conv_val_nonneg: "fx_conv_ok f \<Longrightarrow> 0 \<le> a \<Longrightarrow> 0 \<le> conv_val f a Inflow"
  by (auto simp: conv_val_def fx_conv_ok_def fx_ok_def RATE_SCALE_def pos_imp_zdiv_nonneg_iff split: option.splits)

lemma loss_in_profile_currency_runs:
  assumes "need_all fx_conv_ok kfx" "loss_ordered m"
    "\<forall>x. m = Known x \<longrightarrow> i64_ok (lr_low x) \<and> i64_ok (lr_high x)"
  shows "runs (\<lambda>_. True) (loss_in_profile_currency kfx m)"
proof (cases m)
  case (Known r)
  with assms have r: "i128_ok (lr_low r)" "i128_ok (lr_high r)" by (auto simp: i64_ok_i128)
  have "runs (need_all (\<lambda>_. True)) (need1 kfx (\<lambda>fx.
            rbind (fx_conv_convert fx (lr_low r) Inflow) (\<lambda>a. rbind (econ_minor a) (\<lambda>lo.
            rbind (fx_conv_convert fx (lr_high r) Outflow) (\<lambda>b. rbind (econ_minor b) (\<lambda>hi.
            Inr \<lparr>lr_low = lo, lr_high = hi\<rparr>))))))"
    by (rule need1_runs [OF assms(1)])
      (intro runs_bind [OF conv_any_runs] runs_intros; simp add: r)
  then show ?thesis
    by (auto simp: Known loss_in_profile_currency_def intro: runs_rmap runs_mono)
qed (simp add: loss_in_profile_currency_def)

lemma loss_in_profile_currency_ordered:
  assumes "need_all fx_conv_ok kfx" "loss_ordered m" "loss_in_profile_currency kfx m = Inr m'"
    "\<And>l. kfx = Inl l \<Longrightarrow> l \<noteq> {} \<and> finite l"
  shows "loss_ordered m'"
proof (cases m)
  case (Known r)
  show ?thesis
  proof (cases kfx)
    case (Inl l)
    with assms(3,4) Known show ?thesis
      by (auto simp: loss_in_profile_currency_def need1_eq metric_of_def)
  next
    case (Inr fx)
    then obtain lo hi where m': "m' = Known \<lparr>lr_low = lo, lr_high = hi\<rparr>"
      and lo: "fx_conv_convert fx (lr_low r) Inflow = Inr lo"
      and hi: "fx_conv_convert fx (lr_high r) Outflow = Inr hi"
      using assms(3) Known
      by (auto simp: loss_in_profile_currency_def need1_eq metric_of_def rmap_eq_Inr rbind_eq_Inr)
    have fx: "fx_conv_ok fx" using assms(1) Inr by simp
    then show ?thesis
      using assms(2) Known conv_InrD [OF fx lo] conv_InrD [OF fx hi] conv_val_flow conv_val_nonneg
      by (simp add: m')
  qed
next
  case (MUnknown l)
  with assms show ?thesis by (auto simp: loss_in_profile_currency_def)
qed

lemma knobs_typed_if_validated:
  assumes "econ_ok e" "validate_profile p = Inr ()" "i64_ok (p_shadow_hourly_rate p)"
  shows "knobs_typed (knobs_of e p)"
  using knobs_ok_if_validated [OF assms(1,2)] assms(3) by (simp add: knobs_typed_def knobs_of_def)

lemma scenarios_of_outcome:
  assumes "econ_ok (o_economics o1)" "risk_ok (o_risk o1)" "knobs_typed (knobs_of (o_economics o1) p)"
    and "scenarios_of hash o1 p = Inl f"
  shows "f = Err OVERFLOW \<or> hash o1 p = Inl f"
proof (cases "hash o1 p")
  case (Inl g)
  have "runs (\<lambda>_. True) (rbind (expected_loss (o_risk o1))
      (loss_in_profile_currency (k_fx (knobs_of (o_economics o1) p))))"
    using assms(3) by (auto intro!: runs_bind [OF expected_loss_runs [OF assms(2)]]
        loss_in_profile_currency_runs fx_need_all simp: knobs_typed_def)
  with Inl assms(4) show ?thesis
    by (cases "rbind (expected_loss (o_risk o1)) (loss_in_profile_currency (k_fx (knobs_of (o_economics o1) p)))")
      (auto simp: scenarios_of_def Let_def rbind_eq_Inl rbind_eq_Inr simp del: scenario_of.simps)
next
  case (Inr h)
  have "runs (\<lambda>_. True) (scenarios_of hash o1 p)"
    unfolding scenarios_of_def Let_def
    using assms(3)
    by (intro runs_bind [OF expected_loss_runs [OF assms(2)]] runs_bind [OF loss_in_profile_currency_runs]
        runs_bind [OF scenario_of_runs [OF assms(1,3)]] fx_need_all)
      (auto simp: Inr knobs_typed_def simp del: scenario_of.simps intro!: runs_bind [OF scenario_of_runs [OF assms(1,3)]])
  with assms(4) show ?thesis by simp
qed


end
