(* ===== verification/Soe_Economics_Props.thy ===== *)
theory Soe_Economics_Props
  imports Soe_Totality
begin

text \<open>
  The properties of the economics: ordered scenarios (and the ordered levels of a one-off deal), the fields an
  unknown figure names, when the initial capital is paid back, the expected loss.
\<close>

fun is_one_off :: "revenue_model \<Rightarrow> bool" where
  "is_one_off (OneOff _ _ _ _ _) = True"
| "is_one_off _ = False"

lemma is_one_off_iff: "is_one_off m \<longleftrightarrow> (\<exists>c w d h l. m = OneOff c w d h l)"
  by (cases m) auto


section \<open>Which fields a figure lacks\<close>

definition lacks :: "string set \<Rightarrow> 'a need \<Rightarrow> bool" where
  "lacks L n \<longleftrightarrow> (case n of Inl l \<Rightarrow> l = L \<and> L \<noteq> {} | Inr _ \<Rightarrow> L = {})"

definition metric_lacks :: "string set \<Rightarrow> 'a metric \<Rightarrow> bool" where
  "metric_lacks L m \<longleftrightarrow>
     (case m of Known _ \<Rightarrow> L = {} | MUnknown l \<Rightarrow> L \<noteq> {} \<and> l = sorted_list_of_set L)"

text \<open>Every value a run can return satisfies \<open>P\<close>.\<close>

definition returns :: "('a \<Rightarrow> bool) \<Rightarrow> ('e, 'a) res \<Rightarrow> bool" where
  "returns P m \<longleftrightarrow> (\<forall>x. m = Inr x \<longrightarrow> P x)"

lemma returns_bind: "returns P m \<Longrightarrow> (\<And>x. P x \<Longrightarrow> returns Q (f x)) \<Longrightarrow> returns Q (rbind m f)"
  by (cases m) (auto simp: returns_def)

lemma returns_Inr [simp]: "returns P (Inr x) = P x"
  by (simp add: returns_def)

lemma need1_lacks: "lacks A a \<Longrightarrow> returns (lacks A) (need1 a f)"
  by (cases a) (auto simp: need1_eq lacks_def returns_def rmap_eq_Inr)

lemma need2_lacks: "lacks A a \<Longrightarrow> lacks B b \<Longrightarrow> returns (lacks (A \<union> B)) (need2 a b f)"
  by (cases a; cases b) (auto simp: need2_eq lacks_def returns_def rmap_eq_Inr)

lemma need3_lacks:
  "lacks A a \<Longrightarrow> lacks B b \<Longrightarrow> lacks C c \<Longrightarrow> returns (lacks (A \<union> B \<union> C)) (need3 a b c f)"
  by (cases a; cases b; cases c) (auto simp: need3_eq lacks_def returns_def rmap_eq_Inr)

lemma need4_lacks:
  "lacks A a \<Longrightarrow> lacks B b \<Longrightarrow> lacks C c \<Longrightarrow> lacks D d \<Longrightarrow>
   returns (lacks (A \<union> B \<union> C \<union> D)) (need4 a b c d f)"
  by (cases a; cases b; cases c; cases d) (auto simp: need4_eq lacks_def returns_def rmap_eq_Inr)

lemma need5_lacks:
  "lacks A a \<Longrightarrow> lacks B b \<Longrightarrow> lacks C c \<Longrightarrow> lacks D d \<Longrightarrow> lacks E e \<Longrightarrow>
   returns (lacks (A \<union> B \<union> C \<union> D \<union> E)) (need5 a b c d e f)"
  by (cases a; cases b; cases c; cases d; cases e) (auto simp: need5_eq lacks_def returns_def rmap_eq_Inr)

lemma metric_of_lacks: "lacks L n \<Longrightarrow> metric_lacks L (metric_of n)"
  by (cases n) (auto simp: lacks_def metric_lacks_def metric_of_def)

lemma as_metric_lacks: "lacks L n \<Longrightarrow> returns (metric_lacks L) (as_metric n)"
  by (cases n) (auto simp: lacks_def metric_lacks_def metric_of_def as_metric_def need1_eq returns_def rmap_eq_Inr)

text \<open>The inputs of a list of fields that the opportunity does not know.\<close>

definition unknown_input :: "economic_inputs \<Rightarrow> string \<Rightarrow> bool" where
  "unknown_input e f = (case econ_input e f of Some i \<Rightarrow> \<not> input_is_known i | None \<Rightarrow> False)"

definition unknown_of :: "economic_inputs \<Rightarrow> string list \<Rightarrow> string set" where
  "unknown_of e fs = set (filter (unknown_input e) fs)"

lemma unknown_of_append [simp]: "unknown_of e (fs @ gs) = unknown_of e fs \<union> unknown_of e gs"
  by (simp add: unknown_of_def)

lemma unknown_of_Cons: "unknown_of e (f # g # fs) = unknown_of e [f] \<union> unknown_of e (g # fs)"
  by (simp add: unknown_of_def)

definition fx_fields :: "economic_inputs \<Rightarrow> currency \<Rightarrow> string set" where
  "fx_fields e c = (case fx_for e c of Inl l \<Rightarrow> l | Inr _ \<Rightarrow> {})"

lemma fx_lacks: "lacks (fx_fields e c) (fx_for e c)"
  by (auto simp: lacks_def fx_fields_def fx_for_def split: option.splits)

lemma pick_lacks_if:
  assumes "econ_input e f = Some i" "input_is_known i = est_is_known (a_value a)"
  shows "lacks (unknown_of e [f]) (pick a s bt f)"
  using est_pick_known [of "a_value a" s bt] assms
  by (auto simp: pick_def lacks_def unknown_of_def unknown_input_def split: option.splits)

lemma pick_lacks:
  shows count_lacks: "econ_input e f = Some (ICount a) \<Longrightarrow> lacks (unknown_of e [f]) (pick a s bt f)"
    and share_lacks: "econ_input e f = Some (IShare b) \<Longrightarrow> lacks (unknown_of e [f]) (pick b s bt f)"
    and amount_lacks: "econ_input e f = Some (IAmount c) \<Longrightarrow> lacks (unknown_of e [f]) (pick c s bt f)"
  using pick_lacks_if by (metis input_is_known.simps)+

lemma econ_input_outside:
  assumes "\<And>t. field \<noteq> ''economics.revenue.'' @ t"
  shows "econ_input e field =
    map_option snd (find (\<lambda>(f, _). f = field) (map (\<lambda>(f, i). (''economics.'' @ f, i)) (other_inputs e)))"
  unfolding econ_input_def econ_inputs_split find_append find_revenue_prefix_None [OF assms] by simp

lemma econ_input_other:
  "econ_input e f_VARIABLE_COST = Some (IShare (e_variable_cost e))"
  "econ_input e f_FIXED_COSTS = Some (IAmount (e_fixed_costs_per_month e))"
  "econ_input e f_OWNER_HOURS = Some (ICount (e_owner_hours_per_month e))"
  "econ_input e f_RAMP = Some (ICount (e_ramp_months e))"
  "econ_input e f_ACQUISITION = Some (IAmount (ic_acquisition (e_initial e)))"
  "econ_input e f_SETUP = Some (IAmount (ic_setup (e_initial e)))"
  "econ_input e f_VALIDATION = Some (IAmount (ic_validation (e_initial e)))"
  "econ_input e f_WORKING_CAPITAL = Some (IAmount (ic_working_capital (e_initial e)))"
  by (simp_all add: econ_input_outside other_inputs_def f_VARIABLE_COST_def
      f_FIXED_COSTS_def f_OWNER_HOURS_def f_RAMP_def f_ACQUISITION_def f_SETUP_def f_VALIDATION_def
      f_WORKING_CAPITAL_def)

fun revenue_needs :: "revenue_model \<Rightarrow> string list" where
  "revenue_needs (Recurring _ _ _ _ _) = [f_LEADS, f_CONVERSION, f_CHURN, f_PRICE, f_COLLECTION_LOSS]"
| "revenue_needs (OneOff _ _ _ _ _) = [f_CONTRACT_VALUE, f_WIN_PROBABILITY, f_COLLECTION_LOSS]"
| "revenue_needs (Acquisition _ _ _) = [f_ASSET_REVENUE, f_CHURN, f_COLLECTION_LOSS]"
| "revenue_needs (RevenueShare _ _ _) = [f_PARTNER_REVENUE, f_SHARE, f_COLLECTION_LOSS]"

lemma econ_input_share:
  assumes "e_revenue e = RevenueShare partner share loss"
  shows "econ_input e f_PARTNER_REVENUE = Some (IAmount partner)" "econ_input e f_SHARE = Some (IShare share)"
    "econ_input e f_COLLECTION_LOSS = Some (IShare loss)"
  using econ_input_revenue [of e "''partner_monthly_revenue''"] econ_input_revenue [of e "''share''"]
    econ_input_revenue [of e "''collection_loss''"]
  by (simp_all add: assms f_PARTNER_REVENUE_def f_SHARE_def f_COLLECTION_LOSS_def)

lemma econ_input_recurring:
  assumes "e_revenue e = Recurring leads conv churn price loss"
  shows "econ_input e f_LEADS = Some (ICount leads)" "econ_input e f_CONVERSION = Some (IShare conv)"
    "econ_input e f_CHURN = Some (IShare churn)" "econ_input e f_PRICE = Some (IAmount price)"
    "econ_input e f_COLLECTION_LOSS = Some (IShare loss)"
  using econ_input_revenue [of e "''leads_per_month''"] econ_input_revenue [of e "''conversion''"]
    econ_input_revenue [of e "''churn_per_month''"] econ_input_revenue [of e "''price_per_month''"]
    econ_input_revenue [of e "''collection_loss''"]
  by (simp_all add: assms f_LEADS_def f_CONVERSION_def f_CHURN_def f_PRICE_def f_COLLECTION_LOSS_def)

lemma econ_input_acquisition:
  assumes "e_revenue e = Acquisition asset churn loss"
  shows "econ_input e f_ASSET_REVENUE = Some (IAmount asset)" "econ_input e f_CHURN = Some (IShare churn)"
    "econ_input e f_COLLECTION_LOSS = Some (IShare loss)"
  using econ_input_revenue [of e "''asset_monthly_revenue''"] econ_input_revenue [of e "''churn_per_month''"]
    econ_input_revenue [of e "''collection_loss''"]
  by (simp_all add: assms f_ASSET_REVENUE_def f_CHURN_def f_COLLECTION_LOSS_def)

lemma econ_input_one_off:
  assumes "e_revenue e = OneOff contract win weeks total_hours loss"
  shows "econ_input e f_CONTRACT_VALUE = Some (IAmount contract)" "econ_input e f_WIN_PROBABILITY = Some (IShare win)"
    "econ_input e f_DELIVERY_WEEKS = Some (ICount weeks)" "econ_input e f_OWNER_HOURS_TOTAL = Some (ICount total_hours)"
    "econ_input e f_COLLECTION_LOSS = Some (IShare loss)"
  using econ_input_revenue [of e "''contract_value''"] econ_input_revenue [of e "''win_probability''"]
    econ_input_revenue [of e "''delivery_weeks''"] econ_input_revenue [of e "''owner_hours_total''"]
    econ_input_revenue [of e "''collection_loss''"]
  by (simp_all add: assms f_CONTRACT_VALUE_def f_WIN_PROBABILITY_def f_DELIVERY_WEEKS_def f_OWNER_HOURS_TOTAL_def
      f_COLLECTION_LOSS_def)

lemma stream_of_lacks:
  assumes "\<not> is_one_off (e_revenue e)"
  shows "returns (lacks (unknown_of e (revenue_needs (e_revenue e)))) (stream_of (e_revenue e) s)"
proof (cases "e_revenue e")
  case (Recurring leads conv churn price loss)
  note i = econ_input_recurring [OF Recurring]
  show ?thesis
    using need5_lacks [OF count_lacks [OF i(1)] share_lacks [OF i(2)] share_lacks [OF i(3)] amount_lacks [OF i(4)]
        share_lacks [OF i(5)]]
    by (simp add: Recurring unknown_of_append [symmetric] del: unknown_of_append)
next
  case (Acquisition asset churn loss)
  note i = econ_input_acquisition [OF Acquisition]
  show ?thesis
    using need3_lacks [OF amount_lacks [OF i(1)] share_lacks [OF i(2)] share_lacks [OF i(3)]]
    by (simp add: Acquisition unknown_of_append [symmetric] del: unknown_of_append)
next
  case (RevenueShare partner share loss)
  note i = econ_input_share [OF RevenueShare]
  show ?thesis
    using need3_lacks [OF amount_lacks [OF i(1)] share_lacks [OF i(2)] share_lacks [OF i(3)]]
    by (simp add: RevenueShare unknown_of_append [symmetric] del: unknown_of_append)
qed (use assms in simp)

definition common_lacks :: "economic_inputs \<Rightarrow> common \<Rightarrow> bool" where
  "common_lacks e cm \<longleftrightarrow>
     lacks (unknown_of e [f_VARIABLE_COST]) (cm_variable cm) \<and> lacks (unknown_of e [f_FIXED_COSTS]) (cm_fixed cm) \<and>
     lacks (unknown_of e [f_OWNER_HOURS]) (cm_hours cm) \<and> lacks (unknown_of e [f_RAMP]) (cm_ramp cm) \<and>
     lacks (unknown_of e [f_ACQUISITION, f_SETUP, f_VALIDATION, f_WORKING_CAPITAL]) (cm_initial cm)"

lemma common_pick_lacks: "returns (common_lacks e) (common_pick e s)"
proof -
  note i = econ_input_other [of e]
  have "returns (lacks (unknown_of e [f_ACQUISITION, f_SETUP, f_VALIDATION, f_WORKING_CAPITAL]))
     (need4 (pick (ic_acquisition (e_initial e)) s Lower f_ACQUISITION)
       (pick (ic_setup (e_initial e)) s Lower f_SETUP)
       (pick (ic_validation (e_initial e)) s Lower f_VALIDATION)
       (pick (ic_working_capital (e_initial e)) s Lower f_WORKING_CAPITAL)
       (\<lambda>a b c d. rfold econ_add 0 [a, b, c, d]))"
    using need4_lacks [OF amount_lacks [OF i(5)] amount_lacks [OF i(6)] amount_lacks [OF i(7)] amount_lacks [OF i(8)]]
    by (simp add: unknown_of_append [symmetric] del: unknown_of_append)
  then show ?thesis
    unfolding common_pick_def
    by (rule returns_bind)
      (simp add: common_lacks_def share_lacks [OF i(1)] amount_lacks [OF i(2)] count_lacks [OF i(3)] count_lacks [OF i(4)])
qed

text \<open>
  The fields each figure needs, besides the exchange rate. A one-off deal spreads its revenue and its delivery
  hours over the months it takes; the other models ramp up.
\<close>

definition needs_revenue :: "economic_inputs \<Rightarrow> string list" where
  "needs_revenue e = revenue_needs (e_revenue e) @ [if is_one_off (e_revenue e) then f_DELIVERY_WEEKS else f_RAMP]"

definition needs_cash :: "economic_inputs \<Rightarrow> string list" where
  "needs_cash e = needs_revenue e @ [f_VARIABLE_COST, f_FIXED_COSTS]"

definition needs_hours :: "economic_inputs \<Rightarrow> string list" where
  "needs_hours e = f_OWNER_HOURS # (if is_one_off (e_revenue e) then [f_OWNER_HOURS_TOTAL, f_DELIVERY_WEEKS] else [])"

definition needs_initial :: "string list" where
  "needs_initial = [f_ACQUISITION, f_SETUP, f_VALIDATION, f_WORKING_CAPITAL]"

definition figures_lack :: "economic_inputs \<Rightarrow> currency \<Rightarrow> scenario_metrics \<Rightarrow> bool" where
  "figures_lack e c m \<longleftrightarrow>
     metric_lacks (unknown_of e (needs_revenue e) \<union> fx_fields e c) (sm_monthly_revenue_collected m) \<and>
     metric_lacks (unknown_of e (needs_cash e) \<union> fx_fields e c) (sm_monthly_cash_contribution m) \<and>
     metric_lacks (unknown_of e (needs_hours e)) (sm_owner_hours_per_month m) \<and>
     metric_lacks (unknown_of e (needs_hours e)) (sm_owner_time_cost m) \<and>
     metric_lacks (unknown_of e (needs_cash e @ needs_hours e) \<union> fx_fields e c) (sm_time_adjusted_contribution m) \<and>
     metric_lacks (unknown_of e needs_initial \<union> fx_fields e c) (sm_initial_capital m) \<and>
     metric_lacks (unknown_of e (needs_cash e @ f_RAMP # needs_initial)) (sm_payback m) \<and>
     metric_lacks (unknown_of e (needs_cash e @ needs_hours e @ f_RAMP # needs_initial) \<union> fx_fields e c)
       (sm_payback_time_adjusted m) \<and>
     (case sm_occupied_months m of
        None \<Rightarrow> \<not> is_one_off (e_revenue e)
      | Some n \<Rightarrow> is_one_off (e_revenue e) \<and> metric_lacks (unknown_of e [f_DELIVERY_WEEKS]) n)"

lemma run_rate_lacks:
  assumes st: "lacks (unknown_of e (revenue_needs (e_revenue e))) st" and cm: "common_lacks e cm"
    and k: "k_fx k = fx_for e c" and r: "\<not> is_one_off (e_revenue e)"
  shows "returns (figures_lack e c) (run_rate st cm k s)"
proof -
  have l: "lacks (unknown_of e [f_VARIABLE_COST]) (cm_variable cm)" "lacks (unknown_of e [f_FIXED_COSTS]) (cm_fixed cm)"
    "lacks (unknown_of e [f_OWNER_HOURS]) (cm_hours cm)" "lacks (unknown_of e [f_RAMP]) (cm_ramp cm)"
    "lacks (unknown_of e [f_ACQUISITION, f_SETUP, f_VALIDATION, f_WORKING_CAPITAL]) (cm_initial cm)"
    using cm by (simp_all add: common_lacks_def)
  show ?thesis
    unfolding run_rate_def Let_def k
    apply (rule returns_bind [OF need2_lacks [OF st l(4)]])
    apply (rule returns_bind [OF need3_lacks [OF _ l(1,2)]], assumption)
    apply (rule returns_bind [OF need1_lacks [OF l(3)]])
    apply (rule returns_bind [OF need2_lacks [OF _ fx_lacks]], assumption)
    apply (rule returns_bind [OF need2_lacks [OF _ fx_lacks]], assumption)
    apply (rule returns_bind [OF need2_lacks], assumption, assumption)
    apply (rule returns_bind [OF need2_lacks [OF l(5) fx_lacks]])
    apply (rule returns_bind [OF need2_lacks [OF _ l(5)]], assumption)
    apply (rule returns_bind [OF need4_lacks [OF _ _ _ fx_lacks]], assumption, assumption, assumption)
    apply (rule returns_bind [OF as_metric_lacks], assumption)+
    apply (simp add: figures_lack_def needs_revenue_def needs_cash_def needs_hours_def needs_initial_def r
        unknown_of_Cons Un_ac metric_of_lacks l(3))
    done
qed

lemma need7_lacks:
  "lacks A a \<Longrightarrow> lacks B b \<Longrightarrow> lacks C c \<Longrightarrow> lacks D d \<Longrightarrow> lacks E e \<Longrightarrow> lacks G g \<Longrightarrow> lacks H h \<Longrightarrow>
   returns (lacks (A \<union> B \<union> C \<union> D \<union> E \<union> G \<union> H)) (need7 a b c d e g h f)"
  by (cases a; cases b; cases c; cases d; cases e; cases g; cases h)
    (auto simp: need7_eq lacks_def returns_def rmap_eq_Inr)

lemma need_map_lacks: "lacks A n \<Longrightarrow> returns (lacks A) (need_map f n)"
  by (cases n) (auto simp: need_map_def lacks_def returns_def rmap_eq_Inr)

lemma one_off_lacks:
  assumes deal: "lacks (unknown_of e [f_CONTRACT_VALUE]) (od_contract d)" "lacks (unknown_of e [f_WIN_PROBABILITY]) (od_win d)"
      "lacks (unknown_of e [f_COLLECTION_LOSS]) (od_loss d)" "lacks (unknown_of e [f_OWNER_HOURS_TOTAL]) (od_hours_total d)"
    and weeks: "lacks (unknown_of e [f_DELIVERY_WEEKS]) weeks" and cm: "common_lacks e cm"
    and k: "k_fx k = fx_for e c" and r: "is_one_off (e_revenue e)"
  shows "returns (figures_lack e c) (one_off d cm k weeks s)"
proof -
  have l: "lacks (unknown_of e [f_VARIABLE_COST]) (cm_variable cm)" "lacks (unknown_of e [f_FIXED_COSTS]) (cm_fixed cm)"
    "lacks (unknown_of e [f_OWNER_HOURS]) (cm_hours cm)" "lacks (unknown_of e [f_RAMP]) (cm_ramp cm)"
    "lacks (unknown_of e [f_ACQUISITION, f_SETUP, f_VALIDATION, f_WORKING_CAPITAL]) (cm_initial cm)"
    using cm by (simp_all add: common_lacks_def)
  have n: "revenue_needs (e_revenue e) = [f_CONTRACT_VALUE, f_WIN_PROBABILITY, f_COLLECTION_LOSS]"
    using r by (auto simp: is_one_off_iff)
  show ?thesis
    unfolding one_off_def Let_def k
    apply (rule returns_bind [OF need_map_lacks [OF weeks]])
    apply (rule returns_bind [OF need3_lacks [OF deal(1-3)]])
    apply (rule returns_bind [OF need4_lacks [OF _ l(1,2)]], assumption, assumption)
    apply (rule returns_bind [OF need3_lacks [OF l(3) deal(4)]], assumption)
    apply (rule returns_bind [OF need3_lacks [OF l(3) deal(4)]], assumption)
    apply (rule returns_bind [OF need3_lacks [OF _ _ fx_lacks]], assumption, assumption)
    apply (rule returns_bind [OF need2_lacks [OF _ fx_lacks]], assumption)
    apply (rule returns_bind [OF need2_lacks], assumption, assumption)
    apply (rule returns_bind [OF need2_lacks [OF l(5) fx_lacks]])
    apply (rule returns_bind [OF need5_lacks [OF l(4,2) _ _ l(5)]], assumption, assumption)
    apply (rule returns_bind [OF need7_lacks [OF l(4,2,3) _ _ _ fx_lacks]], assumption, assumption, assumption)
    apply (rule returns_bind [OF as_metric_lacks], assumption)+
    apply (simp add: figures_lack_def needs_revenue_def needs_cash_def needs_hours_def needs_initial_def r n
        unknown_of_Cons Un_ac metric_of_lacks)
    done
qed

lemma metric_both_lacks: "metric_lacks L a \<Longrightarrow> metric_lacks L b \<Longrightarrow> metric_lacks L (metric_both le a b lowest)"
  by (cases a; cases b) (simp_all add: metric_lacks_def)

lemma combine_lacks: "figures_lack e c m \<Longrightarrow> figures_lack e c m' \<Longrightarrow> figures_lack e c (combine m m' s)"
  by (auto simp: figures_lack_def combine_def Let_def metric_both_lacks split: option.splits)

lemma weeks_need_lacks:
  assumes "econ_input e f_DELIVERY_WEEKS = Some (ICount a)" "w = None \<longleftrightarrow> \<not> est_is_known (a_value a)"
  shows "lacks (unknown_of e [f_DELIVERY_WEEKS]) (weeks_need w)"
  using assms by (cases w) (auto simp: weeks_need_def lacks_def unknown_of_def unknown_input_def)

section \<open>An unknown figure names a field\<close>

definition proper :: "'a need \<Rightarrow> bool" where
  "proper n \<longleftrightarrow> (case n of Inl l \<Rightarrow> l \<noteq> {} \<and> finite l | Inr _ \<Rightarrow> True)"

definition named :: "'a metric \<Rightarrow> bool" where
  "named m \<longleftrightarrow> m \<noteq> MUnknown []"

lemma need_proper:
  "proper a \<Longrightarrow> returns proper (need1 a f1)"
  "proper a \<Longrightarrow> proper b \<Longrightarrow> returns proper (need2 a b f2)"
  "proper a \<Longrightarrow> proper b \<Longrightarrow> proper c \<Longrightarrow> returns proper (need3 a b c f3)"
  "proper a \<Longrightarrow> proper b \<Longrightarrow> proper c \<Longrightarrow> proper d \<Longrightarrow> returns proper (need4 a b c d f4)"
  by (cases a; (cases b)?; (cases c)?; (cases d)?;
      auto simp: need1_eq need2_eq need3_eq need4_eq proper_def returns_def rmap_eq_Inr)+

lemma need5_proper:
  "proper a \<Longrightarrow> proper b \<Longrightarrow> proper c \<Longrightarrow> proper d \<Longrightarrow> proper e \<Longrightarrow> returns proper (need5 a b c d e f)"
  by (cases a; cases b; cases c; cases d; cases e)
    (auto simp: need5_eq proper_def returns_def rmap_eq_Inr)

lemma need7_proper:
  "proper a \<Longrightarrow> proper b \<Longrightarrow> proper c \<Longrightarrow> proper d \<Longrightarrow> proper e \<Longrightarrow> proper g \<Longrightarrow> proper h \<Longrightarrow>
   returns proper (need7 a b c d e g h f)"
  by (cases a; cases b; cases c; cases d; cases e; cases g; cases h)
    (auto simp: need7_eq proper_def returns_def rmap_eq_Inr)

lemma need_map_proper: "proper n \<Longrightarrow> returns proper (need_map f n)"
  by (cases n) (auto simp: need_map_def proper_def returns_def rmap_eq_Inr)

lemma metric_of_named: "proper n \<Longrightarrow> named (metric_of n)"
  by (cases n) (auto simp: proper_def named_def metric_of_def)

lemma as_metric_named: "proper n \<Longrightarrow> returns named (as_metric n)"
  by (cases n) (auto simp: proper_def named_def metric_of_def as_metric_def need1_eq returns_def rmap_eq_Inr)

lemma pick_proper: "proper (pick a s bt f)"
  by (auto simp: pick_def proper_def split: option.splits)

lemma weeks_need_proper: "proper (weeks_need w)"
  by (auto simp: weeks_need_def proper_def split: option.splits)

lemma fx_for_proper: "proper (fx_for e c)"
  by (auto simp: fx_for_def proper_def split: option.splits)

definition common_proper :: "common \<Rightarrow> bool" where
  "common_proper cm \<longleftrightarrow> proper (cm_variable cm) \<and> proper (cm_fixed cm) \<and> proper (cm_hours cm) \<and>
     proper (cm_ramp cm) \<and> proper (cm_initial cm)"

lemma common_pick_proper: "returns common_proper (common_pick e s)"
  unfolding common_pick_def
  by (rule returns_bind [OF need_proper(4)]) (simp_all add: common_proper_def pick_proper)

lemma stream_of_proper: "returns proper (stream_of m s)"
  by (cases m) (auto simp: pick_proper returns_def [of _ "Inl _"] intro!: need_proper need5_proper)

definition figures_named :: "scenario_metrics \<Rightarrow> bool" where
  "figures_named m \<longleftrightarrow> named (sm_monthly_revenue_collected m) \<and> named (sm_monthly_cash_contribution m) \<and>
     named (sm_owner_hours_per_month m) \<and> named (sm_owner_time_cost m) \<and>
     named (sm_time_adjusted_contribution m) \<and> named (sm_initial_capital m) \<and>
     named (sm_payback m) \<and> named (sm_payback_time_adjusted m)"

lemma run_rate_named:
  assumes "proper st" "common_proper cm" "proper (k_fx k)"
  shows "returns figures_named (run_rate st cm k s)"
  using assms unfolding run_rate_def Let_def common_proper_def
  by (intro returns_bind [OF need_proper(1)] returns_bind [OF need_proper(2)] returns_bind [OF need_proper(3)]
      returns_bind [OF need_proper(4)] returns_bind [OF as_metric_named])
    (simp_all add: figures_named_def metric_of_named)

lemma one_off_named:
  assumes "common_proper cm" "proper (k_fx k)" "proper w" "proper (od_contract d)" "proper (od_win d)"
    "proper (od_loss d)" "proper (od_hours_total d)"
  shows "returns figures_named (one_off d cm k w s)"
  using assms unfolding one_off_def common_proper_def
  by (intro returns_bind [OF need_proper(2)] returns_bind [OF need_proper(3)] returns_bind [OF need_map_proper]
      returns_bind [OF need_proper(4)] returns_bind [OF need5_proper] returns_bind [OF need7_proper]
      returns_bind [OF as_metric_named])
    (simp_all add: figures_named_def metric_of_named)

lemma metric_both_named: "named a \<Longrightarrow> named b \<Longrightarrow> named (metric_both le a b lowest)"
  by (cases a; cases b) (auto simp: named_def)

lemma combine_named: "figures_named a \<Longrightarrow> figures_named b \<Longrightarrow> figures_named (combine a b s)"
  by (simp add: figures_named_def combine_def Let_def metric_both_named)

lemma scenario_of_named:
  assumes "k_fx k = fx_for e c"
  shows "returns figures_named (scenario_of e k s)"
proof (cases "is_one_off (e_revenue e)")
  case True
  then obtain ct w d h l where m: "e_revenue e = OneOff ct w d h l" by (auto simp: is_one_off_iff)
  have "common_proper cm \<Longrightarrow> proper n \<Longrightarrow> returns figures_named (one_off (deal_of ct w h l s) cm k n s)" for cm n s
    by (rule one_off_named) (simp_all add: assms fx_for_proper deal_of_def pick_proper)
  then show ?thesis
    by (cases "s = Base")
      (auto simp: scenario_of_one_off [OF m] weeks_need_proper combine_named simp del: scenario_of.simps
        intro!: returns_bind [OF common_pick_proper] returns_bind [of figures_named])
next
  case False
  have "returns figures_named (rbind (stream_of (e_revenue e) s) (\<lambda>st. run_rate st cm k s))"
    if "common_proper cm" for cm
    by (rule returns_bind [OF stream_of_proper], rule run_rate_named [OF _ that]) (simp_all add: assms fx_for_proper)
  with False show ?thesis
    by (cases "e_revenue e") (auto intro!: returns_bind [OF common_pick_proper])
qed

lemma scenarios_of_named:
  assumes "scenarios_of hash o1 p = Inr sc"
  shows "figures_named (sc_downside sc)" "figures_named (sc_base sc)" "figures_named (sc_upside sc)"
  using scenarios_of_parts(1-3) [OF assms]
    scenario_of_named [of "knobs_of (o_economics o1) p" "o_economics o1" "p_currency p"]
  unfolding returns_def by (simp_all add: knobs_of_def del: scenario_of.simps)

section \<open>When the initial capital is paid back\<close>

definition first_reach :: "int list \<Rightarrow> int \<Rightarrow> payback \<Rightarrow> bool" where
  "first_reach cs initial p \<longleftrightarrow>
     (case p of
        Months n \<Rightarrow> 0 \<le> n \<and> nat n \<le> length cs \<and> initial \<le> sum_list (take (nat n) cs) \<and>
          (\<forall>j < nat n. sum_list (take j cs) < initial)
      | NotReached \<Rightarrow> \<forall>j \<le> length cs. sum_list (take j cs) < initial)"

lemma payback_scan_first:
  assumes "payback_scan initial i sm (map Inr cs) = Inr p" "sm < initial"
  shows "first_reach cs (initial - sm) (case p of Months n \<Rightarrow> Months (n - i) | NotReached \<Rightarrow> NotReached)"
  using assms
proof (induction cs arbitrary: i sm)
  case Nil
  then show ?case by (simp add: first_reach_def)
next
  case (Cons c cs)
  show ?case
  proof (cases "initial \<le> sm + c")
    case True
    with Cons.prems have "p = Months (i + 1)" by (auto simp: rbind_eq_Inr)
    with True Cons.prems show ?thesis by (auto simp: first_reach_def less_Suc_eq)
  next
    case False
    with Cons.prems have "payback_scan initial (i + 1) (sm + c) (map Inr cs) = Inr p"
      by (auto simp: rbind_eq_Inr)
    note later = this
    with Cons.IH False
    have ih: "first_reach cs (initial - (sm + c)) (case p of Months n \<Rightarrow> Months (n - (i + 1)) | NotReached \<Rightarrow> NotReached)"
      by simp
    show ?thesis
    proof (cases p)
      case (Months n)
      have "i + 2 \<le> n" using payback_scan_ge [of initial "i + 1"] later Months by fastforce
      then have n: "nat (n - i) = Suc (nat (n - (i + 1)))" by linarith
      show ?thesis
        using ih Months False Cons.prems(2) \<open>i + 2 \<le> n\<close>
        by (auto simp: first_reach_def n less_Suc_eq_0_disj algebra_simps)
    next
      case NotReached
      with ih Cons.prems(2) show ?thesis
        by (auto simp: first_reach_def algebra_simps take_Cons split: nat.splits)
    qed
  qed
qed


section \<open>Properties\<close>

text \<open>
  What the scenarios of an opportunity promise: the outcome is one of the code's errors, or three
  scenarios each no worse than the one before it.
\<close>

definition scenarios_promise ::
  "(scenario_metrics \<Rightarrow> scenario_metrics \<Rightarrow> bool) \<Rightarrow> string vres \<Rightarrow> scenarios vres \<Rightarrow> bool" where
  "scenarios_promise le hashed r =
     (case r of Inr sc \<Rightarrow> le (sc_downside sc) (sc_base sc) \<and> le (sc_base sc) (sc_upside sc)
      | Inl f \<Rightarrow> f = Err OVERFLOW \<or> hashed = Inl f)"

lemma scenarios_promiseI:
  assumes "validate_opportunity o1 = Inr ()" "opportunity_typed o1" "validate_profile p = Inr ()"
    "i64_ok (p_shadow_hourly_rate p)"
    and "\<And>k. knobs_ok k \<Longrightarrow> res_rel le (scenario_of (o_economics o1) k Downside) (scenario_of (o_economics o1) k Base) \<and>
      res_rel le (scenario_of (o_economics o1) k Base) (scenario_of (o_economics o1) k Upside)"
  shows "scenarios_promise le (hash o1 p) (scenarios_of hash o1 p)"
proof -
  have e: "econ_ok (o_economics o1)"
    using econ_ok_if_validated assms(1,2) by (simp add: opportunity_typed_def)
  note k = knobs_ok_if_validated [OF e assms(3)]
  show ?thesis
  proof (cases "scenarios_of hash o1 p")
    case (Inl f)
    then show ?thesis
      using scenarios_of_outcome [OF e risk_ok_if_validated [OF assms(1,2)]
          knobs_typed_if_validated [OF e assms(3,4)] Inl]
      by (auto simp: scenarios_promise_def)
  next
    case (Inr sc)
    then show ?thesis
      using scenarios_of_parts [OF Inr] assms(5) [OF k]
      by (auto simp: scenarios_promise_def res_rel_def simp del: scenario_of.simps)
  qed
qed

text \<open>
  C1: For a validated opportunity whose revenue recurs (not a one-off deal) and a validated profile,
  every figure of the three scenarios is ordered: revenue, cash and time-adjusted contribution rise
  from downside to base to upside; hours, owner time cost, initial capital and both paybacks fall.
  Two scenarios always know the same figures, and the computation never panics; its only error is
  \<open>OVERFLOW\<close> (or the error of the hash).
\<close>

theorem scenarios_ordered:
  assumes "validate_opportunity o1 = Inr ()" "opportunity_typed o1" "validate_profile p = Inr ()"
    "i64_ok (p_shadow_hourly_rate p)" "\<not> is_one_off (e_revenue (o_economics o1))"
  shows "scenarios_promise figures_le (hash o1 p) (scenarios_of hash o1 p)"
proof (rule scenarios_promiseI [OF assms(1-4)])
  fix k assume "knobs_ok k"
  with econ_ok_if_validated [OF assms(1)] assms(2,5)
  show "res_rel figures_le (scenario_of (o_economics o1) k Downside) (scenario_of (o_economics o1) k Base) \<and>
      res_rel figures_le (scenario_of (o_economics o1) k Base) (scenario_of (o_economics o1) k Upside)"
    by (intro conjI run_rate_ordered) (auto simp: opportunity_typed_def is_one_off_iff)
qed

theorem scenarios_ordered_witness:
  "scenarios_promise figures_le (Inr ''sha'')
     (scenarios_of (\<lambda>_ _. Inr ''sha'') (sample_opportunity PartnerRevshare sample_share) sample_profile)"
  using scenarios_ordered [OF sample_share_valid sample_typed(1) sample_profile_valid, of "\<lambda>_ _. Inr ''sha''"]
  by (simp add: sample_profile_def sample_opportunity_def sample_economics_def sample_share_def width_simps)

text \<open>
  C32: For a one-off deal the monthly levels are ordered (collected revenue, cash contribution, owner
  hours, owner time cost, initial capital), although the delivery length shared out over the months
  differs between scenarios, and the computation never panics.
\<close>

theorem one_off_levels_ordered:
  assumes "validate_opportunity o1 = Inr ()" "opportunity_typed o1" "validate_profile p = Inr ()"
    "i64_ok (p_shadow_hourly_rate p)" "is_one_off (e_revenue (o_economics o1))"
  shows "scenarios_promise level_figures_le (hash o1 p) (scenarios_of hash o1 p)"
proof (rule scenarios_promiseI [OF assms(1-4)])
  fix k assume k: "knobs_ok k"
  obtain c w d h l where "e_revenue (o_economics o1) = OneOff c w d h l"
    using assms(5) by (auto simp: is_one_off_iff)
  with econ_ok_if_validated [OF assms(1)] assms(2) k one_off_ordered
  show "res_rel level_figures_le (scenario_of (o_economics o1) k Downside) (scenario_of (o_economics o1) k Base) \<and>
      res_rel level_figures_le (scenario_of (o_economics o1) k Base) (scenario_of (o_economics o1) k Upside)"
    unfolding opportunity_typed_def by blast
qed

theorem one_off_levels_ordered_witness:
  "scenarios_promise level_figures_le (Inr ''sha'')
     (scenarios_of (\<lambda>_ _. Inr ''sha'') (sample_opportunity HighTicketDelivery sample_one_off) sample_profile)"
  using one_off_levels_ordered [OF sample_one_off_valid sample_typed(2) sample_profile_valid, of "\<lambda>_ _. Inr ''sha''"]
  by (simp add: sample_profile_def sample_opportunity_def sample_economics_def sample_one_off_def width_simps)

text \<open>
  The other figures of a one-off deal are not ordered. A deal of 160 EUR with an initial 160 EUR
  and four owner hours, delivered in 4, 9 or 16 weeks: the downside pays back in its fourth month and
  has a time-adjusted contribution of 0, while the base never pays back and has -1. Each month's share
  is rounded down, so a delivery length between the two ends can be worse than both, and \<open>combine\<close>
  takes the worse of the ends only.
\<close>

lemma one_off_payback_not_ordered:
  "map_sum (\<lambda>f. f) (\<lambda>m. (sm_time_adjusted_contribution m, sm_payback m))
     (scenario_of plain_one_off (knobs_of plain_one_off sample_profile) Downside) =
       Inr (Known 0, Known (Months 4)) \<and>
   map_sum (\<lambda>f. f) (\<lambda>m. (sm_time_adjusted_contribution m, sm_payback m))
     (scenario_of plain_one_off (knobs_of plain_one_off sample_profile) Base) =
       Inr (Known (- 1), Known NotReached)"
  by code_simp

text \<open>
  C30: An unknown figure names exactly the unknown inputs it needs, sorted, and is never shown as a
  number: for every model, each figure of a returned scenario is known when all the inputs it needs are
  (and the exchange rate, where one is needed), and otherwise lists those it lacks. A one-off deal's monthly
  figures need its delivery time too, and only such a deal has occupied months.
\<close>

theorem unknown_figures_name_their_fields:
  "returns (figures_lack e (p_currency p)) (scenario_of e (knobs_of e p) s)"
proof (cases "is_one_off (e_revenue e)")
  case False
  have "returns (figures_lack e (p_currency p))
      (rbind (stream_of (e_revenue e) s) (\<lambda>st. run_rate st cm (knobs_of e p) s))" if "common_lacks e cm" for cm
    by (rule returns_bind [OF stream_of_lacks [OF False]], rule run_rate_lacks [OF _ that])
      (simp_all add: knobs_of_def False)
  with False show ?thesis
    by (cases "e_revenue e") (auto intro!: returns_bind [OF common_pick_lacks])
next
  case True
  then obtain v w d h l where m: "e_revenue e = OneOff v w d h l" by (auto simp: is_one_off_iff)
  note i = econ_input_one_off [OF m]
  have a: "returns (figures_lack e (p_currency p)) (one_off \<lparr>od_contract = pick v t Higher f_CONTRACT_VALUE,
      od_win = pick w t Higher f_WIN_PROBABILITY, od_loss = pick l t Lower f_COLLECTION_LOSS,
      od_hours_total = pick h t Lower f_OWNER_HOURS_TOTAL\<rparr> cm (knobs_of e p) (weeks_need x) t)"
    if "common_lacks e cm" "x = None \<longleftrightarrow> \<not> est_is_known (a_value d)" for cm x t
    by (rule one_off_lacks)
      (simp_all add: amount_lacks [OF i(1)] share_lacks [OF i(2)] count_lacks [OF i(4)] share_lacks [OF i(5)] True
        weeks_need_lacks [OF i(3) that(2)] that(1) knobs_of_def)
  have k: "est_base (a_value d) = None \<longleftrightarrow> \<not> est_is_known (a_value d)"
    "est_end (a_value d) en bt = None \<longleftrightarrow> \<not> est_is_known (a_value d)" for en bt
    by (cases "a_value d"; cases en; cases bt; simp)+
  show ?thesis
    by (auto simp: m Let_def k a intro!: returns_bind [OF common_pick_lacks] returns_bind [OF a] combine_lacks)
qed

text \<open>
  C31: The payback of a stream of monthly cash is the first month by whose end the running sum
  reaches the initial capital, month 0 when there is nothing to pay back, and \<open>NOT_REACHED\<close> exactly
  when no month of the scan reaches it.
\<close>

theorem payback_is_first_month:
  assumes "payback_of (map Inr cs) initial = Inr p"
  shows "first_reach (take 600 cs) initial p"
proof (cases "initial \<le> 0")
  case True
  with assms show ?thesis by (auto simp: payback_of_def first_reach_def)
next
  case False
  with assms have "payback_scan initial 0 0 (map Inr (take 600 cs)) = Inr p"
    by (simp add: payback_of_def PAYBACK_SCAN_MONTHS_def take_map)
  from payback_scan_first [OF this] False show ?thesis by (cases p) auto
qed

theorem payback_is_first_month_witness:
  "payback_of (map Inr [-5, 10, 10]) 12 = Inr (Months 3) \<and>
   first_reach (take 600 [-5, 10, 10]) 12 (Months 3)"
proof -
  have "payback_of (map Inr [-5, 10, 10]) 12 = Inr (Months 3)" by code_simp
  then show ?thesis using payback_is_first_month by blast
qed

text \<open>
  The expected loss of a validated opportunity, in the profile's currency, is an ordered range of
  amounts that are not negative (the low end rounded down, the high end up), or unknown with the
  fields it lacks; for every model.
\<close>

theorem expected_loss_ordered:
  assumes "validate_opportunity o1 = Inr ()" "opportunity_typed o1" "validate_profile p = Inr ()"
    "scenarios_of hash o1 p = Inr sc"
  shows "loss_ordered (sc_expected_loss sc)"
proof -
  have e: "econ_ok (o_economics o1)"
    using econ_ok_if_validated assms(1,2) by (simp add: opportunity_typed_def)
  let ?k = "knobs_of (o_economics o1) p"
  have fx: "need_all fx_conv_ok (k_fx ?k)"
    by (rule fx_need_all [OF knobs_ok_if_validated [OF e assms(3)]])
  have lack: "l \<noteq> {} \<and> finite l" if "k_fx ?k = Inl l" for l
    using that by (auto simp: knobs_of_def fx_for_def split: if_splits option.splits)
  obtain m where m: "expected_loss (o_risk o1) = Inr m"
    and m': "loss_in_profile_currency (k_fx ?k) m = Inr (sc_expected_loss sc)"
    using scenarios_of_parts(4) [OF assms(4)] by (auto simp: rbind_eq_Inr)
  have "loss_ordered m"
    using expected_loss_runs [OF risk_ok_if_validated [OF assms(1,2)]] m by simp
  then show ?thesis
    by (rule loss_in_profile_currency_ordered [OF fx _ m' lack])
qed

end
