(* ===== verification/Soe_Gates.thy ===== *)
theory Soe_Gates
  imports Soe_Economics_Props
begin

text \<open>
  The hard gates that run before any ranking (\<open>src/src/domain/soe/gates.rs\<close>): an opportunity, the
  records it cites, the signed profile and the decision time in, a verdict with every failed gate
  out. Each gate function is the list of failures it pushes, in order; the \<open>detail\<close> of a failure is
  text for a reader and is left out. \<open>settle\<close> keeps one failure per code and field, sorts them and
  gives the verdict.

  Shown here: what \<open>settle\<close> keeps of a list of failures. The properties of the gates are in
  \<open>Soe_Gates_Props\<close>.
\<close>

section \<open>Failures\<close>

datatype gate_code =
    MechanismHold | MechanismReject | CashExposureAboveCap | TrancheAboveMax
  | ContributionBelowTarget | BelowTargetWithPath | PaybackAboveMax | DeliveryTooLong
  | UnboundedOwnerTime | UnboundedSupport | UnboundedPaymentAccess | UnboundedScope
  | NoTestableEvidence | SingleDemandSignal | ContradictedEvidence | LegalUnresolved
  | DiligenceOpen | DealRedFlag | JurisdictionNotAllowed | NoStagedStopRule
  | DownsideUnstated | UnknownInput

text \<open>The derived order: the order of declaration.\<close>

fun gate_rank :: "gate_code \<Rightarrow> nat" where
  "gate_rank MechanismHold = 0" | "gate_rank MechanismReject = 1"
| "gate_rank CashExposureAboveCap = 2" | "gate_rank TrancheAboveMax = 3"
| "gate_rank ContributionBelowTarget = 4" | "gate_rank BelowTargetWithPath = 5"
| "gate_rank PaybackAboveMax = 6" | "gate_rank DeliveryTooLong = 7"
| "gate_rank UnboundedOwnerTime = 8" | "gate_rank UnboundedSupport = 9"
| "gate_rank UnboundedPaymentAccess = 10" | "gate_rank UnboundedScope = 11"
| "gate_rank NoTestableEvidence = 12" | "gate_rank SingleDemandSignal = 13"
| "gate_rank ContradictedEvidence = 14" | "gate_rank LegalUnresolved = 15"
| "gate_rank DiligenceOpen = 16" | "gate_rank DealRedFlag = 17"
| "gate_rank JurisdictionNotAllowed = 18" | "gate_rank NoStagedStopRule = 19"
| "gate_rank DownsideUnstated = 20" | "gate_rank UnknownInput = 21"

lemma gate_rank_inj: "gate_rank a = gate_rank b \<Longrightarrow> a = b"
  by (cases a; cases b) simp_all

instantiation gate_code :: linorder
begin

definition less_eq_gate_code :: "gate_code \<Rightarrow> gate_code \<Rightarrow> bool" where
  "less_eq_gate_code a b \<longleftrightarrow> gate_rank a \<le> gate_rank b"

definition less_gate_code :: "gate_code \<Rightarrow> gate_code \<Rightarrow> bool" where
  "less_gate_code a b \<longleftrightarrow> gate_rank a < gate_rank b"

instance
  by standard (auto simp: less_eq_gate_code_def less_gate_code_def intro: gate_rank_inj)

end

fun gate_code_str :: "gate_code \<Rightarrow> string" where
  "gate_code_str MechanismHold = ''MECHANISM_HOLD''"
| "gate_code_str MechanismReject = ''MECHANISM_REJECT''"
| "gate_code_str CashExposureAboveCap = ''CASH_EXPOSURE_ABOVE_CAP''"
| "gate_code_str TrancheAboveMax = ''TRANCHE_ABOVE_MAX''"
| "gate_code_str ContributionBelowTarget = ''CONTRIBUTION_BELOW_TARGET''"
| "gate_code_str BelowTargetWithPath = ''BELOW_TARGET_WITH_PATH''"
| "gate_code_str PaybackAboveMax = ''PAYBACK_ABOVE_MAX''"
| "gate_code_str DeliveryTooLong = ''DELIVERY_TOO_LONG''"
| "gate_code_str UnboundedOwnerTime = ''UNBOUNDED_OWNER_TIME''"
| "gate_code_str UnboundedSupport = ''UNBOUNDED_SUPPORT''"
| "gate_code_str UnboundedPaymentAccess = ''UNBOUNDED_PAYMENT_ACCESS''"
| "gate_code_str UnboundedScope = ''UNBOUNDED_SCOPE''"
| "gate_code_str NoTestableEvidence = ''NO_TESTABLE_EVIDENCE''"
| "gate_code_str SingleDemandSignal = ''SINGLE_DEMAND_SIGNAL''"
| "gate_code_str ContradictedEvidence = ''CONTRADICTED_EVIDENCE''"
| "gate_code_str LegalUnresolved = ''LEGAL_UNRESOLVED''"
| "gate_code_str DiligenceOpen = ''DILIGENCE_OPEN''"
| "gate_code_str DealRedFlag = ''DEAL_RED_FLAG''"
| "gate_code_str JurisdictionNotAllowed = ''JURISDICTION_NOT_ALLOWED''"
| "gate_code_str NoStagedStopRule = ''NO_STAGED_STOP_RULE''"
| "gate_code_str DownsideUnstated = ''DOWNSIDE_UNSTATED''"
| "gate_code_str UnknownInput = ''UNKNOWN_INPUT''"

record gate_failure =
  gf_code :: gate_code
  gf_outcome :: verdict
  gf_field :: "string option"

definition gate_label :: "gate_failure \<Rightarrow> string" where
  "gate_label f =
     (case (gf_code f, gf_field f) of
        (UnknownInput, Some field) \<Rightarrow> gate_code_str (gf_code f) @ '':'' @ field
      | _ \<Rightarrow> gate_code_str (gf_code f))"

record gate_verdict =
  gv_verdict :: verdict
  gv_as_of :: time
  gv_economics_version :: int
  gv_inputs_sha256 :: string
  gv_failures :: "gate_failure list"

text \<open>Rust's \<open>retain\<close> or \<open>filter\<close> with \<open>seen.insert(key)\<close>: the first entry per key.\<close>

fun retain_from :: "('a \<Rightarrow> 'k) \<Rightarrow> 'k list \<Rightarrow> 'a list \<Rightarrow> 'a list" where
  "retain_from key seen [] = []"
| "retain_from key seen (x # xs) =
     (if key x \<in> set seen then retain_from key seen xs
      else x # retain_from key (key x # seen) xs)"

abbreviation retain_first :: "('a \<Rightarrow> 'k) \<Rightarrow> 'a list \<Rightarrow> 'a list" where
  "retain_first key xs \<equiv> retain_from key [] xs"

definition verdict_labels :: "gate_verdict \<Rightarrow> string list" where
  "verdict_labels v = retain_first (\<lambda>l. l) (map gate_label (gv_failures v))"

definition next_information :: "gate_verdict \<Rightarrow> string list" where
  "next_information v =
     sorted_list_of_set (set (List.map_filter gf_field
       (filter (\<lambda>f. gf_outcome f = Hold) (gv_failures v))))"

section \<open>Cited records\<close>

datatype cited_kind = Fact | Demand | Trigger

record cited_record =
  cr_record_id :: string
  cr_event_key :: string
  cr_kind :: cited_kind
  cr_knowable_at :: time
  cr_valid_until :: "time option"
  cr_contradicted_at :: "time option"

definition knowable :: "cited_record \<Rightarrow> time \<Rightarrow> bool" where
  "knowable c as_of \<longleftrightarrow> torder (cr_knowable_at c) as_of = NotAfter"

definition fresh :: "cited_record \<Rightarrow> time \<Rightarrow> bool" where
  "fresh c as_of \<longleftrightarrow>
     (case cr_valid_until c of
        None \<Rightarrow> True
      | Some until \<Rightarrow>
          (case (latest as_of, earliest until) of (Some a, Some u) \<Rightarrow> a < u | _ \<Rightarrow> False))"

definition contradicted :: "cited_record \<Rightarrow> time \<Rightarrow> bool" where
  "contradicted c as_of \<longleftrightarrow>
     (case cr_contradicted_at c of Some t \<Rightarrow> torder t as_of \<noteq> After | None \<Rightarrow> False)"

definition supports :: "cited_record \<Rightarrow> time \<Rightarrow> bool" where
  "supports c as_of \<longleftrightarrow>
     knowable c as_of \<and> fresh c as_of \<and> \<not> contradicted c as_of \<and> cr_kind c \<noteq> Trigger"

definition cited_problems :: "cited_record list \<Rightarrow> problem list" where
  "cited_problems cited =
     p_unique ''cited.record_id'' (map cr_record_id cited) @
     p_each (\<lambda>i c. p_text (at_index ''cited'' i @ ''.record_id'') (cr_record_id c) @
       p_text (at_index ''cited'' i @ ''.event_key'') (cr_event_key c)) cited"

definition cited_views :: "opportunity \<Rightarrow> cited_record list \<Rightarrow> cited_record list" where
  "cited_views opp cited =
     List.map_filter (\<lambda>i. find (\<lambda>c. cr_record_id c = i) cited) (o_signals opp)"

section \<open>The run\<close>

definition hold :: "gate_code \<Rightarrow> string \<Rightarrow> gate_failure" where
  "hold c field = \<lparr>gf_code = c, gf_outcome = Hold, gf_field = Some field\<rparr>"

definition reject :: "gate_code \<Rightarrow> string \<Rightarrow> gate_failure" where
  "reject c field = \<lparr>gf_code = c, gf_outcome = Reject, gf_field = Some field\<rparr>"

definition unknown_holds :: "string list \<Rightarrow> gate_failure list" where
  "unknown_holds lacking = map (hold UnknownInput) lacking"

definition failure_key :: "gate_failure \<Rightarrow> gate_code \<times> string option" where
  "failure_key f = (gf_code f, gf_field f)"

definition failure_order :: "gate_failure \<Rightarrow> bool \<times> gate_code \<times> string option" where
  "failure_order f = (gf_outcome f \<noteq> Reject, gf_code f, gf_field f)"

definition settle :: "gate_failure list \<Rightarrow> verdict \<times> gate_failure list" where
  "settle raw =
     (let out = sort_key failure_order (retain_first failure_key raw) in
     (if list_ex (\<lambda>f. gf_outcome f = Reject) out then Reject
      else if out = [] then Pass
      else Hold, out))"

definition with_holds :: "gate_verdict \<Rightarrow> gate_failure list \<Rightarrow> gate_verdict" where
  "with_holds v holds =
     (case settle (gv_failures v @ map (\<lambda>f. f\<lparr>gf_outcome := Hold\<rparr>) holds) of
        (verdict, out) \<Rightarrow> v\<lparr>gv_verdict := verdict, gv_failures := out\<rparr>)"

section \<open>The gates\<close>

fun mechanism_gate :: "mechanism \<Rightarrow> gate_failure list" where
  "mechanism_gate MHold = [hold MechanismHold ''mechanism'']"
| "mechanism_gate MReject = [reject MechanismReject ''mechanism'']"
| "mechanism_gate _ = []"

definition above :: "operator_profile \<Rightarrow> string \<Rightarrow> minor \<Rightarrow> gate_failure list" where
  "above p field amount =
     (if amount > p_max_cash_exposure p then [reject CashExposureAboveCap field] else [])"

definition native_above :: "opportunity \<Rightarrow> operator_profile \<Rightarrow> string \<Rightarrow> minor \<Rightarrow> gate_failure list vres" where
  "native_above opp p field amount =
     rbind (to_currency (o_economics opp) (p_currency p) amount Outflow) (\<lambda>v.
     Inr (case v of Some x \<Rightarrow> above p field x | None \<Rightarrow> unknown_holds [f_FX]))"

definition stage_tranche :: "opportunity \<Rightarrow> operator_profile \<Rightarrow> nat \<times> stage \<Rightarrow> gate_failure list vres" where
  "stage_tranche opp p is =
     (case is of (i, s) \<Rightarrow>
        rbind (to_currency (o_economics opp) (p_currency p) (s_cash s) Outflow) (\<lambda>v.
        Inr (case v of
               Some x \<Rightarrow>
                 if x > p_max_validation_tranche p
                 then [reject TrancheAboveMax (at_index ''experiment.stages'' i @ ''.cash'')] else []
             | None \<Rightarrow> unknown_holds [f_FX])))"

definition exposure_gate :: "opportunity \<Rightarrow> scenarios \<Rightarrow> operator_profile \<Rightarrow> gate_failure list vres" where
  "exposure_gate opp sc p =
     (let initial = (case sm_initial_capital (sc_downside sc) of
                       Known v \<Rightarrow> above p ''economics.initial'' v
                     | MUnknown l \<Rightarrow> unknown_holds l)
      in rbind (case o_experiment opp of
                  None \<Rightarrow> Inr []
                | Some x \<Rightarrow>
                    rbind (total_cash x) (\<lambda>cash.
                    rbind (native_above opp p ''experiment.stages'' cash) (\<lambda>a.
                    rbind (rmapM (stage_tranche opp p) (enumerate 0 (x_stages x))) (\<lambda>bs.
                    Inr (a @ concat bs))))) (\<lambda>staged.
         rbind (case est_end (ml_cash (ra_max_loss (o_risk opp))) Adverse Lower of
                  None \<Rightarrow> Inr []
                | Some hi \<Rightarrow> native_above opp p ''risk.max_loss.cash'' hi) (\<lambda>loss.
         Inr (initial @ staged @ loss))))"

definition live :: "experiment_spec \<Rightarrow> time \<Rightarrow> bool" where
  "live x as_of \<longleftrightarrow>
     (case (latest as_of, window_end (x_expires_at x)) of (Some t, Some e) \<Rightarrow> t < e | _ \<Rightarrow> False)"

definition staged_path :: "opportunity \<Rightarrow> time \<Rightarrow> bool" where
  "staged_path opp as_of \<longleftrightarrow>
     (case o_experiment opp of
        None \<Rightarrow> False
      | Some x \<Rightarrow>
          live x as_of \<and>
          (case first_spend x of Some (_, s) \<Rightarrow> s_stop_rule s \<noteq> None | None \<Rightarrow> True))"

definition post_tax :: "operator_profile \<Rightarrow> gate_failure list" where
  "post_tax p = (if p_profit_basis p = PostTax then [hold UnknownInput ''economics.tax_review''] else [])"

fun basis_name :: "contribution_basis \<Rightarrow> string" where
  "basis_name TimeAdjusted = ''time_adjusted_contribution''"
| "basis_name Cash = ''monthly_cash_contribution''"

definition contribution_gate ::
  "opportunity \<Rightarrow> scenarios \<Rightarrow> operator_profile \<Rightarrow> time \<Rightarrow> gate_failure list" where
  "contribution_gate opp sc p as_of =
     (let basis = p_contribution_basis p; target = p_min_monthly_contribution p in
     case sm_contribution (sc_base sc) basis of
       MUnknown l \<Rightarrow> unknown_holds l
     | Known contrib \<Rightarrow>
         if contrib < target then
           (let reaches = (case metric_known (sm_contribution (sc_upside sc) basis) of
                             Some u \<Rightarrow> u \<ge> target | None \<Rightarrow> False)
            in if reaches \<and> staged_path opp as_of then [hold BelowTargetWithPath ''experiment'']
               else [reject ContributionBelowTarget (basis_name basis)])
         else post_tax p)"

definition payback_gate :: "scenarios \<Rightarrow> operator_profile \<Rightarrow> gate_failure list" where
  "payback_gate sc p =
     (case sm_payback (sc_base sc) of
        MUnknown l \<Rightarrow> unknown_holds l
      | Known (Months n) \<Rightarrow>
          if n \<le> p_max_payback_months p then post_tax p else [reject PaybackAboveMax ''payback'']
      | Known NotReached \<Rightarrow> [reject PaybackAboveMax ''payback''])"

definition delivery_gate :: "opportunity \<Rightarrow> operator_profile \<Rightarrow> gate_failure list" where
  "delivery_gate opp p =
     (case e_revenue (o_economics opp) of
        OneOff _ _ weeks _ _ \<Rightarrow>
          (case est_base (a_value weeks) of
             None \<Rightarrow> unknown_holds [f_DELIVERY_WEEKS]
           | Some w \<Rightarrow>
               if w > p_max_one_off_delivery_weeks p then [hold DeliveryTooLong f_DELIVERY_WEEKS] else [])
      | _ \<Rightarrow> [])"

definition bound_code :: "string \<Rightarrow> gate_code" where
  "bound_code f =
     (if f = ''owner_time'' then UnboundedOwnerTime
      else if f = ''support'' then UnboundedSupport
      else if f = ''payment_access'' then UnboundedPaymentAccess
      else UnboundedScope)"

fun bound_failure :: "string \<times> boundedness \<Rightarrow> gate_failure list" where
  "bound_failure (f, Bounded) = []"
| "bound_failure (f, Unbounded) = [reject (bound_code f) (''risk.bounds.'' @ f)]"
| "bound_failure (f, BUnknown) = [hold (bound_code f) (''risk.bounds.'' @ f)]"

definition owner_hours_known :: "opportunity \<Rightarrow> (string \<times> bool) list" where
  "owner_hours_known opp =
     (f_OWNER_HOURS, est_is_known (a_value (e_owner_hours_per_month (o_economics opp)))) #
     (case e_revenue (o_economics opp) of
        OneOff _ _ _ hours _ \<Rightarrow> [(f_OWNER_HOURS_TOTAL, est_is_known (a_value hours))] | _ \<Rightarrow> [])"

definition bounds_gate :: "opportunity \<Rightarrow> gate_failure list" where
  "bounds_gate opp =
     concat (map bound_failure (bounds_each (ra_bounds (o_risk opp)))) @
     (if b_owner_time (ra_bounds (o_risk opp)) \<noteq> Unbounded then
        map (\<lambda>(f, _). hold UnboundedOwnerTime f) (filter (\<lambda>(_, known). \<not> known) (owner_hours_known opp))
      else [])"

definition evidence_gate :: "opportunity \<Rightarrow> cited_record list \<Rightarrow> time \<Rightarrow> gate_failure list" where
  "evidence_gate opp cited as_of =
     (let kn = filter (\<lambda>c. knowable c as_of) (cited_views opp cited);
          contra = filter (\<lambda>c. contradicted c as_of) kn;
          support = filter (\<lambda>c. supports c as_of) kn;
          facts = length (filter (\<lambda>c. cr_kind c = Fact) support);
          demand = set (map cr_event_key (filter (\<lambda>c. cr_kind c = Demand) support))
      in (if contra \<noteq> [] then [hold ContradictedEvidence ''signals''] else []) @
         (if facts = 0 \<and> demand = {} then [hold NoTestableEvidence ''signals'']
          else if facts = 0 \<and> card demand = 1 then [hold SingleDemandSignal ''signals'']
          else []) @
         (if list_ex (\<lambda>s. starts_with ''economics.revenue.'' (is_field s) \<and> is_evidenced_input s)
               (input_states (o_economics opp))
          then [] else [hold NoTestableEvidence ''economics.revenue'']))"

fun diligence_failure :: "string \<times> diligence_block \<Rightarrow> gate_failure list" where
  "diligence_failure (f, b) =
     (if d_status b = Verified then []
      else if d_status b = RedFlag then [reject DealRedFlag (''deal.'' @ f)]
      else [hold (if f \<in> {''ownership'', ''legal'', ''transition''} then LegalUnresolved else DiligenceOpen)
              (''deal.'' @ f)])"

definition legal_gate :: "opportunity \<Rightarrow> gate_failure list" where
  "legal_gate opp =
     map (\<lambda>(i, _). hold LegalUnresolved (at_index ''risk.risks'' i))
       (filter (\<lambda>(_, r). is_legal (r_kind r) \<and> r_status r \<noteq> RResolved)
         (enumerate 0 (ra_risks (o_risk opp)))) @
     (case o_deal opp of
        None \<Rightarrow> []
      | Some deal \<Rightarrow>
          (if dr_red_flags deal \<noteq> [] then [reject DealRedFlag ''deal.red_flags''] else []) @
          concat (map diligence_failure (deal_blocks deal)))"

definition jurisdictions_gate :: "opportunity \<Rightarrow> operator_profile \<Rightarrow> gate_failure list" where
  "jurisdictions_gate opp p =
     concat (map (\<lambda>(f, code).
       (let c = trim code in
        if \<not> stated c then unknown_holds [''jurisdictions.'' @ f]
        else if c \<notin> set (p_jurisdictions_allow p) then [hold JurisdictionNotAllowed (''jurisdictions.'' @ f)]
        else []))
       (jurisdictions_each (o_jurisdictions opp)))"

definition stop_rule_gate :: "opportunity \<Rightarrow> time \<Rightarrow> gate_failure list" where
  "stop_rule_gate opp as_of =
     (case o_experiment opp of
        None \<Rightarrow> [hold NoStagedStopRule ''experiment'']
      | Some x \<Rightarrow>
          (if \<not> live x as_of then [hold NoStagedStopRule ''experiment.expires_at''] else []) @
          (case first_spend x of
             Some (i, s) \<Rightarrow>
               if s_stop_rule s = None
               then [reject NoStagedStopRule (at_index ''experiment.stages'' i @ ''.stop_rule'')] else []
           | None \<Rightarrow> []))"

definition downside_gate :: "opportunity \<Rightarrow> gate_failure list" where
  "downside_gate opp =
     map (\<lambda>t. hold DownsideUnstated (''risk.max_loss.'' @ t)) (unstated (ra_max_loss (o_risk opp)))"

text \<open>Every failure the gates push, in the order they push them.\<close>

definition run_gates ::
  "opportunity \<Rightarrow> cited_record list \<Rightarrow> operator_profile \<Rightarrow> time \<Rightarrow> scenarios \<Rightarrow> gate_failure list vres" where
  "run_gates opp cited p as_of sc =
     rbind (exposure_gate opp sc p) (\<lambda>ex.
     Inr (mechanism_gate (o_mechanism opp) @ ex @ contribution_gate opp sc p as_of @ payback_gate sc p @
          delivery_gate opp p @ bounds_gate opp @ evidence_gate opp cited as_of @ legal_gate opp @
          jurisdictions_gate opp p @ stop_rule_gate opp as_of @ downside_gate opp))"

definition finish :: "gate_failure list \<Rightarrow> time \<Rightarrow> scenarios \<Rightarrow> gate_verdict" where
  "finish raw as_of sc =
     (case settle raw of (v, out) \<Rightarrow>
        \<lparr>gv_verdict = v, gv_as_of = as_of, gv_economics_version = sc_economics_version sc,
         gv_inputs_sha256 = sc_inputs_sha256 sc, gv_failures = out\<rparr>)"

definition gates ::
  "(opportunity \<Rightarrow> operator_profile \<Rightarrow> string vres) \<Rightarrow> opportunity \<Rightarrow> cited_record list \<Rightarrow>
     operator_profile \<Rightarrow> time \<Rightarrow> gate_verdict vres" where
  "gates hash opp cited p as_of =
     (if \<not> is_signed p then Inl (Err OPERATOR_PROFILE_UNSIGNED)
      else if \<not> is_known as_of then Inl (Err INVALID_TIME)
      else if torder (o_as_of opp) as_of = After then Inl (Err FUTURE_LEAKAGE)
      else rbind (scenarios_of hash opp p) (\<lambda>sc.
           rbind (run_gates opp cited p as_of sc) (\<lambda>raw.
           Inr (finish raw as_of sc))))"

section \<open>One failure per key\<close>

lemma retain_from_set: "set (retain_from key seen xs) \<subseteq> set xs"
  by (induction key seen xs rule: retain_from.induct) auto

lemma retain_from_keys: "key ` set (retain_from key seen xs) = key ` set xs - set seen"
  by (induction key seen xs rule: retain_from.induct) auto

lemma retain_from_distinct: "distinct (map key (retain_from key seen xs))"
  by (induction key seen xs rule: retain_from.induct) (auto simp: retain_from_keys)

lemma retain_from_id:
  "distinct (map key xs) \<Longrightarrow> key ` set xs \<inter> set seen = {} \<Longrightarrow> retain_from key seen xs = xs"
  by (induction key seen xs rule: retain_from.induct) auto

lemma retain_from_append:
  "retain_from key seen (xs @ ys) = retain_from key seen xs @ retain_from key (rev (map key xs) @ seen) ys"
proof (induction key seen xs rule: retain_from.induct)
  case (2 key seen x xs)
  have swap: "set s = set t \<Longrightarrow> retain_from key s ys = retain_from key t ys" for s t
    by (induction key s ys arbitrary: t rule: retain_from.induct) auto
  show ?case
    using 2 by (auto intro: swap)
qed simp

lemma retain_from_Nil_iff: "retain_first key xs = [] \<longleftrightarrow> xs = []"
  by (cases xs) auto

lemma settle_out: "snd (settle raw) = sort_key failure_order (retain_first failure_key raw)"
  by (simp add: settle_def Let_def)

lemma settle_keys: "failure_key ` set (snd (settle raw)) = failure_key ` set raw"
  by (simp add: settle_out retain_from_keys)

lemma distinct_map_sort_key: "distinct (map f (sort_key k xs)) \<longleftrightarrow> distinct (map f xs)"
  by (rule mset_eq_imp_distinct_iff) simp

lemma sort_key_eq_Nil: "sort_key k xs = [] \<longleftrightarrow> xs = []"
  by (metis length_0_conv length_sort)

lemma settle_distinct: "distinct (map failure_key (snd (settle raw)))"
  by (simp add: settle_out retain_from_distinct distinct_map_sort_key)

lemma settle_pass: "fst (settle raw) = Pass \<longleftrightarrow> raw = []"
  by (auto simp: settle_def Let_def retain_from_Nil_iff sort_key_eq_Nil)

lemma settle_reject: "fst (settle raw) = Reject \<longleftrightarrow> (\<exists>f \<in> set (snd (settle raw)). gf_outcome f = Reject)"
  by (auto simp: settle_def Let_def list_ex_iff)

text \<open>Two failures of one code and field agree on the outcome.\<close>

definition consistent :: "gate_failure list \<Rightarrow> bool" where
  "consistent raw \<longleftrightarrow> (\<forall>f \<in> set raw. \<forall>g \<in> set raw. failure_key f = failure_key g \<longrightarrow> gf_outcome f = gf_outcome g)"

lemma settle_set: "set (snd (settle raw)) \<subseteq> set raw"
  using retain_from_set [of failure_key "[]" raw] by (simp add: settle_out)

lemma settle_reject_raw:
  assumes "consistent raw"
  shows "fst (settle raw) = Reject \<longleftrightarrow> (\<exists>f \<in> set raw. gf_outcome f = Reject)"
proof
  assume "\<exists>f \<in> set raw. gf_outcome f = Reject"
  then obtain f where f: "f \<in> set raw" "gf_outcome f = Reject" by blast
  then have "failure_key f \<in> failure_key ` set (snd (settle raw))"
    unfolding settle_keys by simp
  then obtain g where g: "g \<in> set (snd (settle raw))" "failure_key g = failure_key f"
    by (auto simp: image_iff)
  with f assms settle_set [of raw] have "gf_outcome g = Reject"
    unfolding consistent_def by (metis subsetD)
  with g show "fst (settle raw) = Reject" by (auto simp: settle_reject)
qed (use settle_set in \<open>auto simp: settle_reject\<close>)

section \<open>A Critic's holds\<close>

lemma settle_idem: "distinct (map failure_key raw) \<Longrightarrow> snd (settle raw) = sort_key failure_order raw"
  by (simp add: settle_out retain_from_id)

lemma settle_append_keeps:
  assumes "distinct (map failure_key xs)"
  shows "set xs \<subseteq> set (snd (settle (xs @ ys)))"
  using retain_from_append [of failure_key "[]" xs ys] retain_from_id [OF assms, of "[]"]
  by (simp add: settle_out)

lemma settle_append_new:
  assumes "\<forall>f \<in> set ys. gf_outcome f = Hold" "f \<in> set (snd (settle (xs @ ys)))" "gf_outcome f = Reject"
  shows "f \<in> set xs"
  using assms settle_set [of "xs @ ys"] by auto

text \<open>A verdict the gates or \<open>with_holds\<close> gave.\<close>

definition settled :: "gate_verdict \<Rightarrow> bool" where
  "settled v \<longleftrightarrow> (\<exists>raw. settle raw = (gv_verdict v, gv_failures v))"

fun severity :: "verdict \<Rightarrow> nat" where
  "severity Pass = 0" | "severity Hold = 1" | "severity Reject = 2"

lemma settled_parts:
  assumes "settled v"
  shows "distinct (map failure_key (gv_failures v))"
    "gv_verdict v = Reject \<longleftrightarrow> (\<exists>f \<in> set (gv_failures v). gf_outcome f = Reject)"
    "gv_verdict v = Pass \<longleftrightarrow> gv_failures v = []"
    "sorted (map failure_order (gv_failures v))"
proof -
  obtain raw where raw: "gv_verdict v = fst (settle raw)" "gv_failures v = snd (settle raw)"
    using assms unfolding settled_def by (metis fst_conv snd_conv)
  then show "distinct (map failure_key (gv_failures v))"
    "gv_verdict v = Reject \<longleftrightarrow> (\<exists>f \<in> set (gv_failures v). gf_outcome f = Reject)"
    "gv_verdict v = Pass \<longleftrightarrow> gv_failures v = []"
    "sorted (map failure_order (gv_failures v))"
    using settle_distinct settle_reject settle_pass
    by (auto simp: settle_out retain_from_Nil_iff sort_key_eq_Nil)
qed

lemma with_holds_settled: "settled (with_holds v hs)"
  unfolding settled_def with_holds_def by (auto split: prod.splits)

end
