(* ===== verification/Soe_Gates_Props.thy ===== *)
theory Soe_Gates_Props
  imports Soe_Gates
begin

text \<open>
  The properties of the gates: the verdict is \<open>Pass\<close> exactly when every documented condition holds and
  \<open>Reject\<close> exactly on a known violation; a Critic's hold never lifts a failure; nothing that is not
  knowable at the decision time influences the outcome; which refusals there are.
\<close>

text \<open>
  C7: Adding a Critic's blocks to a verdict never lifts a failure: every failure stays, each failure
  that is new is a \<open>HOLD\<close>, and the verdict is \<open>REJECT\<close> exactly when it was, \<open>PASS\<close> exactly when it was
  and nothing was added; a code and field already reported is not repeated, and the failures stay
  in their order.
\<close>

theorem with_holds_never_lifts:
  assumes "settled v"
  shows "set (gv_failures v) \<subseteq> set (gv_failures (with_holds v hs)) \<and>
    (\<forall>f \<in> set (gv_failures (with_holds v hs)) - set (gv_failures v). gf_outcome f = Hold) \<and>
    (gv_verdict (with_holds v hs) = Reject \<longleftrightarrow> gv_verdict v = Reject) \<and>
    (gv_verdict (with_holds v hs) = Pass \<longleftrightarrow> gv_verdict v = Pass \<and> hs = []) \<and>
    settled (with_holds v hs)"
proof -
  let ?h = "map (\<lambda>f. f\<lparr>gf_outcome := Hold\<rparr>) hs"
  have w: "gv_failures (with_holds v hs) = snd (settle (gv_failures v @ ?h))"
    "gv_verdict (with_holds v hs) = fst (settle (gv_failures v @ ?h))"
    by (simp_all add: with_holds_def split: prod.splits)
  note p = settled_parts [OF assms]
  have keep: "set (gv_failures v) \<subseteq> set (gv_failures (with_holds v hs))"
    unfolding w using settle_append_keeps [OF p(1)] .
  have new: "f \<in> set (gv_failures v) \<or> gf_outcome f = Hold" if "f \<in> set (gv_failures (with_holds v hs))" for f
    using that settle_set [of "gv_failures v @ ?h"] unfolding w by auto
  have "gv_verdict (with_holds v hs) = Pass \<longleftrightarrow> gv_verdict v = Pass \<and> hs = []"
    unfolding w(2) settle_pass p(3) by simp
  moreover have "gv_verdict (with_holds v hs) = Reject \<longleftrightarrow> gv_verdict v = Reject"
    using settled_parts(2) [OF with_holds_settled [of v hs]] p(2) keep new by (metis subsetD verdict.distinct(5))
  ultimately show ?thesis using keep new with_holds_settled by blast
qed

section \<open>What passes and what is rejected\<close>

definition rejects :: "gate_failure list \<Rightarrow> bool" where
  "rejects fs \<longleftrightarrow> (\<exists>f \<in> set fs. gf_outcome f = Reject)"

lemma outcomes [simp]: "gf_outcome (hold c f) = Hold" "gf_outcome (reject c f) = Reject"
  "failure_key (hold c f) = (c, Some f)" "failure_key (reject c f) = (c, Some f)"
  by (simp_all add: hold_def reject_def failure_key_def)

lemma unknown_holds_Nil [simp]: "unknown_holds l = [] \<longleftrightarrow> l = []"
  by (simp add: unknown_holds_def)

lemma rejects_simps [simp]:
  "\<not> rejects []" "rejects (hold c f # fs) = rejects fs" "rejects (reject c f # fs)"
  "rejects (fs @ gs) \<longleftrightarrow> rejects fs \<or> rejects gs" "rejects (concat fss) \<longleftrightarrow> (\<exists>fs \<in> set fss. rejects fs)"
  "rejects (map g xs) \<longleftrightarrow> (\<exists>x \<in> set xs. gf_outcome (g x) = Reject)" "\<not> rejects (unknown_holds l)"
  by (auto simp: rejects_def unknown_holds_def)

text \<open>An amount of the opportunity's own currency, converted up, within or above a limit.\<close>

definition native_amount :: "opportunity \<Rightarrow> operator_profile \<Rightarrow> minor \<Rightarrow> minor option" where
  "native_amount opp p a =
     (case to_currency (o_economics opp) (p_currency p) a Outflow of Inr (Some x) \<Rightarrow> Some x | _ \<Rightarrow> None)"

definition within :: "int \<Rightarrow> int option \<Rightarrow> bool" where
  "within limit x \<longleftrightarrow> (case x of Some v \<Rightarrow> v \<le> limit | None \<Rightarrow> False)"

definition exceeds :: "int \<Rightarrow> int option \<Rightarrow> bool" where
  "exceeds limit x \<longleftrightarrow> (case x of Some v \<Rightarrow> limit < v | None \<Rightarrow> False)"

text \<open>The amounts the exposure cap bounds, besides the initial capital.\<close>

definition exposures :: "opportunity \<Rightarrow> minor list" where
  "exposures opp =
     (case o_experiment opp of
        Some x \<Rightarrow> (case total_cash x of Inr t \<Rightarrow> [t] | Inl _ \<Rightarrow> []) | None \<Rightarrow> []) @
     (case est_end (ml_cash (ra_max_loss (o_risk opp))) Adverse Lower of Some h \<Rightarrow> [h] | None \<Rightarrow> [])"

definition tranches :: "opportunity \<Rightarrow> minor list" where
  "tranches opp = (case o_experiment opp of Some x \<Rightarrow> map s_cash (x_stages x) | None \<Rightarrow> [])"

lemma above_simps [simp]:
  "above p f a = [] \<longleftrightarrow> a \<le> p_max_cash_exposure p" "rejects (above p f a) \<longleftrightarrow> p_max_cash_exposure p < a"
  by (auto simp: above_def)

lemma native_above_Inr:
  assumes "native_above opp p f a = Inr fs"
  shows "fs = [] \<longleftrightarrow> within (p_max_cash_exposure p) (native_amount opp p a)"
    and "rejects fs \<longleftrightarrow> exceeds (p_max_cash_exposure p) (native_amount opp p a)"
proof -
  obtain v where v: "to_currency (o_economics opp) (p_currency p) a Outflow = Inr v"
    and fs: "fs = (case v of Some x \<Rightarrow> above p f x | None \<Rightarrow> unknown_holds [f_FX])"
    using assms by (auto simp: native_above_def rbind_eq_Inr)
  show "fs = [] \<longleftrightarrow> within (p_max_cash_exposure p) (native_amount opp p a)"
    "rejects fs \<longleftrightarrow> exceeds (p_max_cash_exposure p) (native_amount opp p a)"
    by (cases v; simp add: fs v native_amount_def within_def exceeds_def)+
qed

lemma stage_tranche_Inr:
  assumes "stage_tranche opp p (i, s) = Inr fs"
  shows "fs = [] \<longleftrightarrow> within (p_max_validation_tranche p) (native_amount opp p (s_cash s))"
    and "rejects fs \<longleftrightarrow> exceeds (p_max_validation_tranche p) (native_amount opp p (s_cash s))"
proof -
  obtain v where v: "to_currency (o_economics opp) (p_currency p) (s_cash s) Outflow = Inr v"
    and fs: "fs = (case v of Some x \<Rightarrow> if x > p_max_validation_tranche p
        then [reject TrancheAboveMax (at_index ''experiment.stages'' i @ ''.cash'')] else []
      | None \<Rightarrow> unknown_holds [f_FX])"
    using assms by (auto simp: stage_tranche_def rbind_eq_Inr)
  show "fs = [] \<longleftrightarrow> within (p_max_validation_tranche p) (native_amount opp p (s_cash s))"
    "rejects fs \<longleftrightarrow> exceeds (p_max_validation_tranche p) (native_amount opp p (s_cash s))"
    by (cases v; simp add: fs v native_amount_def within_def exceeds_def)+
qed

lemma stage_tranches_Inr:
  assumes "rmapM (stage_tranche opp p) (enumerate n xs) = Inr bs"
  shows "concat bs = [] \<longleftrightarrow> (\<forall>s \<in> set xs. within (p_max_validation_tranche p) (native_amount opp p (s_cash s)))"
    and "rejects (concat bs) \<longleftrightarrow> (\<exists>s \<in> set xs. exceeds (p_max_validation_tranche p) (native_amount opp p (s_cash s)))"
  using assms
proof (induction xs arbitrary: n bs)
  case Nil
  { case 1 then show ?case by simp }
  { case 2 then show ?case by simp }
next
  case (Cons s xs)
  { case 1 then show ?case
      using Cons.IH(1) stage_tranche_Inr(1) by (fastforce simp: rbind_eq_Inr) }
  { case 2 then show ?case
      using Cons.IH(2) stage_tranche_Inr(2) by (fastforce simp: rbind_eq_Inr) }
qed

definition exposure_ok :: "opportunity \<Rightarrow> scenarios \<Rightarrow> operator_profile \<Rightarrow> bool" where
  "exposure_ok opp sc p \<longleftrightarrow>
     within (p_max_cash_exposure p) (metric_known (sm_initial_capital (sc_downside sc))) \<and>
     (\<forall>a \<in> set (exposures opp). within (p_max_cash_exposure p) (native_amount opp p a)) \<and>
     (\<forall>a \<in> set (tranches opp). within (p_max_validation_tranche p) (native_amount opp p a))"

definition exposure_broken :: "opportunity \<Rightarrow> scenarios \<Rightarrow> operator_profile \<Rightarrow> bool" where
  "exposure_broken opp sc p \<longleftrightarrow>
     exceeds (p_max_cash_exposure p) (metric_known (sm_initial_capital (sc_downside sc))) \<or>
     (\<exists>a \<in> set (exposures opp). exceeds (p_max_cash_exposure p) (native_amount opp p a)) \<or>
     (\<exists>a \<in> set (tranches opp). exceeds (p_max_validation_tranche p) (native_amount opp p a))"

lemma exposure_gate_Inr:
  assumes "exposure_gate opp sc p = Inr fs" "named (sm_initial_capital (sc_downside sc))"
  shows "(fs = [] \<longleftrightarrow> exposure_ok opp sc p) \<and> (rejects fs \<longleftrightarrow> exposure_broken opp sc p)"
proof -
  let ?i = "case sm_initial_capital (sc_downside sc) of
      Known v \<Rightarrow> above p ''economics.initial'' v | MUnknown l \<Rightarrow> unknown_holds l"
  let ?high = "est_end (ml_cash (ra_max_loss (o_risk opp))) Adverse Lower"
  obtain st loss where fs: "fs = ?i @ st @ loss"
    and st: "(case o_experiment opp of None \<Rightarrow> Inr [] | Some x \<Rightarrow>
        rbind (total_cash x) (\<lambda>cash. rbind (native_above opp p ''experiment.stages'' cash) (\<lambda>a.
        rbind (rmapM (stage_tranche opp p) (enumerate 0 (x_stages x))) (\<lambda>bs. Inr (a @ concat bs))))) = Inr st"
    and loss: "(case ?high of None \<Rightarrow> Inr [] | Some hi \<Rightarrow> native_above opp p ''risk.max_loss.cash'' hi) = Inr loss"
    using assms(1) by (auto simp: exposure_gate_def Let_def rbind_eq_Inr)
  have i: "?i = [] \<longleftrightarrow> within (p_max_cash_exposure p) (metric_known (sm_initial_capital (sc_downside sc)))"
    "rejects ?i \<longleftrightarrow> exceeds (p_max_cash_exposure p) (metric_known (sm_initial_capital (sc_downside sc)))"
    using assms(2) by (auto simp: named_def within_def exceeds_def split: metric.splits)
  have l: "loss = [] \<longleftrightarrow> (\<forall>a \<in> set_option ?high. within (p_max_cash_exposure p) (native_amount opp p a))"
    "rejects loss \<longleftrightarrow> (\<exists>a \<in> set_option ?high. exceeds (p_max_cash_exposure p) (native_amount opp p a))"
    using loss native_above_Inr [of opp p _ _ loss] by (cases ?high; simp)+
  have h: "set (case ?high of Some h \<Rightarrow> [h] | None \<Rightarrow> []) = set_option ?high"
    by (cases ?high) auto
  show ?thesis
  proof (cases "o_experiment opp")
    case None
    with st have "st = []" by simp
    with None i l show ?thesis
      by (simp add: fs h exposures_def tranches_def exposure_ok_def exposure_broken_def bex_Un)
  next
    case (Some x)
    then obtain t a bs where x: "total_cash x = Inr t" "native_above opp p ''experiment.stages'' t = Inr a"
      "rmapM (stage_tranche opp p) (enumerate 0 (x_stages x)) = Inr bs" and st': "st = a @ concat bs"
      using st by (auto simp: rbind_eq_Inr)
    show ?thesis
      using i l native_above_Inr [OF x(2)] stage_tranches_Inr [OF x(3)] Some x(1)
      by (simp add: fs st' h exposures_def tranches_def exposure_ok_def exposure_broken_def bex_Un ball_Un) blast
  qed
qed

text \<open>Each other gate: when it pushes nothing, and when it rejects.\<close>

lemma mechanism_gate_iff:
  "mechanism_gate m = [] \<longleftrightarrow> m \<noteq> MHold \<and> m \<noteq> MReject" "rejects (mechanism_gate m) \<longleftrightarrow> m = MReject"
  by (cases m; simp)+

definition meets_target :: "operator_profile \<Rightarrow> scenario_metrics \<Rightarrow> bool" where
  "meets_target p m \<longleftrightarrow>
     (case metric_known (sm_contribution m (p_contribution_basis p)) of
        Some v \<Rightarrow> p_min_monthly_contribution p \<le> v | None \<Rightarrow> False)"

definition misses_target :: "operator_profile \<Rightarrow> scenario_metrics \<Rightarrow> bool" where
  "misses_target p m \<longleftrightarrow>
     (case metric_known (sm_contribution m (p_contribution_basis p)) of
        Some v \<Rightarrow> v < p_min_monthly_contribution p | None \<Rightarrow> False)"

lemma post_tax_iff: "post_tax p = [] \<longleftrightarrow> p_profit_basis p = PreTax" "\<not> rejects (post_tax p)"
  by (cases "p_profit_basis p"; simp add: post_tax_def)+

lemma contribution_gate_iff:
  assumes "named (sm_contribution (sc_base sc) (p_contribution_basis p))"
  shows "contribution_gate opp sc p t = [] \<longleftrightarrow> meets_target p (sc_base sc) \<and> p_profit_basis p = PreTax"
    and "rejects (contribution_gate opp sc p t) \<longleftrightarrow>
      misses_target p (sc_base sc) \<and> \<not> (meets_target p (sc_upside sc) \<and> staged_path opp t)"
  using assms post_tax_iff [of p]
  by (cases "sm_contribution (sc_base sc) (p_contribution_basis p)";
      auto simp: contribution_gate_def Let_def meets_target_def misses_target_def named_def
        split: option.splits)+

definition pays_back_in_time :: "operator_profile \<Rightarrow> payback metric \<Rightarrow> bool" where
  "pays_back_in_time p m \<longleftrightarrow>
     (case m of Known (Months n) \<Rightarrow> n \<le> p_max_payback_months p | _ \<Rightarrow> False)"

definition pays_back_late :: "operator_profile \<Rightarrow> payback metric \<Rightarrow> bool" where
  "pays_back_late p m \<longleftrightarrow>
     (case m of Known (Months n) \<Rightarrow> p_max_payback_months p < n | Known NotReached \<Rightarrow> True | _ \<Rightarrow> False)"

lemma payback_gate_iff:
  assumes "named (sm_payback (sc_base sc))"
  shows "payback_gate sc p = [] \<longleftrightarrow> pays_back_in_time p (sm_payback (sc_base sc)) \<and> p_profit_basis p = PreTax"
    and "rejects (payback_gate sc p) \<longleftrightarrow> pays_back_late p (sm_payback (sc_base sc))"
  using assms post_tax_iff [of p]
  by (auto simp: payback_gate_def pays_back_in_time_def pays_back_late_def named_def
      split: metric.splits payback.splits)

definition delivery_ok :: "opportunity \<Rightarrow> operator_profile \<Rightarrow> bool" where
  "delivery_ok opp p \<longleftrightarrow>
     (case e_revenue (o_economics opp) of
        OneOff _ _ weeks _ _ \<Rightarrow> within (p_max_one_off_delivery_weeks p) (est_base (a_value weeks))
      | _ \<Rightarrow> True)"

lemma delivery_gate_iff:
  "delivery_gate opp p = [] \<longleftrightarrow> delivery_ok opp p" "\<not> rejects (delivery_gate opp p)"
  by (auto simp: delivery_gate_def delivery_ok_def within_def unknown_holds_def
      split: revenue_model.splits option.splits)

definition bounds_ok :: "opportunity \<Rightarrow> bool" where
  "bounds_ok opp \<longleftrightarrow> list_all (\<lambda>(f, b). b = Bounded) (bounds_each (ra_bounds (o_risk opp))) \<and>
     list_all snd (owner_hours_known opp)"

definition bounds_broken :: "opportunity \<Rightarrow> bool" where
  "bounds_broken opp \<longleftrightarrow> list_ex (\<lambda>(f, b). b = Unbounded) (bounds_each (ra_bounds (o_risk opp)))"

lemma bound_failure_iff:
  "bound_failure fb = [] \<longleftrightarrow> snd fb = Bounded" "rejects (bound_failure fb) \<longleftrightarrow> snd fb = Unbounded"
  by (cases fb rule: bound_failure.cases; simp)+

lemma bounds_gate_iff:
  "bounds_gate opp = [] \<longleftrightarrow> bounds_ok opp" "rejects (bounds_gate opp) \<longleftrightarrow> bounds_broken opp"
proof -
  have b: "concat (map bound_failure (bounds_each (ra_bounds (o_risk opp)))) = [] \<longleftrightarrow>
      list_all (\<lambda>(f, b). b = Bounded) (bounds_each (ra_bounds (o_risk opp)))"
    by (simp add: bounds_each_def bound_failure_iff)
  have h: "filter (\<lambda>(_, known). \<not> known) (owner_hours_known opp) = [] \<longleftrightarrow> list_all snd (owner_hours_known opp)"
    by (auto simp: filter_empty_conv list_all_iff)
  show "bounds_gate opp = [] \<longleftrightarrow> bounds_ok opp"
    unfolding bounds_gate_def bounds_ok_def append_is_Nil_conv b
    by (cases "b_owner_time (ra_bounds (o_risk opp)) = Unbounded") (simp add: bounds_each_def, simp add: h)
  show "rejects (bounds_gate opp) \<longleftrightarrow> bounds_broken opp"
    by (auto simp: bounds_gate_def bounds_broken_def list_ex_iff bound_failure_iff split_beta)
qed


definition evidence_ok :: "opportunity \<Rightarrow> cited_record list \<Rightarrow> time \<Rightarrow> bool" where
  "evidence_ok opp cited t \<longleftrightarrow>
     (let kn = filter (\<lambda>c. knowable c t) (cited_views opp cited); sup = filter (\<lambda>c. supports c t) kn in
      (\<forall>c \<in> set kn. \<not> contradicted c t) \<and>
      ((\<exists>c \<in> set sup. cr_kind c = Fact) \<or>
       2 \<le> card (cr_event_key ` {c \<in> set sup. cr_kind c = Demand})) \<and>
      list_ex (\<lambda>(f, i). starts_with ''economics.revenue.'' f \<and> is_evidenced_input (input_state_of f i))
        (econ_inputs (o_economics opp)))"

lemma input_state_field [simp]: "is_field (input_state_of f i) = f"
  by (cases i) simp_all

lemma evidence_gate_iff:
  "evidence_gate opp cited t = [] \<longleftrightarrow> evidence_ok opp cited t" "\<not> rejects (evidence_gate opp cited t)"
proof -
  let ?kn = "filter (\<lambda>c. knowable c t) (cited_views opp cited)"
  let ?sup = "filter (\<lambda>c. supports c t) ?kn"
  let ?d = "set (map cr_event_key (filter (\<lambda>c. cr_kind c = Demand) ?sup))"
  have d: "?d = cr_event_key ` {c \<in> set ?sup. cr_kind c = Demand}" by auto
  have fin: "finite ?d" by simp
  have e: "list_ex (\<lambda>s. starts_with ''economics.revenue.'' (is_field s) \<and> is_evidenced_input s)
      (input_states (o_economics opp)) \<longleftrightarrow>
    list_ex (\<lambda>(f, i). starts_with ''economics.revenue.'' f \<and> is_evidenced_input (input_state_of f i))
        (econ_inputs (o_economics opp))"
    by (auto simp: list_ex_iff input_states_def split_beta)
  have c: "2 \<le> card ?d \<longleftrightarrow> ?d \<noteq> {} \<and> card ?d \<noteq> 1"
    using fin card_0_eq [OF fin] by linarith
  show "evidence_gate opp cited t = [] \<longleftrightarrow> evidence_ok opp cited t"
    unfolding evidence_gate_def evidence_ok_def Let_def e d [symmetric] c
    by (auto simp: filter_empty_conv)
  show "\<not> rejects (evidence_gate opp cited t)"
    by (auto simp: evidence_gate_def Let_def)
qed

definition legal_ok :: "opportunity \<Rightarrow> bool" where
  "legal_ok opp \<longleftrightarrow>
     (\<forall>r \<in> set (ra_risks (o_risk opp)). is_legal (r_kind r) \<longrightarrow> r_status r = RResolved) \<and>
     (case o_deal opp of
        None \<Rightarrow> True
      | Some deal \<Rightarrow> dr_red_flags deal = [] \<and> list_all (\<lambda>(f, b). d_status b = Verified) (deal_blocks deal))"

definition deal_broken :: "opportunity \<Rightarrow> bool" where
  "deal_broken opp \<longleftrightarrow>
     (case o_deal opp of
        None \<Rightarrow> False
      | Some deal \<Rightarrow> dr_red_flags deal \<noteq> [] \<or> list_ex (\<lambda>(f, b). d_status b = RedFlag) (deal_blocks deal))"

lemma diligence_failure_iff:
  "diligence_failure fb = [] \<longleftrightarrow> d_status (snd fb) = Verified"
  "rejects (diligence_failure fb) \<longleftrightarrow> d_status (snd fb) = RedFlag"
  by (cases fb; auto)+

lemma legal_gate_iff:
  "legal_gate opp = [] \<longleftrightarrow> legal_ok opp" "rejects (legal_gate opp) \<longleftrightarrow> deal_broken opp"
proof -
  have "filter (\<lambda>(_, r). is_legal (r_kind r) \<and> r_status r \<noteq> RResolved) (enumerate n rs) = [] \<longleftrightarrow>
    (\<forall>r \<in> set rs. is_legal (r_kind r) \<longrightarrow> r_status r = RResolved)" for n and rs :: "risk list"
    by (induction rs arbitrary: n) auto
  then show "legal_gate opp = [] \<longleftrightarrow> legal_ok opp"
    using diligence_failure_iff(1)
    by (auto simp: legal_gate_def legal_ok_def list_all_iff split: option.splits)
  show "rejects (legal_gate opp) \<longleftrightarrow> deal_broken opp"
    by (cases "o_deal opp") (auto simp: legal_gate_def deal_broken_def list_ex_iff diligence_failure_iff split_beta
        simp del: diligence_failure.simps)
qed

definition jurisdictions_ok :: "opportunity \<Rightarrow> operator_profile \<Rightarrow> bool" where
  "jurisdictions_ok opp p \<longleftrightarrow>
     list_all (\<lambda>(f, code). stated (trim code) \<and> trim code \<in> set (p_jurisdictions_allow p))
       (jurisdictions_each (o_jurisdictions opp))"

lemma jurisdictions_gate_iff:
  "jurisdictions_gate opp p = [] \<longleftrightarrow> jurisdictions_ok opp p" "\<not> rejects (jurisdictions_gate opp p)"
proof -
  define g where "g = (\<lambda>(f, code). let c = trim code in
        if \<not> stated c then unknown_holds [''jurisdictions.'' @ f]
        else if c \<notin> set (p_jurisdictions_allow p) then [hold JurisdictionNotAllowed (''jurisdictions.'' @ f)]
        else [])"
  have "g x = [] \<longleftrightarrow> (case x of (f, code) \<Rightarrow> stated (trim code) \<and> trim code \<in> set (p_jurisdictions_allow p))" for x
    by (simp add: g_def Let_def split_beta)
  then show "jurisdictions_gate opp p = [] \<longleftrightarrow> jurisdictions_ok opp p"
    by (simp add: jurisdictions_gate_def jurisdictions_ok_def list_all_iff flip: g_def)
  have "\<not> rejects (g x)" for x
    by (simp add: g_def Let_def split_beta)
  then show "\<not> rejects (jurisdictions_gate opp p)"
    by (simp add: jurisdictions_gate_def flip: g_def)
qed

definition stops_before_spend :: "experiment_spec \<Rightarrow> bool" where
  "stops_before_spend x \<longleftrightarrow>
     (case first_spend x of Some (_, s) \<Rightarrow> s_stop_rule s \<noteq> None | None \<Rightarrow> True)"

lemma stop_rule_gate_iff:
  "stop_rule_gate opp t = [] \<longleftrightarrow>
     (case o_experiment opp of Some x \<Rightarrow> live x t \<and> stops_before_spend x | None \<Rightarrow> False)"
  "rejects (stop_rule_gate opp t) \<longleftrightarrow>
     (case o_experiment opp of Some x \<Rightarrow> \<not> stops_before_spend x | None \<Rightarrow> False)"
  by (auto simp: stop_rule_gate_def stops_before_spend_def split: option.splits)

lemma downside_gate_iff:
  "downside_gate opp = [] \<longleftrightarrow> unstated (ra_max_loss (o_risk opp)) = []" "\<not> rejects (downside_gate opp)"
  by (auto simp: downside_gate_def)

section \<open>The outcome of a failure is a function of its code and field\<close>

definition reject_only :: "gate_code \<Rightarrow> bool" where
  "reject_only c \<longleftrightarrow> c \<in> {MechanismReject, CashExposureAboveCap, TrancheAboveMax, ContributionBelowTarget,
     PaybackAboveMax, DealRedFlag}"

definition outcome_of :: "opportunity \<Rightarrow> gate_code \<times> string option \<Rightarrow> verdict" where
  "outcome_of opp k =
     (if reject_only (fst k) \<or>
         fst k \<in> {UnboundedOwnerTime, UnboundedSupport, UnboundedPaymentAccess, UnboundedScope} \<and>
           list_ex (\<lambda>(f, b). snd k = Some (''risk.bounds.'' @ f) \<and> b = Unbounded) (bounds_each (ra_bounds (o_risk opp))) \<or>
         fst k = NoStagedStopRule \<and> snd k \<notin> {Some ''experiment'', Some ''experiment.expires_at''}
      then Reject else Hold)"

definition told :: "opportunity \<Rightarrow> gate_failure list \<Rightarrow> bool" where
  "told opp fs \<longleftrightarrow> (\<forall>f \<in> set fs. gf_outcome f = outcome_of opp (failure_key f))"

lemma told_consistent: "told opp fs \<Longrightarrow> consistent fs"
  by (simp add: told_def consistent_def)

lemma outcome_of_simple:
  "c \<notin> {UnboundedOwnerTime, UnboundedSupport, UnboundedPaymentAccess, UnboundedScope, NoStagedStopRule} \<Longrightarrow>
   outcome_of opp (c, f) = (if reject_only c then Reject else Hold)"
  by (auto simp: outcome_of_def)

lemma told_simps [simp]:
  "told opp []" "told opp (fs @ gs) \<longleftrightarrow> told opp fs \<and> told opp gs"
  "told opp (hold c f # fs) \<longleftrightarrow> outcome_of opp (c, Some f) = Hold \<and> told opp fs"
  "told opp (reject c f # fs) \<longleftrightarrow> outcome_of opp (c, Some f) = Reject \<and> told opp fs"
  "told opp (concat fss) \<longleftrightarrow> (\<forall>fs \<in> set fss. told opp fs)"
  by (auto simp: told_def)

lemma told_unknown_holds [simp]: "told opp (unknown_holds l)"
  by (auto simp: told_def unknown_holds_def outcome_of_simple reject_only_def)

lemma told_map_hold [simp]:
  "told opp (map (\<lambda>x. hold c (g x)) xs) \<longleftrightarrow> (\<forall>x \<in> set xs. outcome_of opp (c, Some (g x)) = Hold)"
  by (auto simp: told_def)

lemma told_mechanism: "told opp (mechanism_gate m)"
  by (cases m) (simp_all add: outcome_of_simple reject_only_def)

lemma told_above: "told opp (above p f a)"
  by (simp add: above_def outcome_of_simple reject_only_def)

lemma told_native: "native_above opp p f a = Inr fs \<Longrightarrow> told opp fs"
  by (auto simp: native_above_def rbind_eq_Inr told_above split: option.splits)

lemma told_stages: "rmapM (stage_tranche opp p) (enumerate n xs) = Inr bs \<Longrightarrow> told opp (concat bs)"
proof (induction xs arbitrary: n bs)
  case (Cons s xs)
  have "stage_tranche opp p (i, s) = Inr fs \<Longrightarrow> told opp fs" for i fs
    by (auto simp: stage_tranche_def rbind_eq_Inr outcome_of_simple reject_only_def split: option.splits if_splits)
  with Cons show ?case by (fastforce simp: rbind_eq_Inr)
qed simp

lemma told_exposure: "exposure_gate opp sc p = Inr fs \<Longrightarrow> told opp fs"
  using told_native told_stages
  by (fastforce simp: exposure_gate_def Let_def rbind_eq_Inr told_above split: option.splits metric.splits)

lemma told_post_tax: "told opp (post_tax p)"
  by (simp add: post_tax_def outcome_of_simple reject_only_def)

lemma told_contribution: "told opp (contribution_gate opp sc p t)"
  by (auto simp: contribution_gate_def Let_def told_post_tax outcome_of_simple reject_only_def split: metric.splits)

lemma told_payback: "told opp (payback_gate sc p)"
  by (auto simp: payback_gate_def told_post_tax outcome_of_simple reject_only_def split: metric.splits payback.splits)

lemma told_delivery: "told opp (delivery_gate opp p)"
  by (auto simp: delivery_gate_def outcome_of_simple reject_only_def split: revenue_model.splits option.splits)

lemma outcome_of_bound:
  "outcome_of opp (bound_code f, Some (''risk.bounds.'' @ f)) =
     (if (f, Unbounded) \<in> set (bounds_each (ra_bounds (o_risk opp))) then Reject else Hold)"
proof -
  have "list_ex (\<lambda>(g, b). Some (p @ f) = Some (p @ g) \<and> b = Unbounded) xs \<longleftrightarrow> (f, Unbounded) \<in> set xs" for p xs
    by (auto simp: list_ex_iff)
  note l = this [of "''risk.bounds.''"]
  have c: "bound_code f \<in> {UnboundedOwnerTime, UnboundedSupport, UnboundedPaymentAccess, UnboundedScope}"
    "bound_code f \<noteq> NoStagedStopRule" "\<not> reject_only (bound_code f)"
    by (simp_all add: bound_code_def reject_only_def)
  show ?thesis
    unfolding outcome_of_def fst_conv snd_conv l using c by (simp only: simp_thms)
qed

lemma outcome_of_elsewhere:
  assumes "\<And>g. f \<noteq> ''risk.bounds.'' @ g"
  shows "outcome_of opp (UnboundedOwnerTime, Some f) = Hold"
proof -
  have "\<not> list_ex (\<lambda>(g, b). Some f = Some (''risk.bounds.'' @ g) \<and> b = Unbounded) xs" for xs
    using assms by (auto simp: list_ex_iff simp del: append_Cons)
  then show ?thesis unfolding outcome_of_def fst_conv snd_conv by (simp add: reject_only_def)
qed

lemma bounds_each_functional:
  "(f, b) \<in> set (bounds_each x) \<Longrightarrow> (f, c) \<in> set (bounds_each x) \<Longrightarrow> b = c"
  by (rule eq_key_imp_eq_value [of "bounds_each x"]) (simp_all add: bounds_each_def)

lemma told_bounds: "told opp (bounds_gate opp)"
proof -
  have "told opp (bound_failure x)" if "x \<in> set (bounds_each (ra_bounds (o_risk opp)))" for x
  proof (cases x rule: bound_failure.cases)
    case (3 f)
    with that bounds_each_functional have "(f, Unbounded) \<notin> set (bounds_each (ra_bounds (o_risk opp)))"
      by blast
    then show ?thesis by (simp only: 3 bound_failure.simps told_simps outcome_of_bound) simp
  qed (use that in \<open>simp_all only: bound_failure.simps told_simps outcome_of_bound if_True simp_thms\<close>)
  moreover have "outcome_of opp (UnboundedOwnerTime, Some f) = Hold" if "(f, k) \<in> set (owner_hours_known opp)" for f k
  proof (rule outcome_of_elsewhere)
    have "f = f_OWNER_HOURS \<or> f = f_OWNER_HOURS_TOTAL"
      using that by (auto simp: owner_hours_known_def split: revenue_model.splits)
    then show "f \<noteq> ''risk.bounds.'' @ g" for g
      by (auto simp: f_OWNER_HOURS_def f_OWNER_HOURS_TOTAL_def)
  qed
  ultimately show ?thesis
    by (auto simp: bounds_gate_def told_def)
qed

lemma told_evidence: "told opp (evidence_gate opp cited t)"
  by (simp add: evidence_gate_def Let_def outcome_of_simple reject_only_def)

lemma told_legal: "told opp (legal_gate opp)"
proof -
  have "told opp (diligence_failure x)" for x
    by (cases x) (simp add: outcome_of_simple reject_only_def)
  then show ?thesis
    by (auto simp: legal_gate_def outcome_of_simple reject_only_def told_def split: option.splits)
qed

lemma told_jurisdictions: "told opp (jurisdictions_gate opp p)"
  by (auto simp: jurisdictions_gate_def Let_def outcome_of_simple reject_only_def)

lemma told_stop_rule: "told opp (stop_rule_gate opp t)"
  by (auto simp: stop_rule_gate_def outcome_of_def reject_only_def at_index_def split: option.splits)

lemma told_downside: "told opp (downside_gate opp)"
  by (simp add: downside_gate_def outcome_of_simple reject_only_def)

lemma run_gates_told: "run_gates opp cited p t sc = Inr raw \<Longrightarrow> told opp raw"
  by (auto simp: run_gates_def rbind_eq_Inr told_mechanism told_exposure told_contribution told_payback
      told_delivery told_bounds told_evidence told_legal told_jurisdictions told_stop_rule told_downside)


section \<open>The verdict\<close>

text \<open>Every condition of the gates, as the documentation lists them.\<close>

definition clears :: "opportunity \<Rightarrow> cited_record list \<Rightarrow> operator_profile \<Rightarrow> time \<Rightarrow> scenarios \<Rightarrow> bool" where
  "clears opp cited p t sc \<longleftrightarrow>
     o_mechanism opp \<noteq> MHold \<and> o_mechanism opp \<noteq> MReject \<and>
     exposure_ok opp sc p \<and>
     meets_target p (sc_base sc) \<and> pays_back_in_time p (sm_payback (sc_base sc)) \<and> p_profit_basis p = PreTax \<and>
     delivery_ok opp p \<and> bounds_ok opp \<and> evidence_ok opp cited t \<and> legal_ok opp \<and> jurisdictions_ok opp p \<and>
     (case o_experiment opp of Some x \<Rightarrow> live x t \<and> stops_before_spend x | None \<Rightarrow> False) \<and>
     unstated (ra_max_loss (o_risk opp)) = []"

text \<open>The known violations.\<close>

definition violates :: "opportunity \<Rightarrow> operator_profile \<Rightarrow> time \<Rightarrow> scenarios \<Rightarrow> bool" where
  "violates opp p t sc \<longleftrightarrow>
     o_mechanism opp = MReject \<or> exposure_broken opp sc p \<or>
     misses_target p (sc_base sc) \<and> \<not> (meets_target p (sc_upside sc) \<and> staged_path opp t) \<or>
     pays_back_late p (sm_payback (sc_base sc)) \<or> bounds_broken opp \<or> deal_broken opp \<or>
     (case o_experiment opp of Some x \<Rightarrow> \<not> stops_before_spend x | None \<Rightarrow> False)"

lemma gates_Inr:
  assumes "gates hash opp cited p t = Inr v"
  obtains sc raw where "scenarios_of hash opp p = Inr sc" "run_gates opp cited p t sc = Inr raw"
    "v = finish raw t sc" "is_signed p" "is_known t" "torder (o_as_of opp) t \<noteq> After"
  using assms by (auto simp: gates_def rbind_eq_Inr split: if_splits)

lemma finish_simps: "gv_verdict (finish raw t sc) = fst (settle raw)" "gv_failures (finish raw t sc) = snd (settle raw)"
  by (simp_all add: finish_def split_beta)

lemma run_gates_iff:
  assumes "run_gates opp cited p t sc = Inr raw" "scenarios_of hash opp p = Inr sc"
  shows "raw = [] \<longleftrightarrow> clears opp cited p t sc" "rejects raw \<longleftrightarrow> violates opp p t sc"
proof -
  obtain ex where ex: "exposure_gate opp sc p = Inr ex"
    and raw: "raw = mechanism_gate (o_mechanism opp) @ ex @ contribution_gate opp sc p t @ payback_gate sc p @
          delivery_gate opp p @ bounds_gate opp @ evidence_gate opp cited t @ legal_gate opp @
          jurisdictions_gate opp p @ stop_rule_gate opp t @ downside_gate opp"
    using assms(1) by (auto simp: run_gates_def rbind_eq_Inr)
  note n = scenarios_of_named [OF assms(2)]
  have n1: "named (sm_initial_capital (sc_downside sc))" "named (sm_payback (sc_base sc))"
    "named (sm_contribution (sc_base sc) (p_contribution_basis p))"
    using n by (cases "p_contribution_basis p"; simp add: figures_named_def)+
  note x = exposure_gate_Inr [OF ex n1(1)]
  show "raw = [] \<longleftrightarrow> clears opp cited p t sc"
    unfolding raw append_is_Nil_conv mechanism_gate_iff contribution_gate_iff(1) [OF n1(3)]
      payback_gate_iff(1) [OF n1(2)] delivery_gate_iff bounds_gate_iff evidence_gate_iff legal_gate_iff
      jurisdictions_gate_iff stop_rule_gate_iff downside_gate_iff clears_def
    using x by auto
  show "rejects raw \<longleftrightarrow> violates opp p t sc"
    unfolding raw rejects_simps(4) mechanism_gate_iff contribution_gate_iff(2) [OF n1(3)]
      payback_gate_iff(2) [OF n1(2)] bounds_gate_iff legal_gate_iff stop_rule_gate_iff violates_def
    using x delivery_gate_iff(2) evidence_gate_iff(2) jurisdictions_gate_iff(2) downside_gate_iff(2) by auto
qed

lemma gates_settled: "gates hash opp cited p t = Inr v \<Longrightarrow> settled v"
  by (erule gates_Inr) (auto simp: settled_def finish_simps)

text \<open>
  C2: The gates' verdict is exactly the documented one. \<open>PASS\<close> is given if and only if every condition
  of the module's table holds (no unknown figure counts as one), \<open>REJECT\<close> if and only if there is a
  known violation, and \<open>HOLD\<close> otherwise; a profile that is not signed, a decision time that is not
  known and an opportunity dated after it never get a verdict.
\<close>

theorem gates_verdict_exact:
  assumes "gates hash opp cited p t = Inr v" "scenarios_of hash opp p = Inr sc"
  shows "gv_verdict v =
      (if violates opp p t sc then Reject else if clears opp cited p t sc then Pass else Hold) \<and>
    is_signed p \<and> is_known t \<and> torder (o_as_of opp) t \<noteq> After"
proof (rule gates_Inr [OF assms(1)])
  fix sc' raw
  assume h: "scenarios_of hash opp p = Inr sc'" "run_gates opp cited p t sc' = Inr raw" "v = finish raw t sc'"
    "is_signed p" "is_known t" "torder (o_as_of opp) t \<noteq> After"
  then have r: "run_gates opp cited p t sc = Inr raw" using assms(2) by simp
  note i = run_gates_iff [OF r assms(2)]
  have "gv_verdict v = Reject \<longleftrightarrow> violates opp p t sc"
    using settle_reject_raw [OF told_consistent [OF run_gates_told [OF r]]] i(2)
    by (simp add: h(3) finish_simps rejects_def)
  moreover have "gv_verdict v = Pass \<longleftrightarrow> clears opp cited p t sc"
    using i(1) by (simp add: h(3) finish_simps settle_pass)
  ultimately show ?thesis using h by (cases "gv_verdict v") auto
qed

definition sample_cited :: "cited_record list" where
  "sample_cited = [\<lparr>cr_record_id = ''sig-1'', cr_event_key = ''ev-1'', cr_kind = Fact, cr_knowable_at = At 900,
     cr_valid_until = Some (At 5000), cr_contradicted_at = None\<rparr>]"

theorem gates_verdict_exact_witness:
  "\<exists>v sc. gates (\<lambda>_ _. Inr ''sha'') (sample_opportunity HighTicketDelivery sample_one_off) sample_cited sample_profile
       (At 1500) = Inr v \<and> gv_verdict v = Pass \<and>
     clears (sample_opportunity HighTicketDelivery sample_one_off) sample_cited sample_profile (At 1500) sc"
proof -
  let ?o = "sample_opportunity HighTicketDelivery sample_one_off"
  let ?g = "gates (\<lambda>_ _. Inr ''sha'') ?o sample_cited sample_profile (At 1500)"
  have "case ?g of Inr v \<Rightarrow> gv_verdict v = Pass | Inl _ \<Rightarrow> False"
    by code_simp
  then obtain v where v: "?g = Inr v" "gv_verdict v = Pass" by (auto split: sum.splits)
  obtain sc where "scenarios_of (\<lambda>_ _. Inr ''sha'') ?o sample_profile = Inr sc"
    using v(1) by (rule gates_Inr)
  with gates_verdict_exact [OF v(1) this] v show ?thesis by (metis verdict.distinct(1,3))
qed

section \<open>No look-ahead\<close>

text \<open>What a decision at \<open>t\<close> may know of a record: a contradiction that is surely later is not there.\<close>

definition as_seen :: "time \<Rightarrow> cited_record \<Rightarrow> cited_record" where
  "as_seen t c = c\<lparr>cr_contradicted_at :=
     (case cr_contradicted_at c of Some u \<Rightarrow> if torder u t = After then None else Some u | None \<Rightarrow> None)\<rparr>"

definition seen_at :: "time \<Rightarrow> cited_record list \<Rightarrow> cited_record list" where
  "seen_at t cited = map (as_seen t) (filter (\<lambda>c. knowable c t) cited)"

lemma as_seen_simps [simp]:
  "knowable (as_seen t c) t = knowable c t" "contradicted (as_seen t c) t = contradicted c t"
  "supports (as_seen t c) t = supports c t" "cr_kind (as_seen t c) = cr_kind c"
  "cr_event_key (as_seen t c) = cr_event_key c" "cr_record_id (as_seen t c) = cr_record_id c"
proof -
  show c: "contradicted (as_seen t c) t = contradicted c t"
    by (auto simp: contradicted_def as_seen_def split: option.splits)
  show "knowable (as_seen t c) t = knowable c t"
    by (simp add: knowable_def as_seen_def)
  have "fresh (as_seen t c) t = fresh c t"
    by (simp add: fresh_def as_seen_def)
  with c show "supports (as_seen t c) t = supports c t"
    by (simp add: supports_def knowable_def as_seen_def)
qed (simp_all add: as_seen_def)

lemma find_seen_at:
  assumes "distinct (map cr_record_id cited)"
  shows "find (\<lambda>c. cr_record_id c = i) (seen_at t cited) =
    (case find (\<lambda>c. cr_record_id c = i) cited of
       Some c \<Rightarrow> if knowable c t then Some (as_seen t c) else None | None \<Rightarrow> None)"
proof -
  have none: "find (\<lambda>c. cr_record_id c = i) (seen_at t cs) = None" if "i \<notin> cr_record_id ` set cs" for cs
    using that by (auto simp: find_None_iff seen_at_def)
  show ?thesis
    using assms
  proof (induction cited)
    case (Cons c cs)
    have "seen_at t (c # cs) = (if knowable c t then as_seen t c # seen_at t cs else seen_at t cs)"
      by (simp add: seen_at_def)
    with Cons none [of cs] show ?case by auto
  qed (simp add: seen_at_def)
qed

lemma cited_views_seen_at:
  assumes "distinct (map cr_record_id cited)"
  shows "filter (\<lambda>c. knowable c t) (cited_views opp (seen_at t cited)) =
    map (as_seen t) (filter (\<lambda>c. knowable c t) (cited_views opp cited))"
proof -
  have "filter (\<lambda>c. knowable c t) (List.map_filter (\<lambda>i. find (\<lambda>c. cr_record_id c = i) (seen_at t cited)) xs) =
    map (as_seen t) (filter (\<lambda>c. knowable c t) (List.map_filter (\<lambda>i. find (\<lambda>c. cr_record_id c = i) cited) xs))" for xs
    by (induction xs) (auto simp: map_filter_simps find_seen_at [OF assms] split: option.splits)
  then show ?thesis by (simp add: cited_views_def)
qed

lemma evidence_gate_seen_at:
  assumes "distinct (map cr_record_id cited)"
  shows "evidence_gate opp cited t = evidence_gate opp (seen_at t cited) t"
  unfolding evidence_gate_def Let_def cited_views_seen_at [OF assms] filter_map map_map length_map comp_def
    as_seen_simps map_is_Nil_conv
  by (rule refl)

text \<open>
  C6: Nothing that is not knowable at the decision time influences the verdict. Two sets of cited
  records (one per id) that look the same at the decision time - the same records knowable then, the
  same contradictions not surely later - give the same outcome, failures included.
\<close>

theorem gates_no_lookahead:
  assumes "distinct (map cr_record_id cited)" "distinct (map cr_record_id cited')"
    and "seen_at t cited = seen_at t cited'"
  shows "gates hash opp cited p t = gates hash opp cited' p t"
  using evidence_gate_seen_at [OF assms(1)] evidence_gate_seen_at [OF assms(2)] assms(3)
  by (simp add: gates_def run_gates_def)

theorem gates_no_lookahead_witness:
  "gates (\<lambda>_ _. Inr ''sha'') (sample_opportunity HighTicketDelivery sample_one_off)
     (sample_cited @ [\<lparr>cr_record_id = ''sig-2'', cr_event_key = ''ev-2'', cr_kind = Fact,
       cr_knowable_at = At 2000, cr_valid_until = None, cr_contradicted_at = None\<rparr>]) sample_profile (At 1500) =
   gates (\<lambda>_ _. Inr ''sha'') (sample_opportunity HighTicketDelivery sample_one_off) sample_cited
     sample_profile (At 1500)"
  by (rule gates_no_lookahead) code_simp+

text \<open>A settled verdict with one rejection.\<close>

definition sample_verdict :: gate_verdict where
  "sample_verdict = \<lparr>gv_verdict = Reject, gv_as_of = At 1500, gv_economics_version = 1, gv_inputs_sha256 = ''sha'',
     gv_failures = [reject DealRedFlag ''deal.legal'']\<rparr>"

lemma sample_verdict_settled: "settled sample_verdict"
proof -
  have "settle [reject DealRedFlag ''deal.legal''] = (gv_verdict sample_verdict, gv_failures sample_verdict)"
    by code_simp
  then show ?thesis unfolding settled_def by blast
qed

theorem with_holds_never_lifts_witness:
  "gv_verdict (with_holds sample_verdict [hold UnknownInput ''x'']) = Reject \<and>
   set (gv_failures sample_verdict) \<subseteq> set (gv_failures (with_holds sample_verdict [hold UnknownInput ''x'']))"
  using with_holds_never_lifts [OF sample_verdict_settled, of "[hold UnknownInput ''x'']"]
  by (simp add: sample_verdict_def)

section \<open>Refusals\<close>

text \<open>The amounts the exposure gate reads fit their type.\<close>

definition amounts_typed :: "opportunity \<Rightarrow> bool" where
  "amounts_typed opp \<longleftrightarrow>
     est_ok i64_ok (ml_cash (ra_max_loss (o_risk opp))) \<and>
     (case o_experiment opp of Some x \<Rightarrow> list_all (\<lambda>s. i64_ok (s_cash s)) (x_stages x) | None \<Rightarrow> True)"

lemma to_currency_runs:
  assumes "econ_ok e" "i64_ok a"
  shows "runs (\<lambda>_. True) (to_currency e c a fl)"
proof (cases "fx_for e c")
  case (Inr fx)
  have "fx_conv_ok fx"
    using assms(1) Inr by (auto simp: fx_for_def fx_conv_ok_def econ_ok_def split: if_splits option.splits)
  then show ?thesis
    using assms(2) Inr
    by (auto simp: to_currency_def i64_ok_i128 intro!: runs_bind [OF conv_any_runs] runs_rmap runs_minor)
qed (simp add: to_currency_def)

lemma minor_sum_runs:
  "runs i64_ok (rfold (\<lambda>acc s. minor_checked_add acc (s_cash s)) acc xs)" if "i64_ok acc"
  using that
proof (induction xs arbitrary: acc)
  case (Cons s xs)
  then show ?case
    by (auto simp: minor_checked_add_def fits_def)
qed simp

lemma exposure_gate_runs:
  assumes "econ_ok (o_economics opp)" "amounts_typed opp"
  shows "runs (\<lambda>_. True) (exposure_gate opp sc p)"
proof -
  have native: "runs (\<lambda>_. True) (native_above opp p f a)" if "i64_ok a" for f a
    unfolding native_above_def by (rule runs_bind [OF to_currency_runs [OF assms(1) that]]) simp
  have stage: "runs (\<lambda>_. True) (stage_tranche opp p (i, s))" if "i64_ok (s_cash s)" for i s
    unfolding stage_tranche_def case_prod_conv
    by (rule runs_bind [OF to_currency_runs [OF assms(1) that]]) simp
  have staged: "runs (\<lambda>_. True) (case o_experiment opp of None \<Rightarrow> Inr [] | Some x \<Rightarrow>
      rbind (total_cash x) (\<lambda>cash. rbind (native_above opp p ''experiment.stages'' cash) (\<lambda>a.
      rbind (rmapM (stage_tranche opp p) (enumerate 0 (x_stages x))) (\<lambda>bs. Inr (a @ concat bs)))))"
  proof (cases "o_experiment opp")
    case (Some x)
    have "runs (\<lambda>_. True) (stage_tranche opp p y)" if "y \<in> set (enumerate 0 (x_stages x))" for y
    proof -
      obtain i s where y: "y = (i, s)" by (rule prod.exhaust)
      have "s \<in> set (x_stages x)" using that by (auto simp: y in_set_enumerate_eq)
      then show ?thesis using assms(2) Some stage by (simp add: y amounts_typed_def list_all_iff)
    qed
    then have "runs (\<lambda>_. True) (rmapM (stage_tranche opp p) (enumerate 0 (x_stages x)))"
      by (rule runs_mono [OF runs_rmapM]) simp_all
    then show ?thesis
      unfolding Some option.case total_cash_def
      by (intro runs_bind [OF minor_sum_runs] runs_bind [OF native]) (auto simp: width_simps intro!: runs_bind)
  qed simp
  have "runs (\<lambda>_. True) (case est_end (ml_cash (ra_max_loss (o_risk opp))) Adverse Lower of
      None \<Rightarrow> Inr [] | Some hi \<Rightarrow> native_above opp p ''risk.max_loss.cash'' hi)"
    using assms(2) native by (cases "ml_cash (ra_max_loss (o_risk opp))") (auto simp: amounts_typed_def)
  with staged show ?thesis
    unfolding exposure_gate_def Let_def by (auto intro!: runs_bind)
qed

lemma gates_Inl:
  assumes e: "econ_ok (o_economics opp)" "risk_ok (o_risk opp)" "amounts_typed opp"
    and p: "validate_profile p = Inr ()" "i64_ok (p_shadow_hourly_rate p)"
    and "gates hash opp cited p t = Inl f"
  shows "\<not> is_signed p \<and> f = Err OPERATOR_PROFILE_UNSIGNED \<or> \<not> is_known t \<and> f = Err INVALID_TIME \<or>
    torder (o_as_of opp) t = After \<and> f = Err FUTURE_LEAKAGE \<or> f = Err OVERFLOW \<or> hash opp p = Inl f"
proof -
  have s: "scenarios_of hash opp p = Inl g \<Longrightarrow> g = Err OVERFLOW \<or> hash opp p = Inl g" for g
    by (rule scenarios_of_outcome [OF e(1,2) knobs_typed_if_validated [OF e(1) p]])
  have "run_gates opp cited p t sc = Inl g \<Longrightarrow> g = Err OVERFLOW" for sc g
    using exposure_gate_runs [OF e(1,3), of sc p] by (auto simp: run_gates_def rbind_eq_Inl)
  with s assms(6) show ?thesis
    by (auto simp: gates_def rbind_eq_Inl split: if_splits)
qed

text \<open>
  C8: Every way the gates can fail to give a verdict on a validated opportunity and profile: the
  profile is unsigned, the decision time unknown, the opportunity dated after it, an amount overflows,
  or the hash of the inputs fails. They never panic.
\<close>

theorem gates_outcomes:
  assumes "validate_opportunity opp = Inr ()" "opportunity_typed opp" "amounts_typed opp"
    "validate_profile p = Inr ()" "i64_ok (p_shadow_hourly_rate p)"
    and "gates hash opp cited p t = Inl f"
  shows "\<not> is_signed p \<and> f = Err OPERATOR_PROFILE_UNSIGNED \<or> \<not> is_known t \<and> f = Err INVALID_TIME \<or>
    torder (o_as_of opp) t = After \<and> f = Err FUTURE_LEAKAGE \<or> f = Err OVERFLOW \<or> hash opp p = Inl f"
  using gates_Inl [OF _ risk_ok_if_validated [OF assms(1,2)] assms(3,4,5,6)] econ_ok_if_validated assms(1,2)
  by (simp add: opportunity_typed_def)

theorem gates_outcomes_witness:
  "gates (\<lambda>_ _. Inr ''sha'') (sample_opportunity HighTicketDelivery sample_one_off) sample_cited sample_profile
     (At 500) = Inl (Err FUTURE_LEAKAGE) \<and>
   torder (o_as_of (sample_opportunity HighTicketDelivery sample_one_off)) (At 500) = After"
proof -
  let ?o = "sample_opportunity HighTicketDelivery sample_one_off"
  have g: "gates (\<lambda>_ _. Inr ''sha'') ?o sample_cited sample_profile (At 500) = Inl (Err FUTURE_LEAKAGE)"
    by code_simp
  have "amounts_typed ?o" "i64_ok (p_shadow_hourly_rate sample_profile)" by code_simp+
  from gates_outcomes [OF sample_one_off_valid sample_typed(2) this(1) sample_profile_valid this(2) g]
  have "torder (o_as_of ?o) (At 500) = After" by simp
  with g show ?thesis by blast
qed

end
