(* ===== verification/Soe_Portfolio.thy ===== *)
theory Soe_Portfolio
  imports Soe_Gates_Props
begin

text \<open>
  The weekly portfolio and the public brief (\<open>src/src/domain/soe/portfolio.rs\<close>): the rows, the actions
  and where each is allowed, the validation of the record. Whether a year has an ISO week is \<open>chrono\<close>'s
  (\<open>NaiveDate::from_isoywd_opt\<close>), the argument \<open>isoywd\<close>.

  Shown here: the week's text form reads back; what a validated portfolio guarantees (an id once across
  its lists, ranks in order, only allowed actions, no launch).
\<close>

section \<open>ISO weeks\<close>

record iso_week =
  iw_year :: int
  iw_week :: int

definition iso_week_new :: "(int \<Rightarrow> int \<Rightarrow> bool) \<Rightarrow> int \<Rightarrow> int \<Rightarrow> iso_week vres" where
  "iso_week_new isoywd year week =
     (if 1000 \<le> year \<and> year \<le> 9999 \<and> isoywd year week then Inr \<lparr>iw_year = year, iw_week = week\<rparr>
      else Inl (Err INVALID_FIELD))"

definition all_digits :: "nat \<Rightarrow> string \<Rightarrow> bool" where
  "all_digits n t \<longleftrightarrow> length t = n \<and> list_all is_ascii_digit t"

text \<open>\<open>split_once("-W")\<close>: at the first occurrence.\<close>

fun split_dash_w :: "string \<Rightarrow> (string \<times> string) option" where
  "split_dash_w [] = None"
| "split_dash_w (c # cs) =
     (if c = CHR ''-'' \<and> starts_with ''W'' cs then Some ([], tl cs)
      else map_option (\<lambda>(a, b). (c # a, b)) (split_dash_w cs))"

definition iso_week_from_str :: "(int \<Rightarrow> int \<Rightarrow> bool) \<Rightarrow> string \<Rightarrow> iso_week vres" where
  "iso_week_from_str isoywd s =
     rbind (ok_or (split_dash_w s) INVALID_FIELD) (\<lambda>(y, w).
     if \<not> all_digits 4 y \<or> \<not> all_digits 2 w then Inl (Err INVALID_FIELD)
     else iso_week_new isoywd (digits_val y) (digits_val w))"

definition iso_week_display :: "iso_week \<Rightarrow> string" where
  "iso_week_display w = padded 4 (nat (iw_year w)) @ ''-W'' @ padded 2 (nat (iw_week w))"

section \<open>Actions and rows\<close>

datatype portfolio_action =
    CheapTest minor int \<comment> \<open>max cash, max hours\<close>
  | ContinueActive
  | AHold
  | ADiligence "string list" minor \<comment> \<open>questions, max next tranche\<close>
  | Reprice minor \<comment> \<open>min price\<close>
  | AReject

fun action_kind :: "portfolio_action \<Rightarrow> string" where
  "action_kind (CheapTest _ _) = ''CHEAP_TEST''"
| "action_kind ContinueActive = ''CONTINUE_ACTIVE''"
| "action_kind AHold = ''HOLD''"
| "action_kind (ADiligence _ _) = ''DILIGENCE''"
| "action_kind (Reprice _) = ''REPRICE''"
| "action_kind AReject = ''REJECT''"

fun allowed_in :: "portfolio_action \<Rightarrow> string list" where
  "allowed_in (CheapTest _ _) = [''ranked'', ''held'']"
| "allowed_in ContinueActive = [''ranked'']"
| "allowed_in AHold = [''ranked'', ''held'']"
| "allowed_in (ADiligence _ _) = [''held'']"
| "allowed_in (Reprice _) = [''rejected'']"
| "allowed_in AReject = [''rejected'']"

fun action_problems :: "string \<Rightarrow> portfolio_action \<Rightarrow> problem list" where
  "action_problems at (CheapTest max_cash _) = p_non_negative (at @ ''.max_cash'') max_cash"
| "action_problems at (ADiligence questions tranche) =
     p_check (questions \<noteq> []) INVALID_FIELD (at @ ''.questions'') @
     p_unique_texts (at @ ''.questions'') questions @
     p_non_negative (at @ ''.max_next_tranche'') tranche"
| "action_problems at (Reprice min_price) = p_non_negative (at @ ''.min_price'') min_price"
| "action_problems at _ = []"

record rank_value =
  rv_key :: rank_key
  rv_value :: string

record ranked_row =
  rr_rank :: int
  rr_id :: string
  rr_opportunity_version :: int
  rr_action :: portfolio_action
  rr_keys :: "rank_value list"

record gated_row =
  gr_id :: string
  gr_opportunity_version :: int
  gr_action :: portfolio_action
  gr_gates :: "string list"

record allocation =
  al_owner_hours :: int
  al_cash :: minor

record weekly_portfolio =
  w_schema :: schema_tag
  w_ident :: string
  w_version :: int
  w_week :: iso_week
  w_as_of :: time
  w_currency :: currency
  w_profile_sha256 :: string
  w_inputs_sha256 :: string
  w_economics_version :: int
  w_ranked :: "ranked_row list"
  w_held :: "gated_row list"
  w_rejected :: "gated_row list"
  w_allocation :: allocation
  w_hold_rationale :: "string option"
  w_next_information :: "string list"

definition is_hold :: "weekly_portfolio \<Rightarrow> bool" where
  "is_hold w \<longleftrightarrow> w_ranked w = []"

definition row_action :: "string \<Rightarrow> string \<Rightarrow> portfolio_action \<Rightarrow> problem list" where
  "row_action lst field a =
     p_check (lst \<in> set (allowed_in a)) INVALID_FIELD field @ action_problems field a"

definition gated_problems :: "string \<Rightarrow> gated_row list \<Rightarrow> problem list" where
  "gated_problems lst rows =
     p_each (\<lambda>i r.
       p_id (at_index lst i @ ''.id'') (gr_id r) @
       row_action lst (at_index lst i @ ''.action'') (gr_action r) @
       p_check (gr_gates r \<noteq> []) INVALID_FIELD (at_index lst i @ ''.gates'') @
       p_unique_texts (at_index lst i @ ''.gates'') (gr_gates r)) rows"

definition portfolio_problems :: "weekly_portfolio \<Rightarrow> problem list" where
  "portfolio_problems w =
     p_known ''as_of'' (w_as_of w) @
     p_sha256 ''profile_sha256'' (w_profile_sha256 w) @
     p_sha256 ''inputs_sha256'' (w_inputs_sha256 w) @
     p_check (w_economics_version w \<ge> 1) INVALID_VERSION ''economics_version'' @
     p_unique ''ranked + held + rejected''
       (map rr_id (w_ranked w) @ map gr_id (w_held w) @ map gr_id (w_rejected w)) @
     p_each (\<lambda>i r.
       p_id (at_index ''ranked'' i @ ''.id'') (rr_id r) @
       p_check (rr_rank r = int i + 1) INVALID_FIELD (at_index ''ranked'' i @ ''.rank'') @
       row_action ''ranked'' (at_index ''ranked'' i @ ''.action'') (rr_action r) @
       p_unique (at_index ''ranked'' i @ ''.keys'') (map rv_key (rr_keys r))) (w_ranked w) @
     gated_problems ''held'' (w_held w) @
     gated_problems ''rejected'' (w_rejected w) @
     p_non_negative ''allocation.cash'' (al_cash (w_allocation w)) @
     (case w_hold_rationale w of
        Some h \<Rightarrow> p_text ''hold_rationale'' h
      | None \<Rightarrow> p_check (w_ranked w \<noteq> []) INVALID_FIELD ''hold_rationale'') @
     p_unique_texts ''next_information'' (w_next_information w)"

definition validate_portfolio :: "weekly_portfolio \<Rightarrow> problem list + unit" where
  "validate_portfolio w =
     validate ''weekly_portfolio'' (w_schema w) (w_ident w) (w_version w) (portfolio_problems w)"

section \<open>The public brief\<close>

record brief_fact =
  bf_text :: string
  bf_url :: locator

record public_brief =
  pb_schema :: schema_tag
  pb_ident :: string
  pb_version :: int
  pb_week :: iso_week
  pb_facts :: "brief_fact list"
  pb_thesis :: string
  pb_disclosed_assumptions :: "string list"
  pb_experiment_update :: "string option"
  pb_generated_from_sha256 :: string

definition is_url :: "locator \<Rightarrow> bool" where
  "is_url l \<longleftrightarrow> (case l of LUrl _ \<Rightarrow> True | _ \<Rightarrow> False)"

definition brief_problems :: "public_brief \<Rightarrow> problem list" where
  "brief_problems b =
     p_each (\<lambda>i f.
       p_text (at_index ''facts'' i @ ''.text'') (bf_text f) @
       p_check (is_url (bf_url f)) PRIVATE_LOCATOR (at_index ''facts'' i @ ''.url'')) (pb_facts b) @
     p_text ''thesis'' (pb_thesis b) @
     p_unique_texts ''disclosed_assumptions'' (pb_disclosed_assumptions b) @
     (case pb_experiment_update b of Some u \<Rightarrow> p_text ''experiment_update'' u | None \<Rightarrow> []) @
     p_sha256 ''generated_from_sha256'' (pb_generated_from_sha256 b)"

definition validate_brief :: "public_brief \<Rightarrow> problem list + unit" where
  "validate_brief b =
     validate ''public_brief'' (pb_schema b) (pb_ident b) (pb_version b) (brief_problems b)"

section \<open>What validation guarantees\<close>

interpretation portfolio_record: soe_record "''weekly_portfolio''" w_schema w_ident w_version
  portfolio_problems validate_portfolio
  by unfold_locales (simp add: validate_portfolio_def)

interpretation brief_record: soe_record "''public_brief''" pb_schema pb_ident pb_version
  brief_problems validate_brief
  by unfold_locales (simp add: validate_brief_def)

text \<open>The entry at its index is checked.\<close>

lemma p_each_Nil_nth: "p_each f xs = [] \<longleftrightarrow> (\<forall>i < length xs. f i (xs ! i) = [])"
proof -
  have "concat (map (\<lambda>(i, x). f i x) (enumerate n xs)) = [] \<longleftrightarrow> (\<forall>i < length xs. f (n + i) (xs ! i) = [])" for n
    by (induction xs arbitrary: n) (auto simp: less_Suc_eq_0_disj nth_Cons')
  then show ?thesis by (simp add: p_each_def)
qed

lemma row_action_Nil:
  "row_action lst field a = [] \<Longrightarrow> lst \<in> set (allowed_in a)"
  by (simp add: row_action_def problem_simps)

lemma gated_problems_Nil:
  assumes "gated_problems lst rows = []" "r \<in> set rows"
  shows "lst \<in> set (allowed_in (gr_action r)) \<and> gr_gates r \<noteq> [] \<and> distinct (gr_gates r)"
proof -
  obtain i where "i < length rows" "rows ! i = r" using assms(2) by (auto simp: in_set_conv_nth)
  with assms(1) show ?thesis
    by (auto simp: gated_problems_def p_each_Nil_nth row_action_def problem_simps)
qed

definition ranked_actions :: "portfolio_action \<Rightarrow> bool" where
  "ranked_actions a \<longleftrightarrow> (case a of CheapTest _ _ \<Rightarrow> True | ContinueActive \<Rightarrow> True | AHold \<Rightarrow> True | _ \<Rightarrow> False)"

definition held_actions :: "portfolio_action \<Rightarrow> bool" where
  "held_actions a \<longleftrightarrow> (case a of CheapTest _ _ \<Rightarrow> True | AHold \<Rightarrow> True | ADiligence _ _ \<Rightarrow> True | _ \<Rightarrow> False)"

definition rejected_actions :: "portfolio_action \<Rightarrow> bool" where
  "rejected_actions a \<longleftrightarrow> (case a of Reprice _ \<Rightarrow> True | AReject \<Rightarrow> True | _ \<Rightarrow> False)"

lemma allowed_in_iff:
  "''ranked'' \<in> set (allowed_in a) \<longleftrightarrow> ranked_actions a" "''held'' \<in> set (allowed_in a) \<longleftrightarrow> held_actions a"
  "''rejected'' \<in> set (allowed_in a) \<longleftrightarrow> rejected_actions a"
  by (cases a; simp add: ranked_actions_def held_actions_def rejected_actions_def)+

text \<open>
  C37: What a validated weekly portfolio guarantees: no candidate appears twice across the ranked, held
  and rejected lists; the ranks run 1, 2, \<dots> in list order; each list holds only its own actions (none
  of which launches anything); every held and rejected row names the gates that stopped it; a week with
  nothing ranked says why.
\<close>

theorem validated_portfolio:
  assumes "validate_portfolio w = Inr ()"
  shows "distinct (map rr_id (w_ranked w) @ map gr_id (w_held w) @ map gr_id (w_rejected w)) \<and>
    map rr_rank (w_ranked w) = map (\<lambda>i. int i + 1) [0..<length (w_ranked w)] \<and>
    list_all ranked_actions (map rr_action (w_ranked w)) \<and>
    list_all held_actions (map gr_action (w_held w)) \<and>
    list_all rejected_actions (map gr_action (w_rejected w)) \<and>
    list_all (\<lambda>r. gr_gates r \<noteq> []) (w_held w @ w_rejected w) \<and>
    (w_ranked w = [] \<longrightarrow> (\<exists>h. w_hold_rationale w = Some h \<and> trim h \<noteq> []))"
proof -
  have "portfolio_problems w = []"
    using assms by (simp add: portfolio_record.validated_iff)
  then have p: "p_unique ''ranked + held + rejected''
       (map rr_id (w_ranked w) @ map gr_id (w_held w) @ map gr_id (w_rejected w)) = []"
    "p_each (\<lambda>i r.
       p_id (at_index ''ranked'' i @ ''.id'') (rr_id r) @
       p_check (rr_rank r = int i + 1) INVALID_FIELD (at_index ''ranked'' i @ ''.rank'') @
       row_action ''ranked'' (at_index ''ranked'' i @ ''.action'') (rr_action r) @
       p_unique (at_index ''ranked'' i @ ''.keys'') (map rv_key (rr_keys r))) (w_ranked w) = []"
    "gated_problems ''held'' (w_held w) = []" "gated_problems ''rejected'' (w_rejected w) = []"
    "(case w_hold_rationale w of
        Some h \<Rightarrow> p_text ''hold_rationale'' h
      | None \<Rightarrow> p_check (w_ranked w \<noteq> []) INVALID_FIELD ''hold_rationale'') = []"
    unfolding portfolio_problems_def by simp_all
  have r: "rr_rank (w_ranked w ! i) = int i + 1" "ranked_actions (rr_action (w_ranked w ! i))"
    if "i < length (w_ranked w)" for i
    using p(2) that unfolding p_each_Nil_nth
    using row_action_Nil [of "''ranked''" _ "rr_action (w_ranked w ! i)"] allowed_in_iff(1)
    by (fastforce simp: problem_simps)+
  have "map rr_rank (w_ranked w) = map (\<lambda>i. int i + 1) [0..<length (w_ranked w)]"
    using r(1) by (intro nth_equalityI) auto
  moreover have "list_all ranked_actions (map rr_action (w_ranked w))"
    using r(2) by (auto simp: list_all_length)
  moreover have "list_all held_actions (map gr_action (w_held w))"
    "list_all rejected_actions (map gr_action (w_rejected w))"
    "list_all (\<lambda>r. gr_gates r \<noteq> []) (w_held w @ w_rejected w)"
    using gated_problems_Nil [OF p(3)] gated_problems_Nil [OF p(4)]
    by (auto simp: list_all_iff allowed_in_iff)
  moreover have "w_ranked w = [] \<longrightarrow> (\<exists>h. w_hold_rationale w = Some h \<and> trim h \<noteq> [])"
    using p(5) by (auto simp: problem_simps split: option.splits)
  ultimately show ?thesis using p(1) by (simp add: problem_simps)
qed

text \<open>
  A validated public brief cites public sources only: every fact's locator is a \<open>url:\<close>, so no
  \<open>repo:\<close>, \<open>state:\<close>, \<open>vault:\<close> or \<open>run:\<close> locator leaves the private state through it.
\<close>

theorem brief_cites_urls_only:
  assumes "validate_brief b = Inr ()" "f \<in> set (pb_facts b)"
  shows "\<exists>u. bf_url f = LUrl u"
proof -
  have "brief_problems b = []" using assms(1) by (simp add: brief_record.validated_iff)
  moreover obtain i where "i < length (pb_facts b)" "pb_facts b ! i = f"
    using assms(2) by (auto simp: in_set_conv_nth)
  ultimately have "is_url (bf_url f)"
    by (auto simp: brief_problems_def p_each_Nil_nth problem_simps)
  then show ?thesis by (cases "bf_url f") (simp_all add: is_url_def)
qed


section \<open>Weeks as text\<close>

lemma split_dash_w_append: "CHR ''-'' \<notin> set y \<Longrightarrow> split_dash_w (y @ CHR ''-'' # CHR ''W'' # w) = Some (y, w)"
  by (induction y) (auto simp: starts_with_def)

lemma digits_no_dash: "digits_only y \<Longrightarrow> CHR ''-'' \<notin> set y"
  by (auto simp: digits_only_def list_all_iff is_ascii_digit_def)

text \<open>
  The text of an ISO week reads back as the week, for every week \<open>IsoWeek::new\<close> accepts (whatever
  the calendar says of the week number, as long as it has at most two digits).
\<close>

theorem iso_week_round_trip:
  assumes "iso_week_new isoywd y n = Inr w" "0 \<le> n" "n < 100"
  shows "iso_week_from_str isoywd (iso_week_display w) = Inr w"
proof -
  have w: "w = \<lparr>iw_year = y, iw_week = n\<rparr>" "1000 \<le> y" "y \<le> 9999" "isoywd y n"
    using assms(1) by (auto simp: iso_week_new_def split: if_splits)
  have y: "length (padded 4 (nat y)) = 4" "digits_val (padded 4 (nat y)) = y" "digits_only (padded 4 (nat y))"
    using padded_props [of 4 "nat y"] w by simp_all
  have n: "length (padded 2 (nat n)) = 2" "digits_val (padded 2 (nat n)) = n" "digits_only (padded 2 (nat n))"
    using padded_props [of 2 "nat n"] assms by simp_all
  have "split_dash_w (iso_week_display w) = Some (padded 4 (nat y), padded 2 (nat n))"
    using split_dash_w_append [OF digits_no_dash [OF y(3)]] by (simp add: iso_week_display_def w(1))
  then show ?thesis
    using y n w by (simp add: iso_week_from_str_def all_digits_def digits_only_def iso_week_new_def)
qed

theorem iso_week_round_trip_witness:
  "iso_week_from_str (\<lambda>y w. 1 \<le> w \<and> w \<le> 52) ''2026-W41'' = Inr \<lparr>iw_year = 2026, iw_week = 41\<rparr>"
proof -
  have "iso_week_new (\<lambda>y w. 1 \<le> w \<and> w \<le> 52) 2026 41 = Inr \<lparr>iw_year = 2026, iw_week = 41\<rparr>"
    by code_simp
  moreover have "iso_week_display \<lparr>iw_year = 2026, iw_week = 41\<rparr> = ''2026-W41''" by code_simp
  ultimately show ?thesis using iso_week_round_trip by fastforce
qed

definition sample_brief :: public_brief where
  "sample_brief = \<lparr>pb_schema = \<lparr>st_record = ''public_brief'', st_version = 1\<rparr>, pb_ident = ''brief-1'', pb_version = 1,
     pb_week = \<lparr>iw_year = 2026, iw_week = 41\<rparr>,
     pb_facts = [\<lparr>bf_text = ''a fact'', bf_url = LUrl ''https://example.com/a''\<rparr>], pb_thesis = ''a thesis'',
     pb_disclosed_assumptions = [], pb_experiment_update = None,
     pb_generated_from_sha256 = replicate 64 CHR ''a''\<rparr>"

theorem brief_cites_urls_only_witness: "\<exists>u. bf_url (hd (pb_facts sample_brief)) = LUrl u"
proof -
  have "validate_brief sample_brief = Inr ()" by code_simp
  then show ?thesis by (rule brief_cites_urls_only) (simp add: sample_brief_def)
qed

definition sample_week :: weekly_portfolio where
  "sample_week = \<lparr>w_schema = \<lparr>st_record = ''weekly_portfolio'', st_version = 1\<rparr>, w_ident = ''week-1'', w_version = 1,
     w_week = \<lparr>iw_year = 2026, iw_week = 41\<rparr>, w_as_of = At 1500, w_currency = Eur,
     w_profile_sha256 = replicate 64 CHR ''a'', w_inputs_sha256 = replicate 64 CHR ''b'', w_economics_version = 1,
     w_ranked = [\<lparr>rr_rank = 1, rr_id = ''opp-1'', rr_opportunity_version = 1, rr_action = CheapTest 10000 5,
       rr_keys = []\<rparr>],
     w_held = [\<lparr>gr_id = ''opp-2'', gr_opportunity_version = 1, gr_action = AHold, gr_gates = [''DILIGENCE_OPEN'']\<rparr>],
     w_rejected = [], w_allocation = \<lparr>al_owner_hours = 5, al_cash = 10000\<rparr>, w_hold_rationale = None,
     w_next_information = []\<rparr>"

theorem validated_portfolio_witness:
  "distinct (map rr_id (w_ranked sample_week) @ map gr_id (w_held sample_week) @ map gr_id (w_rejected sample_week)) \<and>
   list_all held_actions (map gr_action (w_held sample_week))"
proof -
  have "validate_portfolio sample_week = Inr ()" by code_simp
  from validated_portfolio [OF this] show ?thesis by blast
qed

end
