(* ===== verification/Soe_Rank.thy ===== *)
theory Soe_Rank
  imports Soe_Portfolio
begin

text \<open>
  Capability fit (\<open>src/src/domain/soe/matching.rs\<close>) and ranking (\<open>src/src/domain/soe/rank.rs\<close>): the eight
  rank keys of a candidate, the order the profile's \<open>rank_order\<close> gives, why one ranks above another, the
  sensitivity of a verdict to one input, the rows of a week and the week that holds.

  Arguments stand for code outside the sources: \<open>hash\<close> and \<open>ahash\<close> for the canonical JSON and SHA-256 of
  the inputs (of the economics, of an assessment), \<open>whash\<close> for that of a week, \<open>show_time\<close> for the text
  of a time (\<open>chrono\<close>).
\<close>

section \<open>Capability fit\<close>

datatype fit_level = FProven | FClaimed | FStale | FMissing | FUnstated

fun fit_rank :: "fit_level \<Rightarrow> nat" where
  "fit_rank FProven = 0" | "fit_rank FClaimed = 1" | "fit_rank FStale = 2" | "fit_rank FMissing = 3"
| "fit_rank FUnstated = 4"

lemma fit_rank_inj: "fit_rank a = fit_rank b \<Longrightarrow> a = b"
  by (cases a; cases b) simp_all

instantiation fit_level :: linorder
begin

definition less_eq_fit_level :: "fit_level \<Rightarrow> fit_level \<Rightarrow> bool" where
  "less_eq_fit_level a b \<longleftrightarrow> fit_rank a \<le> fit_rank b"

definition less_fit_level :: "fit_level \<Rightarrow> fit_level \<Rightarrow> bool" where
  "less_fit_level a b \<longleftrightarrow> fit_rank a < fit_rank b"

instance
  by standard (auto simp: less_eq_fit_level_def less_fit_level_def intro: fit_rank_inj)

end

fun fit_level_level :: "fit_level \<Rightarrow> int option" where
  "fit_level_level FProven = Some 4"
| "fit_level_level FClaimed = Some 3"
| "fit_level_level FStale = Some 2"
| "fit_level_level FMissing = Some 1"
| "fit_level_level FUnstated = None"

record skill_fit =
  sf_skill :: string
  sf_level :: fit_level
  sf_capability :: "string option"

record capability_fit =
  cf_level :: fit_level
  cf_skills :: "skill_fit list"

definition active_at :: "operator_capability \<Rightarrow> time \<Rightarrow> bool" where
  "active_at c at \<longleftrightarrow>
     torder (oc_as_of c) at = NotAfter \<and>
     (case (latest at, window_end (oc_valid_until c)) of (Some t, Some e) \<Rightarrow> t < e | _ \<Rightarrow> False)"

definition capability_fit_level :: "operator_capability \<Rightarrow> time \<Rightarrow> fit_level" where
  "capability_fit_level c at =
     (if active_at c at then (if oc_level c = LevelProven then FProven else FClaimed) else FStale)"

definition best_fit ::
  "time \<Rightarrow> (fit_level \<times> string) option \<Rightarrow> operator_capability \<Rightarrow> (fit_level \<times> string) option" where
  "best_fit at best c =
     (let candidate = (capability_fit_level c at, oc_id c) in
     case best of None \<Rightarrow> Some candidate | Some b \<Rightarrow> if candidate < b then Some candidate else Some b)"

definition skill_fit_of :: "string \<Rightarrow> operator_profile \<Rightarrow> time \<Rightarrow> skill_fit" where
  "skill_fit_of skill p at =
     (case foldl (best_fit at) None (filter (\<lambda>c. oc_skill c = skill) (p_capabilities p)) of
        Some (level, i) \<Rightarrow> \<lparr>sf_skill = skill, sf_level = level, sf_capability = Some i\<rparr>
      | None \<Rightarrow> \<lparr>sf_skill = skill, sf_level = FMissing, sf_capability = None\<rparr>)"

text \<open>\<open>iter().max()\<close>: none for an empty list.\<close>

definition max_of :: "'a::linorder list \<Rightarrow> 'a option" where
  "max_of xs = (case xs of [] \<Rightarrow> None | y # ys \<Rightarrow> Some (fold max ys y))"

definition fit_of :: "opportunity \<Rightarrow> operator_profile \<Rightarrow> time \<Rightarrow> capability_fit" where
  "fit_of opp p at =
     (let skills = map (\<lambda>s. skill_fit_of s p at) (o_requires_skills opp) in
     \<lparr>cf_level = (case max_of (map sf_level skills) of Some l \<Rightarrow> l | None \<Rightarrow> FUnstated),
      cf_skills = skills\<rparr>)"

section \<open>Key values\<close>

datatype key_value =
    KTier tier | KMoney money | KPayback payback | KDays int | KShare bps | KFit fit_level
  | KUnknown string

fun magnitude :: "key_value \<Rightarrow> int option" where
  "magnitude (KTier t) = tier_level t"
| "magnitude (KMoney m) = Some (m_minor m)"
| "magnitude (KPayback (Months n)) = Some n"
| "magnitude (KDays n) = Some n"
| "magnitude (KPayback NotReached) = Some (2 ^ 32 - 1 + 1)"
| "magnitude (KShare b) = Some b"
| "magnitude (KFit f) = fit_level_level f"
| "magnitude (KUnknown _) = None"

fun tier_name :: "tier \<Rightarrow> string" where
  "tier_name TLow = ''LOW''" | "tier_name TMedium = ''MEDIUM''" | "tier_name THigh = ''HIGH''"
| "tier_name TUnknown = ''UNKNOWN''"

fun fit_name :: "fit_level \<Rightarrow> string" where
  "fit_name FProven = ''PROVEN''" | "fit_name FClaimed = ''CLAIMED''" | "fit_name FStale = ''STALE''"
| "fit_name FMissing = ''MISSING''" | "fit_name FUnstated = ''UNSTATED''"

fun key_value_display :: "key_value \<Rightarrow> string" where
  "key_value_display (KTier t) = tier_name t"
| "key_value_display (KMoney m) = money_display m"
| "key_value_display (KPayback (Months n)) =
     (if n = 1 then ''1 month'' else nat_text (nat n) @ '' months'')"
| "key_value_display (KPayback NotReached) = ''NOT_REACHED''"
| "key_value_display (KDays d) = (if d = 1 then ''1 day'' else nat_text (nat d) @ '' days'')"
| "key_value_display (KShare b) = nat_text (nat b) @ '' bps''"
| "key_value_display (KFit l) = fit_name l"
| "key_value_display (KUnknown why) = ''UNKNOWN: '' @ why"

fun cmp_values :: "key_value \<Rightarrow> key_value \<Rightarrow> better \<Rightarrow> ordering" where
  "cmp_values a b bt =
     (case (magnitude a, magnitude b) of
        (Some x, Some y) \<Rightarrow> (case bt of Higher \<Rightarrow> int_cmp y x | Lower \<Rightarrow> int_cmp x y)
      | (Some _, None) \<Rightarrow> Less
      | (None, Some _) \<Rightarrow> Greater
      | (None, None) \<Rightarrow> Equal)"

definition evidence_confidence :: "opportunity \<Rightarrow> cited_record list \<Rightarrow> time \<Rightarrow> tier" where
  "evidence_confidence opp cited as_of =
     (let kn = filter (\<lambda>c. knowable c as_of) (cited_views opp cited);
          contested = list_ex (\<lambda>c. contradicted c as_of) kn;
          support = filter (\<lambda>c. supports c as_of) kn;
          fact = list_ex (\<lambda>c. cr_kind c = Fact) support;
          events = set (map cr_event_key support)
      in if fact \<and> \<not> contested then THigh else if card events \<ge> 2 then TMedium else TLow)"

definition days_to_decisive_evidence :: "(time \<Rightarrow> string) \<Rightarrow> opportunity \<Rightarrow> time \<Rightarrow> key_value vres" where
  "days_to_decisive_evidence show_time opp as_of =
     (case o_experiment opp of
        None \<Rightarrow> Inr (KUnknown ''no experiment'')
      | Some x \<Rightarrow>
          (case (window_end (x_deadline x), earliest as_of, latest as_of) of
             (Some e, at, Some late) \<Rightarrow>
               if late \<ge> e then
                 Inr (KUnknown (''experiment.deadline '' @ show_time (x_deadline x) @ '' passed by the decision''))
               else
                 (case at of
                    Some a \<Rightarrow>
                      rbind (div_ceil (e - a) DAY_MS) (\<lambda>days.
                      Inr (KDays (if u32_ok days then days else 2 ^ 32 - 1)))
                  | None \<Rightarrow> Inr (KUnknown ''experiment.deadline or the decision time unknown''))
           | _ \<Rightarrow> Inr (KUnknown ''experiment.deadline or the decision time unknown'')))"

definition metric_value :: "'a metric \<Rightarrow> ('a \<Rightarrow> key_value) \<Rightarrow> key_value" where
  "metric_value m known =
     (case m of Known v \<Rightarrow> known v | MUnknown lacking \<Rightarrow> KUnknown (''needs '' @ join '', '' lacking))"

section \<open>One candidate\<close>

record assessment =
  as_id :: string
  as_version :: int
  as_verdict :: gate_verdict
  as_scenarios :: scenarios
  as_fit :: capability_fit
  as_keys :: "rank_key \<Rightarrow> key_value"
  as_inputs_sha256 :: string

definition passes :: "assessment \<Rightarrow> bool" where
  "passes a \<longleftrightarrow> gv_verdict (as_verdict a) = Pass"

type_synonym econ_hash = "opportunity \<Rightarrow> operator_profile \<Rightarrow> string vres"
type_synonym assess_hash = "opportunity \<Rightarrow> cited_record list \<Rightarrow> time \<Rightarrow> string vres"

definition assess ::
  "econ_hash \<Rightarrow> assess_hash \<Rightarrow> (time \<Rightarrow> string) \<Rightarrow> opportunity \<Rightarrow> cited_record list \<Rightarrow>
     operator_profile \<Rightarrow> time \<Rightarrow> assessment vres" where
  "assess hash ahash show_time opp cited p as_of =
     rbind (gates hash opp cited p as_of) (\<lambda>verdict.
     rbind (scenarios_of hash opp p) (\<lambda>sc.
     rbind (days_to_decisive_evidence show_time opp as_of) (\<lambda>days.
     let fit = fit_of opp p as_of;
         keys = (\<lambda>k. case k of
             EvidenceConfidence \<Rightarrow> KTier (evidence_confidence opp cited as_of)
           | TimeAdjustedBase \<Rightarrow>
               metric_value (sm_time_adjusted_contribution (sc_base sc))
                 (\<lambda>v. KMoney \<lparr>m_minor = v, m_currency = sc_currency sc\<rparr>)
           | PaybackBase \<Rightarrow> metric_value (sm_payback (sc_base sc)) KPayback
           | DaysToDecisiveEvidence \<Rightarrow> days
           | Reversibility \<Rightarrow> KTier (od_reversibility (o_ordinal opp))
           | CapabilityFit \<Rightarrow> KFit (cf_level fit)
           | ConcentrationMax \<Rightarrow>
               (case concentration_max (o_risk opp) of
                  Some b \<Rightarrow> KShare b | None \<Rightarrow> KUnknown ''no concentration listed'')
           | Defensibility \<Rightarrow> KTier (od_defensibility (o_ordinal opp)))
     in rbind (ahash opp (cited_views opp cited) as_of) (\<lambda>sha.
        Inr \<lparr>as_id = o_ident opp, as_version = o_version opp, as_verdict = verdict, as_scenarios = sc,
             as_fit = fit, as_keys = keys, as_inputs_sha256 = sha\<rparr>))))"

section \<open>Order and explanation\<close>

fun string_cmp :: "string \<Rightarrow> string \<Rightarrow> ordering" where
  "string_cmp a b = (if a < b then Less else if a = b then Equal else Greater)"

definition ord_then :: "ordering \<Rightarrow> ordering \<Rightarrow> ordering" where
  "ord_then a b = (if a = Equal then b else a)"

definition compare :: "assessment \<Rightarrow> assessment \<Rightarrow> rank_key list \<Rightarrow> ordering" where
  "compare a b order =
     (case find (\<lambda>r. r \<noteq> Equal) (map (\<lambda>k. cmp_values (as_keys a k) (as_keys b k) (rank_key_better k)) order) of
        Some r \<Rightarrow> r
      | None \<Rightarrow>
          ord_then (string_cmp (as_id a) (as_id b))
            (ord_then (int_cmp (as_version a) (as_version b))
              (string_cmp (as_inputs_sha256 a) (as_inputs_sha256 b))))"

text \<open>\<open>sort_by\<close> is a stable insertion order for the comparator.\<close>

fun insert_by :: "('a \<Rightarrow> 'a \<Rightarrow> ordering) \<Rightarrow> 'a \<Rightarrow> 'a list \<Rightarrow> 'a list" where
  "insert_by cmp x [] = [x]"
| "insert_by cmp x (y # ys) = (if cmp x y = Greater then y # insert_by cmp x ys else x # y # ys)"

fun sort_by :: "('a \<Rightarrow> 'a \<Rightarrow> ordering) \<Rightarrow> 'a list \<Rightarrow> 'a list" where
  "sort_by cmp [] = []"
| "sort_by cmp (x # xs) = insert_by cmp x (sort_by cmp xs)"

definition rank :: "assessment list \<Rightarrow> rank_key list \<Rightarrow> assessment list" where
  "rank all order = sort_by (\<lambda>a b. compare a b order) (filter passes all)"

record rank_reason =
  re_key :: "rank_key option"
  re_first :: string
  re_first_value :: string
  re_second :: string
  re_second_value :: string

definition deciding_key :: "assessment \<Rightarrow> assessment \<Rightarrow> rank_key list \<Rightarrow> rank_key option" where
  "deciding_key a b order =
     find (\<lambda>k. cmp_values (as_keys a k) (as_keys b k) (rank_key_better k) \<noteq> Equal) order"

definition explain_order :: "assessment \<Rightarrow> assessment \<Rightarrow> rank_key list \<Rightarrow> rank_reason" where
  "explain_order a b order =
     (case (if compare a b order \<noteq> Greater then (a, b) else (b, a)) of (x, y) \<Rightarrow>
        (case deciding_key x y order of
           Some k \<Rightarrow>
             \<lparr>re_key = Some k, re_first = as_id x, re_first_value = key_value_display (as_keys x k),
              re_second = as_id y, re_second_value = key_value_display (as_keys y k)\<rparr>
         | None \<Rightarrow>
             \<lparr>re_key = None, re_first = as_id x, re_first_value = as_id x, re_second = as_id y,
              re_second_value = as_id y\<rparr>))"

section \<open>Sensitivity\<close>

datatype perturb_input = POwnerHours | PConversion | PChurn | PPrice

fun perturb_better :: "perturb_input \<Rightarrow> better" where
  "perturb_better POwnerHours = Lower"
| "perturb_better PChurn = Lower"
| "perturb_better PConversion = Higher"
| "perturb_better PPrice = Higher"

record perturbation =
  pt_input :: perturb_input
  pt_scale_bps :: int

definition tornado :: "int \<Rightarrow> perturbation list" where
  "tornado s =
     concat (map (\<lambda>i. [\<lparr>pt_input = i, pt_scale_bps = - s\<rparr>, \<lparr>pt_input = i, pt_scale_bps = s\<rparr>])
       [POwnerHours, PConversion, PChurn, PPrice])"

definition scale :: "int \<Rightarrow> perturbation \<Rightarrow> int vres" where
  "scale v p =
     rbind (ok_or (fits i128_ok (v * (FULL + pt_scale_bps p))) OVERFLOW) (\<lambda>num.
     case perturb_better (pt_input p) of Higher \<Rightarrow> div_floor num FULL | Lower \<Rightarrow> div_ceil num FULL)"

definition scale_est ::
  "int assumption \<Rightarrow> (int \<Rightarrow> int vres) \<Rightarrow> int assumption vres" where
  "scale_est a f =
     (case a_value a of
        Range l m h \<Rightarrow>
          rbind (f l) (\<lambda>l'. rbind (f m) (\<lambda>m'. rbind (f h) (\<lambda>h'.
          rbind (est_range (\<lambda>x y. Some (int_cmp x y)) l' m' h') (\<lambda>e. Inr (a\<lparr>a_value := e\<rparr>)))))
      | EUnknown _ \<Rightarrow> Inr a)"

definition scale_amount :: "minor assumption \<Rightarrow> perturbation \<Rightarrow> minor assumption vres" where
  "scale_amount a p = scale_est a (\<lambda>m. rbind (scale m p) (\<lambda>v. ok_or (fits i64_ok v) OVERFLOW))"

definition scale_count :: "int assumption \<Rightarrow> perturbation \<Rightarrow> int assumption vres" where
  "scale_count a p = scale_est a (\<lambda>n. rbind (scale n p) (\<lambda>v. ok_or (fits u32_ok v) OVERFLOW))"

definition scale_share :: "bps assumption \<Rightarrow> perturbation \<Rightarrow> bps assumption vres" where
  "scale_share a p = scale_est a (\<lambda>b. rbind (scale b p) (\<lambda>v. bps_new (min (max v 0) FULL)))"

definition perturb :: "opportunity \<Rightarrow> perturbation \<Rightarrow> (opportunity \<times> string list) vres" where
  "perturb opp p =
     (if pt_scale_bps p < - BPS_FULL then Inl (Err INVALID_FIELD)
      else
        let e = o_economics opp;
            put = (\<lambda>e'. opp\<lparr>o_economics := e'\<rparr>);
            model = (\<lambda>r field. Inr (put (e\<lparr>e_revenue := r\<rparr>), [field]))
        in case (pt_input p, e_revenue e) of
          (POwnerHours, OneOff c w d h l) \<Rightarrow>
            rbind (scale_count (e_owner_hours_per_month e) p) (\<lambda>oh.
            rbind (scale_count h p) (\<lambda>h'.
            Inr (put (e\<lparr>e_owner_hours_per_month := oh, e_revenue := OneOff c w d h' l\<rparr>),
                 [''economics.owner_hours_per_month'', ''economics.revenue.owner_hours_total''])))
        | (POwnerHours, _) \<Rightarrow>
            rbind (scale_count (e_owner_hours_per_month e) p) (\<lambda>oh.
            Inr (put (e\<lparr>e_owner_hours_per_month := oh\<rparr>), [''economics.owner_hours_per_month'']))
        | (PConversion, Recurring a c ch pr l) \<Rightarrow>
            rbind (scale_share c p) (\<lambda>c'. model (Recurring a c' ch pr l) ''economics.revenue.conversion'')
        | (PConversion, OneOff c w d h l) \<Rightarrow>
            rbind (scale_share w p) (\<lambda>w'. model (OneOff c w' d h l) ''economics.revenue.win_probability'')
        | (PChurn, Recurring a c ch pr l) \<Rightarrow>
            rbind (scale_share ch p) (\<lambda>ch'. model (Recurring a c ch' pr l) ''economics.revenue.churn_per_month'')
        | (PChurn, Acquisition a ch l) \<Rightarrow>
            rbind (scale_share ch p) (\<lambda>ch'. model (Acquisition a ch' l) ''economics.revenue.churn_per_month'')
        | (PPrice, Recurring a c ch pr l) \<Rightarrow>
            rbind (scale_amount pr p) (\<lambda>pr'. model (Recurring a c ch pr' l) ''economics.revenue.price_per_month'')
        | (PPrice, OneOff c w d h l) \<Rightarrow>
            rbind (scale_amount c p) (\<lambda>c'. model (OneOff c' w d h l) ''economics.revenue.contract_value'')
        | (PPrice, RevenueShare a sh l) \<Rightarrow>
            rbind (scale_share sh p) (\<lambda>sh'. model (RevenueShare a sh' l) ''economics.revenue.share'')
        | _ \<Rightarrow> Inr (opp, []))"

record sensitivity_row =
  sr_input :: perturb_input
  sr_scale_bps :: int
  sr_fields :: "string list"
  sr_base_time_adjusted :: "minor metric"
  sr_perturbed_time_adjusted :: "minor metric"
  sr_verdict_before :: verdict
  sr_verdict_after :: verdict
  sr_gates_added :: "string list"
  sr_gates_removed :: "string list"

definition sensitivity ::
  "econ_hash \<Rightarrow> assess_hash \<Rightarrow> (time \<Rightarrow> string) \<Rightarrow> opportunity \<Rightarrow> cited_record list \<Rightarrow>
     operator_profile \<Rightarrow> time \<Rightarrow> perturbation list \<Rightarrow> sensitivity_row list vres" where
  "sensitivity hash ahash show_time opp cited p as_of ps =
     rbind (assess hash ahash show_time opp cited p as_of) (\<lambda>before.
     let labels_before = set (verdict_labels (as_verdict before)) in
     rmapM (\<lambda>q.
       rbind (perturb opp q) (\<lambda>(o1, scaled).
       rbind (assess hash ahash show_time o1 cited p as_of) (\<lambda>after.
       let labels_after = set (verdict_labels (as_verdict after)) in
       Inr \<lparr>sr_input = pt_input q, sr_scale_bps = pt_scale_bps q, sr_fields = scaled,
            sr_base_time_adjusted = sm_time_adjusted_contribution (sc_base (as_scenarios before)),
            sr_perturbed_time_adjusted = sm_time_adjusted_contribution (sc_base (as_scenarios after)),
            sr_verdict_before = gv_verdict (as_verdict before),
            sr_verdict_after = gv_verdict (as_verdict after),
            sr_gates_added = sorted_list_of_set (labels_after - labels_before),
            sr_gates_removed = sorted_list_of_set (labels_before - labels_after)\<rparr>))) ps)"

section \<open>The pieces of a week\<close>

text \<open>The loop of \<open>current_versions\<close>: the (id, version) pairs seen and the current record per id.\<close>

fun current_versions_from ::
  "time \<Rightarrow> (string \<times> int) list \<Rightarrow> opportunity list \<Rightarrow> opportunity list \<Rightarrow> opportunity list vres" where
  "current_versions_from as_of seen current [] = Inr current"
| "current_versions_from as_of seen current (o1 # os) =
     (if (o_ident o1, o_version o1) \<in> set seen then Inl (Err DUPLICATE)
      else
        let seen' = (o_ident o1, o_version o1) # seen in
        if torder (o_as_of o1) as_of = After then current_versions_from as_of seen' current os
        else if (case find (\<lambda>c. o_ident c = o_ident o1) current of
                   None \<Rightarrow> True | Some c \<Rightarrow> o_version c < o_version o1)
        then current_versions_from as_of seen' (o1 # filter (\<lambda>c. o_ident c \<noteq> o_ident o1) current) os
        else current_versions_from as_of seen' current os)"

definition current_versions :: "opportunity list \<Rightarrow> time \<Rightarrow> opportunity list vres" where
  "current_versions opps as_of = rmap (sort_key o_ident) (current_versions_from as_of [] [] opps)"

definition ranked_row_of :: "int \<Rightarrow> assessment \<Rightarrow> rank_key list \<Rightarrow> portfolio_action \<Rightarrow> ranked_row" where
  "ranked_row_of rnk a order action =
     \<lparr>rr_rank = rnk, rr_id = as_id a, rr_opportunity_version = as_version a, rr_action = action,
      rr_keys = map (\<lambda>k. \<lparr>rv_key = k, rv_value = key_value_display (as_keys a k)\<rparr>) order\<rparr>"

definition gated_row_of :: "assessment \<Rightarrow> portfolio_action \<Rightarrow> gated_row" where
  "gated_row_of a action =
     \<lparr>gr_id = as_id a, gr_opportunity_version = as_version a, gr_action = action,
      gr_gates = verdict_labels (as_verdict a)\<rparr>"

definition gated_rows :: "assessment list \<Rightarrow> gated_row list \<times> gated_row list" where
  "gated_rows all =
     (let sorted = sort_key (\<lambda>a. (as_id a, as_version a)) (filter (\<lambda>a. \<not> passes a) all) in
     (map (\<lambda>a. gated_row_of a AHold) (filter (\<lambda>a. gv_verdict (as_verdict a) = Hold) sorted),
      map (\<lambda>a. gated_row_of a AReject) (filter (\<lambda>a. gv_verdict (as_verdict a) = Reject) sorted)))"

definition week_next_information :: "assessment list \<Rightarrow> string list" where
  "week_next_information all =
     (let blocked = concat (map (\<lambda>a. next_information (as_verdict a))
            (filter (\<lambda>a. gv_verdict (as_verdict a) = Hold) all))
      in sort_key (\<lambda>f. (- int (count_list blocked f), f)) (sorted_list_of_set (set blocked)))"

type_synonym week_hash = "(string \<times> int \<times> string) list \<Rightarrow> string"

definition portfolio_inputs_sha256 :: "week_hash \<Rightarrow> assessment list \<Rightarrow> string" where
  "portfolio_inputs_sha256 whash all =
     whash (sort (map (\<lambda>a. (as_id a, as_version a, as_inputs_sha256 a)) all))"

definition hold_rationale :: "assessment list \<Rightarrow> string option" where
  "hold_rationale all =
     (if list_ex passes all then None
      else if all = [] then Some ''no candidate this week''
      else
        let n = (\<lambda>v. length (filter (\<lambda>a. gv_verdict (as_verdict a) = v) all)) in
        Some (''no candidate passed the hard gates: '' @ nat_text (n Hold) @ '' held, '' @
          nat_text (n Reject) @ '' rejected''))"

record week_head =
  wh_id :: string
  wh_week :: iso_week
  wh_as_of :: time
  wh_currency :: currency
  wh_profile_sha256 :: string

definition same_decision :: "week_head \<Rightarrow> assessment list \<Rightarrow> code list" where
  "same_decision head all =
     map (\<lambda>_. INVALID_FIELD)
       (filter (\<lambda>a. gv_as_of (as_verdict a) \<noteq> wh_as_of head \<or> sc_currency (as_scenarios a) \<noteq> wh_currency head) all)"

text \<open>The errors of a validation, as \<open>ValueError\<close> codes.\<close>

definition checked :: "problem list + unit \<Rightarrow> 'a \<Rightarrow> (code list, 'a) res" where
  "checked v x = (case v of Inr _ \<Rightarrow> Inr x | Inl ps \<Rightarrow> Inl (Err (map fst ps)))"

fun one_error :: "'a vres \<Rightarrow> (code list, 'a) res" where
  "one_error (Inr x) = Inr x"
| "one_error (Inl (Err c)) = Inl (Err [c])"
| "one_error (Inl Panic) = Inl Panic"

definition week_record ::
  "week_hash \<Rightarrow> week_head \<Rightarrow> assessment list \<Rightarrow> ranked_row list \<Rightarrow> string option \<Rightarrow> (code list, weekly_portfolio) res" where
  "week_record whash head all ranked rationale =
     (case gated_rows all of (held, rejected) \<Rightarrow>
        rbind (one_error (schema_tag_v1 ''weekly_portfolio'')) (\<lambda>schema.
        let week = \<lparr>w_schema = schema, w_ident = wh_id head, w_version = 1, w_week = wh_week head,
              w_as_of = wh_as_of head, w_currency = wh_currency head, w_profile_sha256 = wh_profile_sha256 head,
              w_inputs_sha256 = portfolio_inputs_sha256 whash all, w_economics_version = ECONOMICS_VERSION,
              w_ranked = ranked, w_held = held, w_rejected = rejected,
              w_allocation = \<lparr>al_owner_hours = 0, al_cash = 0\<rparr>, w_hold_rationale = rationale,
              w_next_information = week_next_information all\<rparr>
        in checked (validate_portfolio week) week))"

definition hold_week :: "week_hash \<Rightarrow> week_head \<Rightarrow> assessment list \<Rightarrow> (code list, weekly_portfolio) res" where
  "hold_week whash head all =
     (let errors = map (\<lambda>_. INVALID_FIELD) (filter passes all) @ same_decision head all in
     if errors \<noteq> [] then Inl (Err errors) else week_record whash head all [] (hold_rationale all))"

end
