(* ===== verification/Soe_Rank_Props.thy ===== *)
theory Soe_Rank_Props
  imports Soe_Rank
begin

text \<open>
  The properties of the ranking: the comparator as a total order over keys, the order of each key stated without
  it, the ranking and its reasons, the kinds of keys an assessment has, the fit, the versions current at a decision,
  perturbed inputs, and the weeks that hold.
\<close>

section \<open>Comparators\<close>

definition key_cmp :: "'k::linorder \<Rightarrow> 'k \<Rightarrow> ordering" where
  "key_cmp x y = (if x < y then Less else if x = y then Equal else Greater)"

lemma key_cmp_simps [simp]:
  "key_cmp x y = Greater \<longleftrightarrow> y < x" "key_cmp x y = Less \<longleftrightarrow> x < y" "key_cmp x y = Equal \<longleftrightarrow> x = y"
  by (auto simp: key_cmp_def)

text \<open>
  A comparator that compares a key: total, transitive, and its sort is a stable sort by the key.
\<close>

locale comparator =
  fixes cmp :: "'a \<Rightarrow> 'a \<Rightarrow> ordering" and key :: "'a \<Rightarrow> 'k::linorder"
  assumes cmp_key: "cmp x y = key_cmp (key x) (key y)"
begin

lemma insert_by_key: "insert_by cmp x ys = insort_key key x ys"
  by (induction ys) (auto simp: cmp_key not_le)

lemma sort_by_key: "sort_by cmp xs = sort_key key xs"
  by (induction xs) (simp_all add: insert_by_key)

lemma sort_by_mset: "mset (sort_by cmp xs) = mset xs"
  by (simp add: sort_by_key)

lemma sort_by_length [simp]: "length (sort_by cmp xs) = length xs"
  by (simp add: sort_by_key)

lemma sort_by_sorted: "i < j \<Longrightarrow> j < length xs \<Longrightarrow> cmp (sort_by cmp xs ! i) (sort_by cmp xs ! j) \<noteq> Greater"
  using sorted_nth_mono [OF sorted_sort_key, of i j key xs]
  by (simp add: sort_by_key cmp_key not_less)

lemma sort_by_unique:
  assumes "mset xs = mset ys" "inj_on key (set xs)"
  shows "sort_by cmp xs = sort_by cmp ys"
  unfolding sort_by_key by (rule sort_key_inj_key_eq) (use assms in auto)

end

section \<open>The order of candidates\<close>

text \<open>A value as a sortable pair: known values by their magnitude, unknown ones after them.\<close>

definition value_key :: "better \<Rightarrow> key_value \<Rightarrow> int \<times> int" where
  "value_key bt v =
     (case magnitude v of Some x \<Rightarrow> (0, case bt of Higher \<Rightarrow> - x | Lower \<Rightarrow> x) | None \<Rightarrow> (1, 0))"

definition candidate_key :: "rank_key list \<Rightarrow> assessment \<Rightarrow> (int \<times> int) list \<times> string \<times> int \<times> string" where
  "candidate_key order a =
     (map (\<lambda>k. value_key (rank_key_better k) (as_keys a k)) order, as_id a, as_version a, as_inputs_sha256 a)"

lemma cmp_values_key: "cmp_values a b bt = key_cmp (value_key bt a) (value_key bt b)"
  by (auto simp: value_key_def key_cmp_def int_cmp_def split: option.splits better.splits)

lemma find_map_neq: "find (\<lambda>r. r \<noteq> Equal) (map f (k # ks)) =
    (if f k \<noteq> Equal then Some (f k) else find (\<lambda>r. r \<noteq> Equal) (map f ks))"
  by simp

lemma key_cmp_Cons:
  "key_cmp (x # xs, r) (y # ys, r') = (if key_cmp x y = Equal then key_cmp (xs, r) (ys, r') else key_cmp x y)"
  for x y :: "'a::linorder" and xs ys :: "'a list" and r r' :: "'b::linorder"
  by (auto simp: key_cmp_def less_prod_def' Cons_less_Cons less_le_not_le)

lemma key_cmp_Pair: "key_cmp (x, r) (y, r') = ord_then (key_cmp x y) (key_cmp r r')"
  by (auto simp: key_cmp_def ord_then_def less_prod_def' less_le_not_le)

lemma compare_key: "compare a b order = key_cmp (candidate_key order a) (candidate_key order b)"
proof (induction order)
  case Nil
  have "string_cmp x y = key_cmp x y" "int_cmp i j = key_cmp i j" for x y i j
    by (simp_all add: key_cmp_def int_cmp_def)
  then show ?case
    by (simp add: compare_def candidate_key_def key_cmp_Pair) (simp add: ord_then_def)
next
  case (Cons k ks)
  then show ?case
    unfolding compare_def candidate_key_def list.map key_cmp_Cons
    by (simp add: cmp_values_key del: cmp_values.simps)
qed

interpretation rank_order: comparator "\<lambda>a b. compare a b order" "candidate_key order" for order
  by unfold_locales (rule compare_key)


lemma rank_sort: "rank all order = sort_key (candidate_key order) (filter passes all)"
  by (simp add: rank_def rank_order.sort_by_key)

lemma rank_nth:
  assumes "i < j" "j < length (rank all order)"
  shows "compare (rank all order ! i) (rank all order ! j) order \<noteq> Greater"
  using rank_order.sort_by_sorted [of i j "filter passes all" order] assms by (simp add: rank_def)

lemma candidate_key_id: "candidate_key order a = candidate_key order b \<Longrightarrow> (as_id a, as_version a) = (as_id b, as_version b)"
  by (simp add: candidate_key_def)

section \<open>The order, stated\<close>

text \<open>
  The order the documents state, key by key, without a direction or a common scale: a higher tier, more money, an
  earlier payback (any before none), fewer days, a smaller share, a stronger fit; and any known value before an unknown one.
\<close>

fun tier_above :: "tier \<Rightarrow> tier \<Rightarrow> bool" where
  "tier_above THigh t \<longleftrightarrow> t \<noteq> THigh"
| "tier_above TMedium t \<longleftrightarrow> t = TLow \<or> t = TUnknown"
| "tier_above TLow t \<longleftrightarrow> t = TUnknown"
| "tier_above TUnknown t \<longleftrightarrow> False"

fun fit_above :: "fit_level \<Rightarrow> fit_level \<Rightarrow> bool" where
  "fit_above FProven f \<longleftrightarrow> f \<noteq> FProven"
| "fit_above FClaimed f \<longleftrightarrow> f = FStale \<or> f = FMissing \<or> f = FUnstated"
| "fit_above FStale f \<longleftrightarrow> f = FMissing \<or> f = FUnstated"
| "fit_above FMissing f \<longleftrightarrow> f = FUnstated"
| "fit_above FUnstated f \<longleftrightarrow> False"

fun outranks :: "key_value \<Rightarrow> key_value \<Rightarrow> bool" where
  "outranks (KTier s) (KTier t) \<longleftrightarrow> tier_above s t"
| "outranks (KMoney m) (KMoney n) \<longleftrightarrow> m_minor m > m_minor n"
| "outranks (KPayback (Months m)) (KPayback (Months n)) \<longleftrightarrow> m < n"
| "outranks (KPayback (Months m)) (KPayback NotReached) \<longleftrightarrow> True"
| "outranks (KDays m) (KDays n) \<longleftrightarrow> m < n"
| "outranks (KShare s) (KShare t) \<longleftrightarrow> s < t"
| "outranks (KFit f) (KFit g) \<longleftrightarrow> fit_above f g"
| "outranks (KMoney m) (KUnknown why) \<longleftrightarrow> True"
| "outranks (KPayback p) (KUnknown why) \<longleftrightarrow> True"
| "outranks (KDays n) (KUnknown why) \<longleftrightarrow> True"
| "outranks (KShare s) (KUnknown why) \<longleftrightarrow> True"
| "outranks v w \<longleftrightarrow> False"

text \<open>The kind of value each key holds; the months of a payback are an \<open>u32\<close>.\<close>

fun key_typed :: "rank_key \<Rightarrow> key_value \<Rightarrow> bool" where
  "key_typed EvidenceConfidence v \<longleftrightarrow> (\<exists>t. v = KTier t)"
| "key_typed TimeAdjustedBase v \<longleftrightarrow> (\<exists>m. v = KMoney m) \<or> (\<exists>why. v = KUnknown why)"
| "key_typed PaybackBase v \<longleftrightarrow>
     (\<exists>n. v = KPayback (Months n) \<and> u32_ok n) \<or> v = KPayback NotReached \<or> (\<exists>why. v = KUnknown why)"
| "key_typed DaysToDecisiveEvidence v \<longleftrightarrow> (\<exists>n. v = KDays n) \<or> (\<exists>why. v = KUnknown why)"
| "key_typed Reversibility v \<longleftrightarrow> (\<exists>t. v = KTier t)"
| "key_typed CapabilityFit v \<longleftrightarrow> (\<exists>f. v = KFit f)"
| "key_typed ConcentrationMax v \<longleftrightarrow> (\<exists>s. v = KShare s) \<or> (\<exists>why. v = KUnknown why)"
| "key_typed Defensibility v \<longleftrightarrow> (\<exists>t. v = KTier t)"

definition keys_typed :: "rank_key list \<Rightarrow> assessment \<Rightarrow> bool" where
  "keys_typed order a \<longleftrightarrow> list_all (\<lambda>k. key_typed k (as_keys a k)) order"

lemma cmp_values_Equal: "cmp_values a b bt = Equal \<longleftrightarrow> magnitude a = magnitude b"
  by (auto simp: int_cmp_def split: option.splits better.splits if_splits)

lemma compare_deciding:
  "compare x y order =
     (case deciding_key x y order of
        Some k \<Rightarrow> cmp_values (as_keys x k) (as_keys y k) (rank_key_better k)
      | None \<Rightarrow> key_cmp (as_id x, as_version x, as_inputs_sha256 x) (as_id y, as_version y, as_inputs_sha256 y))"
proof -
  have "string_cmp s t = key_cmp s t" "int_cmp i j = key_cmp i j" for s t i j
    by (simp_all add: key_cmp_def int_cmp_def)
  moreover have "find (\<lambda>r. r \<noteq> Equal) (map f ks) = map_option f (find (\<lambda>k. f k \<noteq> Equal) ks)" for f :: "rank_key \<Rightarrow> ordering" and ks
    by (induction ks) simp_all
  ultimately show ?thesis
    by (auto simp: compare_def deciding_key_def key_cmp_Pair simp del: cmp_values.simps string_cmp.simps split: option.splits)
qed

lemma outranks_cmp:
  assumes "key_typed k v" "key_typed k w"
  shows "cmp_values v w (rank_key_better k) = Less \<longleftrightarrow> outranks v w"
    and "cmp_values v w (rank_key_better k) = Greater \<longleftrightarrow> outranks w v"
proof -
  have tier: "cmp_values (KTier s) (KTier t) Higher = Less \<longleftrightarrow> tier_above s t" for s t
    by (cases s; cases t) (simp_all add: int_cmp_def)
  have fit: "cmp_values (KFit f) (KFit g) Higher = Less \<longleftrightarrow> fit_above f g" for f g
    by (cases f; cases g) (simp_all add: int_cmp_def)
  have less: "cmp_values v w (rank_key_better k) = Less \<longleftrightarrow> outranks v w" if "key_typed k v" "key_typed k w" for v w
    using that by (cases k) (auto simp: tier fit simp del: cmp_values.simps, auto simp: int_cmp_def width_simps split: if_splits)
  have "cmp_values v w bt = Greater \<longleftrightarrow> cmp_values w v bt = Less" for bt
    by (auto simp: int_cmp_def split: option.splits better.splits)
  with less assms show "cmp_values v w (rank_key_better k) = Less \<longleftrightarrow> outranks v w"
    "cmp_values v w (rank_key_better k) = Greater \<longleftrightarrow> outranks w v" by blast+
qed

definition level_with :: "rank_key list \<Rightarrow> assessment \<Rightarrow> assessment \<Rightarrow> bool" where
  "level_with order x y \<longleftrightarrow>
     list_all (\<lambda>k. \<not> outranks (as_keys x k) (as_keys y k) \<and> \<not> outranks (as_keys y k) (as_keys x k)) order"

text \<open>\<open>x\<close> goes first: better in the first key in which the two differ, or level in all and before in id, version, hash.\<close>

definition goes_first :: "rank_key list \<Rightarrow> assessment \<Rightarrow> assessment \<Rightarrow> bool" where
  "goes_first order x y \<longleftrightarrow>
     (\<exists>before k after. order = before @ k # after \<and> level_with before x y \<and> outranks (as_keys x k) (as_keys y k)) \<or>
     level_with order x y \<and>
       (as_id x, as_version x, as_inputs_sha256 x) \<le> (as_id y, as_version y, as_inputs_sha256 y)"

lemma find_split:
  "find P xs = Some x \<Longrightarrow> \<exists>before after. xs = before @ x # after \<and> P x \<and> list_all (\<lambda>y. \<not> P y) before"
proof (induction xs)
  case (Cons y ys)
  show ?case
  proof (cases "P y")
    case True
    with Cons.prems have "y # ys = [] @ x # ys \<and> P x \<and> list_all (\<lambda>y. \<not> P y) []" by simp
    then show ?thesis by blast
  next
    case False
    with Cons obtain before after where "ys = before @ x # after" "P x" "list_all (\<lambda>y. \<not> P y) before" by auto
    with False have "y # ys = (y # before) @ x # after \<and> P x \<and> list_all (\<lambda>y. \<not> P y) (y # before)" by simp
    then show ?thesis by blast
  qed
qed simp

lemma level_with_iff:
  assumes "keys_typed order x" "keys_typed order y"
  shows "level_with order x y \<longleftrightarrow>
    list_all (\<lambda>k. cmp_values (as_keys x k) (as_keys y k) (rank_key_better k) = Equal) order"
  unfolding level_with_def list_all_iff
proof (rule ball_cong [OF refl])
  fix k assume "k \<in> set order"
  then have t: "key_typed k (as_keys x k)" "key_typed k (as_keys y k)"
    using assms by (auto simp: keys_typed_def list_all_iff)
  show "(\<not> outranks (as_keys x k) (as_keys y k) \<and> \<not> outranks (as_keys y k) (as_keys x k)) \<longleftrightarrow>
      cmp_values (as_keys x k) (as_keys y k) (rank_key_better k) = Equal"
    unfolding outranks_cmp [OF t, symmetric]
    by (cases "cmp_values (as_keys x k) (as_keys y k) (rank_key_better k)") simp_all
qed

lemma deciding_key_splits:
  assumes "deciding_key x y order = Some k" "keys_typed order x" "keys_typed order y" "compare x y order \<noteq> Greater"
  shows "\<exists>before after. order = before @ k # after \<and> level_with before x y \<and> outranks (as_keys x k) (as_keys y k)"
proof -
  obtain before after where o: "order = before @ k # after"
    "cmp_values (as_keys x k) (as_keys y k) (rank_key_better k) \<noteq> Equal"
    "list_all (\<lambda>k. \<not> cmp_values (as_keys x k) (as_keys y k) (rank_key_better k) \<noteq> Equal) before"
    using find_split [OF assms(1) [unfolded deciding_key_def]] by blast
  have t: "keys_typed before x" "keys_typed before y" "key_typed k (as_keys x k)" "key_typed k (as_keys y k)"
    using assms(2,3) by (simp_all add: keys_typed_def o(1))
  have "cmp_values (as_keys x k) (as_keys y k) (rank_key_better k) \<noteq> Greater"
    using assms(1,4) by (simp add: compare_deciding del: cmp_values.simps)
  then have "cmp_values (as_keys x k) (as_keys y k) (rank_key_better k) = Less"
    using o(2) by (cases "cmp_values (as_keys x k) (as_keys y k) (rank_key_better k)") simp_all
  then have "outranks (as_keys x k) (as_keys y k)" using outranks_cmp(1) [OF t(3,4)] by simp
  moreover have "level_with before x y" using o(3) by (simp add: level_with_iff [OF t(1,2)] del: cmp_values.simps)
  ultimately show ?thesis using o(1) by blast
qed

lemma deciding_key_none:
  assumes "deciding_key x y order = None" "keys_typed order x" "keys_typed order y" "compare x y order \<noteq> Greater"
  shows "level_with order x y \<and>
    (as_id x, as_version x, as_inputs_sha256 x) \<le> (as_id y, as_version y, as_inputs_sha256 y)"
proof
  show "level_with order x y"
    using assms(1) unfolding level_with_iff [OF assms(2,3)]
    by (auto simp: deciding_key_def find_None_iff list_all_iff simp del: cmp_values.simps)
  show "(as_id x, as_version x, as_inputs_sha256 x) \<le> (as_id y, as_version y, as_inputs_sha256 y)"
    using assms(1,4) by (simp only: compare_deciding option.case key_cmp_simps not_less not_False_eq_True)
qed

lemma compare_goes_first:
  assumes "keys_typed order x" "keys_typed order y" "compare x y order \<noteq> Greater"
  shows "goes_first order x y"
  using deciding_key_none [OF _ assms] deciding_key_splits [OF _ assms]
  unfolding goes_first_def by (cases "deciding_key x y order") blast+

lemma rank_typed:
  assumes "list_all (keys_typed order) all" "i < length (rank all order)"
  shows "keys_typed order (rank all order ! i)"
  using nth_mem [OF assms(2)] assms(1) by (auto simp: rank_sort list_all_iff)

text \<open>
  C33: The ranking is exactly the candidates that pass, each as often as it was given, best first: of two
  ranked candidates the earlier one is better in the first key of the profile's order in which they differ ---
  the higher tier, the more money, the earlier payback, the fewer days, the smaller share, the stronger fit, and
  any known value before an unknown one --- or they are level in every key and ordered by id, version and hash.
  Every assessment has keys of these kinds (\<open>assess_keys_typed\<close>).
\<close>

theorem rank_is_sorted_passing:
  assumes "list_all (keys_typed order) all"
  shows "mset (rank all order) = filter_mset passes (mset all) \<and> sorted_wrt (goes_first order) (rank all order)"
  using compare_goes_first [OF rank_typed [OF assms] rank_typed [OF assms] rank_nth]
  by (auto simp: rank_sort sorted_wrt_iff_nth_less simp flip: rank_def)

text \<open>
  The ranking does not depend on the order in which the candidates were read: two lists with the
  same candidates, one per id and version, give the same ranking.
\<close>

theorem rank_independent_of_input_order:
  assumes "mset all = mset all'" "inj_on (\<lambda>a. (as_id a, as_version a)) (set all)"
  shows "rank all order = rank all' order"
proof -
  have "inj_on (candidate_key order) (set (filter passes all))"
    using inj_onD [OF assms(2) candidate_key_id] by (intro inj_onI) simp
  then show ?thesis
    unfolding rank_def by (rule rank_order.sort_by_unique [rotated]) (use assms(1) in simp)
qed

text \<open>A reason that names the first key two candidates differ in, and the better of them first.\<close>

definition reason_holds :: "rank_reason \<Rightarrow> assessment \<Rightarrow> assessment \<Rightarrow> rank_key list \<Rightarrow> bool" where
  "reason_holds r x y order \<longleftrightarrow>
     re_first r = as_id x \<and> re_second r = as_id y \<and>
     (case re_key r of
        Some k \<Rightarrow>
          (\<exists>before after. order = before @ k # after \<and> level_with before x y) \<and>
          outranks (as_keys x k) (as_keys y k) \<and>
          re_first_value r = key_value_display (as_keys x k) \<and>
          re_second_value r = key_value_display (as_keys y k)
      | None \<Rightarrow>
          level_with order x y \<and>
          (as_id x, as_version x, as_inputs_sha256 x) \<le> (as_id y, as_version y, as_inputs_sha256 y))"

lemma explain_order_holds:
  assumes "keys_typed order x" "keys_typed order y" "compare x y order \<noteq> Greater"
  shows "reason_holds (explain_order x y order) x y order"
proof (cases "deciding_key x y order")
  case None
  from deciding_key_none [OF None assms] show ?thesis
    by (simp add: explain_order_def reason_holds_def assms(3) None)
next
  case (Some k)
  from deciding_key_splits [OF Some assms] show ?thesis
    by (auto simp: explain_order_def reason_holds_def assms(3) Some)
qed

text \<open>
  C36: The reason given for two candidates of the ranking is the true one: it names the better-ranked
  first, with the first key of the order in which they differ and both values (the earlier one better),
  or, when they are level in every key, that the ids decided.
\<close>

theorem explain_order_is_the_reason:
  assumes "list_all (keys_typed order) all" "i < j" "j < length (rank all order)"
  shows "reason_holds (explain_order (rank all order ! i) (rank all order ! j) order)
    (rank all order ! i) (rank all order ! j) order"
  by (rule explain_order_holds [OF rank_typed [OF assms(1)] rank_typed [OF assms(1)] rank_nth [OF assms(2,3)]])
    (use assms(2,3) in simp_all)

section \<open>The keys of an assessment\<close>

text \<open>A payback in months is at most the months scanned.\<close>

definition early :: "payback \<Rightarrow> bool" where
  "early p \<longleftrightarrow> (case p of Months n \<Rightarrow> 0 \<le> n \<and> n \<le> PAYBACK_SCAN_MONTHS | NotReached \<Rightarrow> True)"

lemma payback_scan_early: "0 \<le> i \<Longrightarrow> payback_scan initial i sm cs = Inr p \<Longrightarrow>
    (case p of Months n \<Rightarrow> 0 \<le> n \<and> n \<le> i + int (length cs) | NotReached \<Rightarrow> True)"
proof (induction cs arbitrary: i sm)
  case (Cons c cs)
  from Cons.prems Cons.IH [of "i + 1"] show ?case
    by (fastforce simp: rbind_eq_Inr split: if_splits payback.splits)
qed auto

lemma payback_of_early: "returns early (payback_of monthly initial)"
proof -
  have "payback_scan initial 0 0 (take (nat PAYBACK_SCAN_MONTHS) monthly) = Inr p \<Longrightarrow> early p" for p
    using payback_scan_early [of 0 initial 0 "take (nat PAYBACK_SCAN_MONTHS) monthly" p]
    by (auto simp: early_def PAYBACK_SCAN_MONTHS_def split: payback.splits)
  then show ?thesis by (auto simp: returns_def payback_of_def early_def PAYBACK_SCAN_MONTHS_def split: if_splits)
qed

definition early_metrics :: "scenario_metrics \<Rightarrow> bool" where
  "early_metrics m \<longleftrightarrow> (case sm_payback m of Known p \<Rightarrow> early p | _ \<Rightarrow> True)"

lemma any_bind: "(\<And>x. returns Q (f x)) \<Longrightarrow> returns Q (rbind m f)"
  by (cases m) (auto simp: returns_def)

lemma need_early:
  "(\<And>x y. returns P (f2 x y)) \<Longrightarrow> returns (need_all P) (need2 a b f2)"
  "(\<And>x y z u v. returns P (f5 x y z u v)) \<Longrightarrow> returns (need_all P) (need5 a b c d e f5)"
   by (cases a; cases b; auto simp: need2_eq returns_def rmap_eq_Inr)
     (cases a; cases b; cases c; cases d; cases e; auto simp: need5_eq returns_def rmap_eq_Inr)

lemma metric_of_early: "need_all P n \<Longrightarrow> (case metric_of n of Known p \<Rightarrow> P p | _ \<Rightarrow> True)"
  by (cases n) (simp_all add: metric_of_def)

lemma run_rate_early: "returns early_metrics (run_rate st cm k s)"
  unfolding run_rate_def Let_def
  by (rule returns_bind [OF need_early(1) [OF payback_of_early]] | rule any_bind)+
    (simp add: early_metrics_def metric_of_early)

lemma one_off_early: "returns early_metrics (one_off d cm k weeks s)"
  unfolding one_off_def Let_def
  by (rule returns_bind [OF need_early(2) [OF any_bind [OF payback_of_early]]] | rule any_bind)+
    (simp add: early_metrics_def metric_of_early)

lemma combine_early: "early_metrics m \<Longrightarrow> early_metrics m' \<Longrightarrow> early_metrics (combine m m' s)"
  by (cases "sm_payback m"; cases "sm_payback m'") (auto simp: early_metrics_def combine_def Let_def)

lemma scenario_of_early: "returns early_metrics (scenario_of e k s)"
  by (cases "e_revenue e") (auto simp: Let_def intro!: any_bind run_rate_early one_off_early combine_early
    returns_bind [OF one_off_early])

text \<open>The assessments of the code have typed keys: the months of a payback are at most those scanned.\<close>

lemma assess_keys_typed:
  assumes "assess hash ahash show_time opp cited p as_of = Inr a"
  shows "keys_typed order a"
proof -
  obtain sc days where sc: "scenarios_of hash opp p = Inr sc"
    and d: "days_to_decisive_evidence show_time opp as_of = Inr days"
    and a: "as_keys a = (\<lambda>k. case k of
             EvidenceConfidence \<Rightarrow> KTier (evidence_confidence opp cited as_of)
           | TimeAdjustedBase \<Rightarrow>
               metric_value (sm_time_adjusted_contribution (sc_base sc))
                 (\<lambda>v. KMoney \<lparr>m_minor = v, m_currency = sc_currency sc\<rparr>)
           | PaybackBase \<Rightarrow> metric_value (sm_payback (sc_base sc)) KPayback
           | DaysToDecisiveEvidence \<Rightarrow> days
           | Reversibility \<Rightarrow> KTier (od_reversibility (o_ordinal opp))
           | CapabilityFit \<Rightarrow> KFit (cf_level (fit_of opp p as_of))
           | ConcentrationMax \<Rightarrow>
               (case concentration_max (o_risk opp) of
                  Some b \<Rightarrow> KShare b | None \<Rightarrow> KUnknown ''no concentration listed'')
           | Defensibility \<Rightarrow> KTier (od_defensibility (o_ordinal opp)))"
    using assms by (auto simp: assess_def Let_def rbind_eq_Inr)
  have "scenario_of (o_economics opp) (knobs_of (o_economics opp) p) Base = Inr (sc_base sc)"
    using sc by (auto simp: scenarios_of_def Let_def rbind_eq_Inr simp del: scenario_of.simps)
  then have "early_metrics (sc_base sc)" using scenario_of_early unfolding returns_def by blast
  then have p: "key_typed PaybackBase (metric_value (sm_payback (sc_base sc)) KPayback)"
    by (auto simp: early_metrics_def early_def metric_value_def PAYBACK_SCAN_MONTHS_def width_simps
        split: metric.splits payback.splits)
  have "key_typed DaysToDecisiveEvidence days"
    using d by (auto simp: days_to_decisive_evidence_def rbind_eq_Inr split: option.splits if_splits)
  with p have "key_typed k (as_keys a k)" for k
    by (cases k) (auto simp: a metric_value_def split: metric.splits option.splits)
  then show ?thesis by (simp add: keys_typed_def list_all_iff)
qed

section \<open>Fit\<close>

lemma foldl_best_fit:
  "foldl (best_fit at) (Some b) cs = Some (fold (\<lambda>c m. min m (capability_fit_level c at, oc_id c)) cs b)"
  by (induction cs arbitrary: b) (auto simp: best_fit_def Let_def min_def not_le less_imp_le)

lemma fold_min_eq: "fold (\<lambda>c m. min m (f c)) cs b = Min (insert b (f ` set cs))" for f :: "'a \<Rightarrow> 'b::linorder"
proof (induction cs arbitrary: b)
  case (Cons c cs)
  have "Min (insert (min b (f c)) (f ` set cs)) = Min (insert b (insert (f c) (f ` set cs)))"
    by (cases "f ` set cs = {}") (simp_all add: min.assoc)
  with Cons show ?case by simp
qed simp

lemma foldl_best_fit_None:
  "foldl (best_fit at) None cs =
     (if cs = [] then None else Some (Min ((\<lambda>c. (capability_fit_level c at, oc_id c)) ` set cs)))"
proof (cases cs)
  case (Cons c cs')
  have "foldl (best_fit at) None cs = foldl (best_fit at) (Some (capability_fit_level c at, oc_id c)) cs'"
    by (simp add: Cons best_fit_def Let_def)
  then show ?thesis by (simp add: foldl_best_fit fold_min_eq Cons)
qed simp

lemma max_of_eq: "max_of xs = (if xs = [] then None else Some (Max (set xs)))"
  by (cases xs) (simp_all add: max_of_def flip: Max.set_eq_fold)

text \<open>The documented meaning of a skill's level, without the loop.\<close>

definition skill_level_spec :: "operator_profile \<Rightarrow> time \<Rightarrow> string \<Rightarrow> fit_level" where
  "skill_level_spec p at skill =
     (let caps = filter (\<lambda>c. oc_skill c = skill) (p_capabilities p) in
      if caps = [] then FMissing
      else if list_ex (\<lambda>c. active_at c at \<and> oc_level c = LevelProven) caps then FProven
      else if list_ex (\<lambda>c. active_at c at) caps then FClaimed else FStale)"

lemma Min_fit_level:
  assumes "cs \<noteq> []"
  shows "Min ((\<lambda>c. capability_fit_level c at) ` set cs) =
    (if list_ex (\<lambda>c. active_at c at \<and> oc_level c = LevelProven) cs then FProven
     else if list_ex (\<lambda>c. active_at c at) cs then FClaimed else FStale)"
  using assms
proof (induction cs rule: list_nonempty_induct)
  case (single c)
  show ?case by (simp add: capability_fit_level_def)
next
  case (cons c cs)
  let ?m = "Min ((\<lambda>c. capability_fit_level c at) ` set cs)"
  have "Min ((\<lambda>c. capability_fit_level c at) ` set (c # cs)) = min (capability_fit_level c at) ?m"
    using cons.hyps by simp
  then show ?case
    unfolding cons.IH by (auto simp: capability_fit_level_def min_def less_eq_fit_level_def)
qed

lemma Min_Pair: "finite A \<Longrightarrow> A \<noteq> {} \<Longrightarrow> fst (Min A) = Min (fst ` A)" for A :: "('a::linorder \<times> 'b::linorder) set"
  by (rule Min_eqI [symmetric]) (auto dest!: Min_le simp: less_eq_prod_def intro: Min_in)

lemma skill_fit_of_level: "sf_level (skill_fit_of skill p at) = skill_level_spec p at skill"
proof (cases "filter (\<lambda>c. oc_skill c = skill) (p_capabilities p) = []")
  case True
  then show ?thesis by (simp add: skill_fit_of_def skill_level_spec_def)
next
  case False
  let ?cs = "filter (\<lambda>c. oc_skill c = skill) (p_capabilities p)"
  have ne: "set ?cs \<noteq> {}" using False by (simp only: set_empty not_False_eq_True)
  have "sf_level (skill_fit_of skill p at) = fst (Min ((\<lambda>c. (capability_fit_level c at, oc_id c)) ` set ?cs))"
    unfolding skill_fit_of_def foldl_best_fit_None using False by (simp split: prod.splits)
  also have "\<dots> = Min ((\<lambda>c. capability_fit_level c at) ` set ?cs)"
    using ne by (subst Min_Pair) (simp_all only: image_image image_is_empty finite_imageI finite_set fst_conv not_False_eq_True)
  finally show ?thesis using Min_fit_level [OF False] False by (simp add: skill_level_spec_def)
qed

text \<open>
  C34: The fit of a candidate is its weakest required skill, and a skill's level is the best of the
  operator's capabilities for it: proven only by an active proven capability, claimed by an active one,
  stale when all are outside their window, missing when there is none; unstated when nothing is required.
\<close>

theorem fit_is_weakest_skill:
  "cf_level (fit_of opp p at) =
     (if o_requires_skills opp = [] then FUnstated
      else Max (skill_level_spec p at ` set (o_requires_skills opp))) \<and>
   map sf_skill (cf_skills (fit_of opp p at)) = o_requires_skills opp \<and>
   map sf_level (cf_skills (fit_of opp p at)) = map (skill_level_spec p at) (o_requires_skills opp)"
proof -
  have "sf_skill (skill_fit_of s p at) = s" for s
    by (simp add: skill_fit_of_def split: option.splits prod.splits)
  then show ?thesis
    by (simp add: fit_of_def Let_def max_of_eq skill_fit_of_level image_image comp_def map_idI)
qed

section \<open>Current versions\<close>

text \<open>The highest version of each id, among the records not dated after the decision.\<close>

definition is_current :: "time \<Rightarrow> opportunity set \<Rightarrow> opportunity \<Rightarrow> bool" where
  "is_current t A c \<longleftrightarrow>
     c \<in> A \<and> torder (o_as_of c) t \<noteq> After \<and>
     (\<forall>d \<in> A. o_ident d = o_ident c \<and> torder (o_as_of d) t \<noteq> After \<longrightarrow> o_version d \<le> o_version c)"

abbreviation version_of :: "opportunity \<Rightarrow> string \<times> int" where
  "version_of c \<equiv> (o_ident c, o_version c)"

text \<open>What the loop keeps: one record per id that has one, each of them current.\<close>

definition loop_current :: "time \<Rightarrow> opportunity set \<Rightarrow> opportunity list \<Rightarrow> bool" where
  "loop_current t A cur \<longleftrightarrow>
     distinct (map o_ident cur) \<and> (\<forall>c \<in> set cur. is_current t A c) \<and>
     (\<forall>d \<in> A. torder (o_as_of d) t \<noteq> After \<longrightarrow> o_ident d \<in> o_ident ` set cur)"

lemma loop_current_later:
  "torder (o_as_of x) t = After \<Longrightarrow> loop_current t A cur \<Longrightarrow> loop_current t (insert x A) cur"
  by (auto simp: loop_current_def is_current_def)

lemma loop_current_newer:
  assumes "loop_current t A cur" "torder (o_as_of x) t \<noteq> After"
    and "\<forall>c. find (\<lambda>c. o_ident c = o_ident x) cur = Some c \<longrightarrow> o_version c < o_version x"
  shows "loop_current t (insert x A) (x # filter (\<lambda>c. o_ident c \<noteq> o_ident x) cur)"
proof -
  have "o_version d \<le> o_version x" if d: "d \<in> A" "o_ident d = o_ident x" "torder (o_as_of d) t \<noteq> After" for d
  proof -
    obtain c where c: "find (\<lambda>c. o_ident c = o_ident x) cur = Some c"
      using assms(1) d by (cases "find (\<lambda>c. o_ident c = o_ident x) cur") (fastforce simp: find_None_iff loop_current_def)+
    then have "c \<in> set cur" "o_ident c = o_ident x" by (auto simp: find_Some_iff)
    then have "o_version d \<le> o_version c" using assms(1) d by (simp add: loop_current_def is_current_def)
    with assms(3) c show ?thesis by fastforce
  qed
  moreover have "o_ident d \<in> o_ident ` set (x # filter (\<lambda>c. o_ident c \<noteq> o_ident x) cur)"
    if "d \<in> A" "torder (o_as_of d) t \<noteq> After" for d
    using assms(1) that by (cases "o_ident d = o_ident x") (fastforce simp: loop_current_def image_iff)+
  ultimately show ?thesis
    using assms(1,2) by (auto simp: loop_current_def is_current_def distinct_map_filter)
qed

lemma loop_current_older:
  assumes "loop_current t A cur" "find (\<lambda>c. o_ident c = o_ident x) cur = Some c" "\<not> o_version c < o_version x"
  shows "loop_current t (insert x A) cur"
proof -
  have c: "c \<in> set cur" "o_ident c = o_ident x" using assms(2) by (auto simp: find_Some_iff)
  then have "e = c" if "e \<in> set cur" "o_ident e = o_ident x" for e
    using that assms(1) by (auto simp: loop_current_def distinct_map inj_on_def)
  then have "is_current t (insert x A) e" if "e \<in> set cur" for e
    using that assms(1,3) by (cases "o_ident e = o_ident x") (auto simp: loop_current_def is_current_def)
  moreover have "o_ident x \<in> o_ident ` set cur" using c by (metis imageI)
  ultimately show ?thesis
    using assms(1) by (auto simp: loop_current_def)
qed

lemma current_versions_from_spec:
  assumes "loop_current t A cur" "set seen = version_of ` A"
  shows "case current_versions_from t seen cur os of
      Inr out \<Rightarrow> distinct (map version_of os) \<and> version_of ` set os \<inter> version_of ` A = {} \<and>
        loop_current t (set os \<union> A) out
    | Inl f \<Rightarrow> f = Err DUPLICATE \<and> \<not> (distinct (map version_of os) \<and> version_of ` set os \<inter> version_of ` A = {})"
  using assms
proof (induction os arbitrary: A cur seen)
  case (Cons x os)
  let ?rest = "\<lambda>cur'. current_versions_from t (version_of x # seen) cur' os"
  have IH: "case ?rest cur' of
      Inr out \<Rightarrow> distinct (map version_of os) \<and> version_of ` set os \<inter> version_of ` insert x A = {} \<and>
        loop_current t (set os \<union> insert x A) out
    | Inl f \<Rightarrow> f = Err DUPLICATE \<and>
        \<not> (distinct (map version_of os) \<and> version_of ` set os \<inter> version_of ` insert x A = {})"
    if "loop_current t (insert x A) cur'" for cur'
    by (rule Cons.IH [OF that]) (simp add: Cons.prems)
  show ?case
  proof (cases "version_of x \<in> set seen")
    case True
    then show ?thesis using Cons.prems(2) by auto
  next
    case False
    obtain cur' where run: "current_versions_from t seen cur (x # os) = ?rest cur'"
      and inv: "loop_current t (insert x A) cur'"
    proof (cases "torder (o_as_of x) t = After")
      case True
      then show ?thesis using False that [of cur] loop_current_later [OF True Cons.prems(1)] by simp
    next
      case known: False
      show ?thesis
      proof (cases "find (\<lambda>c. o_ident c = o_ident x) cur")
        case None
        then show ?thesis using False known that loop_current_newer [OF Cons.prems(1) known] by simp
      next
        case (Some c)
        then show ?thesis
          using False known that loop_current_newer [OF Cons.prems(1) known] loop_current_older [OF Cons.prems(1) Some]
          by (cases "o_version c < o_version x") simp_all
      qed
    qed
    have "x \<notin> A" "version_of x \<notin> version_of ` A" using False Cons.prems(2) by auto
    with IH [OF inv] show ?thesis
      unfolding run by (auto split: sum.splits)
  qed
qed simp

lemma loop_current_iff:
  assumes "loop_current t A cur" "inj_on version_of A"
  shows "c \<in> set cur \<longleftrightarrow> is_current t A c"
proof
  assume c: "is_current t A c"
  then obtain d where d: "d \<in> set cur" "o_ident d = o_ident c"
    using assms(1) by (fastforce simp: loop_current_def is_current_def)
  then have "is_current t A d" using assms(1) by (simp add: loop_current_def)
  with c d have "version_of d = version_of c" "c \<in> A" "d \<in> A" by (auto simp: is_current_def intro: antisym)
  then show "c \<in> set cur" using assms(2) d(1) by (auto dest: inj_onD)
qed (use assms(1) in \<open>simp add: loop_current_def\<close>)

text \<open>
  The current versions are refused exactly when one id and version occurs twice; otherwise they are,
  in the order of their ids and one per id, the highest version of each candidate among the records that
  are not dated after the decision: a later record never replaces the one known at the time.
\<close>

theorem current_versions_exact:
  "case current_versions opps t of
     Inl f \<Rightarrow> f = Err DUPLICATE \<and> \<not> distinct (map version_of opps)
   | Inr cur \<Rightarrow> distinct (map version_of opps) \<and> sorted (map o_ident cur) \<and> distinct (map o_ident cur) \<and>
       set cur = {c. is_current t (set opps) c}"
proof -
  have "loop_current t {} []" by (simp add: loop_current_def)
  from current_versions_from_spec [OF this, of "[]" opps]
  have s: "case current_versions_from t [] [] opps of
      Inr out \<Rightarrow> distinct (map version_of opps) \<and> loop_current t (set opps) out
    | Inl f \<Rightarrow> f = Err DUPLICATE \<and> \<not> distinct (map version_of opps)"
    by (auto split: sum.splits)
  show ?thesis
  proof (cases "current_versions_from t [] [] opps")
    case (Inl f)
    with s show ?thesis by (simp add: current_versions_def)
  next
    case (Inr out)
    with s have d: "distinct (map version_of opps)" and l: "loop_current t (set opps) out" by simp_all
    have "set out = {c. is_current t (set opps) c}"
      using loop_current_iff [OF l] d by (auto simp: distinct_map)
    moreover have "distinct (map o_ident (sort_key o_ident out))"
      using l by (simp only: loop_current_def distinct_map_sort_key)
    ultimately show ?thesis
      using d Inr by (simp add: current_versions_def)
  qed
qed

section \<open>Perturbed inputs\<close>

lemma scale_runs:
  assumes "0 \<le> FULL + pt_scale_bps p" "i128_ok v"
  shows "runs (\<lambda>w. w = (case perturb_better (pt_input p) of
      Higher \<Rightarrow> v * (FULL + pt_scale_bps p) div FULL | Lower \<Rightarrow> cdiv (v * (FULL + pt_scale_bps p)) FULL)) (scale v p)"
proof -
  have F: "(0::int) < FULL" by (simp add: FULL_def BPS_FULL_def)
  show ?thesis
    by (cases "i128_ok (v * (FULL + pt_scale_bps p))")
      (simp_all add: scale_def fits_def ok_or_def div_floor_pos [OF F] div_ceil_pos [OF F] split: better.splits)
qed

text \<open>Scaling by a factor that is not negative keeps the order and the sign.\<close>

definition scaled_by :: "perturbation \<Rightarrow> int \<Rightarrow> int" where
  "scaled_by p v = (case perturb_better (pt_input p) of
      Higher \<Rightarrow> v * (FULL + pt_scale_bps p) div FULL | Lower \<Rightarrow> cdiv (v * (FULL + pt_scale_bps p)) FULL)"

lemma scaled_by_mono: "0 \<le> FULL + pt_scale_bps p \<Longrightarrow> a \<le> b \<Longrightarrow> scaled_by p a \<le> scaled_by p b"
  by (cases "perturb_better (pt_input p)")
    (auto simp: scaled_by_def FULL_def BPS_FULL_def intro!: zdiv_mono1 mult_right_mono)

lemma scaled_by_nonneg: "0 \<le> FULL + pt_scale_bps p \<Longrightarrow> 0 \<le> v \<Longrightarrow> 0 \<le> scaled_by p v"
  using scaled_by_mono [of p 0 v] by (cases "perturb_better (pt_input p)") (simp_all add: scaled_by_def)

text \<open>Only the value changes, and only a known one.\<close>

definition revalued :: "('a::linorder \<Rightarrow> bool) \<Rightarrow> 'a assumption \<Rightarrow> 'a assumption \<Rightarrow> bool" where
  "revalued P a a' \<longleftrightarrow> est_ok P (a_value a') \<and> a' = a\<lparr>a_value := a_value a'\<rparr> \<and>
     (\<not> est_is_known (a_value a) \<longrightarrow> a' = a)"

lemma scale_est_runs:
  assumes "est_ok P (a_value a)" "\<And>v. P v \<Longrightarrow> runs (\<lambda>w. w = g v \<and> P w) (f v)"
    and "\<And>x y. x \<le> y \<Longrightarrow> g x \<le> g y"
  shows "runs (revalued P a) (scale_est a f)"
proof (cases "a_value a")
  case (EUnknown r)
  then show ?thesis by (simp add: scale_est_def revalued_def)
next
  case (Range l m h)
  then have P: "P l" "P m" "P h" "l \<le> m" "m \<le> h" using assms(1) by auto
  have "runs (revalued P a) (rbind (est_range (\<lambda>x y. Some (int_cmp x y)) (g l) (g m) (g h)) (\<lambda>e. Inr (a\<lparr>a_value := e\<rparr>)))"
    if "P (g l)" "P (g m)" "P (g h)"
    using est_range_ok [of "g l" "g m" "g h" "Range (g l) (g m) (g h)"] assms(3) P that Range
    by (simp add: revalued_def)
  then show ?thesis
    unfolding scale_est_def Range est.case
    by (intro runs_bind [OF assms(2) [OF P(1)]] runs_bind [OF assms(2) [OF P(2)]] runs_bind [OF assms(2) [OF P(3)]]) auto
qed

lemma scale_runs_by: "0 \<le> FULL + pt_scale_bps p \<Longrightarrow> i128_ok v \<Longrightarrow> runs (\<lambda>w. w = scaled_by p v) (scale v p)"
  unfolding scaled_by_def by (rule scale_runs)

lemma bps_new_ok: "bps_ok v \<Longrightarrow> bps_new v = Inr v"
  by (simp add: bps_new_def bps_ok_def BPS_FULL_def ok_or_def fits_def width_simps)

lemma scale_parts_run:
  assumes F: "0 \<le> FULL + pt_scale_bps p"
  shows "est_ok u32_ok (a_value a) \<Longrightarrow> runs (revalued u32_ok a) (scale_count a p)"
    and "est_ok amount_ok (a_value a) \<Longrightarrow> runs (revalued amount_ok a) (scale_amount a p)"
    and "est_ok bps_ok (a_value a) \<Longrightarrow> runs (revalued bps_ok a) (scale_share a p)"
proof -
  note by_p = scale_runs_by [OF F] and mono = scaled_by_mono [OF F] and nn = scaled_by_nonneg [OF F]
  show "runs (revalued u32_ok a) (scale_count a p)" if "est_ok u32_ok (a_value a)"
    unfolding scale_count_def
    by (rule scale_est_runs [OF that _ mono], rule runs_bind [OF by_p [OF u32_ok_i128]])
      (auto simp: ok_or_def fits_def)
  show "runs (revalued amount_ok a) (scale_amount a p)" if "est_ok amount_ok (a_value a)"
    unfolding scale_amount_def
    by (rule scale_est_runs [OF that _ mono], rule runs_bind [OF by_p])
      (auto simp: ok_or_def fits_def amount_ok_def i64_ok_i128 nn)
  let ?g = "\<lambda>v. min (max (scaled_by p v) 0) FULL"
  have g: "?g x \<le> ?g y" if "x \<le> y" for x y using mono [OF that] by auto
  show "runs (revalued bps_ok a) (scale_share a p)" if "est_ok bps_ok (a_value a)"
    unfolding scale_share_def
    by (rule scale_est_runs [OF that _ g], rule runs_bind [OF by_p])
      (auto simp: bps_new_ok bps_ok_def FULL_def BPS_FULL_def width_simps min_def max_def)
qed

definition perturbed_only :: "opportunity \<Rightarrow> opportunity \<Rightarrow> string list \<Rightarrow> bool" where
  "perturbed_only opp o1 fs \<longleftrightarrow>
     o1 = opp\<lparr>o_economics := o_economics o1\<rparr> \<and> econ_ok (o_economics o1) \<and>
     same_frame (o_economics opp) (o_economics o1) \<and>
     (\<forall>field. econ_input (o_economics o1) field \<noteq> econ_input (o_economics opp) field \<longrightarrow> field \<in> set fs)"

lemma find_set_input: "field \<noteq> f \<Longrightarrow> find (\<lambda>(g, _). g = field) (set_input f i xs) = find (\<lambda>(g, _). g = field) xs"
  by (induction xs) (auto simp: set_input_def)

lemma list_all_set_input: "input_ok i \<Longrightarrow> list_all (\<lambda>(f, i). input_ok i) xs \<Longrightarrow> list_all (\<lambda>(f, i). input_ok i) (set_input f i xs)"
  by (induction xs) (auto simp: set_input_def)

lemma perturbed_only_write:
  assumes "perturbed_only opp o1 fs" "input_ok i" "f \<in> set fs"
    and "econ_inputs e = set_input f i (econ_inputs (o_economics o1))" "same_frame (o_economics o1) e"
  shows "perturbed_only opp (o1\<lparr>o_economics := e\<rparr>) fs"
proof -
  obtain d where o1: "o1 = opp\<lparr>o_economics := d\<rparr>"
    using assms(1) unfolding perturbed_only_def by blast
  have d: "econ_ok d" "same_frame (o_economics opp) d"
    "\<forall>field. econ_input d field \<noteq> econ_input (o_economics opp) field \<longrightarrow> field \<in> set fs"
    using assms(1) by (simp_all add: perturbed_only_def o1)
  have e: "econ_inputs e = set_input f i (econ_inputs d)" "same_frame d e"
    using assms(4,5) by (simp_all add: o1)
  have "econ_ok e"
    using d(1) list_all_set_input [OF assms(2)] e by (simp add: econ_ok_def same_frame_def)
  moreover have "econ_input e field = econ_input d field" if "field \<noteq> f" for field
    using find_set_input [OF that] e(1) by (simp add: econ_input_def)
  then have "\<forall>field. econ_input e field \<noteq> econ_input (o_economics opp) field \<longrightarrow> field \<in> set fs"
    using d(3) assms(3) by metis
  ultimately show ?thesis
    using d(2) e(2) by (simp add: perturbed_only_def same_frame_def o1)
qed

lemma perturb_one:
  assumes "perturbed_only opp o1 fs" "f \<in> set fs" "runs (revalued P a) m"
    and "\<And>v. est_ok P (a_value v) \<Longrightarrow> input_ok (I v)"
    and "\<And>v. econ_inputs (E v) = set_input f (I v) (econ_inputs (o_economics o1))"
    and "\<And>v. same_frame (o_economics o1) (E v)"
    and "\<And>v. perturbed_only opp (o1\<lparr>o_economics := E v\<rparr>) fs \<Longrightarrow> runs Q (k v)"
  shows "runs Q (rbind m k)"
  by (rule runs_bind [OF assms(3)])
    (rule assms(7), rule perturbed_only_write [OF assms(1) _ assms(2,5,6)], simp add: assms(4) revalued_def)

lemma perturb_runs:
  assumes "econ_ok (o_economics opp)" "0 \<le> FULL + pt_scale_bps p" "\<not> pt_scale_bps p < - BPS_FULL"
  shows "runs (\<lambda>(o1, fs). perturbed_only opp o1 fs) (perturb opp p)"
proof -
  let ?e = "o_economics opp" and ?Q = "\<lambda>(o1, fs). perturbed_only opp o1 fs"
  have self: "perturbed_only opp opp fs" for fs
    using assms by (simp add: perturbed_only_def same_frame_def)
  have ok: "input_ok i" if "(f, i) \<in> set (econ_inputs ?e)" for f i
    using assms that by (auto simp: econ_ok_def list_all_iff)
  note parts = scale_parts_run [OF assms(2)]
  have share: "runs ?Q (rbind (scale_share c p) (\<lambda>v. Inr (opp\<lparr>o_economics := E v\<rparr>, [f])))"
    if "(f, IShare c) \<in> set (econ_inputs ?e)" "\<And>v. econ_inputs (E v) = set_input f (IShare v) (econ_inputs ?e)"
      "\<And>v. same_frame ?e (E v)" for c E f
    by (rule perturb_one [OF self _ parts(3), of f]) (use ok [OF that(1)] that in auto)
  have amount: "runs ?Q (rbind (scale_amount c p) (\<lambda>v. Inr (opp\<lparr>o_economics := E v\<rparr>, [f])))"
    if "(f, IAmount c) \<in> set (econ_inputs ?e)" "\<And>v. econ_inputs (E v) = set_input f (IAmount v) (econ_inputs ?e)"
      "\<And>v. same_frame ?e (E v)" for c E f
    by (rule perturb_one [OF self _ parts(2), of f]) (use ok [OF that(1)] that in auto)
  let ?h = "''economics.owner_hours_per_month''" and ?t = "''economics.revenue.owner_hours_total''"
  have oh: "runs (revalued u32_ok (e_owner_hours_per_month ?e)) (scale_count (e_owner_hours_per_month ?e) p)"
    using ok [of ?h "ICount (e_owner_hours_per_month ?e)"] by (intro parts(1)) (simp add: econ_inputs_def)
  have hours: "runs ?Q (rbind (scale_count (e_owner_hours_per_month ?e) p) k)"
    if "?h \<in> set fs"
      "\<And>v. perturbed_only opp (opp\<lparr>o_economics := ?e\<lparr>e_owner_hours_per_month := v\<rparr>\<rparr>) fs \<Longrightarrow> runs ?Q (k v)" for fs k
    by (rule perturb_one [OF self [of fs] that(1) oh,
          where I = ICount and E = "\<lambda>v. ?e\<lparr>e_owner_hours_per_month := v\<rparr>"])
      (use that(2) in \<open>auto simp: econ_inputs_def set_input_def same_frame_def\<close>)
  note branch = econ_inputs_def set_input_def same_frame_def
  show ?thesis
  proof (cases "e_revenue ?e")
    case (Recurring a c ch pr l)
    with assms(3) show ?thesis
      unfolding perturb_def Let_def
      by (cases "pt_input p")
        (simp_all add: self hours [of "[?h]"] share amount branch)
  next
    case (OneOff c w d h l)
    have "runs (revalued u32_ok h) (scale_count h p)"
      using ok [of ?t "ICount h"] OneOff by (intro parts(1)) (simp add: econ_inputs_def)
    note total = perturb_one [OF _ _ this, where I = ICount and f = ?t]
    have "runs ?Q (rbind (scale_count h p) (\<lambda>h'. Inr (opp\<lparr>o_economics := ?e\<lparr>e_owner_hours_per_month := v, e_revenue := OneOff c w d h' l\<rparr>\<rparr>, [?h, ?t])))"
      if "perturbed_only opp (opp\<lparr>o_economics := ?e\<lparr>e_owner_hours_per_month := v\<rparr>\<rparr>) [?h, ?t]" for v
      by (rule total [OF that]) (auto simp: OneOff branch)
    with assms(3) OneOff show ?thesis
      unfolding perturb_def Let_def
      by (cases "pt_input p") (simp_all add: self hours [of "[?h, ?t]"] share amount branch)
  next
    case (Acquisition a ch l)
    with assms(3) show ?thesis
      unfolding perturb_def Let_def
      by (cases "pt_input p") (simp_all add: self hours [of "[?h]"] share amount branch)
  next
    case (RevenueShare a sh l)
    with assms(3) show ?thesis
      unfolding perturb_def Let_def
      by (cases "pt_input p") (simp_all add: self hours [of "[?h]"] share amount branch)
  qed
qed

text \<open>
  Perturbing an input of an opportunity with valid economics gives one with valid economics that
  differs in the named inputs only (same currency, rate, kind of model and record otherwise), or one of
  two errors: the scale is below -100 percent, or an amount overflows. A clamped share stays a share.
\<close>

theorem perturb_changes_named_inputs_only:
  assumes "econ_ok (o_economics opp)"
  shows "case perturb opp p of
      Inr (o1, fs) \<Rightarrow> - BPS_FULL \<le> pt_scale_bps p \<and> perturbed_only opp o1 fs
    | Inl f \<Rightarrow> pt_scale_bps p < - BPS_FULL \<and> f = Err INVALID_FIELD \<or> f = Err OVERFLOW"
proof (cases "pt_scale_bps p < - BPS_FULL")
  case True
  then show ?thesis by (simp add: perturb_def)
next
  case False
  then have "runs (\<lambda>(o1, fs). perturbed_only opp o1 fs) (perturb opp p)"
    by (intro perturb_runs assms) (simp_all add: FULL_def)
  with False show ?thesis by (auto simp: runs_def split: sum.splits)
qed

section \<open>A week that holds\<close>

abbreviation candidate_of :: "assessment \<Rightarrow> string \<times> int" where
  "candidate_of a \<equiv> (as_id a, as_version a)"

abbreviation row_candidate :: "gated_row \<Rightarrow> string \<times> int" where
  "row_candidate r \<equiv> (gr_id r, gr_opportunity_version r)"

lemma gated_rows_mset:
  assumes "gated_rows all = (held, rejected)"
  shows "image_mset row_candidate (mset held) =
      image_mset candidate_of (filter_mset (\<lambda>a. gv_verdict (as_verdict a) = Hold) (mset all))"
    and "image_mset row_candidate (mset rejected) =
      image_mset candidate_of (filter_mset (\<lambda>a. gv_verdict (as_verdict a) = Reject) (mset all))"
proof -
  have f: "filter_mset (\<lambda>a. gv_verdict (as_verdict a) = v) (filter_mset (\<lambda>a. \<not> passes a) (mset all)) =
      filter_mset (\<lambda>a. gv_verdict (as_verdict a) = v) (mset all)" if "v \<noteq> Pass" for v
    by (auto simp: passes_def that filter_filter_mset intro!: filter_mset_cong)
  show "image_mset row_candidate (mset held) =
      image_mset candidate_of (filter_mset (\<lambda>a. gv_verdict (as_verdict a) = Hold) (mset all))"
    using assms f [of Hold] by (auto simp: gated_rows_def Let_def multiset.map_comp comp_def gated_row_of_def)
  show "image_mset row_candidate (mset rejected) =
      image_mset candidate_of (filter_mset (\<lambda>a. gv_verdict (as_verdict a) = Reject) (mset all))"
    using assms f [of Reject] by (auto simp: gated_rows_def Let_def multiset.map_comp comp_def gated_row_of_def)
qed

lemma all_gated:
  assumes "\<not> list_ex passes all"
  shows "image_mset candidate_of (mset all) =
    image_mset candidate_of (filter_mset (\<lambda>a. gv_verdict (as_verdict a) = Hold) (mset all)) +
    image_mset candidate_of (filter_mset (\<lambda>a. gv_verdict (as_verdict a) = Reject) (mset all))"
  using assms
proof (induction all)
  case (Cons a all)
  then show ?case by (cases "gv_verdict (as_verdict a)") (auto simp: passes_def)
qed simp

lemma checked_Inr: "checked v x = Inr y \<longleftrightarrow> v = Inr () \<and> y = x"
  by (auto simp: checked_def split: sum.splits)

lemma week_record_Inr:
  assumes "week_record whash head all ranked rationale = Inr w"
  shows "validate_portfolio w = Inr () \<and> w_ranked w = ranked \<and> gated_rows all = (w_held w, w_rejected w) \<and>
    w_allocation w = \<lparr>al_owner_hours = 0, al_cash = 0\<rparr> \<and> w_hold_rationale w = rationale \<and>
    w_as_of w = wh_as_of head \<and> w_inputs_sha256 w = portfolio_inputs_sha256 whash all"
  using assms by (auto simp: week_record_def rbind_eq_Inr checked_Inr Let_def split: prod.splits)

text \<open>
  A week recorded as a hold accounts for every candidate: it is a valid record with nothing ranked and
  nothing allocated, no candidate passed, and the held and the rejected rows are exactly the candidates
  whose verdict is \<open>HOLD\<close> and \<open>REJECT\<close>, none dropped and none doubled.
\<close>

theorem hold_week_accounts_for_all:
  assumes "hold_week whash head all = Inr w"
  shows "validate_portfolio w = Inr () \<and> is_hold w \<and> \<not> list_ex passes all \<and>
    image_mset row_candidate (mset (w_held w) + mset (w_rejected w)) = image_mset candidate_of (mset all) \<and>
    w_allocation w = \<lparr>al_owner_hours = 0, al_cash = 0\<rparr>"
proof -
  have np: "filter passes all = []" and r: "week_record whash head all [] (hold_rationale all) = Inr w"
    using assms by (auto simp: hold_week_def Let_def split: if_splits)
  note w = week_record_Inr [OF r]
  have none: "\<not> list_ex passes all" using np by (simp add: filter_empty_conv list_ex_iff)
  then have "image_mset row_candidate (mset (w_held w) + mset (w_rejected w)) = image_mset candidate_of (mset all)"
    using gated_rows_mset [of all "w_held w" "w_rejected w"] w by (simp add: all_gated)
  with w none show ?thesis by (simp add: is_hold_def)
qed

lemma week_next_information_set:
  "set (week_next_information all) =
     (\<Union>a \<in> {a \<in> set all. gv_verdict (as_verdict a) = Hold}. set (next_information (as_verdict a)))"
  by (auto simp: week_next_information_def Let_def)

lemma week_next_information_distinct: "distinct (week_next_information all)"
  by (simp add: week_next_information_def Let_def)

lemma hold_rationale_ne:
  assumes "\<not> list_ex passes all"
  shows "\<exists>h. hold_rationale all = Some h \<and> trim h \<noteq> []"
proof -
  have "is_ascii CHR ''n''" "\<not> is_space CHR ''n''" by (simp_all add: is_ascii_def is_space_def)
  from trim_ne_Cons [OF this] assms show ?thesis by (simp add: hold_rationale_def Let_def)
qed

lemma gate_label_ne: "trim (gate_label f) \<noteq> []"
proof -
  have "\<exists>c s. gate_code_str g = c # s \<and> is_ascii c \<and> \<not> is_space c" for g
    by (cases g) (simp_all add: is_ascii_def is_space_def)
  then obtain c s where "gate_code_str (gf_code f) = c # s" "is_ascii c" "\<not> is_space c" by blast
  then show ?thesis
    by (auto simp: gate_label_def trim_ne_Cons split: gate_code.splits option.splits)
qed


text \<open>An assessment whose verdict the gates gave, with the fields its failures name.\<close>

definition assessment_ok :: "assessment \<Rightarrow> bool" where
  "assessment_ok a \<longleftrightarrow> valid_id (as_id a) \<and> settled (as_verdict a) \<and>
     list_all (\<lambda>f. case gf_field f of Some s \<Rightarrow> trim s \<noteq> [] | None \<Rightarrow> True) (gv_failures (as_verdict a))"

definition head_ok :: "week_head \<Rightarrow> bool" where
  "head_ok head \<longleftrightarrow> valid_id (wh_id head) \<and> is_known (wh_as_of head) \<and> valid_sha256 (wh_profile_sha256 head)"

lemma gated_rows_problems:
  assumes "gated_rows all = (held, rejected)" "list_all assessment_ok all"
  shows "gated_problems ''held'' held = []" "gated_problems ''rejected'' rejected = []"
proof -
  have "valid_id (as_id a) \<and> verdict_labels (as_verdict a) \<noteq> [] \<and> distinct (verdict_labels (as_verdict a)) \<and>
      (\<forall>g \<in> set (verdict_labels (as_verdict a)). trim g \<noteq> [])" if "a \<in> set all" "\<not> passes a" for a
  proof -
    have ok: "valid_id (as_id a)" "settled (as_verdict a)"
      using assms(2) that(1) by (auto simp: list_all_iff assessment_ok_def)
    have "gv_failures (as_verdict a) \<noteq> []" using settled_parts(3) [OF ok(2)] that(2) by (simp add: passes_def)
    then show ?thesis
      using ok(1) gate_label_ne retain_from_distinct [of "\<lambda>l. l" "[]"]
      by (auto simp: verdict_labels_def retain_from_Nil_iff dest!: subsetD [OF retain_from_set])
  qed
  with assms(1) show "gated_problems ''held'' held = []" "gated_problems ''rejected'' rejected = []"
    by (auto simp: gated_rows_def Let_def gated_problems_def p_each_Nil_nth row_action_def problem_simps gated_row_of_def
        dest!: nth_mem)
qed

text \<open>
  A week nothing passed always gets its record: given a valid head and candidates with distinct valid
  ids, verdicts of the gates for that decision time and currency, and a hash that prints as a hash, the
  hold is recorded and not refused.
\<close>

theorem hold_week_returns:
  assumes "head_ok head" "list_all assessment_ok all" "distinct (map as_id all)" "\<not> list_ex passes all"
    and "list_all (\<lambda>a. gv_as_of (as_verdict a) = wh_as_of head \<and> sc_currency (as_scenarios a) = wh_currency head) all"
    and "\<And>xs. valid_sha256 (whash xs)"
  shows "\<exists>w. hold_week whash head all = Inr w"
proof -
  obtain held rejected where g: "gated_rows all = (held, rejected)" by (cases "gated_rows all")
  have "image_mset row_candidate (mset held + mset rejected) = image_mset candidate_of (mset all)"
    using gated_rows_mset [OF g] all_gated [OF assms(4)] by simp
  then have "image_mset fst (image_mset row_candidate (mset held + mset rejected)) =
      image_mset fst (image_mset candidate_of (mset all))" by simp
  then have "mset (map gr_id held @ map gr_id rejected) = mset (map as_id all)"
    by (simp add: multiset.map_comp comp_def)
  then have ids: "distinct (map gr_id held @ map gr_id rejected)"
    using assms(3) by (metis mset_eq_imp_distinct_iff)
  obtain h where h: "hold_rationale all = Some h" "trim h \<noteq> []"
    using hold_rationale_ne [OF assms(4)] by blast
  have n: "trim s \<noteq> []" if "s \<in> set (week_next_information all)" for s
    using that assms(2) unfolding week_next_information_set
    by (fastforce simp: next_information_def list_all_iff assessment_ok_def map_filter_def)
  have "schema_tag_v1 ''weekly_portfolio'' = Inr \<lparr>st_record = ''weekly_portfolio'', st_version = 1\<rparr>" by code_simp
  moreover have "filter passes all = []" "same_decision head all = []"
    using assms(4,5) by (auto simp: same_decision_def list_ex_iff list_all_iff filter_empty_conv)
  ultimately show ?thesis
    using gated_rows_problems [OF g assms(2)] ids h n assms(1,6) week_next_information_distinct
    by (simp add: hold_week_def week_record_def g Let_def checked_Inr portfolio_record.validated_iff portfolio_problems_def
        head_ok_def problem_simps p_sha256_def portfolio_inputs_sha256_def ECONOMICS_VERSION_def p_each_Nil_nth split: sum.splits)
qed

section \<open>Concrete candidates\<close>

definition blank_metrics :: "scenario \<Rightarrow> scenario_metrics" where
  "blank_metrics s = \<lparr>sm_scenario = s, sm_monthly_revenue_collected = Known 0, sm_monthly_cash_contribution = Known 0,
     sm_owner_hours_per_month = Known 0, sm_owner_time_cost = Known 0, sm_time_adjusted_contribution = Known 0,
     sm_initial_capital = Known 0, sm_payback = Known NotReached, sm_payback_time_adjusted = Known NotReached,
     sm_occupied_months = None\<rparr>"

definition sample_candidate :: "string \<Rightarrow> gate_failure list \<Rightarrow> tier \<Rightarrow> assessment" where
  "sample_candidate i fs t =
     \<lparr>as_id = i, as_version = 1,
      as_verdict = \<lparr>gv_verdict = fst (settle fs), gv_as_of = At 1500, gv_economics_version = 1,
        gv_inputs_sha256 = ''sha'', gv_failures = snd (settle fs)\<rparr>,
      as_scenarios = \<lparr>sc_economics_version = 1, sc_inputs_sha256 = ''sha'', sc_currency = Eur, sc_native_currency = Eur,
        sc_basis = PreTax, sc_run_rate_month = 12, sc_downside = blank_metrics Downside, sc_base = blank_metrics Base,
        sc_upside = blank_metrics Upside, sc_expected_loss = Known \<lparr>lr_low = 0, lr_high = 0\<rparr>\<rparr>,
      as_fit = \<lparr>cf_level = FUnstated, cf_skills = []\<rparr>,
      as_keys = (\<lambda>_. KTier t), as_inputs_sha256 = ''sha''\<rparr>"

definition sample_passing :: "assessment list" where
  "sample_passing = [sample_candidate ''b'' [] TUnknown, sample_candidate ''c'' [] TLow, sample_candidate ''a'' [] THigh]"

lemma sample_passing_rank:
  "map as_id (rank sample_passing [EvidenceConfidence]) = [''a'', ''c'', ''b'']"
  by code_simp

theorem rank_is_sorted_passing_witness:
  "map as_id (rank sample_passing [EvidenceConfidence]) = [''a'', ''c'', ''b''] \<and>
   sorted_wrt (goes_first [EvidenceConfidence]) (rank sample_passing [EvidenceConfidence])"
proof -
  have "list_all (keys_typed [EvidenceConfidence]) sample_passing"
    by (simp add: sample_passing_def sample_candidate_def keys_typed_def)
  from rank_is_sorted_passing [OF this] sample_passing_rank show ?thesis by simp
qed

theorem explain_order_is_the_reason_witness:
  "reason_holds (explain_order (rank sample_passing [EvidenceConfidence] ! 0) (rank sample_passing [EvidenceConfidence] ! 1)
     [EvidenceConfidence])
     (rank sample_passing [EvidenceConfidence] ! 0) (rank sample_passing [EvidenceConfidence] ! 1) [EvidenceConfidence]"
proof -
  have "length (rank sample_passing [EvidenceConfidence]) = 3"
    using arg_cong [OF sample_passing_rank, of length] by simp
  moreover have "list_all (keys_typed [EvidenceConfidence]) sample_passing"
    by (simp add: sample_passing_def sample_candidate_def keys_typed_def)
  ultimately show ?thesis by (intro explain_order_is_the_reason) simp_all
qed

definition sample_head :: week_head where
  "sample_head = \<lparr>wh_id = ''week-41'', wh_week = \<lparr>iw_year = 2026, iw_week = 41\<rparr>, wh_as_of = At 1500, wh_currency = Eur,
     wh_profile_sha256 = replicate 64 CHR ''a''\<rparr>"

end
