(* ===== verification/Soe_Allocate.thy ===== *)
theory Soe_Allocate
  imports Soe_Rank_Props
begin

text \<open>
  The allocation of a week: \<open>soe/allocate.rs\<close> up to \<open>decide_week\<close>. A candidate that passes gets a test while the
  budget of the profile has room, a rejected one the least price that would clear the gates, a held one
  diligence questions or a test. The loops of \<open>min_price\<close> are functions with their termination proofs; the
  loops of \<open>allocate\<close> are recursions that thread the fill, the actions and the notes. The texts the gates
  attach to a failure are the argument \<open>detail\<close> and the hash of the inputs is the argument \<open>chash\<close>; a list of
  candidates is taken to be shorter than \<open>2^32\<close>, so that its index fits the rank.
\<close>

section \<open>Candidates and the budget\<close>

datatype track = New | Active nat \<comment> \<open>next stage\<close>

record candidate =
  cd_opportunity :: opportunity
  cd_assessment :: assessment
  cd_track :: track

record budget =
  bu_owner_hours :: int
  bu_cash :: minor

definition budget_of :: "operator_profile \<Rightarrow> budget" where
  "budget_of p = \<lparr>bu_owner_hours = p_weekly_owner_hours p, bu_cash = p_max_validation_tranche p\<rparr>"

record alloc_note =
  no_id :: string
  no_action :: string
  no_why :: string

record allocated =
  ao_portfolio :: weekly_portfolio
  ao_notes :: "alloc_note list"

definition PRICE_FIXABLE :: "gate_code list" where
  "PRICE_FIXABLE = [ContributionBelowTarget, PaybackAboveMax]"

definition TESTABLE :: "gate_code list" where
  "TESTABLE = [BelowTargetWithPath, SingleDemandSignal]"

definition DILIGENCE :: "gate_code list" where
  "DILIGENCE = [LegalUnresolved, DiligenceOpen]"

section \<open>The least price that clears the gates\<close>

definition with_base_price :: "opportunity \<Rightarrow> string \<Rightarrow> minor \<Rightarrow> opportunity" where
  "with_base_price opp field p =
     (case input_mut (o_economics opp) field of
        Some (MAmount a w) \<Rightarrow>
          (case a_value a of
             Range l m h \<Rightarrow> opp\<lparr>o_economics := w (a\<lparr>a_value := Range (min l p) p (max h p)\<rparr>)\<rparr>
           | EUnknown _ \<Rightarrow> opp)
      | _ \<Rightarrow> opp)"

text \<open>The closure \<open>clears\<close> of \<open>min_price\<close>.\<close>

definition price_clears ::
  "econ_hash \<Rightarrow> opportunity \<Rightarrow> string \<Rightarrow> cited_record list \<Rightarrow> operator_profile \<Rightarrow> time \<Rightarrow> minor \<Rightarrow> bool vres" where
  "price_clears hash opp field cited p t price =
     rbind (gates hash (with_base_price opp field price) cited p t) (\<lambda>g.
     Inr (gv_verdict g \<noteq> Reject \<and> \<not> list_ex (\<lambda>f. gf_code f = BelowTargetWithPath) (gv_failures g)))"

text \<open>
  The doubling loop: \<open>None\<close> when doubling leaves \<open>i64\<close>, else the last price that does not clear and the
  first that does. \<open>min_price\<close> starts it at a positive price; at any other the loop would not end, which
  the model gives as \<open>Panic\<close>.
\<close>

function price_double :: "(minor \<Rightarrow> bool vres) \<Rightarrow> minor \<Rightarrow> minor \<Rightarrow> (minor \<times> minor) option vres" where
  "price_double test lo hi =
     (if hi \<le> 0 then Inl Panic
      else
        (case minor_checked_mul hi 2 of
           Inl _ \<Rightarrow> Inr None
         | Inr h \<Rightarrow>
             (case test h of
                Inl e \<Rightarrow> Inl e
              | Inr ok \<Rightarrow> if ok then Inr (Some (lo, h)) else price_double test h h)))"
  by pat_completeness auto

termination
  by (relation "measure (\<lambda>(_, _, hi). nat (2 ^ 63 - hi))")
    (auto simp: minor_checked_mul_def ok_or_def fits_def width_simps split: if_splits)

declare price_double.simps [simp del]

text \<open>The loop that halves the gap, with its unchecked \<open>i64\<close> subtraction.\<close>

function price_search :: "(minor \<Rightarrow> bool vres) \<Rightarrow> minor \<Rightarrow> minor \<Rightarrow> minor vres" where
  "price_search test lo hi =
     (if \<not> i64_ok (hi - lo) then Inl Panic
      else if hi - lo > 1 then
        let mid = lo + (hi - lo) div 2 in
        (case test mid of
           Inl e \<Rightarrow> Inl e
         | Inr ok \<Rightarrow> if ok then price_search test lo mid else price_search test mid hi)
      else Inr hi)"
  by pat_completeness auto

termination
  by (relation "measure (\<lambda>(_, lo, hi). nat (hi - lo))") auto

declare price_search.simps [simp del]

definition price_field :: "revenue_model \<Rightarrow> string option" where
  "price_field r = (case r of Recurring _ _ _ _ _ \<Rightarrow> Some f_PRICE | OneOff _ _ _ _ _ \<Rightarrow> Some f_CONTRACT_VALUE | _ \<Rightarrow> None)"

definition min_price ::
  "econ_hash \<Rightarrow> opportunity \<Rightarrow> gate_verdict \<Rightarrow> cited_record list \<Rightarrow> operator_profile \<Rightarrow> minor option vres" where
  "min_price hash opp v cited p =
     (if gv_verdict v \<noteq> Reject \<or>
         list_ex (\<lambda>f. gf_outcome f = Reject \<and> gf_code f \<notin> set PRICE_FIXABLE) (gv_failures v) then Inr None
      else case price_field (e_revenue (o_economics opp)) of
        None \<Rightarrow> Inr None
      | Some field \<Rightarrow>
          (case econ_input (o_economics opp) field of
             Some (IAmount a) \<Rightarrow>
               (case est_base (a_value a) of
                  None \<Rightarrow> Inr None
                | Some b \<Rightarrow>
                    let test = price_clears hash opp field cited p (gv_as_of v) in
                    rbind (price_double test b (if b > 0 then b else 1)) (\<lambda>found.
                    case found of
                      None \<Rightarrow> Inr None
                    | Some (lo, hi) \<Rightarrow>
                        rbind (price_search test lo hi) (\<lambda>price.
                        to_currency (o_economics opp) (p_currency p) price Outflow)))
           | _ \<Rightarrow> Inr None))"

section \<open>The fill of the budget\<close>

definition stage_cost :: "candidate \<Rightarrow> operator_profile \<Rightarrow> (string + string \<times> minor \<times> int) vres" where
  "stage_cost c p =
     (case o_experiment (cd_opportunity c) of
        None \<Rightarrow> Inr (Inl ''no experiment to run'')
      | Some x \<Rightarrow>
          let i = (case cd_track c of New \<Rightarrow> 0 | Active next_stage \<Rightarrow> next_stage) in
          if i < length (x_stages x) then
            let st = x_stages x ! i in
            rbind (to_currency (o_economics (cd_opportunity c)) (p_currency p) (s_cash st) Outflow) (\<lambda>cash.
            case cash of
              Some cash \<Rightarrow> Inr (Inr (s_name st, cash, s_owner_hours st))
            | None \<Rightarrow> Inr (Inl (''stage `'' @ s_name st @ ''`: no rate to '' @ currency_code (p_currency p))))
          else Inr (Inr (''(no stage left)'', 0, 0)))"

record fill =
  fi_budget :: budget
  fi_used :: allocation

text \<open>An unchecked subtraction at the given width.\<close>

definition raw_sub :: "(int \<Rightarrow> bool) \<Rightarrow> int \<Rightarrow> int \<Rightarrow> int vres" where
  "raw_sub width a b = (if width (a - b) then Inr (a - b) else Inl Panic)"

definition money_text :: "operator_profile \<Rightarrow> minor \<Rightarrow> string" where
  "money_text p m = money_display \<lparr>m_minor = m, m_currency = p_currency p\<rparr>"

definition fill_take ::
  "fill \<Rightarrow> candidate \<Rightarrow> operator_profile \<Rightarrow> (fill \<times> (string + string \<times> minor \<times> int)) vres" where
  "fill_take f c p =
     rbind (stage_cost c p) (\<lambda>cost.
     case cost of
       Inl why \<Rightarrow> Inr (f, Inl why)
     | Inr (name, cash, hours) \<Rightarrow>
         let h = min (al_owner_hours (fi_used f) + hours) (2 ^ 32 - 1) in
         rbind (minor_checked_add (al_cash (fi_used f)) cash) (\<lambda>m.
         if h > bu_owner_hours (fi_budget f) \<or> m > bu_cash (fi_budget f) then
           rbind (raw_sub u32_ok (bu_owner_hours (fi_budget f)) (al_owner_hours (fi_used f))) (\<lambda>hours_left.
           rbind (raw_sub i64_ok (bu_cash (fi_budget f)) (al_cash (fi_used f))) (\<lambda>cash_left.
           Inr (f, Inl (''over budget: stage `'' @ name @ ''` needs '' @ nat_text (nat hours) @ '' h + '' @
             money_text p cash @ ''; '' @ nat_text (nat hours_left) @ '' h + '' @ money_text p cash_left @
             '' left of '' @ nat_text (nat (bu_owner_hours (fi_budget f))) @ '' h + '' @
             money_text p (bu_cash (fi_budget f))))))
         else Inr (f\<lparr>fi_used := \<lparr>al_owner_hours = h, al_cash = m\<rparr>\<rparr>, Inr (name, cash, hours))))"

definition only :: "gate_verdict \<Rightarrow> gate_code list \<Rightarrow> bool" where
  "only v codes \<longleftrightarrow> gv_failures v \<noteq> [] \<and> list_all (\<lambda>f. gf_code f \<in> set codes) (gv_failures v)"

text \<open>
  \<open>detail\<close> is the text a gate attached to a failure, which the model of the gates leaves out.
\<close>

definition diligence ::
  "(gate_failure \<Rightarrow> string) \<Rightarrow> candidate \<Rightarrow> operator_profile \<Rightarrow> portfolio_action option vres" where
  "diligence detail c p =
     (if o_deal (cd_opportunity c) = None then Inr None
      else
        let questions = map (\<lambda>f. (case gf_field f of Some x \<Rightarrow> x | None \<Rightarrow> ''deal'') @ '': '' @ detail f)
              (filter (\<lambda>f. gf_outcome f = Hold \<and> gf_code f \<in> set DILIGENCE) (gv_failures (as_verdict (cd_assessment c))))
        in if questions = [] then Inr None
        else
          rbind (case Option.bind (o_experiment (cd_opportunity c)) first_spend of
              Some (_, st) \<Rightarrow>
                rbind (to_currency (o_economics (cd_opportunity c)) (p_currency p) (s_cash st) Outflow) (\<lambda>m.
                Inr (case m of Some m \<Rightarrow> min m (p_max_validation_tranche p) | None \<Rightarrow> 0))
            | None \<Rightarrow> Inr 0) (\<lambda>next.
          Inr (Some (ADiligence questions next))))"

section \<open>The week\<close>

type_synonym alloc_hash = "(string \<times> int \<times> string \<times> string list \<times> track) list \<Rightarrow> string"

definition allocation_inputs_sha256 :: "alloc_hash \<Rightarrow> candidate list \<Rightarrow> string" where
  "allocation_inputs_sha256 chash cands =
     chash (sort_key fst (map (\<lambda>c. let a = cd_assessment c in
       (as_id a, as_version a, as_inputs_sha256 a, verdict_labels (as_verdict a), cd_track c)) cands))"

text \<open>\<open>by_id\<close>: of two entries with one key the later stays; a missing key panics.\<close>

definition by_id :: "candidate list \<Rightarrow> string \<Rightarrow> candidate vres" where
  "by_id cands i =
     (case find (\<lambda>c. as_id (cd_assessment c) = i) (rev cands) of Some c \<Rightarrow> Inr c | None \<Rightarrow> Inl Panic)"

definition note_of :: "string \<Rightarrow> portfolio_action \<Rightarrow> string \<Rightarrow> alloc_note" where
  "note_of i a why = \<lparr>no_id = i, no_action = action_kind a, no_why = why\<rparr>"

text \<open>The loop over the ranking, from index \<open>i\<close>.\<close>

fun allocate_ranked ::
  "operator_profile \<Rightarrow> candidate list \<Rightarrow> nat \<Rightarrow> assessment list \<Rightarrow> fill \<Rightarrow> (fill \<times> ranked_row list \<times> alloc_note list) vres" where
  "allocate_ranked p cands i [] f = Inr (f, [], [])"
| "allocate_ranked p cands i (a # as) f =
     rbind (by_id cands (as_id a)) (\<lambda>c.
     rbind (fill_take f c p) (\<lambda>(f', taken).
     let rank_text = ''rank '' @ nat_text (i + 1) @ '': '';
         (action, why) = (case taken of
             Inr (stage, cash, hours) \<Rightarrow>
               (case cd_track c of Active _ \<Rightarrow> ContinueActive | New \<Rightarrow> CheapTest cash hours,
                rank_text @ ''stage `'' @ stage @ ''`'')
           | Inl why \<Rightarrow> (AHold, rank_text @ why))
     in rbind (allocate_ranked p cands (i + 1) as f') (\<lambda>(f'', rows, notes).
        Inr (f'', ranked_row_of (int i + 1) a (p_rank_order p) action # rows, note_of (as_id a) action why # notes))))"

text \<open>The action of a held or rejected candidate; \<open>None\<close> for one that waits for the fill.\<close>

definition gated_action ::
  "econ_hash \<Rightarrow> (gate_failure \<Rightarrow> string) \<Rightarrow> operator_profile \<Rightarrow> cited_record list \<Rightarrow> candidate \<Rightarrow>
     (portfolio_action \<times> string) option vres" where
  "gated_action hash detail p cited c =
     (let v = as_verdict (cd_assessment c);
          labels = join '', '' (verdict_labels v)
      in if gv_verdict v = Reject then
           rbind (min_price hash (cd_opportunity c) v cited p) (\<lambda>price.
           Inr (Some (case price of
             Some m \<Rightarrow> (Reprice m, ''a base price of '' @ money_text p m @ '' clears the contribution and payback gates'')
           | None \<Rightarrow> (AReject, labels))))
         else
           rbind (diligence detail c p) (\<lambda>d.
           Inr (case d of
             Some action \<Rightarrow> Some (action, ''verify before any tranche'')
           | None \<Rightarrow> if only v TESTABLE then None else Some (AHold, labels))))"

fun allocate_gated ::
  "econ_hash \<Rightarrow> (gate_failure \<Rightarrow> string) \<Rightarrow> operator_profile \<Rightarrow> cited_record list \<Rightarrow> candidate list \<Rightarrow>
     ((string \<times> portfolio_action) list \<times> candidate list \<times> alloc_note list) vres" where
  "allocate_gated hash detail p cited [] = Inr ([], [], [])"
| "allocate_gated hash detail p cited (c # cs) =
     rbind (gated_action hash detail p cited c) (\<lambda>decided.
     rbind (allocate_gated hash detail p cited cs) (\<lambda>(actions, testable, notes).
     let i = as_id (cd_assessment c) in
     Inr (case decided of
       None \<Rightarrow> (actions, c # testable, notes)
     | Some (action, why) \<Rightarrow> ((i, action) # actions, testable, note_of i action why # notes))))"

fun allocate_tests ::
  "operator_profile \<Rightarrow> candidate list \<Rightarrow> fill \<Rightarrow> (fill \<times> (string \<times> portfolio_action) list \<times> alloc_note list) vres" where
  "allocate_tests p [] f = Inr (f, [], [])"
| "allocate_tests p (c # cs) f =
     rbind (fill_take f c p) (\<lambda>(f', taken).
     let a = cd_assessment c;
         (action, why) = (case taken of
             Inr (stage, cash, hours) \<Rightarrow>
               (CheapTest cash hours, join '', '' (verdict_labels (as_verdict a)) @ '': test stage `'' @ stage @ ''`'')
           | Inl why \<Rightarrow> (AHold, why))
     in rbind (allocate_tests p cs f') (\<lambda>(f'', actions, notes).
        Inr (f'', (as_id a, action) # actions, note_of (as_id a) action why # notes)))"

text \<open>\<open>actions[id]\<close>: the entry of a map built by inserting in order, so the last one of an id.\<close>

definition allocated_row :: "(string \<times> portfolio_action) list \<Rightarrow> candidate \<Rightarrow> gated_row vres" where
  "allocated_row actions c =
     (case map_of (rev actions) (as_id (cd_assessment c)) of
        Some action \<Rightarrow> Inr (gated_row_of (cd_assessment c) action)
      | None \<Rightarrow> Inl Panic)"

definition allocate ::
  "econ_hash \<Rightarrow> (gate_failure \<Rightarrow> string) \<Rightarrow> alloc_hash \<Rightarrow> week_head \<Rightarrow> candidate list \<Rightarrow> operator_profile \<Rightarrow>
     cited_record list \<Rightarrow> (code list, allocated) res" where
  "allocate hash detail chash head cands p cited =
     (let all = map cd_assessment cands;
          errors = same_decision head all @ map fst (p_unique ''candidates'' (map as_id all))
      in if errors \<noteq> [] then Inl (Err errors)
      else
        let order = p_rank_order p;
            gated = sort_key (\<lambda>c. (as_id (cd_assessment c), as_version (cd_assessment c)))
              (filter (\<lambda>c. \<not> passes (cd_assessment c)) cands);
            rows = (\<lambda>v actions. rmapM (allocated_row actions)
              (filter (\<lambda>c. gv_verdict (as_verdict (cd_assessment c)) = v) gated))
        in rbind (one_error (allocate_ranked p cands 0 (rank all order)
             \<lparr>fi_budget = budget_of p, fi_used = \<lparr>al_owner_hours = 0, al_cash = 0\<rparr>\<rparr>)) (\<lambda>(f, ranked, notes1).
        rbind (one_error (allocate_gated hash detail p cited gated)) (\<lambda>(actions1, testable, notes2).
        rbind (one_error (allocate_tests p
          (sort_by (\<lambda>a b. compare (cd_assessment a) (cd_assessment b) order) testable) f)) (\<lambda>(f', actions2, notes3).
        rbind (one_error (rows Hold (actions1 @ actions2))) (\<lambda>held.
        rbind (one_error (rows Reject (actions1 @ actions2))) (\<lambda>rejected.
        rbind (one_error (schema_tag_v1 ''weekly_portfolio'')) (\<lambda>schema.
        let week = \<lparr>w_schema = schema, w_ident = wh_id head, w_version = 1, w_week = wh_week head,
              w_as_of = wh_as_of head, w_currency = wh_currency head, w_profile_sha256 = wh_profile_sha256 head,
              w_inputs_sha256 = allocation_inputs_sha256 chash cands, w_economics_version = ECONOMICS_VERSION,
              w_ranked = ranked, w_held = held, w_rejected = rejected, w_allocation = fi_used f',
              w_hold_rationale = (if ranked = [] then hold_rationale all else None),
              w_next_information = week_next_information all\<rparr>
        in checked (validate_portfolio week)
             \<lparr>ao_portfolio = week, ao_notes = sort_key no_id (notes1 @ notes2 @ notes3)\<rparr>)))))))"

end
