(* ===== verification/Soe_Allocate_Props.thy ===== *)
theory Soe_Allocate_Props
  imports Soe_Allocate
begin

text \<open>
  The properties of the allocation: the price search ends with a tight price, the week stays within the
  budget and accounts for every candidate, and nothing panics.
\<close>

section \<open>The price search\<close>

text \<open>A price known not to clear: the one the search started from, or one that was tried.\<close>

definition refused_price :: "(minor \<Rightarrow> bool vres) \<Rightarrow> minor \<Rightarrow> minor \<Rightarrow> bool" where
  "refused_price test start p \<longleftrightarrow> p = start \<or> test p = Inr False"

lemma checked_double: "0 < hi \<Longrightarrow> minor_checked_mul hi 2 = (if i64_ok (2 * hi) then Inr (2 * hi) else Inl (Err OVERFLOW))"
  by (simp add: minor_checked_mul_def ok_or_def fits_def mult.commute)

text \<open>
  The doubling ends: with \<open>None\<close> when no doubled price in range clears, or with a gap whose lower end does
  not clear and whose upper end does.
\<close>

lemma price_double_spec:
  assumes "0 < hi" "lo \<le> hi" "refused_price test start lo"
  shows "case price_double test lo hi of
      Inr None \<Rightarrow> \<forall>k. i64_ok (hi * 2 ^ Suc k) \<longrightarrow> test (hi * 2 ^ Suc k) = Inr False
    | Inr (Some (l, h)) \<Rightarrow> refused_price test start l \<and> test h = Inr True \<and> l < h \<and> lo \<le> l \<and> i64_ok h
    | Inl e \<Rightarrow> \<exists>k. i64_ok (hi * 2 ^ Suc k) \<and> test (hi * 2 ^ Suc k) = Inl e"
  using assms
proof (induction test lo hi rule: price_double.induct)
  case (1 test lo hi)
  show ?case
  proof (cases "i64_ok (2 * hi)")
    case False
    have "2 * hi \<le> hi * 2 ^ Suc k" for k
      using "1.prems"(1) one_le_power [of "2::int" k] by simp
    then have "\<not> i64_ok (hi * 2 ^ Suc k)" for k
      using False "1.prems"(1) by (smt (verit, best) i64_ok_def)
    then show ?thesis
      using False "1.prems" by (simp add: price_double.simps checked_double)
  next
    case True
    have step: "price_double test lo hi = rbind (test (2 * hi)) (\<lambda>ok. if ok then Inr (Some (lo, 2 * hi)) else price_double test (2 * hi) (2 * hi))"
      using True "1.prems"(1) by (subst price_double.simps) (simp add: checked_double rbind_def)
    consider (err) e where "test (2 * hi) = Inl e" | (yes) "test (2 * hi) = Inr True" | (no) "test (2 * hi) = Inr False"
      by (cases "test (2 * hi)") auto
    then show ?thesis
    proof cases
      case err
      then show ?thesis using True step by (auto intro!: exI [of _ 0] simp: mult.commute)
    next
      case yes
      then show ?thesis using True step "1.prems" by simp
    next
      case no
      have IH: "case price_double test (2 * hi) (2 * hi) of
          Inr None \<Rightarrow> \<forall>k. i64_ok (2 * hi * 2 ^ Suc k) \<longrightarrow> test (2 * hi * 2 ^ Suc k) = Inr False
        | Inr (Some (l, h)) \<Rightarrow> refused_price test start l \<and> test h = Inr True \<and> l < h \<and> 2 * hi \<le> l \<and> i64_ok h
        | Inl e \<Rightarrow> \<exists>k. i64_ok (2 * hi * 2 ^ Suc k) \<and> test (2 * hi * 2 ^ Suc k) = Inl e"
        using "1.IH" [of "2 * hi" False] True "1.prems" no by (simp add: checked_double refused_price_def)
      have shift: "2 * hi * 2 ^ Suc k = hi * 2 ^ Suc (Suc k)" for k by simp
      have first: "test (hi * 2 ^ Suc 0) = Inr False" using no by (simp add: mult.commute)
      then have none: "\<forall>k. i64_ok (hi * 2 ^ Suc k) \<longrightarrow> test (hi * 2 ^ Suc k) = Inr False"
        if "\<forall>k. i64_ok (2 * hi * 2 ^ Suc k) \<longrightarrow> test (2 * hi * 2 ^ Suc k) = Inr False"
        using that unfolding shift by (metis not0_implies_Suc)
      moreover have eq: "price_double test lo hi = price_double test (2 * hi) (2 * hi)" using step no by simp
      ultimately show ?thesis
      proof (cases "price_double test (2 * hi) (2 * hi)")
        case (Inl e)
        then show ?thesis using IH unfolding eq shift by (simp only: sum.case) blast
      next
        case (Inr found)
        with IH eq "1.prems" none show ?thesis
          by (cases found) (simp_all only: sum.case option.case split: prod.splits, auto)
      qed
    qed
  qed
qed

lemma price_search_spec:
  assumes "refused_price test start lo" "test hi = Inr True" "lo < hi" "0 \<le> lo" "i64_ok hi"
  shows "case price_search test lo hi of
      Inr p \<Rightarrow> test p = Inr True \<and> refused_price test start (p - 1) \<and> lo < p \<and> p \<le> hi
    | Inl e \<Rightarrow> \<exists>p. lo < p \<and> p < hi \<and> test p = Inl e"
  using assms
proof (induction test lo hi rule: price_search.induct)
  case (1 test lo hi)
  let ?mid = "lo + (hi - lo) div 2"
  have gap: "i64_ok (hi - lo)" using "1.prems" by (simp add: width_simps)
  show ?case
  proof (cases "hi - lo > 1")
    case False
    then have "lo = hi - 1" using "1.prems"(3) by simp
    with False gap "1.prems" show ?thesis by (simp add: price_search.simps)
  next
    case True
    then have mid: "lo < ?mid" "?mid < hi" "i64_ok ?mid" using "1.prems" by (auto simp: width_simps)
    have step: "price_search test lo hi =
        rbind (test ?mid) (\<lambda>ok. if ok then price_search test lo ?mid else price_search test ?mid hi)"
      using True gap by (subst price_search.simps) (simp add: Let_def rbind_def)
    consider (err) e where "test ?mid = Inl e" | (yes) "test ?mid = Inr True" | (no) "test ?mid = Inr False"
      by (cases "test ?mid") auto
    then show ?thesis
    proof cases
      case err
      with step have "price_search test lo hi = Inl e" by simp
      with mid err show ?thesis by (simp only: sum.case) blast
    next
      case yes
      have IH: "case price_search test lo ?mid of
          Inr p \<Rightarrow> test p = Inr True \<and> refused_price test start (p - 1) \<and> lo < p \<and> p \<le> ?mid
        | Inl e \<Rightarrow> \<exists>p. lo < p \<and> p < ?mid \<and> test p = Inl e"
        by (rule "1.IH"(1) [OF _ True refl yes]) (use gap yes mid "1.prems" in simp_all)
      with mid yes step show ?thesis by (fastforce split: sum.splits)
    next
      case no
      have IH: "case price_search test ?mid hi of
          Inr p \<Rightarrow> test p = Inr True \<and> refused_price test start (p - 1) \<and> ?mid < p \<and> p \<le> hi
        | Inl e \<Rightarrow> \<exists>p. ?mid < p \<and> p < hi \<and> test p = Inl e"
        by (rule "1.IH"(2) [OF _ True refl no]) (use gap no mid "1.prems" in \<open>simp_all add: refused_price_def\<close>)
      have eq: "price_search test lo hi = price_search test ?mid hi" using step no by simp
      show ?thesis
        unfolding eq using IH mid(1) by (cases "price_search test ?mid hi") (auto dest: order.strict_trans)
    qed
  qed
qed

lemma price_input:
  assumes "price_field (e_revenue e) = Some field"
  obtains a w where "input_mut e field = Some (MAmount a w)" "econ_input e field = Some (IAmount a)" "w a = e"
proof (cases "e_revenue e")
  case (Recurring a c ch pr l)
  with assms have "input_mut e field = Some (MAmount pr (\<lambda>v. e\<lparr>e_revenue := Recurring a c ch v l\<rparr>))"
    "econ_input e field = Some (IAmount pr)" "e\<lparr>e_revenue := Recurring a c ch pr l\<rparr> = e"
    by (auto simp: price_field_def f_PRICE_def input_mut_def econ_input_def econ_inputs_def comp_def)
  then show ?thesis by (rule that)
next
  case (OneOff c w d h l)
  with assms have "input_mut e field = Some (MAmount c (\<lambda>v. e\<lparr>e_revenue := OneOff v w d h l\<rparr>))"
    "econ_input e field = Some (IAmount c)" "e\<lparr>e_revenue := OneOff c w d h l\<rparr> = e"
    by (auto simp: price_field_def f_CONTRACT_VALUE_def input_mut_def econ_input_def econ_inputs_def comp_def)
  then show ?thesis by (rule that)
qed (use assms in \<open>simp_all add: price_field_def\<close>)

lemma with_base_price_same:
  assumes "price_field (e_revenue (o_economics opp)) = Some field"
    "econ_input (o_economics opp) field = Some (IAmount a)" "a_value a = Range l b h" "l \<le> b" "b \<le> h"
  shows "with_base_price opp field b = opp"
proof -
  obtain a' w where m: "input_mut (o_economics opp) field = Some (MAmount a' w)"
    "econ_input (o_economics opp) field = Some (IAmount a')" "w a' = o_economics opp"
    using price_input [OF assms(1)] .
  have "a\<lparr>a_value := Range (min l b) b (max h b)\<rparr> = a"
    using assms(3-5) by (cases a) simp
  moreover have "a' = a" using m(2) assms(2) by simp
  ultimately show ?thesis
    using m(1,3) assms(3) by (simp add: with_base_price_def)
qed

lemma econ_input_ok: "econ_ok e \<Longrightarrow> econ_input e field = Some i \<Longrightarrow> input_ok i"
  by (fastforce simp: econ_ok_def econ_input_def list_all_iff find_Some_iff dest: nth_mem)

definition price_fixable :: "gate_verdict \<Rightarrow> bool" where
  "price_fixable v \<longleftrightarrow> gv_verdict v = Reject \<and>
     list_all (\<lambda>f. gf_outcome f = Reject \<longrightarrow> gf_code f \<in> {ContributionBelowTarget, PaybackAboveMax}) (gv_failures v)"

text \<open>The base price a candidate has, with the name of its field.\<close>

definition base_price :: "opportunity \<Rightarrow> (string \<times> minor) option" where
  "base_price opp =
     (case price_field (e_revenue (o_economics opp)) of
        None \<Rightarrow> None
      | Some field \<Rightarrow>
          (case econ_input (o_economics opp) field of
             Some (IAmount a) \<Rightarrow> map_option (Pair field) (est_base (a_value a)) | _ \<Rightarrow> None))"

lemma min_price_eq:
  "min_price hash opp v cited p =
     (if \<not> price_fixable v then Inr None
      else case base_price opp of
        None \<Rightarrow> Inr None
      | Some (field, b) \<Rightarrow>
          rbind (price_double (price_clears hash opp field cited p (gv_as_of v)) b (if b > 0 then b else 1)) (\<lambda>found.
          case found of
            None \<Rightarrow> Inr None
          | Some (lo, hi) \<Rightarrow>
              rbind (price_search (price_clears hash opp field cited p (gv_as_of v)) lo hi) (\<lambda>price.
              to_currency (o_economics opp) (p_currency p) price Outflow)))"
proof -
  have "gv_verdict v \<noteq> Reject \<or>
      list_ex (\<lambda>f. gf_outcome f = Reject \<and> gf_code f \<notin> set PRICE_FIXABLE) (gv_failures v) \<longleftrightarrow> \<not> price_fixable v"
    by (auto simp: price_fixable_def PRICE_FIXABLE_def list_ex_iff list_all_iff)
  then show ?thesis
    by (auto simp: min_price_def base_price_def Let_def split: option.splits input.splits)
qed

text \<open>
  C13: The price of a \<open>REPRICE\<close> is a tight one. For a candidate with valid economics that the gates reject, a
  returned price is the conversion (rounded up) of a price above the current one at which the gates neither
  reject nor see a contribution below target, and one minor unit less does not do. No price is returned
  only when the rejections are not about the price, there is no known price, no doubling of it within the
  range of amounts clears, or there is no rate; an error is one of the gates' or the conversion's at a
  price that was tried.
\<close>

theorem min_price_is_tight:
  assumes "econ_ok (o_economics opp)" "gates hash opp cited p (gv_as_of v) = Inr g" "gv_verdict g = Reject"
  shows "case (min_price hash opp v cited p, base_price opp) of
      (Inr (Some m), Some (field, b)) \<Rightarrow>
        (\<exists>price > b. price_clears hash opp field cited p (gv_as_of v) price = Inr True \<and>
           price_clears hash opp field cited p (gv_as_of v) (price - 1) = Inr False \<and>
           to_currency (o_economics opp) (p_currency p) price Outflow = Inr (Some m))
    | (Inr (Some m), None) \<Rightarrow> False
    | (Inr None, None) \<Rightarrow> True
    | (Inr None, Some (field, b)) \<Rightarrow> \<not> price_fixable v \<or>
        (\<forall>k. i64_ok (max b 1 * 2 ^ Suc k) \<longrightarrow>
           price_clears hash opp field cited p (gv_as_of v) (max b 1 * 2 ^ Suc k) = Inr False) \<or>
        (\<exists>price. to_currency (o_economics opp) (p_currency p) price Outflow = Inr None)
    | (Inl e, None) \<Rightarrow> False
    | (Inl e, Some (field, b)) \<Rightarrow>
        (\<exists>price > b. price_clears hash opp field cited p (gv_as_of v) price = Inl e) \<or>
        (\<exists>price. to_currency (o_economics opp) (p_currency p) price Outflow = Inl e)"
proof (cases "base_price opp")
  case None
  then show ?thesis by (simp add: min_price_eq split: if_splits)
next
  case (Some fb)
  obtain field b where fb: "fb = (field, b)" by (cases fb)
  obtain a l h where r: "price_field (e_revenue (o_economics opp)) = Some field"
    "econ_input (o_economics opp) field = Some (IAmount a)" "a_value a = Range l b h"
  proof -
    from Some fb show ?thesis
      by (cases "price_field (e_revenue (o_economics opp))") (auto simp: base_price_def split: option.splits input.splits
          elim!: est_base.elims intro: that)
  qed
  have "input_ok (IAmount a)"
    using econ_input_ok [OF assms(1) r(2)] .
  then have ord: "l \<le> b" "b \<le> h" "0 \<le> b" using r(3) by (auto simp: amount_ok_def)
  let ?t = "price_clears hash opp field cited p (gv_as_of v)"
  have start: "?t b = Inr False"
    using with_base_price_same [OF r ord(1,2)] assms(2,3) by (simp add: price_clears_def)
  then have ref: "refused_price ?t b q \<longleftrightarrow> ?t q = Inr False" for q by (auto simp: refused_price_def)
  have s: "(if b > 0 then b else 1) = max b 1" using ord(3) by auto
  have u: "max b 1 * 2 ^ Suc k > b" for k :: nat
  proof -
    have "max b 1 * 1 < max b 1 * (2 ^ Suc k)" by (intro mult_strict_left_mono one_less_power) auto
    then show ?thesis by simp
  qed
  show ?thesis
  proof (cases "price_fixable v")
    case False
    then show ?thesis using Some fb by (simp add: min_price_eq)
  next
    case True
    have m1: "0 < max b 1" by (simp add: less_max_iff_disj)
    note d = price_double_spec [OF m1, of b ?t b] and eq = min_price_eq [of hash opp v cited p]
    show ?thesis
    proof (cases "price_double ?t b (max b 1)")
      case (Inl e)
      then have "min_price hash opp v cited p = Inl e" using eq True Some fb s by simp
      moreover obtain k where "?t (max b 1 * 2 ^ Suc k) = Inl e" using d Inl by (auto simp: refused_price_def)
      then have "\<exists>price > b. ?t price = Inl e" using u by blast
      ultimately show ?thesis using Some fb by simp
    next
      case (Inr found)
      show ?thesis
      proof (cases found)
        case None
        then have "min_price hash opp v cited p = Inr None" using Inr eq True Some fb s by simp
        moreover have "\<forall>k. i64_ok (max b 1 * 2 ^ Suc k) \<longrightarrow> ?t (max b 1 * 2 ^ Suc k) = Inr False"
          using d Inr None by (simp add: refused_price_def)
        ultimately show ?thesis using Some fb by simp
      next
        case lh: (Some lh)
        obtain lo hi where lh': "lh = (lo, hi)" by (cases lh)
        have g: "refused_price ?t b lo" "?t hi = Inr True" "lo < hi" "b \<le> lo" "i64_ok hi"
          using d Inr lh lh' by (simp_all add: refused_price_def)
        have e: "min_price hash opp v cited p =
            rbind (price_search ?t lo hi) (\<lambda>price. to_currency (o_economics opp) (p_currency p) price Outflow)"
          using Inr lh lh' eq True Some fb s by simp
        have sp: "case price_search ?t lo hi of
            Inr q \<Rightarrow> ?t q = Inr True \<and> refused_price ?t b (q - 1) \<and> lo < q \<and> q \<le> hi
          | Inl e \<Rightarrow> \<exists>q. lo < q \<and> q < hi \<and> ?t q = Inl e"
          using g ord(3) by (intro price_search_spec) auto
        show ?thesis
        proof (cases "price_search ?t lo hi")
          case (Inl e')
          obtain q where "b < q" "?t q = Inl e'"
            using sp g(4) unfolding Inl sum.case by force
          then show ?thesis using e Inl Some fb by auto
        next
          case (Inr q)
          have q: "?t q = Inr True" "?t (q - 1) = Inr False" "b < q"
            using sp g(4) unfolding Inr sum.case ref by simp_all
          have e: "min_price hash opp v cited p = to_currency (o_economics opp) (p_currency p) q Outflow"
            using e Inr by simp
          show ?thesis
            unfolding e Some fb prod.case option.case
            using q by (auto split: sum.splits option.splits)
        qed
      qed
    qed
  qed
qed

section \<open>The budget\<close>

fun test_cash :: "portfolio_action \<Rightarrow> minor" where
  "test_cash (CheapTest cash _) = cash" | "test_cash _ = 0"

fun test_hours :: "portfolio_action \<Rightarrow> int" where
  "test_hours (CheapTest _ hours) = hours" | "test_hours _ = 0"

text \<open>What the gates and the fill rely on in a candidate's opportunity.\<close>

definition candidate_ok :: "candidate \<Rightarrow> bool" where
  "candidate_ok c \<longleftrightarrow>
     (let opp = cd_opportunity c in
      econ_ok (o_economics opp) \<and> risk_ok (o_risk opp) \<and> amounts_typed opp \<and>
      (case o_experiment opp of
         Some x \<Rightarrow> list_all (\<lambda>s. 0 \<le> s_cash s \<and> u32_ok (s_owner_hours s)) (x_stages x) | None \<Rightarrow> True))"

lemma candidate_ok_if_validated:
  assumes "validate_opportunity (cd_opportunity c) = Inr ()" "opportunity_typed (cd_opportunity c)"
    "amounts_typed (cd_opportunity c)"
    "case o_experiment (cd_opportunity c) of
       Some x \<Rightarrow> list_all (\<lambda>s. u32_ok (s_owner_hours s)) (x_stages x) | None \<Rightarrow> True"
  shows "candidate_ok c"
proof -
  have "0 \<le> s_cash s" if "o_experiment (cd_opportunity c) = Some x" "s \<in> set (x_stages x)" for x s
  proof -
    have "opportunity_problems (cd_opportunity c) = []"
      using assms(1) by (simp add: opportunity_record.validated_iff)
    then have "experiment_problems ''experiment'' x = []"
      using that(1) by (simp add: opportunity_problems_def Let_def)
    then show ?thesis
      using that(2) unfolding experiment_problems_def append_is_Nil_conv p_each_Nil_nth
      by (auto simp: problem_simps in_set_conv_nth)
  qed
  with assms show ?thesis
    using econ_ok_if_validated risk_ok_if_validated
    by (auto simp: candidate_ok_def Let_def opportunity_typed_def list_all_iff split: option.splits)
qed

lemma to_currency_nonneg:
  assumes "econ_ok e" "0 \<le> a" "i64_ok a" "to_currency e c a Outflow = Inr (Some m)"
  shows "0 \<le> m"
proof (cases "fx_for e c")
  case (Inr fx)
  show ?thesis
  proof (cases "fc_rate fx")
    case None
    then show ?thesis using assms(2,4) Inr
      by (auto simp: to_currency_def fx_conv_convert_def rmap_eq_Inr econ_minor_def ok_or_def fits_def split: if_splits)
  next
    case (Some r)
    have r: "fx_ok r" "fc_native fx = cp_base (fx_pair r)"
      using assms(1) Inr Some by (auto simp: fx_for_def econ_ok_def split: if_splits option.splits)
    have "fx_convert r \<lparr>m_minor = a, m_currency = cp_base (fx_pair r)\<rparr> Outflow = Inr q \<Longrightarrow>
        m_minor q = cdiv (a * fx_rate_e8 r) RATE_SCALE" for q
      using fx_convert_eq [OF r(1), of "\<lparr>m_minor = a, m_currency = cp_base (fx_pair r)\<rparr>" Outflow] assms(3)
      by (auto simp: Let_def split: if_splits)
    then have "m = cdiv (a * fx_rate_e8 r) RATE_SCALE"
      using assms(4) Inr Some r(2)
      by (auto simp: to_currency_def fx_conv_convert_def rbind_eq_Inr rmap_eq_Inr econ_minor_def ok_or_def fits_def split: if_splits)
    then show ?thesis
      using assms(2) r(1) cdiv_mono [of RATE_SCALE 0 "a * fx_rate_e8 r"]
      by (simp add: fx_ok_def RATE_SCALE_def)
  qed
qed (use assms in \<open>simp add: to_currency_def\<close>)

lemma stage_cost_nonneg:
  assumes "candidate_ok c" "stage_cost c p = Inr (Inr (n, cash, hours))"
  shows "0 \<le> cash \<and> u32_ok hours"
proof -
  obtain x where x: "o_experiment (cd_opportunity c) = Some x"
    using assms(2) by (auto simp: stage_cost_def split: option.splits)
  let ?i = "case cd_track c of New \<Rightarrow> 0 | Active next_stage \<Rightarrow> next_stage"
  show ?thesis
  proof (cases "?i < length (x_stages x)")
    case False
    then show ?thesis using assms(2) x by (auto simp: stage_cost_def Let_def width_simps)
  next
    case True
    then have "x_stages x ! ?i \<in> set (x_stages x)" by simp
    then have "0 \<le> s_cash (x_stages x ! ?i)" "i64_ok (s_cash (x_stages x ! ?i))" "u32_ok (s_owner_hours (x_stages x ! ?i))"
      "econ_ok (o_economics (cd_opportunity c))"
      using assms(1) x by (auto simp: candidate_ok_def Let_def amounts_typed_def list_all_iff)
    with True assms(2) x to_currency_nonneg show ?thesis
      by (auto simp: stage_cost_def Let_def rbind_eq_Inr split: option.splits)
  qed
qed

text \<open>What the fill keeps: the spend never leaves the budget of the profile.\<close>

definition fill_ok :: "operator_profile \<Rightarrow> fill \<Rightarrow> bool" where
  "fill_ok p f \<longleftrightarrow> fi_budget f = budget_of p \<and>
     0 \<le> al_owner_hours (fi_used f) \<and> al_owner_hours (fi_used f) \<le> p_weekly_owner_hours p \<and>
     0 \<le> al_cash (fi_used f) \<and> al_cash (fi_used f) \<le> p_max_validation_tranche p"

definition profile_budget :: "operator_profile \<Rightarrow> bool" where
  "profile_budget p \<longleftrightarrow> 0 \<le> p_weekly_owner_hours p \<and> p_weekly_owner_hours p < 2 ^ 32 - 1 \<and>
     0 \<le> p_max_validation_tranche p \<and> i64_ok (p_max_validation_tranche p)"

lemma fill_take_spec:
  assumes "fill_ok p f" "profile_budget p" "candidate_ok c" "fill_take f c p = Inr (f', taken)"
  shows "fill_ok p f' \<and>
    (case taken of
       Inl _ \<Rightarrow> f' = f
     | Inr (n, cash, hours) \<Rightarrow> 0 \<le> cash \<and> 0 \<le> hours \<and>
         al_cash (fi_used f') = al_cash (fi_used f) + cash \<and>
         al_owner_hours (fi_used f') = al_owner_hours (fi_used f) + hours)"
proof -
  obtain cost where cost: "stage_cost c p = Inr cost" using assms(4) by (auto simp: fill_take_def rbind_eq_Inr)
  show ?thesis
  proof (cases cost)
    case (Inl why)
    then show ?thesis using assms cost by (auto simp: fill_take_def)
  next
    case (Inr r)
    obtain n cash hours where r: "r = (n, cash, hours)" by (cases r)
    have nn: "0 \<le> cash" "u32_ok hours" using stage_cost_nonneg [OF assms(3)] cost Inr r by auto
    obtain m where m: "minor_checked_add (al_cash (fi_used f)) cash = Inr m"
      using assms(4) cost Inr r by (auto simp: fill_take_def Let_def rbind_eq_Inr)
    then have m': "m = al_cash (fi_used f) + cash"
      by (auto simp: minor_checked_add_def ok_or_def fits_def split: if_splits)
    let ?h = "min (al_owner_hours (fi_used f) + hours) (2 ^ 32 - 1)"
    have "fill_take f c p = (if ?h > bu_owner_hours (fi_budget f) \<or> m > bu_cash (fi_budget f) then
           rbind (raw_sub u32_ok (bu_owner_hours (fi_budget f)) (al_owner_hours (fi_used f))) (\<lambda>hours_left.
           rbind (raw_sub i64_ok (bu_cash (fi_budget f)) (al_cash (fi_used f))) (\<lambda>cash_left.
           Inr (f, Inl (''over budget: stage `'' @ n @ ''` needs '' @ nat_text (nat hours) @ '' h + '' @
             money_text p cash @ ''; '' @ nat_text (nat hours_left) @ '' h + '' @ money_text p cash_left @
             '' left of '' @ nat_text (nat (bu_owner_hours (fi_budget f))) @ '' h + '' @
             money_text p (bu_cash (fi_budget f))))))
         else Inr (f\<lparr>fi_used := \<lparr>al_owner_hours = ?h, al_cash = m\<rparr>\<rparr>, Inr (n, cash, hours)))"
      unfolding fill_take_def cost Inr r rbind_Inr sum.case prod.case Let_def m ..
    with assms(1,2,4) nn m' show ?thesis
      by (auto simp: fill_ok_def budget_of_def profile_budget_def rbind_eq_Inr width_simps split: if_splits)
  qed
qed

text \<open>The spend of the tests among some actions.\<close>

abbreviation spent_cash :: "portfolio_action list \<Rightarrow> minor" where
  "spent_cash as \<equiv> sum_list (map test_cash as)"

abbreviation spent_hours :: "portfolio_action list \<Rightarrow> int" where
  "spent_hours as \<equiv> sum_list (map test_hours as)"

definition fills :: "operator_profile \<Rightarrow> fill \<Rightarrow> portfolio_action list \<Rightarrow> fill \<Rightarrow> bool" where
  "fills p f as f' \<longleftrightarrow> fill_ok p f' \<and> list_all (\<lambda>a. 0 \<le> test_cash a \<and> 0 \<le> test_hours a) as \<and>
     al_cash (fi_used f) + spent_cash as \<le> al_cash (fi_used f') \<and>
     al_owner_hours (fi_used f) + spent_hours as \<le> al_owner_hours (fi_used f')"

lemma fills_Nil: "fill_ok p f \<Longrightarrow> fills p f [] f"
  by (simp add: fills_def)

lemma fills_take:
  assumes "fill_ok p f" "profile_budget p" "candidate_ok c" "fill_take f c p = Inr (f', taken)" "fills p f' as f''"
    and "case taken of Inl _ \<Rightarrow> a = AHold | Inr (n, cash, hours) \<Rightarrow> a = CheapTest cash hours \<or> a = ContinueActive"
  shows "fills p f (a # as) f''"
  using fill_take_spec [OF assms(1-4)] assms(5,6)
  by (cases taken) (auto simp: fills_def split: prod.splits)

lemma by_id_Inr: "by_id cands i = Inr c \<Longrightarrow> c \<in> set cands \<and> as_id (cd_assessment c) = i"
  by (auto simp: by_id_def find_Some_iff rev_nth split: option.splits)

lemma allocate_ranked_spec:
  assumes "allocate_ranked p cands i as f = Inr (f', rows, ns)" "fill_ok p f" "profile_budget p" "list_all candidate_ok cands"
  shows "fills p f (map rr_action rows) f' \<and>
    map (\<lambda>r. (rr_id r, rr_opportunity_version r)) rows = map candidate_of as \<and>
    map rr_rank rows = map (\<lambda>j. int j + 1) [i..<i + length as] \<and>
    map no_id ns = map as_id as"
  using assms
proof (induction as arbitrary: i f f' rows ns)
  case Nil
  then show ?case by (simp add: fills_Nil)
next
  case (Cons a as)
  obtain c where c: "by_id cands (as_id a) = Inr c" using Cons.prems(1) by (auto simp: rbind_eq_Inr)
  obtain g taken where g: "fill_take f c p = Inr (g, taken)" using Cons.prems(1) c by (auto simp: rbind_eq_Inr)
  have ok: "candidate_ok c" using by_id_Inr [OF c] Cons.prems(4) by (auto simp: list_all_iff)
  have gok: "fill_ok p g" using fill_take_spec [OF Cons.prems(2,3) ok g] by blast
  obtain action why where aw: "(case taken of
             Inr (stage, cash, hours) \<Rightarrow>
               (case cd_track c of Active _ \<Rightarrow> ContinueActive | New \<Rightarrow> CheapTest cash hours,
                (''rank '' @ nat_text (i + 1) @ '': '') @ ''stage `'' @ stage @ ''`'')
           | Inl why \<Rightarrow> (AHold, (''rank '' @ nat_text (i + 1) @ '': '') @ why)) = (action, why)"
    by (rule prod.exhaust)
  obtain rows' ns' where rest: "allocate_ranked p cands (i + 1) as g = Inr (f', rows', ns')"
    and out: "rows = ranked_row_of (int i + 1) a (p_rank_order p) action # rows'" "ns = note_of (as_id a) action why # ns'"
    using Cons.prems(1) unfolding allocate_ranked.simps c g rbind_Inr prod.case Let_def aw
    by (auto simp: rbind_eq_Inr)
  have IH: "fills p g (map rr_action rows') f' \<and>
      map (\<lambda>r. (rr_id r, rr_opportunity_version r)) rows' = map candidate_of as \<and>
      map rr_rank rows' = map (\<lambda>j. int j + 1) [i + 1..<i + 1 + length as] \<and> map no_id ns' = map as_id as"
    by (rule Cons.IH [OF rest gok Cons.prems(3,4)])
  have "fills p f (action # map rr_action rows') f'"
    by (rule fills_take [OF Cons.prems(2,3) ok g]) (use IH aw in \<open>auto split: sum.splits prod.splits track.splits\<close>)
  moreover have "[i..<i + length (a # as)] = i # [i + 1..<i + 1 + length as]"
    by (simp add: upt_conv_Cons del: upt_Suc)
  ultimately show ?case using IH by (simp add: out ranked_row_of_def note_of_def del: upt_Suc)
qed

lemma allocate_tests_spec:
  assumes "allocate_tests p cs f = Inr (f', actions, ns)" "fill_ok p f" "profile_budget p" "list_all candidate_ok cs"
  shows "fills p f (map snd actions) f' \<and> map fst actions = map (as_id \<circ> cd_assessment) cs \<and>
    map no_id ns = map (as_id \<circ> cd_assessment) cs \<and>
    list_all (\<lambda>a. a = AHold \<or> (\<exists>c h. a = CheapTest c h)) (map snd actions)"
  using assms
proof (induction cs arbitrary: f f' actions ns)
  case Nil
  then show ?case by (simp add: fills_Nil)
next
  case (Cons c cs)
  obtain g taken where g: "fill_take f c p = Inr (g, taken)" using Cons.prems(1) by (auto simp: rbind_eq_Inr)
  have ok: "candidate_ok c" using Cons.prems(4) by simp
  have gok: "fill_ok p g" using fill_take_spec [OF Cons.prems(2,3) ok g] by blast
  obtain action why where aw: "(case taken of
             Inr (stage, cash, hours) \<Rightarrow>
               (CheapTest cash hours, join '', '' (verdict_labels (as_verdict (cd_assessment c))) @ '': test stage `'' @ stage @ ''`'')
           | Inl why \<Rightarrow> (AHold, why)) = (action, why)"
    by (rule prod.exhaust)
  obtain actions' ns' where rest: "allocate_tests p cs g = Inr (f', actions', ns')"
    and out: "actions = (as_id (cd_assessment c), action) # actions'" "ns = note_of (as_id (cd_assessment c)) action why # ns'"
    using Cons.prems(1) unfolding allocate_tests.simps g rbind_Inr prod.case Let_def aw
    by (auto simp: rbind_eq_Inr)
  have IH: "fills p g (map snd actions') f' \<and> map fst actions' = map (as_id \<circ> cd_assessment) cs \<and>
      map no_id ns' = map (as_id \<circ> cd_assessment) cs \<and>
      list_all (\<lambda>a. a = AHold \<or> (\<exists>c h. a = CheapTest c h)) (map snd actions')"
    by (rule Cons.IH [OF rest gok Cons.prems(3)]) (use Cons.prems(4) in simp)
  have "fills p f (action # map snd actions') f'"
    by (rule fills_take [OF Cons.prems(2,3) ok g]) (use IH aw in \<open>auto split: sum.splits prod.splits\<close>)
  moreover have "action = AHold \<or> (\<exists>c h. action = CheapTest c h)"
    using aw by (auto split: sum.splits prod.splits)
  ultimately show ?case using IH by (simp add: out note_of_def)
qed

text \<open>The actions given without the budget are not tests.\<close>

definition gated_ok :: "portfolio_action \<Rightarrow> bool" where
  "gated_ok a \<longleftrightarrow> test_cash a = 0 \<and> test_hours a = 0"

lemma diligence_Some: "diligence detail c p = Inr (Some a) \<Longrightarrow> \<exists>questions tranche. a = ADiligence questions tranche"
  by (auto simp: diligence_def Let_def rbind_eq_Inr split: if_splits)

lemma gated_action_ok:
  assumes "gated_action hash detail p cited c = Inr (Some (action, why))"
  shows "gated_ok action"
proof (cases "gv_verdict (as_verdict (cd_assessment c)) = Reject")
  case True
  then obtain price where "action = AReject \<or> action = Reprice price"
    using assms unfolding gated_action_def Let_def by (auto simp: rbind_eq_Inr simp del: append.simps split: option.splits)
  then show ?thesis by (auto simp: gated_ok_def)
next
  case False
  then obtain d where "diligence detail c p = Inr d" "(action = AHold \<or> d = Some action)"
    using assms by (auto simp: gated_action_def Let_def rbind_eq_Inr split: option.splits if_splits)
  then show ?thesis using diligence_Some by (fastforce simp: gated_ok_def)
qed

lemma allocate_gated_spec:
  assumes "allocate_gated hash detail p cited cs = Inr (actions, testable, ns)"
  shows "mset (map fst actions) + mset (map (as_id \<circ> cd_assessment) testable) = mset (map (as_id \<circ> cd_assessment) cs) \<and>
    map no_id ns = map fst actions \<and> set testable \<subseteq> set cs \<and> list_all gated_ok (map snd actions)"
  using assms
proof (induction cs arbitrary: actions testable ns)
  case (Cons c cs)
  obtain d where d: "gated_action hash detail p cited c = Inr d" using Cons.prems by (auto simp: rbind_eq_Inr)
  obtain r where r: "allocate_gated hash detail p cited cs = Inr r" using Cons.prems d by (auto simp: rbind_eq_Inr)
  obtain actions' testable' ns' where r': "r = (actions', testable', ns')" by (cases r)
  note IH = Cons.IH [OF r [unfolded r']]
  show ?case
  proof (cases d)
    case None
    then show ?thesis using Cons.prems d r r' IH by (auto simp: Let_def)
  next
    case (Some aw)
    then show ?thesis
      using Cons.prems d r r' IH gated_action_ok [of hash detail p cited c "fst aw" "snd aw"]
      by (cases aw) (auto simp: Let_def note_of_def)
  qed
qed simp

section \<open>The allocated week\<close>

lemma lookup_sum_le:
  fixes g :: "'a \<Rightarrow> int"
  assumes "distinct (map fst A)" "distinct ids" "set ids \<subseteq> fst ` set A" "\<And>i a. (i, a) \<in> set A \<Longrightarrow> 0 \<le> g a"
  shows "sum_list (map (\<lambda>i. g (the (map_of A i))) ids) \<le> sum_list (map (g \<circ> snd) A)"
proof -
  have look: "g (the (map_of A (fst x))) = (g \<circ> snd) x" if "x \<in> set A" for x
    using assms(1) that by (cases x) simp
  have "sum_list (map (\<lambda>i. g (the (map_of A i))) ids) = (\<Sum>i \<in> set ids. g (the (map_of A i)))"
    using assms(2) by (simp add: sum_list_distinct_conv_sum_set)
  also have "\<dots> \<le> (\<Sum>i \<in> set (map fst A). g (the (map_of A i)))"
  proof (rule sum_mono2)
    show "set ids \<subseteq> set (map fst A)" using assms(3) by simp
    show "0 \<le> g (the (map_of A i))" if "i \<in> set (map fst A) - set ids" for i
      using that assms(4) look by fastforce
  qed simp
  also have "\<dots> = sum_list (map (\<lambda>i. g (the (map_of A i))) (map fst A))"
    using assms(1) by (simp only: sum_list_distinct_conv_sum_set)
  also have "\<dots> = sum_list (map (g \<circ> snd) A)"
    using look by (simp add: comp_def cong: map_cong)
  finally show ?thesis .
qed

lemma one_error_Inr [simp]: "one_error m = Inr x \<longleftrightarrow> m = Inr x"
  by (cases m rule: one_error.cases) auto

abbreviation cand_id :: "candidate \<Rightarrow> string" where
  "cand_id c \<equiv> as_id (cd_assessment c)"

abbreviation gated_of :: "candidate list \<Rightarrow> candidate list" where
  "gated_of cands \<equiv> sort_key (\<lambda>c. (cand_id c, as_version (cd_assessment c)))
     (filter (\<lambda>c. \<not> passes (cd_assessment c)) cands)"

abbreviation with_verdict :: "verdict \<Rightarrow> candidate list \<Rightarrow> candidate list" where
  "with_verdict v cs \<equiv> filter (\<lambda>c. gv_verdict (as_verdict (cd_assessment c)) = v) cs"

abbreviation empty_fill :: "operator_profile \<Rightarrow> fill" where
  "empty_fill p \<equiv> \<lparr>fi_budget = budget_of p, fi_used = \<lparr>al_owner_hours = 0, al_cash = 0\<rparr>\<rparr>"

text \<open>The steps of an allocation that returned.\<close>

lemma allocate_steps:
  assumes "allocate hash detail chash head cands p cited = Inr out"
  obtains f f' actions1 actions2 testable ns1 ns2 ns3 where
    "distinct (map cand_id cands)" "same_decision head (map cd_assessment cands) = []"
    "allocate_ranked p cands 0 (rank (map cd_assessment cands) (p_rank_order p)) (empty_fill p) =
       Inr (f, w_ranked (ao_portfolio out), ns1)"
    "allocate_gated hash detail p cited (gated_of cands) = Inr (actions1, testable, ns2)"
    "allocate_tests p (sort_by (\<lambda>a b. compare (cd_assessment a) (cd_assessment b) (p_rank_order p)) testable) f =
       Inr (f', actions2, ns3)"
    "rmapM (allocated_row (actions1 @ actions2)) (with_verdict Hold (gated_of cands)) = Inr (w_held (ao_portfolio out))"
    "rmapM (allocated_row (actions1 @ actions2)) (with_verdict Reject (gated_of cands)) = Inr (w_rejected (ao_portfolio out))"
    "validate_portfolio (ao_portfolio out) = Inr ()" "w_allocation (ao_portfolio out) = fi_used f'"
    "ao_notes out = sort_key no_id (ns1 @ ns2 @ ns3)"
proof -
  let ?all = "map cd_assessment cands"
  have e: "same_decision head ?all = [] \<and> p_unique ''candidates'' (map as_id ?all) = []"
    using assms by (auto simp: allocate_def Let_def split: if_splits)
  have d: "distinct (map cand_id cands)"
    using e by (simp add: problem_simps comp_def)
  from assms e show ?thesis
    by (auto simp: allocate_def Let_def rbind_eq_Inr checked_Inr d intro!: that)
qed

interpretation test_order: comparator "\<lambda>a b. compare (cd_assessment a) (cd_assessment b) order"
    "\<lambda>c. candidate_key order (cd_assessment c)" for order
  by unfold_locales (rule compare_key)

lemma mset_gated: "mset (gated_of cands) = filter_mset (\<lambda>c. \<not> passes (cd_assessment c)) (mset cands)"
  by simp

text \<open>What is known of the steps of an allocation: the rows, the actions and the notes, per candidate.\<close>

lemma allocated_rows:
  assumes "rmapM (allocated_row A) cs = Inr rows" "distinct (map fst A)"
  shows "map row_candidate rows = map (\<lambda>c. candidate_of (cd_assessment c)) cs \<and>
    map gr_action rows = map (\<lambda>c. the (map_of A (cand_id c))) cs \<and> cand_id ` set cs \<subseteq> fst ` set A"
  using assms(1)
proof (induction cs arbitrary: rows)
  case (Cons c cs)
  have m: "map_of (rev A) = map_of A" using assms(2) by (subst map_of_inject_set) (simp_all flip: rev_map)
  obtain row rows' where r: "allocated_row A c = Inr row" "rmapM (allocated_row A) cs = Inr rows'" "rows = row # rows'"
    using Cons.prems by (auto simp: rbind_eq_Inr)
  obtain a where a: "map_of A (cand_id c) = Some a" "row = gated_row_of (cd_assessment c) a"
    using r(1) by (auto simp: allocated_row_def m split: option.splits)
  have "cand_id c \<in> fst ` set A" using map_of_SomeD [OF a(1)] by force
  with Cons.IH [OF r(2)] a r(3) show ?case by (simp add: gated_row_of_def)
qed simp

lemma allocate_actions:
  assumes "allocate_gated hash detail p cited (gated_of cands) = Inr (actions1, testable, ns2)"
    "allocate_tests p (sort_by (\<lambda>a b. compare (cd_assessment a) (cd_assessment b) (p_rank_order p)) testable) f = Inr (f', actions2, ns3)"
    "distinct (map cand_id cands)" "fill_ok p f" "profile_budget p" "list_all candidate_ok cands"
  shows "mset (map fst (actions1 @ actions2)) = mset (map cand_id (gated_of cands))"
    "distinct (map fst (actions1 @ actions2))" "mset (map no_id (ns2 @ ns3)) = mset (map fst (actions1 @ actions2))"
    "list_all gated_ok (map snd actions1)" "fills p f (map snd actions2) f'"
proof -
  let ?s = "sort_by (\<lambda>a b. compare (cd_assessment a) (cd_assessment b) (p_rank_order p)) testable"
  note g = allocate_gated_spec [OF assms(1)]
  have "mset ?s = mset testable" by (rule test_order.sort_by_mset)
  then have st: "set ?s = set testable" "mset (map cand_id ?s) = mset (map cand_id testable)"
    by (metis set_mset_mset, metis mset_map)
  have "list_all candidate_ok ?s"
    using g assms(6) st(1) by (auto simp: list_all_iff)
  note t = allocate_tests_spec [OF assms(2,4,5) this]
  have ids: "mset (map fst (actions1 @ actions2)) = mset (map fst actions1) + mset (map cand_id ?s)"
    using t by (simp add: comp_def)
  show m: "mset (map fst (actions1 @ actions2)) = mset (map cand_id (gated_of cands))"
    unfolding ids st(2) using g by (simp add: comp_def)
  have "distinct (map cand_id (gated_of cands))"
    unfolding distinct_map_sort_key using assms(3) by (simp add: distinct_map_filter)
  then show "distinct (map fst (actions1 @ actions2))"
    using m by (metis mset_eq_imp_distinct_iff)
  show "mset (map no_id (ns2 @ ns3)) = mset (map fst (actions1 @ actions2))"
    using g t by (simp add: comp_def)
  show "list_all gated_ok (map snd actions1)" "fills p f (map snd actions2) f'" using g t by blast+
qed

lemma empty_fill_ok: "profile_budget p \<Longrightarrow> fill_ok p (empty_fill p)"
  by (simp add: fill_ok_def profile_budget_def)

lemma profile_budget_if_validated:
  assumes "validate_profile p = Inr ()" "i64_ok (p_max_validation_tranche p)"
  shows "profile_budget p"
  using assms profile_record.validated_iff [of p]
  by (simp add: profile_problems_Nil profile_rules_def profile_budget_def)

text \<open>
  C10: An allocated week stays within the signed budget. With a validated profile and valid candidates, the
  hours and the cash the week allocates are at most the profile's weekly hours and validation tranche, and
  they cover the sum of all tests the week starts, ranked and held: however many candidates there are and
  whatever currencies their stages are priced in.
\<close>

theorem allocate_within_budget:
  assumes "validate_profile p = Inr ()" "i64_ok (p_max_validation_tranche p)" "list_all candidate_ok cands"
    and "allocate hash detail chash head cands p cited = Inr out"
  shows "let w = ao_portfolio out; tests = map rr_action (w_ranked w) @ map gr_action (w_held w) in
    spent_cash tests \<le> al_cash (w_allocation w) \<and> al_cash (w_allocation w) \<le> p_max_validation_tranche p \<and>
    spent_hours tests \<le> al_owner_hours (w_allocation w) \<and> al_owner_hours (w_allocation w) \<le> p_weekly_owner_hours p"
proof -
  note b = profile_budget_if_validated [OF assms(1,2)]
  obtain f f' A1 A2 testable ns1 ns2 ns3 where
    d: "distinct (map cand_id cands)" and "same_decision head (map cd_assessment cands) = []" and
    rk: "allocate_ranked p cands 0 (rank (map cd_assessment cands) (p_rank_order p)) (empty_fill p) =
       Inr (f, w_ranked (ao_portfolio out), ns1)" and
    gt: "allocate_gated hash detail p cited (gated_of cands) = Inr (A1, testable, ns2)" and
    ts: "allocate_tests p (sort_by (\<lambda>a b. compare (cd_assessment a) (cd_assessment b) (p_rank_order p)) testable) f =
       Inr (f', A2, ns3)" and
    hd: "rmapM (allocated_row (A1 @ A2)) (with_verdict Hold (gated_of cands)) = Inr (w_held (ao_portfolio out))" and
    "rmapM (allocated_row (A1 @ A2)) (with_verdict Reject (gated_of cands)) = Inr (w_rejected (ao_portfolio out))" and
    "validate_portfolio (ao_portfolio out) = Inr ()" and
    al: "w_allocation (ao_portfolio out) = fi_used f'" and
    "ao_notes out = sort_key no_id (ns1 @ ns2 @ ns3)"
    by (rule allocate_steps [OF assms(4)])
  let ?H = "with_verdict Hold (gated_of cands)"
  have r: "fills p (empty_fill p) (map rr_action (w_ranked (ao_portfolio out))) f"
    using allocate_ranked_spec [OF rk empty_fill_ok [OF b] b assms(3)] by blast
  then have f: "fill_ok p f" by (simp add: fills_def)
  note a = allocate_actions [OF gt ts d f b assms(3)]
  note rows = allocated_rows [OF hd a(2)]
  have "distinct (map cand_id (gated_of cands))"
    unfolding distinct_map_sort_key using d by (simp add: distinct_map_filter)
  then have dh: "distinct (map cand_id ?H)" by (simp add: distinct_map_filter)
  have nn: "0 \<le> test_cash x \<and> 0 \<le> test_hours x" if "(i, x) \<in> set (A1 @ A2)" for i x
    using that a(4,5) by (force simp: list_all_iff gated_ok_def fills_def)
  have le: "sum_list (map g (map gr_action (w_held (ao_portfolio out)))) \<le> sum_list (map g (map snd A2))"
    if "\<And>x. gated_ok x \<Longrightarrow> g x = 0" "\<And>i x. (i, x) \<in> set (A1 @ A2) \<Longrightarrow> 0 \<le> g x" for g :: "portfolio_action \<Rightarrow> int"
  proof -
    have z: "sum_list (map (g \<circ> snd) A1) = 0"
      using a(4) that(1) by (induction A1) auto
    have "sum_list (map g (map gr_action (w_held (ao_portfolio out)))) =
        sum_list (map (\<lambda>i. g (the (map_of (A1 @ A2) i))) (map cand_id ?H))"
      using rows by (simp add: comp_def)
    also have "\<dots> \<le> sum_list (map (g \<circ> snd) (A1 @ A2))"
      by (rule lookup_sum_le [OF a(2) dh]) (use rows that(2) in auto)
    finally show ?thesis using z by (simp add: comp_def)
  qed
  show ?thesis
    using r a(5) le [of test_cash] le [of test_hours] nn
    by (simp add: al fills_def fill_ok_def gated_ok_def Let_def)
qed

text \<open>
  C11: An allocated week is a valid record that accounts for every candidate once: the passing ones are
  ranked in the order of \<open>rank\<close>, the held and the rejected ones are listed under their verdict, each with
  the version that was assessed, and the notes give one reason per candidate in the order of the ids.
\<close>

theorem allocate_accounts_for_all:
  assumes "validate_profile p = Inr ()" "i64_ok (p_max_validation_tranche p)" "list_all candidate_ok cands"
    and "allocate hash detail chash head cands p cited = Inr out"
  shows "let w = ao_portfolio out; all = map cd_assessment cands in
    validate_portfolio w = Inr () \<and>
    map (\<lambda>r. (rr_id r, rr_opportunity_version r)) (w_ranked w) = map candidate_of (rank all (p_rank_order p)) \<and>
    image_mset row_candidate (mset (w_held w)) =
      image_mset candidate_of (filter_mset (\<lambda>a. gv_verdict (as_verdict a) = Hold) (mset all)) \<and>
    image_mset row_candidate (mset (w_rejected w)) =
      image_mset candidate_of (filter_mset (\<lambda>a. gv_verdict (as_verdict a) = Reject) (mset all)) \<and>
    map no_id (ao_notes out) = sort (map as_id all)"
proof -
  note b = profile_budget_if_validated [OF assms(1,2)]
  obtain f f' A1 A2 testable ns1 ns2 ns3 where
    d: "distinct (map cand_id cands)" and "same_decision head (map cd_assessment cands) = []" and
    rk: "allocate_ranked p cands 0 (rank (map cd_assessment cands) (p_rank_order p)) (empty_fill p) =
       Inr (f, w_ranked (ao_portfolio out), ns1)" and
    gt: "allocate_gated hash detail p cited (gated_of cands) = Inr (A1, testable, ns2)" and
    ts: "allocate_tests p (sort_by (\<lambda>a b. compare (cd_assessment a) (cd_assessment b) (p_rank_order p)) testable) f =
       Inr (f', A2, ns3)" and
    hd: "rmapM (allocated_row (A1 @ A2)) (with_verdict Hold (gated_of cands)) = Inr (w_held (ao_portfolio out))" and
    rj: "rmapM (allocated_row (A1 @ A2)) (with_verdict Reject (gated_of cands)) = Inr (w_rejected (ao_portfolio out))" and
    v: "validate_portfolio (ao_portfolio out) = Inr ()" and
    al: "w_allocation (ao_portfolio out) = fi_used f'" and
    ns: "ao_notes out = sort_key no_id (ns1 @ ns2 @ ns3)"
    by (rule allocate_steps [OF assms(4)])
  note r = allocate_ranked_spec [OF rk empty_fill_ok [OF b] b assms(3)]
  then have f: "fill_ok p f" by (simp add: fills_def)
  note a = allocate_actions [OF gt ts d f b assms(3)]
  have rows: "image_mset row_candidate (mset rows) =
      image_mset candidate_of (filter_mset (\<lambda>a. gv_verdict (as_verdict a) = vd) (mset (map cd_assessment cands)))"
    if "rmapM (allocated_row (A1 @ A2)) (with_verdict vd (gated_of cands)) = Inr rows" "vd \<noteq> Pass" for rows vd
  proof -
    have "image_mset row_candidate (mset rows) = mset (map (\<lambda>c. candidate_of (cd_assessment c)) (with_verdict vd (gated_of cands)))"
      using allocated_rows [OF that(1) a(2)] by (simp only: flip: mset_map)
    also have "\<dots> = image_mset (\<lambda>c. candidate_of (cd_assessment c))
        (filter_mset (\<lambda>c. gv_verdict (as_verdict (cd_assessment c)) = vd) (mset cands))"
      using that(2) by (auto simp: filter_filter_mset passes_def intro!: arg_cong [of _ _ "image_mset _"] filter_mset_cong)
    finally show ?thesis
      by (simp add: filter_mset_image_mset multiset.map_comp comp_def)
  qed
  have "mset (map no_id (ns1 @ ns2 @ ns3)) = mset (map cand_id cands)"
  proof -
    have "mset (map no_id ns1) = mset (map as_id (filter passes (map cd_assessment cands)))"
      using r by (simp add: rank_sort)
    moreover have "mset (map no_id (ns2 @ ns3)) = mset (map cand_id (filter (\<lambda>c. \<not> passes (cd_assessment c)) cands))"
      unfolding a(3) a(1) by simp
    moreover have "mset (map cand_id cands) = mset (map as_id (filter passes (map cd_assessment cands))) +
        mset (map cand_id (filter (\<lambda>c. \<not> passes (cd_assessment c)) cands))"
      by (induction cands) auto
    ultimately show ?thesis by simp
  qed
  then have "mset (map no_id (ao_notes out)) = mset (map as_id (map cd_assessment cands))"
    by (simp add: ns comp_def)
  then have "sort (map as_id (map cd_assessment cands)) = map no_id (ao_notes out)"
    by (rule properties_for_sort) (simp add: ns)
  with v r rows [OF hd] rows [OF rj] show ?thesis by (simp add: Let_def)
qed

section \<open>No panic\<close>

definition calm :: "('e, 'a) res \<Rightarrow> bool" where
  "calm m \<longleftrightarrow> m \<noteq> Inl Panic"

named_theorems calm_intros "fallible code that does not panic"

lemma calm_simps [simp]: "calm (Inr x)" "calm (Inl (Err e))" "\<not> calm (Inl Panic)"
  by (simp_all add: calm_def)

lemma calm_bind [calm_intros]: "calm m \<Longrightarrow> (\<And>x. m = Inr x \<Longrightarrow> calm (f x)) \<Longrightarrow> calm (rbind m f)"
  by (cases m) (auto simp: calm_def)

lemma calm_bind3: "calm m \<Longrightarrow> (\<And>a b c. m = Inr (a, b, c) \<Longrightarrow> calm (f a b c)) \<Longrightarrow> calm (rbind m (\<lambda>(a, b, c). f a b c))"
  by (rule calm_bind) (auto split: prod.splits)

lemma calm_one_error [calm_intros]: "calm m \<Longrightarrow> calm (one_error m)"
  by (cases m rule: one_error.cases) (auto simp: calm_def)

lemma calm_checked [calm_intros]: "calm (checked v x)"
  by (simp add: checked_def calm_def split: sum.splits)

lemma calm_rmapM [calm_intros]: "(\<And>x. x \<in> set xs \<Longrightarrow> calm (f x)) \<Longrightarrow> calm (rmapM f xs)"
  by (induction xs) (auto intro!: calm_intros)

lemma calm_runs: "runs P m \<Longrightarrow> calm m"
  by (auto simp: runs_def calm_def split: sum.splits)

lemma calm_to_currency [calm_intros]: "econ_ok e \<Longrightarrow> i64_ok a \<Longrightarrow> calm (to_currency e c a fl)"
  by (rule calm_runs [OF to_currency_runs])

lemma candidate_ok_stage:
  assumes "candidate_ok c" "o_experiment (cd_opportunity c) = Some x" "s \<in> set (x_stages x)"
  shows "i64_ok (s_cash s)"
  using assms by (auto simp: candidate_ok_def Let_def amounts_typed_def list_all_iff)

lemma candidate_ok_econ: "candidate_ok c \<Longrightarrow> econ_ok (o_economics (cd_opportunity c))"
  by (simp add: candidate_ok_def Let_def)

lemma calm_stage_cost: "candidate_ok c \<Longrightarrow> calm (stage_cost c p)"
  by (auto simp: stage_cost_def Let_def candidate_ok_stage candidate_ok_econ intro!: calm_intros split: option.splits)

lemma calm_fill_take:
  assumes "fill_ok p f" "profile_budget p" "candidate_ok c"
  shows "calm (fill_take f c p)"
proof -
  have "raw_sub u32_ok (bu_owner_hours (fi_budget f)) (al_owner_hours (fi_used f)) \<noteq> Inl Panic"
    "raw_sub i64_ok (bu_cash (fi_budget f)) (al_cash (fi_used f)) \<noteq> Inl Panic"
    using assms(1,2) by (auto simp: raw_sub_def fill_ok_def budget_of_def profile_budget_def width_simps)
  then have sub: "calm (raw_sub u32_ok (bu_owner_hours (fi_budget f)) (al_owner_hours (fi_used f)))"
    "calm (raw_sub i64_ok (bu_cash (fi_budget f)) (al_cash (fi_used f)))" by (simp_all add: calm_def)
  have add: "calm (minor_checked_add a b)" for a b
    by (simp add: calm_def minor_checked_add_def ok_or_def split: option.splits)
  show ?thesis
    unfolding fill_take_def
    by (rule calm_bind [OF calm_stage_cost [OF assms(3)]])
      (auto simp: Let_def split: sum.splits prod.splits intro!: calm_intros sub add)
qed

lemma by_id_calm: "a \<in> set (map cd_assessment cands) \<Longrightarrow> calm (by_id cands (as_id a))"
  by (auto simp: by_id_def calm_def find_None_iff split: option.splits)

lemma calm_allocate_ranked:
  assumes "set as \<subseteq> set (map cd_assessment cands)" "fill_ok p f" "profile_budget p" "list_all candidate_ok cands"
  shows "calm (allocate_ranked p cands i as f)"
  using assms
proof (induction as arbitrary: i f)
  case (Cons a as)
  have rest: "calm (allocate_ranked p cands (i + 1) as g)" if "fill_ok p g" for g
    using Cons.IH [of g "i + 1"] Cons.prems that by simp
  have "calm (by_id cands (as_id a))" using Cons.prems(1) by (intro by_id_calm) simp
  moreover have "calm (fill_take f c p)" "\<And>g t. fill_take f c p = Inr (g, t) \<Longrightarrow> fill_ok p g"
    if "by_id cands (as_id a) = Inr c" for c
  proof -
    have "candidate_ok c" using by_id_Inr [OF that] Cons.prems(4) by (auto simp: list_all_iff)
    then show "calm (fill_take f c p)" "\<And>g t. fill_take f c p = Inr (g, t) \<Longrightarrow> fill_ok p g"
      using calm_fill_take fill_take_spec Cons.prems by blast+
  qed
  ultimately show ?case
    using rest unfolding allocate_ranked.simps Let_def by (auto intro!: calm_bind split: prod.splits)
qed simp

lemma calm_allocate_tests:
  assumes "fill_ok p f" "profile_budget p" "list_all candidate_ok cs"
  shows "calm (allocate_tests p cs f)"
  using assms
proof (induction cs arbitrary: f)
  case (Cons c cs)
  have "calm (fill_take f c p)" "\<And>g t. fill_take f c p = Inr (g, t) \<Longrightarrow> fill_ok p g"
    using calm_fill_take fill_take_spec Cons.prems by auto
  then show ?case
    using Cons.IH Cons.prems unfolding allocate_tests.simps Let_def by (auto intro!: calm_bind split: prod.splits)
qed simp

lemma calm_diligence:
  assumes "candidate_ok c"
  shows "calm (diligence detail c p)"
proof -
  have "calm (to_currency (o_economics (cd_opportunity c)) (p_currency p) (s_cash s) Outflow)"
    if sp: "Option.bind (o_experiment (cd_opportunity c)) first_spend = Some (i, s)" for i s
  proof -
    obtain x where x: "o_experiment (cd_opportunity c) = Some x" "first_spend x = Some (i, s)"
      using sp by (auto simp: bind_eq_Some_conv)
    then have "(i, s) \<in> set (enumerate 0 (x_stages x))"
      unfolding first_spend_def find_Some_iff by (metis nth_mem)
    then have "s \<in> set (x_stages x)" by (auto simp: in_set_enumerate_eq)
    from candidate_ok_stage [OF assms x(1) this] candidate_ok_econ [OF assms] show ?thesis by (intro calm_intros)
  qed
  then show ?thesis
    by (auto simp: diligence_def Let_def intro!: calm_bind split: option.splits)
qed


lemma with_base_price_ok:
  assumes "econ_ok (o_economics opp)" "price_field (e_revenue (o_economics opp)) = Some field" "amount_ok price"
  shows "econ_ok (o_economics (with_base_price opp field price))"
proof -
  obtain a w where m: "input_mut (o_economics opp) field = Some (MAmount a w)"
    "econ_input (o_economics opp) field = Some (IAmount a)" "w a = o_economics opp"
    using price_input [OF assms(2)] .
  show ?thesis
  proof (cases "a_value a")
    case (EUnknown r)
    then show ?thesis using m assms(1) by (simp add: with_base_price_def)
  next
    case (Range l b h)
    let ?a = "a\<lparr>a_value := Range (min l price) price (max h price)\<rparr>"
    have "input_ok (IAmount ?a)"
      using econ_input_ok [OF assms(1) m(2)] assms(3) Range by (auto simp: min_def max_def)
    moreover have "econ_inputs (w ?a) = set_input field (IAmount ?a) (econ_inputs (o_economics opp)) \<and>
        same_frame (o_economics opp) (w ?a)"
      using input_mut_write [OF m(1), of "IAmount ?a" "w ?a"] by simp
    ultimately have "econ_ok (w ?a)"
      using assms(1) list_all_set_input by (simp add: econ_ok_def same_frame_def)
    then show ?thesis using m(1) Range by (simp add: with_base_price_def)
  qed
qed

lemma with_base_price_rest:
  "\<exists>e. with_base_price opp field price = opp\<lparr>o_economics := e\<rparr>"
proof -
  have "with_base_price opp field price = opp\<lparr>o_economics := o_economics (with_base_price opp field price)\<rparr>"
    by (simp add: with_base_price_def split: option.splits input_mut.splits est.splits)
  then show ?thesis by blast
qed

text \<open>The profile's parameters as their types and the validation leave them.\<close>

definition profile_ok :: "operator_profile \<Rightarrow> bool" where
  "profile_ok p \<longleftrightarrow> validate_profile p = Inr () \<and> i64_ok (p_shadow_hourly_rate p) \<and> i64_ok (p_max_validation_tranche p)"

lemma calm_price_clears:
  assumes "candidate_ok c" "cd_opportunity c = opp" "profile_ok p" "\<And>o1 q. calm (hash o1 q)"
    "price_field (e_revenue (o_economics opp)) = Some field" "amount_ok price"
  shows "calm (price_clears hash opp field cited p t price)"
proof -
  let ?o = "with_base_price opp field price"
  obtain e where e: "?o = opp\<lparr>o_economics := e\<rparr>" using with_base_price_rest by blast
  have ok: "econ_ok (o_economics ?o)" "risk_ok (o_risk ?o)" "amounts_typed ?o"
    using with_base_price_ok [OF _ assms(5,6)] assms(1,2) e
    by (simp_all add: candidate_ok_def Let_def amounts_typed_def)
  have "f \<noteq> Panic" if "gates hash ?o cited p t = Inl f" for f
    using gates_Inl [OF ok _ _ that] assms(3,4) by (auto simp: profile_ok_def calm_def)
  then have "calm (gates hash ?o cited p t)" by (auto simp: calm_def)
  then show ?thesis unfolding price_clears_def by (rule calm_bind) simp
qed


lemma base_priceD:
  assumes "base_price opp = Some (field, b)" "econ_ok (o_economics opp)"
  shows "price_field (e_revenue (o_economics opp)) = Some field \<and> amount_ok b"
proof -
  obtain a where a: "price_field (e_revenue (o_economics opp)) = Some field"
    "econ_input (o_economics opp) field = Some (IAmount a)" "est_base (a_value a) = Some b"
    using assms(1) by (auto simp: base_price_def split: option.splits input.splits)
  with econ_input_ok [OF assms(2) a(2)] show ?thesis by (cases "a_value a") auto
qed

lemma calm_min_price:
  assumes "candidate_ok c" "profile_ok p" "\<And>o1 q. calm (hash o1 q)"
  shows "calm (min_price hash (cd_opportunity c) v cited p)"
proof (cases "price_fixable v \<and> base_price (cd_opportunity c) \<noteq> None")
  case False
  then show ?thesis by (cases "base_price (cd_opportunity c)") (simp_all add: min_price_eq)
next
  case True
  let ?o = "cd_opportunity c"
  obtain field b where fb: "base_price ?o = Some (field, b)" using True by auto
  have e: "econ_ok (o_economics ?o)" by (rule candidate_ok_econ [OF assms(1)])
  note pb = base_priceD [OF fb e]
  let ?t = "price_clears hash ?o field cited p (gv_as_of v)" and ?s = "if b > 0 then b else 1"
  have t: "calm (?t q)" if "0 \<le> q" "i64_ok q" for q
    using calm_price_clears [OF assms(1) refl assms(2,3)] pb that by (simp add: amount_ok_def)
  have s: "0 < ?s" "b \<le> ?s" "0 \<le> b" using pb by (auto simp: amount_ok_def)
  have d: "case price_double ?t b ?s of
      Inr None \<Rightarrow> \<forall>k. i64_ok (?s * 2 ^ Suc k) \<longrightarrow> ?t (?s * 2 ^ Suc k) = Inr False
    | Inr (Some (l, h)) \<Rightarrow> refused_price ?t b l \<and> ?t h = Inr True \<and> l < h \<and> b \<le> l \<and> i64_ok h
    | Inl e \<Rightarrow> \<exists>k. i64_ok (?s * 2 ^ Suc k) \<and> ?t (?s * 2 ^ Suc k) = Inl e"
    by (rule price_double_spec [OF s(1,2)]) (simp add: refused_price_def)
  have "calm (price_double ?t b ?s)"
  proof (cases "price_double ?t b ?s")
    case (Inl x)
    then obtain k where "i64_ok (?s * 2 ^ Suc k)" "?t (?s * 2 ^ Suc k) = Inl x" using d by auto
    then show ?thesis using t [of "?s * 2 ^ Suc k"] s(1) Inl by (simp add: calm_def)
  qed simp
  moreover have "calm (price_search ?t l h) \<and> (\<forall>q. price_search ?t l h = Inr q \<longrightarrow> i64_ok q)"
    if "price_double ?t b ?s = Inr (Some (l, h))" for l h
  proof -
    have lh: "refused_price ?t b l" "?t h = Inr True" "l < h" "0 \<le> l" "i64_ok h" using d that s(3) by auto
    note sp = price_search_spec [OF lh]
    show ?thesis
    proof (cases "price_search ?t l h")
      case (Inl x)
      then obtain q where "l < q" "q < h" "?t q = Inl x" using sp by auto
      then show ?thesis using t [of q] lh Inl by (simp add: calm_def width_simps)
    next
      case (Inr q)
      then show ?thesis using sp lh by (simp add: width_simps)
    qed
  qed
  ultimately show ?thesis
    using True fb e by (auto simp: min_price_eq intro!: calm_bind calm_to_currency split: option.splits)
qed

lemma calm_gated_action:
  assumes "candidate_ok c" "profile_ok p" "\<And>o1 q. calm (hash o1 q)"
  shows "calm (gated_action hash detail p cited c)"
  unfolding gated_action_def Let_def
  by (auto intro!: calm_bind calm_min_price calm_diligence assms)

lemma calm_allocate_gated:
  assumes "list_all candidate_ok cs" "profile_ok p" "\<And>o1 q. calm (hash o1 q)"
  shows "calm (allocate_gated hash detail p cited cs)"
  using assms(1)
proof (induction cs)
  case (Cons c cs)
  then show ?case
    by (auto simp: Let_def intro!: calm_bind calm_gated_action assms(2,3) split: prod.splits)
qed simp

text \<open>
  C12: Allocating never panics: with a validated profile, valid candidates and a hash that does not panic,
  every lookup by id finds its entry, no subtraction of the budget or of prices underflows, and every
  failure is an error of the interface.
\<close>

theorem allocate_never_panics:
  assumes "profile_ok p" "list_all candidate_ok cands" "\<And>o1 q. hash o1 q \<noteq> Inl Panic"
  shows "allocate hash detail chash head cands p cited \<noteq> Inl Panic"
proof -
  have h: "calm (hash o1 q)" for o1 q using assms(3) by (simp add: calm_def)
  note b = profile_budget_if_validated [of p]
  have pb: "profile_budget p" using assms(1) b by (simp add: profile_ok_def)
  let ?all = "map cd_assessment cands" and ?order = "p_rank_order p"
  have rk: "calm (allocate_ranked p cands 0 (rank ?all ?order) (empty_fill p))"
    by (rule calm_allocate_ranked [OF _ empty_fill_ok [OF pb] pb assms(2)]) (auto simp: rank_sort)
  have gok: "list_all candidate_ok (gated_of cands)" using assms(2) by (auto simp: list_all_iff)
  have gt: "calm (allocate_gated hash detail p cited (gated_of cands))"
    by (rule calm_allocate_gated [OF gok assms(1) h])
  have rest: "calm (allocate_tests p (sort_by (\<lambda>a b. compare (cd_assessment a) (cd_assessment b) ?order) testable) f)"
    "\<And>f' A2 ns3 v. allocate_tests p (sort_by (\<lambda>a b. compare (cd_assessment a) (cd_assessment b) ?order) testable) f = Inr (f', A2, ns3) \<Longrightarrow>
      calm (rmapM (allocated_row (A1 @ A2)) (with_verdict v (gated_of cands)))"
    if r: "allocate_ranked p cands 0 (rank ?all ?order) (empty_fill p) = Inr (f, rows, ns1)"
      and g: "allocate_gated hash detail p cited (gated_of cands) = Inr (A1, testable, ns2)"
      and d: "distinct (map cand_id cands)" for f rows ns1 A1 testable ns2
  proof -
    have f: "fill_ok p f"
      using allocate_ranked_spec [OF r empty_fill_ok [OF pb] pb assms(2)] by (simp add: fills_def)
    have "set (sort_by (\<lambda>a b. compare (cd_assessment a) (cd_assessment b) ?order) testable) \<subseteq> set (gated_of cands)"
      unfolding mset_eq_setD [OF test_order.sort_by_mset] using allocate_gated_spec [OF g] by blast
    then show "calm (allocate_tests p (sort_by (\<lambda>a b. compare (cd_assessment a) (cd_assessment b) ?order) testable) f)"
      using gok by (intro calm_allocate_tests [OF f pb]) (auto simp: list_all_iff)
    fix f' A2 ns3 v
    assume t: "allocate_tests p (sort_by (\<lambda>a b. compare (cd_assessment a) (cd_assessment b) ?order) testable) f = Inr (f', A2, ns3)"
    have "set (map fst (A1 @ A2)) = set (map cand_id (gated_of cands))"
      using allocate_actions(1) [OF g t d f pb assms(2)] by (metis set_mset_mset)
    then have "cand_id c \<in> fst ` set (A1 @ A2)" if "c \<in> set (gated_of cands)" for c
      using that by auto
    then have "calm (allocated_row (A1 @ A2) c)" if "c \<in> set (gated_of cands)" for c
      using that by (auto simp: allocated_row_def calm_def map_of_eq_None_iff split: option.splits)
    then show "calm (rmapM (allocated_row (A1 @ A2)) (with_verdict v (gated_of cands)))"
      by (intro calm_rmapM) auto
  qed
  have "schema_tag_v1 ''weekly_portfolio'' = Inr \<lparr>st_record = ''weekly_portfolio'', st_version = 1\<rparr>" by code_simp
  then have schema: "calm (schema_tag_v1 ''weekly_portfolio'')" by simp
  have "calm (allocate hash detail chash head cands p cited)"
  proof (cases "same_decision head ?all @ map fst (p_unique ''candidates'' (map as_id ?all)) = []")
    case False
    then show ?thesis unfolding allocate_def Let_def by (simp only: if_True not_False_eq_True calm_simps)
  next
    case True
    then have d: "distinct (map cand_id cands)" by (simp add: problem_simps comp_def)
    have none: "\<not> (same_decision head ?all @ map fst (p_unique ''candidates'' (map as_id ?all)) \<noteq> [])"
      using True by blast
    show ?thesis
      unfolding allocate_def Let_def if_not_P [OF none]
      apply (rule calm_bind3 [OF calm_one_error [OF rk]], simp only: one_error_Inr)
      apply (rule calm_bind3 [OF calm_one_error [OF gt]], simp only: one_error_Inr)
      apply (rule calm_bind3 [OF calm_one_error [OF rest(1)]], assumption, assumption, rule d, simp only: one_error_Inr)
      apply (intro calm_bind calm_one_error calm_checked rest(2) schema d; assumption)
      done
  qed
  then show ?thesis by (simp add: calm_def)
qed

section \<open>Concrete weeks\<close>

abbreviation sha_ok :: econ_hash where "sha_ok \<equiv> (\<lambda>_ _. Inr ''sha'')"

abbreviation detail_text :: "gate_failure \<Rightarrow> string" where "detail_text \<equiv> (\<lambda>_. ''detail'')"

definition week_sha :: alloc_hash where "week_sha = (\<lambda>_. replicate 64 CHR ''b'')"

text \<open>A passing candidate, one whose contribution is below target with a path, and a rejected one.\<close>

definition sample_cands :: "candidate list" where
  "sample_cands =
     [\<lparr>cd_opportunity = sample_opportunity HighTicketDelivery sample_one_off,
       cd_assessment = sample_candidate ''opp-1'' [] TLow, cd_track = Active 1\<rparr>,
      \<lparr>cd_opportunity = sample_opportunity HighTicketDelivery sample_one_off,
       cd_assessment = sample_candidate ''opp-2'' [hold BelowTargetWithPath ''experiment''] TLow, cd_track = New\<rparr>,
      \<lparr>cd_opportunity = sample_opportunity PartnerRevshare sample_share,
       cd_assessment = sample_candidate ''opp-3'' [reject DealRedFlag ''deal.legal''] TLow, cd_track = New\<rparr>]"

lemma sample_profile_ok: "profile_ok sample_profile"
  by code_simp

lemma sample_cands_ok: "list_all candidate_ok sample_cands"
  by code_simp

lemma sample_allocated:
  "\<exists>out. allocate sha_ok detail_text week_sha sample_head sample_cands sample_profile sample_cited = Inr out \<and>
     map gr_action (w_held (ao_portfolio out)) = [CheapTest 0 5] \<and> al_owner_hours (w_allocation (ao_portfolio out)) = 10"
proof -
  have "case allocate sha_ok detail_text week_sha sample_head sample_cands sample_profile sample_cited of
      Inr out \<Rightarrow> map gr_action (w_held (ao_portfolio out)) = [CheapTest 0 5] \<and> al_owner_hours (w_allocation (ao_portfolio out)) = 10
    | Inl _ \<Rightarrow> False" by code_simp
  then show ?thesis by (auto split: sum.splits)
qed

theorem allocate_within_budget_witness:
  "\<exists>out. allocate sha_ok detail_text week_sha sample_head sample_cands sample_profile sample_cited = Inr out \<and>
     al_owner_hours (w_allocation (ao_portfolio out)) \<le> p_weekly_owner_hours sample_profile \<and>
     spent_hours (map rr_action (w_ranked (ao_portfolio out)) @ map gr_action (w_held (ao_portfolio out))) \<le> 10"
proof -
  obtain out where o: "allocate sha_ok detail_text week_sha sample_head sample_cands sample_profile sample_cited = Inr out"
    "al_owner_hours (w_allocation (ao_portfolio out)) = 10" using sample_allocated by blast
  have "validate_profile sample_profile = Inr ()" "i64_ok (p_max_validation_tranche sample_profile)"
    using sample_profile_ok by (simp_all add: profile_ok_def)
  from allocate_within_budget [OF this sample_cands_ok o(1)] o show ?thesis by (auto simp: Let_def)
qed

theorem allocate_accounts_for_all_witness:
  "\<exists>out. allocate sha_ok detail_text week_sha sample_head sample_cands sample_profile sample_cited = Inr out \<and>
     map no_id (ao_notes out) = sort (map as_id (map cd_assessment sample_cands))"
proof -
  obtain out where o: "allocate sha_ok detail_text week_sha sample_head sample_cands sample_profile sample_cited = Inr out"
    using sample_allocated by blast
  have "validate_profile sample_profile = Inr ()" "i64_ok (p_max_validation_tranche sample_profile)"
    using sample_profile_ok by (simp_all add: profile_ok_def)
  from allocate_accounts_for_all [OF this sample_cands_ok o(1)] o show ?thesis by (auto simp: Let_def)
qed

theorem allocate_never_panics_witness:
  "allocate sha_ok detail_text week_sha sample_head sample_cands sample_profile sample_cited \<noteq> Inl Panic"
  by (rule allocate_never_panics [OF sample_profile_ok sample_cands_ok]) simp

text \<open>A deal without costs that only needs a price of three minor units.\<close>

definition cheap_deal :: opportunity where
  "cheap_deal = (sample_opportunity HighTicketDelivery sample_one_off)\<lparr>o_economics :=
     (plain_one_off\<lparr>e_revenue := OneOff (given 1 1 1) (given 10000 10000 10000) (given 4 4 4) (given 0 0 0) (given 0 0 0),
        e_initial := \<lparr>ic_acquisition = given 0 0 0, ic_setup = given 0 0 0, ic_validation = given 0 0 0,
          ic_working_capital = given 0 0 0\<rparr>\<rparr>)\<rparr>"

definition cheap_profile :: operator_profile where
  "cheap_profile = sample_profile\<lparr>p_min_monthly_contribution := 3\<rparr>"

theorem min_price_is_tight_witness:
  "\<exists>v. gates sha_ok cheap_deal sample_cited cheap_profile (At 1500) = Inr v \<and> gv_verdict v = Reject \<and>
     min_price sha_ok cheap_deal v sample_cited cheap_profile = Inr (Some 3) \<and>
     (\<exists>price > 1. price_clears sha_ok cheap_deal f_CONTRACT_VALUE sample_cited cheap_profile (gv_as_of v) (price - 1) = Inr False)"
proof -
  have "case gates sha_ok cheap_deal sample_cited cheap_profile (At 1500) of
      Inr v \<Rightarrow> gv_verdict v = Reject \<and> gv_as_of v = At 1500 \<and> min_price sha_ok cheap_deal v sample_cited cheap_profile = Inr (Some 3)
    | Inl _ \<Rightarrow> False" by code_simp
  then obtain v where v: "gates sha_ok cheap_deal sample_cited cheap_profile (At 1500) = Inr v" "gv_verdict v = Reject"
    "gv_as_of v = At 1500" "min_price sha_ok cheap_deal v sample_cited cheap_profile = Inr (Some 3)"
    by (auto split: sum.splits)
  have "econ_ok (o_economics cheap_deal)" "base_price cheap_deal = Some (f_CONTRACT_VALUE, 1)" by code_simp+
  with min_price_is_tight [OF this(1), of sha_ok sample_cited cheap_profile v v] v show ?thesis by auto
qed

text \<open>A deal in euros that is never won in the base case, for an operator who counts in tenge.\<close>

definition kzt_rate :: fx_rate where
  "kzt_rate = \<lparr>fx_pair = \<lparr>cp_base = Eur, cp_quote = Kzt\<rparr>, fx_rate_e8 = 50000000000, fx_source = LUnknown, fx_as_of = At 100\<rparr>"

definition stuck_deal :: opportunity where
  "stuck_deal = (let o1 = sample_opportunity HighTicketDelivery
       (OneOff (given 15000000000000000 15000000000000000 15000000000000000) (given 0 0 10000) (given 4 4 4)
         (given 0 0 0) (given 0 0 0))
     in o1\<lparr>o_economics := (o_economics o1)\<lparr>e_fx := Some kzt_rate\<rparr>\<rparr>)"

definition kzt_profile :: operator_profile where
  "kzt_profile = sample_profile\<lparr>p_currency := Kzt, p_max_cash_exposure := 50000000, p_max_validation_tranche := 10000000\<rparr>"

definition in_kzt :: "assessment \<Rightarrow> assessment" where
  "in_kzt a = a\<lparr>as_scenarios := (as_scenarios a)\<lparr>sc_currency := Kzt\<rparr>\<rparr>"

definition stuck_week :: "candidate list" where
  "stuck_week =
     [\<lparr>cd_opportunity = sample_opportunity HighTicketDelivery sample_one_off,
       cd_assessment = in_kzt (sample_candidate ''opp-1'' [] TLow), cd_track = New\<rparr>,
      \<lparr>cd_opportunity = stuck_deal,
       cd_assessment = in_kzt (sample_candidate ''opp-2'' [reject PaybackAboveMax ''payback''] TLow), cd_track = New\<rparr>]"

text \<open>
  One candidate that no price can clear can fail the whole week. A validated deal in euros with a base
  win probability of zero is rejected on its payback alone; doubling its price overflows the amounts of
  the upside in the operator's currency before it leaves the range of prices, and \<open>min_price\<close> returns
  that error instead of \<open>None\<close>, so the week is refused although without the candidate it is allocated.
\<close>

lemma unpriceable_candidate_fails_the_week:
  "validate_opportunity stuck_deal = Inr () \<and> validate_profile kzt_profile = Inr () \<and>
   (case gates sha_ok stuck_deal sample_cited kzt_profile (At 1500) of
      Inr v \<Rightarrow> price_fixable v \<and> min_price sha_ok stuck_deal v sample_cited kzt_profile = Inl (Err OVERFLOW)
    | Inl _ \<Rightarrow> False) \<and>
   allocate sha_ok detail_text week_sha (sample_head\<lparr>wh_currency := Kzt\<rparr>) stuck_week kzt_profile sample_cited =
     Inl (Err [OVERFLOW]) \<and>
   (case allocate sha_ok detail_text week_sha (sample_head\<lparr>wh_currency := Kzt\<rparr>) (take 1 stuck_week) kzt_profile
       sample_cited of
      Inr out \<Rightarrow> map rr_id (w_ranked (ao_portfolio out)) = [''opp-1''] | Inl _ \<Rightarrow> False)"
  by (intro conjI; code_simp)

end
