(* ===== verification/Soe_Value_Props.thy ===== *)
theory Soe_Value_Props
  imports Soe_Opportunity
begin

text \<open>
  The properties of the values and the records: texts that read back, rounding that never flatters,
  the order of times, the validation of a profile and the mutable view of the inputs.
\<close>

lemma torder_unknown_iff: "torder a b = OrderUnknown \<longleftrightarrow> \<not> is_known a \<or> \<not> is_known b"
  by (cases a; cases b) (auto simp: torder_def)

text \<open>
  C40: The text of an amount reads back as the amount, for every \<open>i64\<close> number of minor units, and so does
  the text of a rate, for every positive \<open>u64\<close>.
\<close>

theorem amounts_read_back:
  assumes "i64_ok m" "u64_ok r" "0 < r"
  shows "minor_from_str (minor_display m) = Inr m \<and> rate_parse (rate_text r) = Inr r"
  using minor_from_str_display [OF assms(1)] rate_parse_text [OF assms(2,3)] by simp

theorem amounts_read_back_witness:
  "minor_from_str ''-12.50'' = Inr (- 1250) \<and> rate_parse (rate_text 108500000) = Inr 108500000"
proof -
  have "minor_display (- 1250) = ''-12.50''" by code_simp
  moreover have "i64_ok (- 1250)" "u64_ok 108500000" "(0::int) < 108500000" by code_simp+
  ultimately show ?thesis using amounts_read_back [of "- 1250" 108500000] by (simp only:)
qed

text \<open>
  A locator text is accepted exactly when it is the printed form of a valid locator: what is read
  prints back unchanged, and no two texts mean the same locator.
\<close>

theorem locator_text_exact: "locator_from_str s = Some l \<longleftrightarrow> locator_ok l \<and> s = locator_display l"
  by (rule locator_from_str_iff)

text \<open>
  C39: A currency conversion never flatters: money coming in is rounded down and money going out up, by
  less than one minor unit, in the quote currency of the rate.
\<close>

theorem conversion_never_flatters:
  assumes "fx_ok r" "i64_ok (m_minor n)" "m_currency n = cp_base (fx_pair r)" "fx_convert r n fl = Inr m"
  shows "m_currency m = cp_quote (fx_pair r) \<and>
    (case fl of
       Inflow \<Rightarrow> m_minor m * RATE_SCALE \<le> m_minor n * fx_rate_e8 r \<and> m_minor n * fx_rate_e8 r < (m_minor m + 1) * RATE_SCALE
     | Outflow \<Rightarrow> m_minor n * fx_rate_e8 r \<le> m_minor m * RATE_SCALE \<and> (m_minor m - 1) * RATE_SCALE < m_minor n * fx_rate_e8 r)"
proof -
  have s: "0 < RATE_SCALE" by (simp add: RATE_SCALE_def)
  have m: "m = \<lparr>m_minor = qdiv fl (m_minor n * fx_rate_e8 r) RATE_SCALE, m_currency = cp_quote (fx_pair r)\<rparr>"
    using assms(4) fx_convert_eq [OF assms(1-3)] by (auto simp: Let_def split: if_splits)
  show ?thesis
    using flow_div_never_flatters [OF s fx_product_eq(2) [OF assms(1-3)]]
      flow_div_pos [OF s fx_product_eq(2) [OF assms(1-3)], of fl]
    by (cases fl) (auto simp: m)
qed

definition third_rate :: fx_rate where
  "third_rate = \<lparr>fx_pair = \<lparr>cp_base = Usd, cp_quote = Eur\<rparr>, fx_rate_e8 = 33333333, fx_source = LUnknown, fx_as_of = At 0\<rparr>"

theorem conversion_never_flatters_witness:
  "fx_convert third_rate \<lparr>m_minor = 100, m_currency = Usd\<rparr> Outflow = Inr \<lparr>m_minor = 34, m_currency = Eur\<rparr> \<and>
   100 * fx_rate_e8 third_rate \<le> 34 * RATE_SCALE"
proof -
  have c: "fx_convert third_rate \<lparr>m_minor = 100, m_currency = Usd\<rparr> Outflow = Inr \<lparr>m_minor = 34, m_currency = Eur\<rparr>"
    by code_simp
  have "fx_ok third_rate" by code_simp
  from conversion_never_flatters [OF this _ _ c] c show ?thesis by (simp add: third_rate_def width_simps)
qed

text \<open>
  C38: The order of two times is decided exactly when it is certain: \<open>NotAfter\<close> when every instant the first
  may stand for is not after every instant of the second, \<open>After\<close> when every one is later, \<open>Unknown\<close> when one
  is unknown, and ambiguous otherwise.
\<close>

theorem time_order_exact:
  "torder a b =
     (if \<not> is_known a \<or> \<not> is_known b then OrderUnknown
      else if \<forall>x \<in> instants a. \<forall>y \<in> instants b. x \<le> y then NotAfter
      else if \<forall>x \<in> instants a. \<forall>y \<in> instants b. y < x then After
      else Ambiguous)"
  using torder_NotAfter_iff [of a b] torder_After_iff [of a b] torder_unknown_iff [of a b]
  by (cases "torder a b") (auto simp: is_known_iff)

theorem time_order_exact_witness: "torder (Day 0) (At 5) = Ambiguous"
proof -
  have "0 \<in> instants (Day 0)" "6 \<in> instants (Day 0)" "instants (At 5) = {5}"
    by (simp_all add: instants_def DAY_MS_def)
  then have "\<not> (\<forall>x \<in> instants (Day 0). \<forall>y \<in> instants (At 5). x \<le> y)"
    "\<not> (\<forall>x \<in> instants (Day 0). \<forall>y \<in> instants (At 5). y < x)" by force+
  then show ?thesis using time_order_exact [of "Day 0" "At 5"] by simp
qed

text \<open>
  A profile is accepted exactly when its header names the record and every rule of the profile holds,
  and a refusal lists every problem there is, not only the first.
\<close>

theorem profile_validation_exact:
  "case validate_profile p of
     Inr _ \<Rightarrow> st_record (p_schema p) = ''operator_profile'' \<and> valid_id (p_ident p) \<and> 1 \<le> p_version p \<and> profile_rules p
   | Inl ps \<Rightarrow> set (profile_problems p) \<subseteq> set ps \<and>
       \<not> (st_record (p_schema p) = ''operator_profile'' \<and> valid_id (p_ident p) \<and> 1 \<le> p_version p \<and> profile_rules p)"
proof (cases "validate_profile p")
  case (Inl ps)
  then show ?thesis
    using profile_record.refused_lists_every_problem [OF Inl] profile_record.validated_iff [of p]
    by (simp add: profile_problems_Nil)
next
  case (Inr u)
  then show ?thesis
    using profile_record.validated_iff [of p] by (simp add: profile_problems_Nil)
qed

text \<open>
  The mutable view of an input and the shared one agree: \<open>input_mut\<close> finds a field exactly when \<open>input\<close>
  does, with the same value, and writing through it replaces that input and nothing else.
\<close>

theorem input_mut_is_a_lens:
  "map_option mut_value (input_mut e field) = econ_input e field \<and>
   (case input_mut e field of
      Some m \<Rightarrow> (case mut_write m i of
          Some e' \<Rightarrow> econ_inputs e' = set_input field i (econ_inputs e) \<and> same_frame e e' | None \<Rightarrow> True)
    | None \<Rightarrow> True)"
  using input_mut_value input_mut_write by (auto split: option.splits)

end
