(* ===== verification/Soe_Forecast.thy ===== *)
theory Soe_Forecast
  imports Soe_Rank
begin

text \<open>
  The forecast log (\<open>forecast.rs\<close>): the predictions a week freezes, the hash-chained log of them, their
  resolution by later evidence and the calibration of the resolved ones. The canonical sha256 of a
  record is an argument.
\<close>

section \<open>Forecasts\<close>

datatype observable =
    EvidenceAppears string
  | AssumptionWithin string string string \<comment> \<open>field, low, high\<close>
  | OperatorResolves string

record forecast_item =
  fi_observable :: observable
  fi_probability :: bps
  fi_resolve_by :: time

definition forecast_item_problems :: "forecast_item \<Rightarrow> string \<Rightarrow> time \<Rightarrow> string list \<Rightarrow> problem list" where
  "forecast_item_problems x at decided_at names =
     p_known (at @ ''.resolve_by'') (fi_resolve_by x) @
     p_check (torder (fi_resolve_by x) decided_at = After) INVALID_TIME (at @ ''.resolve_by'') @
     (case fi_observable x of
        EvidenceAppears event_key \<Rightarrow> p_text (at @ ''.observable.event_key'') event_key
      | OperatorResolves question \<Rightarrow> p_text (at @ ''.observable.question'') question
      | AssumptionWithin field lo hi \<Rightarrow>
          p_check (field \<in> set names) UNKNOWN_FIELD (at @ ''.observable.field'') @
          (case (minor_from_str lo, minor_from_str hi) of
             (Inr l, Inr h) \<Rightarrow> p_check (l \<le> h) INVALID_RANGE (at @ ''.observable'')
           | _ \<Rightarrow> [(INVALID_FIELD, at @ ''.observable'')]))"

record frozen_item =
  fz_candidate :: string
  fz_opportunity_version :: int
  fz_item :: forecast_item

record forecast =
  fc_schema :: schema_tag
  fc_ident :: string
  fc_version :: int
  fc_cycle_id :: string
  fc_frozen_at :: time
  fc_portfolio_sha256 :: string
  fc_inputs_sha256 :: string
  fc_items :: "frozen_item list"

definition forecast_problems :: "forecast \<Rightarrow> problem list" where
  "forecast_problems f =
     p_id ''cycle_id'' (fc_cycle_id f) @
     p_known ''frozen_at'' (fc_frozen_at f) @
     p_sha256 ''portfolio_sha256'' (fc_portfolio_sha256 f) @
     p_sha256 ''inputs_sha256'' (fc_inputs_sha256 f) @
     p_each (\<lambda>i x.
       p_id (at_index ''items'' i @ ''.candidate'') (fz_candidate x) @
       p_check (torder (fi_resolve_by (fz_item x)) (fc_frozen_at f) = After) INVALID_TIME
         (at_index ''items'' i @ ''.item.resolve_by'')) (fc_items f)"

definition validate_forecast :: "forecast \<Rightarrow> problem list + unit" where
  "validate_forecast f = validate ''forecast'' (fc_schema f) (fc_ident f) (fc_version f) (forecast_problems f)"

interpretation forecast_record: soe_record "''forecast''" fc_schema fc_ident fc_version forecast_problems validate_forecast
  by unfold_locales (simp add: validate_forecast_def)

text \<open>\<open>freeze\<close>; \<open>sha256_of\<close> of a portfolio (\<open>serde_json\<close> and \<open>sha2\<close>) is the argument \<open>phash\<close>.\<close>

definition freeze ::
  "(weekly_portfolio \<Rightarrow> string vres) \<Rightarrow> string \<Rightarrow> time \<Rightarrow> weekly_portfolio \<Rightarrow>
     (string \<times> int \<times> forecast_item list) list \<Rightarrow> (code list, forecast) res" where
  "freeze phash cycle_id frozen_at w proposals =
     (let sorted = sort_key (\<lambda>(c, v, _). (c, v)) proposals;
          items = concat (map (\<lambda>(c, v, xs). map (\<lambda>x. \<lparr>fz_candidate = c, fz_opportunity_version = v, fz_item = x\<rparr>) xs) sorted)
      in rbind (one_error (schema_tag_v1 ''forecast'')) (\<lambda>schema.
         rbind (one_error (phash w)) (\<lambda>sha.
         let f = \<lparr>fc_schema = schema, fc_ident = cycle_id, fc_version = 1, fc_cycle_id = cycle_id,
               fc_frozen_at = frozen_at, fc_portfolio_sha256 = sha, fc_inputs_sha256 = w_inputs_sha256 w,
               fc_items = items\<rparr>
         in checked (validate_forecast f) f)))"

definition WEEK_MS :: int where "WEEK_MS = 7 * 86400000"

text \<open>\<open>horizon_problems\<close>, with its unchecked \<open>i64\<close> addition.\<close>

definition horizon_problems :: "forecast \<Rightarrow> int \<Rightarrow> (code, code list) res" where
  "horizon_problems f max_weeks =
     rbind (case earliest (fc_frozen_at f) of
         None \<Rightarrow> Inr None
       | Some t \<Rightarrow> if i64_ok (t + max_weeks * WEEK_MS) then Inr (Some (t + max_weeks * WEEK_MS)) else Inl Panic) (\<lambda>limit.
     Inr (map (\<lambda>_. HORIZON_TOO_LONG)
       (filter (\<lambda>x. case (latest (fi_resolve_by (fz_item x)), limit) of
                      (Some by_ms, Some lim) \<Rightarrow> by_ms > lim | _ \<Rightarrow> True) (fc_items f))))"

section \<open>The chain\<close>

definition GENESIS :: string where "GENESIS = replicate 64 CHR ''0''"

record log_line =
  ll_cycle_id :: string
  ll_frozen_at_ms :: int
  ll_forecast_sha256 :: string
  ll_portfolio_sha256 :: string
  ll_prev_sha256 :: string
  ll_line_sha256 :: string

text \<open>The fields a line's hash covers; the hash of them is the argument \<open>lhash\<close>.\<close>

type_synonym line_body = "string \<times> int \<times> string \<times> string \<times> string"

definition line_body_of :: "log_line \<Rightarrow> line_body" where
  "line_body_of l =
     (ll_cycle_id l, ll_frozen_at_ms l, ll_forecast_sha256 l, ll_portfolio_sha256 l, ll_prev_sha256 l)"

definition line_hash :: "(line_body \<Rightarrow> string) \<Rightarrow> log_line \<Rightarrow> string" where
  "line_hash lhash l = lhash (line_body_of l)"

definition log_line_of ::
  "(line_body \<Rightarrow> string) \<Rightarrow> (forecast \<Rightarrow> string vres) \<Rightarrow> log_line option \<Rightarrow> forecast \<Rightarrow> log_line vres" where
  "log_line_of lhash fhash prev f =
     rbind (ok_or (earliest (fc_frozen_at f)) INVALID_TIME) (\<lambda>ms.
     rbind (fhash f) (\<lambda>sha.
     let l = \<lparr>ll_cycle_id = fc_cycle_id f, ll_frozen_at_ms = ms, ll_forecast_sha256 = sha,
           ll_portfolio_sha256 = fc_portfolio_sha256 f,
           ll_prev_sha256 = (case prev of None \<Rightarrow> GENESIS | Some p \<Rightarrow> ll_line_sha256 p), ll_line_sha256 = []\<rparr>
     in Inr (l\<lparr>ll_line_sha256 := line_hash lhash l\<rparr>)))"

text \<open>The loop of \<open>verify_chain\<close>: the line above (none at the first) and the cycles seen.\<close>

fun verify_chain_from ::
  "(line_body \<Rightarrow> string) \<Rightarrow> log_line option \<Rightarrow> string list \<Rightarrow> log_line list \<Rightarrow> code list" where
  "verify_chain_from lhash prior seen [] = []"
| "verify_chain_from lhash prior seen (l # ls) =
     (if ll_line_sha256 l \<noteq> line_hash lhash l then [CHAIN_BROKEN] else []) @
     (if ll_prev_sha256 l \<noteq> (case prior of None \<Rightarrow> GENESIS | Some p \<Rightarrow> ll_line_sha256 p) then [CHAIN_BROKEN] else []) @
     (if (case prior of None \<Rightarrow> False | Some p \<Rightarrow> ll_frozen_at_ms l < ll_frozen_at_ms p) then [CHAIN_BROKEN] else []) @
     (if ll_cycle_id l \<in> set seen then [CHAIN_BROKEN] else []) @
     verify_chain_from lhash (Some l) (ll_cycle_id l # seen) ls"

definition verify_chain :: "(line_body \<Rightarrow> string) \<Rightarrow> log_line list \<Rightarrow> code list + unit" where
  "verify_chain lhash ls =
     (let errors = verify_chain_from lhash None [] ls in if errors = [] then Inr () else Inl errors)"

section \<open>Resolution and calibration\<close>

record resolution =
  rs_item :: nat
  rs_hit :: bool
  rs_observed_at :: time
  rs_evidence :: "string list"
  rs_resolved_by :: string

record resolved =
  rd_candidate :: string
  rd_item :: nat
  rd_probability :: bps
  rd_hit :: bool

definition resolve :: "forecast \<Rightarrow> resolution \<Rightarrow> resolved vres" where
  "resolve f r =
     (if \<not> rs_item r < length (fc_items f) then Inl (Err UNKNOWN_ITEM)
      else
        let x = fc_items f ! rs_item r; deadline = fi_resolve_by (fz_item x) in
        if torder (rs_observed_at r) (fc_frozen_at f) \<noteq> After then Inl (Err EVIDENCE_BEFORE_FREEZE)
        else if rs_hit r \<and> torder (rs_observed_at r) deadline = After then Inl (Err HIT_AFTER_DEADLINE)
        else if \<not> rs_hit r \<and> torder deadline (rs_observed_at r) \<noteq> NotAfter then Inl (Err MISS_BEFORE_DEADLINE)
        else Inr \<lparr>rd_candidate = fz_candidate x, rd_item = rs_item r,
               rd_probability = fi_probability (fz_item x), rd_hit = rs_hit r\<rparr>)"

record cal_bin =
  cb_lo_bps :: int
  cb_hi_bps :: int
  cb_n :: nat
  cb_hits :: nat
  cb_predicted_bps_sum :: int

record calibration =
  ca_n :: nat
  ca_bins :: "cal_bin list"
  ca_brier_e8 :: "int option"

definition cal_index :: "nat \<Rightarrow> bps \<Rightarrow> nat" where
  "cal_index k p = min (nat (p * int k div BPS_FULL)) (k - 1)"

text \<open>One turn of the loop over the points: the bin, and the squared error so far.\<close>

definition cal_point :: "nat \<Rightarrow> bps \<times> bool \<Rightarrow> cal_bin list \<times> int \<Rightarrow> cal_bin list \<times> int" where
  "cal_point k = (\<lambda>(p, hit) (bins, sq).
     let i = cal_index k p; b = bins ! i; y = (if hit then BPS_FULL else 0) in
     (bins[i := b\<lparr>cb_n := cb_n b + 1, cb_hits := cb_hits b + (if hit then 1 else 0),
        cb_predicted_bps_sum := cb_predicted_bps_sum b + p\<rparr>],
      sq + \<bar>p - y\<bar> ^ 2))"

definition empty_bins :: "nat \<Rightarrow> cal_bin list" where
  "empty_bins k = map (\<lambda>i. \<lparr>cb_lo_bps = int i * BPS_FULL div int k, cb_hi_bps = (int i + 1) * BPS_FULL div int k,
     cb_n = 0, cb_hits = 0, cb_predicted_bps_sum = 0\<rparr>) [0..<k]"

definition calibration_of :: "(bps \<times> bool) list \<Rightarrow> nat \<Rightarrow> calibration" where
  "calibration_of points n_bins =
     (let k = max n_bins 1;
          (bins, sq) = fold (cal_point k) points (empty_bins k, 0);
          n = length points
      in \<lparr>ca_n = n, ca_bins = bins, ca_brier_e8 = (if n > 0 then Some (sq div int n) else None)\<rparr>)"

end
