(* ===== verification/Soe_Forecast_Props.thy ===== *)
theory Soe_Forecast_Props
  imports Soe_Forecast
begin

text \<open>
  What the forecast log guarantees: a verified chain commits to its whole history, evidence resolves
  an item only when it is surely later than the freeze, and calibration counts every point once.
\<close>

section \<open>The chain's meaning\<close>

text \<open>The hash the next line must follow (\<open>GENESIS\<close> of an empty log).\<close>

definition tip :: "log_line list \<Rightarrow> string" where
  "tip ls = (if ls = [] then GENESIS else ll_line_sha256 (last ls))"

definition follows :: "(line_body \<Rightarrow> string) \<Rightarrow> log_line list \<Rightarrow> log_line \<Rightarrow> bool" where
  "follows lhash ls l \<longleftrightarrow>
     ll_line_sha256 l = line_hash lhash l \<and> ll_prev_sha256 l = tip ls \<and>
     (ls \<noteq> [] \<longrightarrow> ll_frozen_at_ms (last ls) \<le> ll_frozen_at_ms l) \<and>
     ll_cycle_id l \<notin> ll_cycle_id ` set ls"

definition prior_ok :: "log_line option \<Rightarrow> string list \<Rightarrow> log_line list \<Rightarrow> bool" where
  "prior_ok prior seen ls \<longleftrightarrow>
     prior = (if ls = [] then None else Some (last ls)) \<and> set seen = ll_cycle_id ` set ls"

lemma verify_chain_from_snoc:
  "prior_ok prior seen pre \<Longrightarrow>
   verify_chain_from lhash prior seen (ls @ [l]) = [] \<longleftrightarrow>
   verify_chain_from lhash prior seen ls = [] \<and> follows lhash (pre @ ls) l"
proof (induction ls arbitrary: prior seen pre)
  case Nil
  then show ?case by (auto simp: prior_ok_def follows_def tip_def)
next
  case (Cons x xs)
  have "prior_ok (Some x) (ll_cycle_id x # seen) (pre @ [x])"
    using Cons.prems by (auto simp: prior_ok_def)
  from Cons.IH [OF this] show ?case by simp
qed

lemma verify_chain_Nil [simp]: "verify_chain lhash [] = Inr ()"
  by (simp add: verify_chain_def)

lemma verify_chain_snoc:
  "verify_chain lhash (ls @ [l]) = Inr () \<longleftrightarrow> verify_chain lhash ls = Inr () \<and> follows lhash ls l"
  using verify_chain_from_snoc [of None "[]" "[]" lhash ls l]
  by (auto simp: verify_chain_def prior_ok_def Let_def)

text \<open>The line \<open>log_line\<close> builds follows the log it was built on.\<close>

lemma log_line_of_follows:
  assumes "log_line_of lhash fhash (if ls = [] then None else Some (last ls)) f = Inr l"
    and "\<And>ms. earliest (fc_frozen_at f) = Some ms \<Longrightarrow> ls \<noteq> [] \<Longrightarrow> ll_frozen_at_ms (last ls) \<le> ms"
    and "fc_cycle_id f \<notin> ll_cycle_id ` set ls"
  shows "follows lhash ls l" "ll_cycle_id l = fc_cycle_id f" "fhash f = Inr (ll_forecast_sha256 l)"
  using assms
  by (auto simp: log_line_of_def rbind_eq_Inr ok_or_def Let_def follows_def tip_def line_hash_def line_body_of_def
        split: if_splits option.splits)

lemma verified_last:
  assumes "verify_chain lhash ls = Inr ()" "ls \<noteq> []"
  obtains pre l where "ls = pre @ [l]" "verify_chain lhash pre = Inr ()" "follows lhash pre l"
  using assms verify_chain_snoc [of lhash "butlast ls" "last ls"] that [of "butlast ls" "last ls"] by simp

lemma tip_in_hashes:
  "verify_chain lhash ls = Inr () \<Longrightarrow> ls \<noteq> [] \<Longrightarrow> tip ls \<in> lhash ` line_body_of ` set ls"
  by (erule (1) verified_last) (auto simp: tip_def follows_def line_hash_def)

lemma chain_commits:
  assumes "verify_chain lhash xs = Inr ()" "verify_chain lhash ys = Inr ()"
    and "inj_on lhash (line_body_of ` (set xs \<union> set ys))"
    and "GENESIS \<notin> lhash ` line_body_of ` (set xs \<union> set ys)"
    and "tip xs = tip ys"
  shows "xs = ys"
  using assms
proof (induction xs arbitrary: ys rule: rev_induct)
  case Nil
  have "ys = []"
  proof (rule ccontr)
    assume "ys \<noteq> []"
    with Nil tip_in_hashes [of lhash ys] show False by (simp add: tip_def)
  qed
  then show ?case ..
next
  case (snoc x xs)
  have "ys \<noteq> []" using snoc.prems tip_in_hashes [of lhash "xs @ [x]"] by (auto simp: tip_def)
  with snoc.prems(2) obtain ys' y where ys: "ys = ys' @ [y]" "verify_chain lhash ys' = Inr ()" "follows lhash ys' y"
    by (rule verified_last)
  have x: "verify_chain lhash xs = Inr ()" "follows lhash xs x"
    using snoc.prems(1) by (simp_all add: verify_chain_snoc)
  have hash: "lhash (line_body_of x) = lhash (line_body_of y)"
    using snoc.prems(5) x ys by (simp add: tip_def follows_def line_hash_def)
  then have body: "line_body_of x = line_body_of y"
    by (rule inj_onD [OF snoc.prems(3)]) (auto simp: ys)
  then have "tip xs = tip ys'" using x ys by (simp add: follows_def line_body_of_def)
  moreover have "inj_on lhash (line_body_of ` (set xs \<union> set ys'))"
    by (rule inj_on_subset [OF snoc.prems(3)]) (auto simp: ys)
  moreover have "GENESIS \<notin> lhash ` line_body_of ` (set xs \<union> set ys')"
    using snoc.prems(4) by (auto simp: ys)
  ultimately have "xs = ys'" using snoc.IH x(1) ys(2) by blast
  moreover have "ll_line_sha256 x = ll_line_sha256 y"
    using x ys hash by (simp add: follows_def line_hash_def)
  then have "x = y" using body by (simp add: line_body_of_def)
  ultimately show ?case by (simp add: ys)
qed

section \<open>Resolution\<close>

lemma instants_ne [simp]: "instants a \<noteq> {}"
  by (cases a) (simp_all add: instants_def DAY_MS_def)

lemma instants_reach: "\<not> is_known a \<or> \<not> is_known b \<Longrightarrow> \<exists>x \<in> instants a. \<exists>y \<in> instants b. x \<le> y"
proof -
  assume *: "\<not> is_known a \<or> \<not> is_known b"
  obtain x y where "x \<in> instants a" "y \<in> instants b" using instants_ne by (metis equals0I)
  then have "y \<in> instants a \<or> x \<in> instants b" using * by (auto simp: is_known_iff instants_def)
  then show ?thesis using \<open>x \<in> instants a\<close> \<open>y \<in> instants b\<close> by blast
qed

lemma resolve_accepts:
  "resolve f r = Inr d \<longleftrightarrow>
     rs_item r < length (fc_items f) \<and>
     torder (rs_observed_at r) (fc_frozen_at f) = After \<and>
     (let x = fc_items f ! rs_item r; deadline = fi_resolve_by (fz_item x) in
       (if rs_hit r then torder (rs_observed_at r) deadline \<noteq> After
        else torder deadline (rs_observed_at r) = NotAfter) \<and>
       d = \<lparr>rd_candidate = fz_candidate x, rd_item = rs_item r,
             rd_probability = fi_probability (fz_item x), rd_hit = rs_hit r\<rparr>)"
  by (auto simp: resolve_def Let_def)

section \<open>Calibration\<close>

lemma cal_index_bound: "0 < k \<Longrightarrow> cal_index k p < k"
  by (simp add: cal_index_def)

lemma cal_point_pair [simp]:
  "cal_point k (p, hit) (bins, sq) =
     (bins[cal_index k p := (bins ! cal_index k p)\<lparr>cb_n := cb_n (bins ! cal_index k p) + 1,
         cb_hits := cb_hits (bins ! cal_index k p) + (if hit then 1 else 0),
         cb_predicted_bps_sum := cb_predicted_bps_sum (bins ! cal_index k p) + p\<rparr>],
      sq + (p - (if hit then BPS_FULL else 0)) ^ 2)"
  by (simp add: cal_point_def Let_def)

lemma length_cal_fold [simp]: "length (fst (fold (cal_point k) ps (bins, sq))) = length bins"
  by (induction ps arbitrary: bins sq) auto

definition points_in :: "nat \<Rightarrow> nat \<Rightarrow> (bps \<times> bool) list \<Rightarrow> (bps \<times> bool) list" where
  "points_in k i ps = filter (\<lambda>(p, _). cal_index k p = i) ps"

lemma cal_fold_bin:
  assumes "0 < k" "length bins = k" "i < k"
  shows "fst (fold (cal_point k) ps (bins, sq)) ! i =
    (bins ! i)\<lparr>cb_n := cb_n (bins ! i) + length (points_in k i ps),
       cb_hits := cb_hits (bins ! i) + length (filter snd (points_in k i ps)),
       cb_predicted_bps_sum := cb_predicted_bps_sum (bins ! i) + sum_list (map fst (points_in k i ps))\<rparr>"
  using assms(2)
proof (induction ps arbitrary: bins sq)
  case (Cons x xs)
  obtain p hit where [simp]: "x = (p, hit)" by (cases x)
  have j: "cal_index k p < length bins" using cal_index_bound [OF assms(1)] Cons.prems by simp
  show ?case
    using j assms(3) Cons.prems
    by (auto simp: Cons.IH points_in_def nth_list_update)
qed (simp add: points_in_def)

lemma cal_fold_squares:
  "snd (fold (cal_point k) ps (bins, sq)) = sq + (\<Sum>(p, hit) \<leftarrow> ps. (p - (if hit then BPS_FULL else 0)) ^ 2)"
  by (induction ps arbitrary: bins sq) auto

text \<open>A bin's own statistics of the points it received.\<close>

definition bin_of :: "nat \<Rightarrow> (bps \<times> bool) list \<Rightarrow> nat \<Rightarrow> cal_bin" where
  "bin_of k ps i =
     \<lparr>cb_lo_bps = int i * BPS_FULL div int k, cb_hi_bps = (int i + 1) * BPS_FULL div int k,
      cb_n = length (points_in k i ps), cb_hits = length (filter snd (points_in k i ps)),
      cb_predicted_bps_sum = sum_list (map fst (points_in k i ps))\<rparr>"

lemma calibration_bins_fold:
  "ca_bins (calibration_of ps n) = fst (fold (cal_point (max n 1)) ps (empty_bins (max n 1), 0))"
  by (simp add: calibration_of_def Let_def case_prod_unfold)

lemma calibration_brier:
  "ca_brier_e8 (calibration_of ps n) =
     (if ps = [] then None
      else Some ((\<Sum>(p, hit) \<leftarrow> ps. (p - (if hit then BPS_FULL else 0)) ^ 2) div int (length ps)))"
  by (simp add: calibration_of_def Let_def case_prod_unfold cal_fold_squares)

lemma calibration_bins:
  "ca_bins (calibration_of ps n) = map (bin_of (max n 1) ps) [0..<max n 1]"
proof (rule nth_equalityI)
  show "length (ca_bins (calibration_of ps n)) = length (map (bin_of (max n 1) ps) [0..<max n 1])"
    by (simp add: calibration_bins_fold empty_bins_def)
next
  fix i assume "i < length (ca_bins (calibration_of ps n))"
  then have i: "i < max n 1"
    by (simp add: calibration_bins_fold empty_bins_def)
  have "fst (fold (cal_point (max n 1)) ps (empty_bins (max n 1), 0)) ! i = bin_of (max n 1) ps i"
    using i by (subst cal_fold_bin) (auto simp: empty_bins_def bin_of_def)
  then show "ca_bins (calibration_of ps n) ! i = map (bin_of (max n 1) ps) [0..<max n 1] ! i"
    using i by (simp add: calibration_bins_fold)
qed

lemma sum_points_in:
  assumes "0 < k"
  shows "(\<Sum>i<k. length (points_in k i ps)) = length ps"
proof (induction ps)
  case (Cons x xs)
  have "(\<Sum>i<k. length (points_in k i (x # xs))) =
        (\<Sum>i<k. length (points_in k i xs) + (if cal_index k (fst x) = i then 1 else 0))"
    by (rule sum.cong) (auto simp: points_in_def split: prod.splits)
  then show ?case using Cons cal_index_bound [OF assms, of "fst x"] by (simp add: sum.distrib)
qed (simp add: points_in_def)

lemma square_error_bounds:
  "\<lbrakk>\<forall>(p, hit) \<in> set ps. 0 \<le> p \<and> p \<le> BPS_FULL\<rbrakk> \<Longrightarrow>
   0 \<le> (\<Sum>(p, hit) \<leftarrow> ps. (p - (if hit then BPS_FULL else 0)) ^ 2) \<and>
   (\<Sum>(p, hit) \<leftarrow> ps. (p - (if hit then BPS_FULL else 0)) ^ 2) \<le> int (length ps) * 10 ^ 8"
proof (induction ps)
  case (Cons x xs)
  obtain p hit where [simp]: "x = (p, hit)" by (cases x)
  define e where "e = \<bar>p - (if hit then BPS_FULL else 0)\<bar>"
  have "0 \<le> e" "e \<le> 10000" using Cons.prems by (auto simp: e_def BPS_FULL_def)
  then have "e ^ 2 \<le> 10000 ^ 2" by (rule power_mono [rotated])
  then have "(p - (if hit then BPS_FULL else 0)) ^ 2 \<le> 10 ^ 8" by (simp add: e_def)
  with Cons show ?case by (simp add: algebra_simps)
qed simp

lemma mean_square_error_bounds:
  assumes "\<forall>(p, hit) \<in> set ps. 0 \<le> p \<and> p \<le> BPS_FULL" "ps \<noteq> []"
  defines "m \<equiv> (\<Sum>(p, hit) \<leftarrow> ps. (p - (if hit then BPS_FULL else 0)) ^ 2) div int (length ps)"
  shows "0 \<le> m \<and> m \<le> 10 ^ 8"
proof -
  have "0 < int (length ps)" using assms(2) by simp
  then show ?thesis
    using square_error_bounds [OF assms(1)] zdiv_mono1 [of _ "int (length ps) * 10 ^ 8" "int (length ps)"]
    by (simp add: m_def pos_imp_zdiv_nonneg_iff)
qed

lemma le_div_mult_iff: "0 < (w::int) \<Longrightarrow> a \<le> p div w \<longleftrightarrow> a * w \<le> p"
proof
  assume "0 < w" "a \<le> p div w"
  then have "a * w \<le> p div w * w" by (simp add: mult_right_mono)
  also have "\<dots> \<le> p" using \<open>0 < w\<close> div_mult_mod_eq [of p w] pos_mod_sign [of w p] by linarith
  finally show "a * w \<le> p" .
next
  assume "0 < w" "a * w \<le> p"
  then have "a * w div w \<le> p div w" by (intro zdiv_mono1)
  then show "a \<le> p div w" using \<open>0 < w\<close> by simp
qed

text \<open>When the bins divide the range evenly, the bin a point falls in is the one that holds it.\<close>

lemma cal_index_interval:
  assumes "0 < k" "BPS_FULL mod int k = 0" "0 \<le> p" "p \<le> BPS_FULL" "i < k"
  shows "cal_index k p = i \<longleftrightarrow>
     int i * BPS_FULL div int k \<le> p \<and>
     (p < (int i + 1) * BPS_FULL div int k \<or> i = k - 1)"
proof -
  obtain w where w: "BPS_FULL = int k * w" using assms(2) by (auto simp: mod_eq_0_iff_dvd dvd_def)
  have "0 < int k * w" using w by (simp add: BPS_FULL_def)
  then have pos: "0 < w" using assms(1) by (simp add: zero_less_mult_iff)
  have e: "int i * BPS_FULL div int k = int i * w" "(int i + 1) * BPS_FULL div int k = (int i + 1) * w"
    using assms(1) unfolding w mult.left_commute [of _ "int k"] by simp_all
  have d: "p * int k div BPS_FULL = p div w"
    using assms(1) by (simp add: w mult.commute [of p] div_mult_mult1)
  have j: "0 \<le> p div w" "int i * w \<le> p \<longleftrightarrow> int i \<le> p div w" "p < (int i + 1) * w \<longleftrightarrow> p div w < int i + 1"
    using pos assms(3) le_div_mult_iff [of w "int i" p] le_div_mult_iff [of w "int i + 1" p]
    by (auto simp: pos_imp_zdiv_nonneg_iff)
  show ?thesis
    unfolding e j cal_index_def d using j(1) assms(5) by auto
qed

section \<open>Properties\<close>

text \<open>C27: the last hash of a verified forecast log commits to the whole history. Two logs that
  \<open>verify_chain\<close> accepts and that end in the same hash are the same log, line for line, as long as
  the hash does not collide on the lines of the two logs and never gives \<open>GENESIS\<close>: an edited, dropped,
  inserted or reordered line anywhere changes the tip or breaks the chain.\<close>

theorem forecast_log_commits:
  assumes "verify_chain lhash xs = Inr ()" "verify_chain lhash ys = Inr ()"
    and "inj_on lhash (line_body_of ` (set xs \<union> set ys))"
    and "GENESIS \<notin> lhash ` line_body_of ` (set xs \<union> set ys)"
    and "tip xs = tip ys"
  shows "xs = ys"
  using assms by (rule chain_commits)

definition sample_lhash :: "line_body \<Rightarrow> string" where
  "sample_lhash = (\<lambda>(c, ms, f, p, prev). ''h'' @ c @ p)"

definition sample_line :: "string \<Rightarrow> int \<Rightarrow> string \<Rightarrow> string \<Rightarrow> log_line" where
  "sample_line c ms p prev = \<lparr>ll_cycle_id = c, ll_frozen_at_ms = ms, ll_forecast_sha256 = ''f'',
     ll_portfolio_sha256 = p, ll_prev_sha256 = prev, ll_line_sha256 = ''h'' @ c @ p\<rparr>"

definition sample_log :: "log_line list" where
  "sample_log = [sample_line ''2026-W41'' 10 ''p'' GENESIS, sample_line ''2026-W42'' 20 ''q'' ''h2026-W41p'']"

text \<open>The first line rewritten and rehashed, the second kept.\<close>

definition edited_log :: "log_line list" where
  "edited_log = [sample_line ''2026-W41'' 10 ''x'' GENESIS, sample_line ''2026-W42'' 20 ''q'' ''h2026-W41p'']"

theorem forecast_log_commits_witness:
  "verify_chain sample_lhash sample_log = Inr () \<and> tip edited_log = tip sample_log \<and>
   verify_chain sample_lhash edited_log \<noteq> Inr ()"
proof (intro conjI notI)
  show ok: "verify_chain sample_lhash sample_log = Inr ()" by code_simp
  show tip: "tip edited_log = tip sample_log" by (simp add: edited_log_def sample_log_def tip_def)
  assume edited: "verify_chain sample_lhash edited_log = Inr ()"
  have inj: "inj_on sample_lhash (line_body_of ` (set edited_log \<union> set sample_log))"
    by (auto simp: sample_log_def edited_log_def sample_line_def sample_lhash_def line_body_of_def)
  have gen: "GENESIS \<notin> sample_lhash ` line_body_of ` (set edited_log \<union> set sample_log)"
    by (auto simp: sample_log_def edited_log_def sample_line_def sample_lhash_def line_body_of_def GENESIS_def
        numeral_eq_Suc)
  have "edited_log = sample_log" by (rule forecast_log_commits [OF edited ok inj gen tip])
  then show False by (simp add: edited_log_def sample_log_def sample_line_def)
qed

text \<open>C28: what \<open>resolve\<close> accepts, in instants. A resolution settles an item exactly when the item exists,
  its evidence is from after the freeze whatever instants the two times stand for, a hit may still
  have been observed by the deadline, and a miss was checked surely at or after the deadline; the
  answer carries the item's own candidate and probability.\<close>

theorem resolve_exact:
  "resolve f r = Inr d \<longleftrightarrow>
     rs_item r < length (fc_items f) \<and>
     is_known (rs_observed_at r) \<and> is_known (fc_frozen_at f) \<and>
     (\<forall>x \<in> instants (rs_observed_at r). \<forall>y \<in> instants (fc_frozen_at f). y < x) \<and>
     (let x = fc_items f ! rs_item r; deadline = fi_resolve_by (fz_item x) in
       (if rs_hit r then (\<exists>o1 \<in> instants (rs_observed_at r). \<exists>y \<in> instants deadline. o1 \<le> y)
        else is_known deadline \<and> (\<forall>y \<in> instants deadline. \<forall>o1 \<in> instants (rs_observed_at r). y \<le> o1)) \<and>
       d = \<lparr>rd_candidate = fz_candidate x, rd_item = rs_item r,
             rd_probability = fi_probability (fz_item x), rd_hit = rs_hit r\<rparr>)"
proof -
  have hit: "torder a b \<noteq> After \<longleftrightarrow> (\<exists>x \<in> instants a. \<exists>y \<in> instants b. x \<le> y)" for a b
    using instants_reach [of a b] by (auto simp: torder_After_iff is_known_iff not_less)
  show ?thesis unfolding resolve_accepts Let_def hit by (auto simp: torder_After_iff torder_NotAfter_iff)
qed

definition sample_forecast :: forecast where
  "sample_forecast = \<lparr>fc_schema = \<lparr>st_record = ''forecast'', st_version = 1\<rparr>, fc_ident = ''2026-W41'', fc_version = 1,
     fc_cycle_id = ''2026-W41'', fc_frozen_at = At 1000, fc_portfolio_sha256 = GENESIS, fc_inputs_sha256 = GENESIS,
     fc_items = [\<lparr>fz_candidate = ''a'', fz_opportunity_version = 1,
       fz_item = \<lparr>fi_observable = EvidenceAppears ''ted'', fi_probability = 6000, fi_resolve_by = At 5000\<rparr>\<rparr>]\<rparr>"

theorem resolve_exact_witness:
  "resolve sample_forecast \<lparr>rs_item = 0, rs_hit = True, rs_observed_at = At 2000, rs_evidence = [], rs_resolved_by = ''op''\<rparr> =
     Inr \<lparr>rd_candidate = ''a'', rd_item = 0, rd_probability = 6000, rd_hit = True\<rparr> \<and>
   resolve sample_forecast \<lparr>rs_item = 0, rs_hit = True, rs_observed_at = At 1000, rs_evidence = [], rs_resolved_by = ''op''\<rparr> =
     Inl (Err EVIDENCE_BEFORE_FREEZE)"
proof
  show "resolve sample_forecast \<lparr>rs_item = 0, rs_hit = True, rs_observed_at = At 2000, rs_evidence = [], rs_resolved_by = ''op''\<rparr> =
     Inr \<lparr>rd_candidate = ''a'', rd_item = 0, rd_probability = 6000, rd_hit = True\<rparr>"
    unfolding resolve_exact by (simp add: sample_forecast_def instants_def)
qed code_simp

text \<open>C29: calibration counts every point once, in the bin its probability names, with the hits and the
  predicted mass of exactly those points; the Brier score is the floored mean of the squared errors (the
  distance of a hit from 10000 and of a miss from 0) and stays within 0 and 1 (scaled by 10 to the 8). When the number of bins divides 10000, as the
  review's own does, each point lies inside the bin it was counted in.\<close>

theorem calibration_exact:
  assumes "\<forall>(p, hit) \<in> set ps. 0 \<le> p \<and> p \<le> BPS_FULL"
  shows "ca_n (calibration_of ps n) = length ps \<and>
    ca_bins (calibration_of ps n) = map (bin_of (max n 1) ps) [0..<max n 1] \<and>
    (\<Sum>b \<leftarrow> ca_bins (calibration_of ps n). cb_n b) = length ps \<and>
    ca_brier_e8 (calibration_of ps n) =
      (if ps = [] then None
       else Some ((\<Sum>(p, hit) \<leftarrow> ps. if hit then (BPS_FULL - p) ^ 2 else p ^ 2) div int (length ps))) \<and>
    (case ca_brier_e8 (calibration_of ps n) of None \<Rightarrow> ps = [] | Some b \<Rightarrow> ps \<noteq> [] \<and> 0 \<le> b \<and> b \<le> 10 ^ 8) \<and>
    (BPS_FULL mod int (max n 1) = 0 \<longrightarrow>
      (\<forall>i < max n 1. \<forall>(p, _) \<in> set (points_in (max n 1) i ps).
         cb_lo_bps (bin_of (max n 1) ps i) \<le> p \<and> (p < cb_hi_bps (bin_of (max n 1) ps i) \<or> i = max n 1 - 1)))"
proof (intro conjI impI allI ballI)
  show "ca_n (calibration_of ps n) = length ps"
    by (simp add: calibration_of_def Let_def case_prod_unfold)
  show "ca_bins (calibration_of ps n) = map (bin_of (max n 1) ps) [0..<max n 1]"
    by (rule calibration_bins)
  show "(\<Sum>b \<leftarrow> ca_bins (calibration_of ps n). cb_n b) = length ps"
    using sum_points_in [of "max n 1" ps]
    by (simp add: calibration_bins bin_of_def comp_def interv_sum_list_conv_sum_set_nat atLeast0LessThan)
  have "(p - (if hit then BPS_FULL else 0)) ^ 2 = (if hit then (BPS_FULL - p) ^ 2 else p ^ 2)" for p hit
    by (simp add: power2_commute)
  then show "ca_brier_e8 (calibration_of ps n) =
      (if ps = [] then None
       else Some ((\<Sum>(p, hit) \<leftarrow> ps. if hit then (BPS_FULL - p) ^ 2 else p ^ 2) div int (length ps)))"
    by (simp add: calibration_brier)
  show "case ca_brier_e8 (calibration_of ps n) of None \<Rightarrow> ps = [] | Some b \<Rightarrow> ps \<noteq> [] \<and> 0 \<le> b \<and> b \<le> 10 ^ 8"
    using mean_square_error_bounds [OF assms] by (simp add: calibration_brier)
next
  fix i x assume k: "BPS_FULL mod int (max n 1) = 0" "i < max n 1" and "x \<in> set (points_in (max n 1) i ps)"
  then have x: "cal_index (max n 1) (fst x) = i" "x \<in> set ps" by (auto simp: points_in_def)
  moreover have "0 \<le> fst x" "fst x \<le> BPS_FULL" using assms x(2) by (cases x; auto)+
  ultimately show "case x of (p, _) \<Rightarrow> cb_lo_bps (bin_of (max n 1) ps i) \<le> p \<and>
      (p < cb_hi_bps (bin_of (max n 1) ps i) \<or> i = max n 1 - 1)"
    using cal_index_interval [OF _ k(1) _ _ k(2), of "fst x"] by (simp add: bin_of_def case_prod_unfold)
qed

theorem calibration_exact_witness:
  "(\<Sum>b \<leftarrow> ca_bins (calibration_of [(8000, True), (8000, False), (1000, False)] 5). cb_n b) = 3 \<and>
   ca_brier_e8 (calibration_of [(8000, True), (8000, False), (1000, False)] 5) = Some 23000000 \<and>
   points_in 5 4 [(8000, True), (8000, False), (1000, False)] = [(8000, True), (8000, False)]"
proof -
  let ?ps = "[(8000, True), (8000, False), (1000, False)] :: (int \<times> bool) list"
  have ok: "\<forall>(p, hit) \<in> set ?ps. 0 \<le> p \<and> p \<le> BPS_FULL" by (simp add: BPS_FULL_def)
  have "(\<Sum>b \<leftarrow> ca_bins (calibration_of ?ps 5). cb_n b) = length ?ps"
    using calibration_exact [OF ok, of 5] by (elim conjE)
  then show ?thesis by (simp add: calibration_brier BPS_FULL_def points_in_def cal_index_def)
qed

text \<open>
  The bins are not half-open in general, as the comment on \<open>CalBin\<close> says: a bin's bounds are floored
  while the index is not computed from them, so with three bins a point at 3333 bps is counted in the
  bin \<open>[0, 3333)\<close> although the next one starts there.
\<close>

lemma calibration_bin_not_half_open:
  "cb_hi_bps (ca_bins (calibration_of [(3333, True)] 3) ! 0) = 3333 \<and>
   cb_n (ca_bins (calibration_of [(3333, True)] 3) ! 0) = 1 \<and>
   cb_lo_bps (ca_bins (calibration_of [(3333, True)] 3) ! 1) = 3333 \<and>
   cb_n (ca_bins (calibration_of [(3333, True)] 3) ! 1) = 0"
  by (simp add: calibration_bins bin_of_def points_in_def cal_index_def BPS_FULL_def)

end
