(* ===== verification/Durable_Actions.thy ===== *)
theory Durable_Actions
  imports Rust_Prelude
begin

text \<open>
  Actions on a durable state. An action takes the state and the number of steps the process still
  gets, and returns both with its answer or its error: the state it leaves behind stays, whichever of
  the two it is. Two judgements: \<open>triple\<close>, what holds after every outcome whatever the cut-off, and
  \<open>settles\<close>, that the action does answer once it gets enough steps.
\<close>

section \<open>Actions that may be cut off\<close>

type_synonym ('s, 'e, 'a) act = "'s \<times> nat \<Rightarrow> ('s \<times> nat) \<times> ('e + 'a)"

definition areturn :: "'a \<Rightarrow> ('s, 'e, 'a) act" where
  "areturn x w = (w, Inr x)"

definition afail :: "'e \<Rightarrow> ('s, 'e, 'a) act" where
  "afail e w = (w, Inl e)"

definition abind :: "('s, 'e, 'a) act \<Rightarrow> ('a \<Rightarrow> ('s, 'e, 'b) act) \<Rightarrow> ('s, 'e, 'b) act" where
  "abind m f w = (case m w of (w', Inl e) \<Rightarrow> (w', Inl e) | (w', Inr x) \<Rightarrow> f x w')"

definition athen :: "('s, 'e, unit) act \<Rightarrow> ('s, 'e, 'b) act \<Rightarrow> ('s, 'e, 'b) act" where
  "athen m k = abind m (\<lambda>_. k)"

text \<open>Recovery from an error, and \<open>let _ = m\<close>, which drops the answer and the error alike.\<close>

definition acatch :: "('s, 'e, 'a) act \<Rightarrow> ('e \<Rightarrow> ('s, 'e, 'a) act) \<Rightarrow> ('s, 'e, 'a) act" where
  "acatch m h w = (case m w of (w', Inl e) \<Rightarrow> h e w' | (w', Inr x) \<Rightarrow> (w', Inr x))"

definition aignore :: "('s, 'e, 'a) act \<Rightarrow> ('s, 'e, unit) act" where
  "aignore m w = (fst (m w), Inr ())"

text \<open>A question to the state, with no effect on it.\<close>

definition ask :: "('s \<Rightarrow> 'e + 'a) \<Rightarrow> ('s, 'e, 'a) act" where
  "ask f w = (w, f (fst w))"

fun each :: "('a \<Rightarrow> ('s, 'e, unit) act) \<Rightarrow> 'a list \<Rightarrow> ('s, 'e, unit) act" where
  "each f [] = areturn ()"
| "each f (x # xs) = athen (f x) (each f xs)"

text \<open>One step of the process: with none left it answers \<open>e\<close> and changes nothing.\<close>

definition tick :: "'e \<Rightarrow> ('s \<Rightarrow> 'e + 's) \<Rightarrow> ('s, 'e, unit) act" where
  "tick e f w = (case snd w of 0 \<Rightarrow> (w, Inl e)
     | Suc n \<Rightarrow> (case f (fst w) of Inl e' \<Rightarrow> ((fst w, n), Inl e') | Inr st \<Rightarrow> ((st, n), Inr ())))"

section \<open>What holds after every outcome\<close>

definition triple :: "('s \<Rightarrow> bool) \<Rightarrow> ('s, 'e, 'a) act \<Rightarrow> ('a \<Rightarrow> 's \<Rightarrow> bool) \<Rightarrow> ('s \<Rightarrow> bool) \<Rightarrow> bool" where
  "triple P m Q E \<longleftrightarrow> (\<forall>st n. P st \<longrightarrow>
     (case m (st, n) of (w, Inr x) \<Rightarrow> Q x (fst w) | (w, Inl _) \<Rightarrow> E (fst w)))"

lemma tripleD:
  "triple P m Q E \<Longrightarrow> P st \<Longrightarrow> m (st, n) = (w, r) \<Longrightarrow> (case r of Inr x \<Rightarrow> Q x (fst w) | Inl _ \<Rightarrow> E (fst w))"
  unfolding triple_def by (drule spec [of _ st], drule spec [of _ n]) simp

lemma triple_return: "(\<And>st. P st \<Longrightarrow> Q x st) \<Longrightarrow> triple P (areturn x) Q E"
  by (simp add: triple_def areturn_def)

lemma triple_fail: "(\<And>st. P st \<Longrightarrow> E st) \<Longrightarrow> triple P (afail e) Q E"
  by (simp add: triple_def afail_def)

lemma triple_bind:
  assumes "triple P m R E" "\<And>x. triple (R x) (f x) Q E"
  shows "triple P (abind m f) Q E"
  unfolding triple_def
proof (intro allI impI)
  fix st n assume "P st"
  obtain st' n' r where m: "m (st, n) = ((st', n'), r)" by (metis surj_pair)
  show "case abind m f (st, n) of (w, Inr x) \<Rightarrow> Q x (fst w) | (w, Inl _) \<Rightarrow> E (fst w)"
  proof (cases r)
    case (Inl e)
    then show ?thesis using tripleD [OF assms(1) \<open>P st\<close> m] m by (simp add: abind_def)
  next
    case (Inr x)
    then have "R x st'" using tripleD [OF assms(1) \<open>P st\<close> m] by simp
    then show ?thesis using assms(2) [of x] m Inr unfolding triple_def abind_def by simp
  qed
qed

lemma triple_then: "triple P m (\<lambda>_. R) E \<Longrightarrow> triple R k Q E \<Longrightarrow> triple P (athen m k) Q E"
  by (simp add: athen_def triple_bind)

lemma triple_ask:
  assumes "\<And>st e. P st \<Longrightarrow> f st = Inl e \<Longrightarrow> E st" "\<And>st x. P st \<Longrightarrow> f st = Inr x \<Longrightarrow> Q x st"
  shows "triple P (ask f) Q E"
  using assms by (auto simp: triple_def ask_def split: sum.splits)

lemma triple_tick:
  assumes "\<And>st. P st \<Longrightarrow> E st" "\<And>st st'. P st \<Longrightarrow> f st = Inr st' \<Longrightarrow> Q () st'"
  shows "triple P (tick e f) Q E"
  using assms by (auto simp: triple_def tick_def split: nat.splits sum.splits)

lemma triple_each:
  assumes "\<And>x. x \<in> set xs \<Longrightarrow> triple P (f x) (\<lambda>_. P) E"
  shows "triple P (each f xs) (\<lambda>_. P) E"
  using assms by (induction xs) (auto intro: triple_then triple_return)

lemma triple_weaken:
  "triple P' m Q' E' \<Longrightarrow> (\<And>st. P st \<Longrightarrow> P' st) \<Longrightarrow> (\<And>x st. Q' x st \<Longrightarrow> Q x st) \<Longrightarrow> (\<And>st. E' st \<Longrightarrow> E st) \<Longrightarrow>
   triple P m Q E"
  by (auto simp: triple_def split: sum.splits prod.splits) (metis surj_pair)+

lemma triple_pre: "triple P' m Q E \<Longrightarrow> (\<And>st. P st \<Longrightarrow> P' st) \<Longrightarrow> triple P m Q E"
  by (erule triple_weaken)

lemma triple_if:
  "(c \<Longrightarrow> triple P m Q E) \<Longrightarrow> (\<not> c \<Longrightarrow> triple P k Q E) \<Longrightarrow> triple P (if c then m else k) Q E"
  by simp

lemma triple_catch:
  assumes "triple P m Q F" "\<And>e. triple F (h e) Q E"
  shows "triple P (acatch m h) Q E"
  unfolding triple_def
proof (intro allI impI)
  fix st n assume "P st"
  obtain st' n' r where m: "m (st, n) = ((st', n'), r)" by (metis surj_pair)
  show "case acatch m h (st, n) of (w, Inr x) \<Rightarrow> Q x (fst w) | (w, Inl _) \<Rightarrow> E (fst w)"
  proof (cases r)
    case (Inl e)
    then have "F st'" using tripleD [OF assms(1) \<open>P st\<close> m] by simp
    then show ?thesis using assms(2) [of e] m Inl unfolding triple_def acatch_def by simp
  next
    case (Inr x)
    then show ?thesis using tripleD [OF assms(1) \<open>P st\<close> m] m by (simp add: acatch_def)
  qed
qed

lemma triple_ignore:
  assumes "triple P m (\<lambda>_. R) R"
  shows "triple P (aignore m) (\<lambda>_. R) E"
  unfolding triple_def aignore_def
proof (intro allI impI)
  fix st n assume "P st"
  then show "case (fst (m (st, n)), Inr ()) of (w, Inr x) \<Rightarrow> R (fst w) | (w, Inl _) \<Rightarrow> E (fst w)"
    using tripleD [OF assms, of st n "fst (m (st, n))" "snd (m (st, n))"] by (auto split: sum.splits)
qed

lemma triple_ex:
  assumes "\<And>x. triple (P x) m Q E"
  shows "triple (\<lambda>st. \<exists>x. P x st) m Q E"
  unfolding triple_def
proof (intro allI impI, elim exE)
  fix st n x assume "P x st"
  then show "case m (st, n) of (w, Inr x) \<Rightarrow> Q x (fst w) | (w, Inl _) \<Rightarrow> E (fst w)"
    by (rule assms [unfolded triple_def, rule_format])
qed

text \<open>Sequences of actions that keep one predicate.\<close>

lemma keep_bind: "triple P m (\<lambda>_. P) E \<Longrightarrow> (\<And>x. triple P (f x) (\<lambda>_. P) E) \<Longrightarrow> triple P (abind m f) (\<lambda>_. P) E"
  by (rule triple_bind)

lemma keep_then: "triple P m (\<lambda>_. P) E \<Longrightarrow> triple P k (\<lambda>_. P) E \<Longrightarrow> triple P (athen m k) (\<lambda>_. P) E"
  by (rule triple_then)

text \<open>A part of the precondition that does not depend on the state.\<close>

lemma triple_fact: "(c \<Longrightarrow> triple P m Q E) \<Longrightarrow> triple (\<lambda>st. c \<and> P st) m Q E"
  by (auto simp: triple_def)

lemma triple_state: "triple P m Q E \<Longrightarrow> P st \<Longrightarrow> (\<And>x st. Q x st \<Longrightarrow> E st) \<Longrightarrow> E (fst (fst (m (st, n))))"
  by (cases "m (st, n)") (auto dest!: tripleD split: sum.splits)

section \<open>Actions that answer\<close>

definition settles :: "('s, 'e, 'a) act \<Rightarrow> 's \<Rightarrow> 's \<Rightarrow> 'a \<Rightarrow> bool" where
  "settles m st st' x \<longleftrightarrow> (\<exists>k. \<forall>n. m (st, k + n) = ((st', n), Inr x))"

lemma settles_return [intro!]: "settles (areturn x) st st x"
  by (auto simp: settles_def areturn_def intro: exI [of _ 0])

lemma settles_bind:
  assumes "settles m st st1 x" "settles (f x) st1 st2 y"
  shows "settles (abind m f) st st2 y"
proof -
  obtain j k where "\<And>n. m (st, j + n) = ((st1, n), Inr x)" "\<And>n. f x (st1, k + n) = ((st2, n), Inr y)"
    using assms by (auto simp: settles_def)
  then have "abind m f (st, (j + k) + n) = ((st2, n), Inr y)" for n by (simp add: abind_def add.assoc)
  then show ?thesis by (auto simp: settles_def)
qed

lemma settles_then: "settles m st st1 () \<Longrightarrow> settles k st1 st2 y \<Longrightarrow> settles (athen m k) st st2 y"
  by (auto simp: athen_def intro: settles_bind)

lemma settles_ask: "f st = Inr x \<Longrightarrow> settles (ask f) st st x"
  by (auto simp: settles_def ask_def intro: exI [of _ 0])

lemma settles_tick: "f st = Inr st' \<Longrightarrow> settles (tick e f) st st' ()"
  by (auto simp: settles_def tick_def intro!: exI [of _ 1])

lemma settles_result:
  "settles m st st' x \<Longrightarrow> triple P m Q E \<Longrightarrow> P st \<Longrightarrow> Q x st'"
  by (auto simp: settles_def triple_def) (metis (no_types, lifting) fst_conv old.sum.simps(6) split_conv)

end
