(* ===== verification/Soe_Store.thy ===== *)
theory Soe_Store
  imports Soe_Forecast Durable_Actions "HOL-Library.AList"
begin

text \<open>
  The private state of the weekly cycle (\<open>ports/soe.rs\<close>, \<open>adapters/outbound/soe/store.rs\<close>): run
  directories, claimed once and frozen once, and the append-only state logs. A run file is kept as
  what its readers take out of it (\<open>serde_json\<close> and UTF-8 are not modelled), a directory as its files
  by name, \<open>MANIFEST.json\<close> among them. The process may stop before any durable step, and a
  lease renewal may fail: both count as steps of the action (\<open>Durable_Actions\<close>).
\<close>

section \<open>Run directories\<close>

datatype run_dir = Cycle string | Replay string | Review string

datatype run_status = RunAbsent | RunOpen | RunFrozen

fun run_id :: "run_dir \<Rightarrow> string" where
  "run_id (Cycle i) = i" | "run_id (Replay i) = i" | "run_id (Review i) = i"

fun is_replay :: "run_dir \<Rightarrow> bool" where
  "is_replay (Replay _) = True" | "is_replay _ = False"

fun run_space :: "run_dir \<Rightarrow> string" where
  "run_space (Cycle _) = ''cycles''" | "run_space (Replay _) = ''replays''" | "run_space (Review _) = ''reviews''"

definition run_dir_text :: "run_dir \<Rightarrow> string" where
  "run_dir_text d = run_space d @ ''/'' @ run_id d"

text \<open>\<open>RunDir::parse\<close>: trailing slashes trimmed, split at the first one.\<close>

definition trim_end_slash :: "string \<Rightarrow> string" where
  "trim_end_slash s = rev (dropWhile (\<lambda>c. c = CHR ''/'') (rev s))"

definition run_dir_parse :: "string \<Rightarrow> run_dir option" where
  "run_dir_parse s =
     (let t = trim_end_slash s;
          space = takeWhile (\<lambda>c. c \<noteq> CHR ''/'') t; rest = dropWhile (\<lambda>c. c \<noteq> CHR ''/'') t in
      if rest = [] then None
      else let i = tl rest in
        if \<not> valid_id i then None
        else if space = ''cycles'' then Some (Cycle i)
        else if space = ''replays'' then Some (Replay i)
        else if space = ''reviews'' then Some (Review i)
        else None)"

definition MANIFEST :: string where "MANIFEST = ''MANIFEST.json''"
definition MANIFEST_TMP :: string where "MANIFEST_TMP = ''.MANIFEST.json.tmp''"

definition valid_file_name :: "string \<Rightarrow> bool" where
  "valid_file_name s \<longleftrightarrow> s \<noteq> [] \<and> length s \<le> 80 \<and> is_ascii_alphanumeric (hd s) \<and>
     list_all (\<lambda>c. is_ascii_alphanumeric c \<or> c \<in> {CHR ''.'', CHR ''_'', CHR ''-''}) s \<and> s \<noteq> MANIFEST"

section \<open>The store\<close>

record manifest_entry =
  me_path :: string
  me_sha256 :: string
  me_bytes :: int

text \<open>What a reader finds in a file: a forecast-log line, a forecast, the lines of a \<open>.jsonl\<close>, a
  manifest, or other bytes.\<close>

datatype content =
    LineJson log_line
  | ForecastJson forecast
  | Rows "string list"
  | ManifestJson "manifest_entry list"
  | Bytes string

type_synonym run_files = "(string \<times> content) list"

record soe_store =
  ss_dirs :: "(run_dir \<times> run_files) list"
  ss_candidates :: "string list"
  ss_episodes :: "string list"
  ss_forecasts :: "log_line list"
  ss_logged_runs :: "run_dir list" \<comment> \<open>the runs \<open>replays.jsonl\<close> and \<open>reviews.jsonl\<close> name\<close>

datatype cycle_error =
    Refused \<comment> \<open>the preflight's own problems\<close>
  | CycleAlreadyFrozen | CycleUnfinished | CycleOutOfOrder | ChainBroken
  | LeaseLost | Stopped
  | StoreRefused \<comment> \<open>a store call's error\<close>
  | RunFailed \<comment> \<open>a domain error inside the run\<close>

type_synonym 'a cycle_act = "(soe_store, cycle_error, 'a) act"

definition ensure :: "unit cycle_act" where
  "ensure = tick LeaseLost Inr"

text \<open>One durable step; the process may have stopped before it.\<close>

definition disk :: "(soe_store \<Rightarrow> cycle_error + soe_store) \<Rightarrow> unit cycle_act" where
  "disk = tick Stopped"

definition status :: "run_dir \<Rightarrow> soe_store \<Rightarrow> cycle_error + run_status" where
  "status d st =
     (if \<not> valid_id (run_id d) then Inl StoreRefused
      else Inr (case map_of (ss_dirs st) d of
         None \<Rightarrow> RunAbsent
       | Some fs \<Rightarrow> if MANIFEST \<in> fst ` set fs then RunFrozen else RunOpen))"

definition claim :: "run_dir \<Rightarrow> soe_store \<Rightarrow> cycle_error + soe_store" where
  "claim d st =
     (if valid_id (run_id d) \<and> map_of (ss_dirs st) d = None then Inr (st\<lparr>ss_dirs := (d, []) # ss_dirs st\<rparr>)
      else Inl StoreRefused)"

definition put_files :: "run_dir \<Rightarrow> run_files \<Rightarrow> soe_store \<Rightarrow> soe_store" where
  "put_files d fs st = st\<lparr>ss_dirs := AList.update d fs (ss_dirs st)\<rparr>"

text \<open>\<open>open_dir\<close>: the files of a claimed run that is not frozen.\<close>

definition open_dir :: "run_dir \<Rightarrow> soe_store \<Rightarrow> cycle_error + run_files" where
  "open_dir d st =
     (case status d st of
        Inr RunOpen \<Rightarrow> Inr (the (map_of (ss_dirs st) d))
      | _ \<Rightarrow> Inl StoreRefused)"

definition cycles :: "soe_store \<Rightarrow> string list" where
  "cycles st = sort (filter valid_id (concat (map (\<lambda>(d, _). case d of Cycle i \<Rightarrow> [i] | _ \<Rightarrow> []) (ss_dirs st))))"

definition write_file :: "run_dir \<Rightarrow> string \<Rightarrow> content \<Rightarrow> soe_store \<Rightarrow> cycle_error + soe_store" where
  "write_file d name b st =
     (if \<not> valid_file_name name then Inl StoreRefused
      else case open_dir d st of
        Inl e \<Rightarrow> Inl e
      | Inr fs \<Rightarrow> if name \<in> fst ` set fs then Inl StoreRefused
                  else Inr (put_files d ((name, b) # fs) st))"

definition plain_segment :: "string \<Rightarrow> bool" where
  "plain_segment s \<longleftrightarrow> s \<noteq> [] \<and> s \<noteq> ''.'' \<and> s \<noteq> ''..'' \<and>
     list_all (\<lambda>c. c \<noteq> CHR ''/'' \<and> c \<noteq> CHR 0x5C \<and> c \<noteq> CHR 0x00) s"

definition read_file :: "run_dir \<Rightarrow> string \<Rightarrow> soe_store \<Rightarrow> cycle_error + content option" where
  "read_file d name st =
     (if \<not> plain_segment name \<or> \<not> valid_id (run_id d) then Inl StoreRefused
      else Inr (case map_of (ss_dirs st) d of None \<Rightarrow> None | Some fs \<Rightarrow> map_of fs name))"

text \<open>\<open>FsCycleStore::append\<close>: one line to \<open>proposals.jsonl\<close> or \<open>challenges.jsonl\<close> of an open run, files
  that only ever hold lines.\<close>

definition append_row :: "run_dir \<Rightarrow> string \<Rightarrow> string \<Rightarrow> soe_store \<Rightarrow> cycle_error + soe_store" where
  "append_row d name line st =
     (case open_dir d st of
        Inl e \<Rightarrow> Inl e
      | Inr fs \<Rightarrow> (case map_of fs name of
           None \<Rightarrow> Inr (put_files d ((name, Rows [line]) # fs) st)
         | Some (Rows ls) \<Rightarrow> Inr (put_files d (AList.update name (Rows (ls @ [line])) fs) st)
         | Some _ \<Rightarrow> Inl StoreRefused))"

definition file_names :: "run_dir \<Rightarrow> soe_store \<Rightarrow> cycle_error + string list" where
  "file_names d st =
     (if \<not> valid_id (run_id d) then Inl StoreRefused
      else case map_of (ss_dirs st) d of
        None \<Rightarrow> Inl StoreRefused
      | Some fs \<Rightarrow> Inr (sort (filter (\<lambda>n. n \<noteq> MANIFEST) (map fst fs))))"

text \<open>\<open>FsCycleStore::freeze\<close>, durable step by durable step: the manifest written aside, linked in
  (from here on the run is frozen; never over an existing one), the side file removed whether or not
  the link was made. The write bits \<open>freeze\<close> takes away last are not modelled: the store itself refuses
  every write to a frozen run.\<close>

definition freeze_tmp :: "run_dir \<Rightarrow> content \<Rightarrow> soe_store \<Rightarrow> cycle_error + soe_store" where
  "freeze_tmp d m st =
     (case open_dir d st of Inl e \<Rightarrow> Inl e | Inr fs \<Rightarrow> Inr (put_files d (AList.update MANIFEST_TMP m fs) st))"

definition can_link :: "run_dir \<Rightarrow> soe_store \<Rightarrow> cycle_error + bool" where
  "can_link d st =
     Inr (case map_of (ss_dirs st) d of
        None \<Rightarrow> False
      | Some fs \<Rightarrow> MANIFEST_TMP \<in> fst ` set fs \<and> MANIFEST \<notin> fst ` set fs)"

definition freeze_link :: "run_dir \<Rightarrow> soe_store \<Rightarrow> cycle_error + soe_store" where
  "freeze_link d st =
     Inr (case map_of (ss_dirs st) d of
        None \<Rightarrow> st
      | Some fs \<Rightarrow> (case (map_of fs MANIFEST_TMP, map_of fs MANIFEST) of
           (Some m, None) \<Rightarrow> put_files d ((MANIFEST, m) # fs) st
         | _ \<Rightarrow> st))"

definition freeze_untmp :: "run_dir \<Rightarrow> soe_store \<Rightarrow> cycle_error + soe_store" where
  "freeze_untmp d st =
     (case map_of (ss_dirs st) d of
        None \<Rightarrow> Inl StoreRefused
      | Some fs \<Rightarrow> Inr (put_files d (AList.delete MANIFEST_TMP fs) st))"

definition store_freeze :: "run_dir \<Rightarrow> content \<Rightarrow> unit cycle_act" where
  "store_freeze d m =
     athen (disk (freeze_tmp d m))
     (abind (ask (can_link d)) (\<lambda>linked.
     athen (disk (freeze_link d))
     (athen (disk (freeze_untmp d))
     (if linked then areturn () else afail StoreRefused))))"

datatype state_log = Candidates | Episodes

definition log_lines :: "state_log \<Rightarrow> soe_store \<Rightarrow> string list" where
  "log_lines g st = (case g of Candidates \<Rightarrow> ss_candidates st | Episodes \<Rightarrow> ss_episodes st)"

definition append_line :: "state_log \<Rightarrow> string \<Rightarrow> soe_store \<Rightarrow> cycle_error + soe_store" where
  "append_line g line st =
     (if CHR 0x0A \<in> set line then Inl StoreRefused
      else Inr (case g of
         Candidates \<Rightarrow> st\<lparr>ss_candidates := ss_candidates st @ [line]\<rparr>
       | Episodes \<Rightarrow> st\<lparr>ss_episodes := ss_episodes st @ [line]\<rparr>))"

text \<open>A forecast-log line is canonical JSON, which holds no newline.\<close>

definition append_forecast :: "log_line \<Rightarrow> soe_store \<Rightarrow> cycle_error + soe_store" where
  "append_forecast l st = Inr (st\<lparr>ss_forecasts := ss_forecasts st @ [l]\<rparr>)"

section \<open>Sealed run directories (freeze.rs)\<close>

text \<open>\<open>sha256_hex\<close> of a file's bytes and their number are the argument \<open>digest\<close>.\<close>

definition entries :: "(content \<Rightarrow> string \<times> int) \<Rightarrow> run_dir \<Rightarrow> soe_store \<Rightarrow> cycle_error + manifest_entry list" where
  "entries digest d st =
     (case file_names d st of
        Inl e \<Rightarrow> Inl e
      | Inr names \<Rightarrow>
          let fs = the (map_of (ss_dirs st) d) in
          Inr (map (\<lambda>n. let (sha, len) = digest (the (map_of fs n)) in
                 \<lparr>me_path = n, me_sha256 = sha, me_bytes = len\<rparr>) names))"

definition manifest_bytes :: "manifest_entry list \<Rightarrow> content" where
  "manifest_bytes es = ManifestJson (sort_key me_path es)"

definition freeze_run :: "(content \<Rightarrow> string \<times> int) \<Rightarrow> run_dir \<Rightarrow> string cycle_act" where
  "freeze_run digest d =
     abind (ask (entries digest d)) (\<lambda>es.
     athen (store_freeze d (manifest_bytes es))
     (areturn (fst (digest (manifest_bytes es)))))"

datatype file_check = FileMatch | FileMismatch | FileAbsent | FileExtra

record verified =
  vf_run :: string
  vf_manifest_sha256 :: "string option"
  vf_files :: "(string \<times> file_check) list"

definition verified_ok :: "verified \<Rightarrow> bool" where
  "verified_ok v \<longleftrightarrow> vf_manifest_sha256 v \<noteq> None \<and> list_all (\<lambda>(_, c). c = FileMatch) (vf_files v)"

definition check_entry :: "manifest_entry list \<Rightarrow> manifest_entry \<Rightarrow> file_check" where
  "check_entry now e =
     (case find (\<lambda>n. me_path n = me_path e) now of
        None \<Rightarrow> FileAbsent
      | Some n \<Rightarrow> if me_sha256 n = me_sha256 e \<and> me_bytes n = me_bytes e then FileMatch else FileMismatch)"

fun check_rank :: "file_check \<Rightarrow> nat" where
  "check_rank FileMatch = 0" | "check_rank FileMismatch = 1" | "check_rank FileAbsent = 2" | "check_rank FileExtra = 3"

definition verify :: "(content \<Rightarrow> string \<times> int) \<Rightarrow> run_dir \<Rightarrow> soe_store \<Rightarrow> cycle_error + verified" where
  "verify digest d st =
     (case read_file d MANIFEST st of
        Inl e \<Rightarrow> Inl e
      | Inr None \<Rightarrow> Inr \<lparr>vf_run = run_dir_text d, vf_manifest_sha256 = None, vf_files = []\<rparr>
      | Inr (Some (ManifestJson listed)) \<Rightarrow>
          (case entries digest d st of
             Inl e \<Rightarrow> Inl e
           | Inr now \<Rightarrow>
               Inr \<lparr>vf_run = run_dir_text d,
                    vf_manifest_sha256 = Some (fst (digest (ManifestJson listed))),
                    vf_files = sort_key (\<lambda>(path, c). (path, check_rank c)) (map (\<lambda>e. (me_path e, check_entry now e)) listed @
                      map (\<lambda>e. (me_path e, FileExtra))
                        (filter (\<lambda>e. me_path e \<notin> me_path ` set listed) now))\<rparr>)
      | Inr (Some _) \<Rightarrow> Inl StoreRefused)"

definition OPS :: string where "OPS = ''ops.json''"

definition decision_sha256 ::
  "((string \<times> string) list \<Rightarrow> string) \<Rightarrow> (content \<Rightarrow> string \<times> int) \<Rightarrow> run_dir \<Rightarrow> soe_store \<Rightarrow> cycle_error + string" where
  "decision_sha256 jhash digest d st =
     (case entries digest d st of
        Inl e \<Rightarrow> Inl e
      | Inr es \<Rightarrow> Inr (jhash (map (\<lambda>e. (me_path e, me_sha256 e)) (filter (\<lambda>e. me_path e \<noteq> OPS) es))))"

end
