(* ===== verification/Soe_Store_Props.thy ===== *)
theory Soe_Store_Props
  imports Soe_Store
begin

text \<open>
  Sealed runs: what a manifest proves about the directory that holds it, and what a freeze that is cut
  off half-way leaves behind.
\<close>

section \<open>Sealed runs\<close>

definition entry_of :: "(content \<Rightarrow> string \<times> int) \<Rightarrow> run_files \<Rightarrow> string \<Rightarrow> manifest_entry" where
  "entry_of digest fs n = (let (sha, len) = digest (the (map_of fs n)) in \<lparr>me_path = n, me_sha256 = sha, me_bytes = len\<rparr>)"

definition listing :: "(content \<Rightarrow> string \<times> int) \<Rightarrow> run_files \<Rightarrow> manifest_entry list" where
  "listing digest fs = map (entry_of digest fs) (sort (filter (\<lambda>n. n \<noteq> MANIFEST) (map fst fs)))"

lemma entry_of_simps [simp]:
  "me_path (entry_of digest fs n) = n" "me_sha256 (entry_of digest fs n) = fst (digest (the (map_of fs n)))"
  "me_bytes (entry_of digest fs n) = snd (digest (the (map_of fs n)))"
  by (simp_all add: entry_of_def case_prod_unfold Let_def)

lemma paths_listing [simp]: "map me_path (listing digest fs) = sort (filter (\<lambda>n. n \<noteq> MANIFEST) (map fst fs))"
  by (simp add: listing_def comp_def)

lemma entries_listing:
  "valid_id (run_id d) \<Longrightarrow> map_of (ss_dirs st) d = Some fs \<Longrightarrow> entries digest d st = Inr (listing digest fs)"
  by (simp add: entries_def file_names_def listing_def entry_of_def Let_def)

lemma manifest_listing: "manifest_bytes (listing digest fs) = ManifestJson (listing digest fs)"
proof -
  have "sorted (map me_path (listing digest fs))" by simp
  then show ?thesis by (simp add: manifest_bytes_def sorted_sort_id sort_key_id_if_sorted)
qed

lemma find_listing:
  "find (\<lambda>e. me_path e = n) (listing digest fs) =
     (if n \<noteq> MANIFEST \<and> n \<in> fst ` set fs then Some (entry_of digest fs n) else None)"
proof (cases "n \<noteq> MANIFEST \<and> n \<in> fst ` set fs")
  case False
  then show ?thesis by (auto simp: find_None_iff listing_def)
next
  case True
  then have "\<exists>e \<in> set (listing digest fs). me_path e = n" by (force simp: listing_def)
  then obtain e where e: "find (\<lambda>e. me_path e = n) (listing digest fs) = Some e"
    by (metis (mono_tags, lifting) find_None_iff not_None_eq)
  then have "e \<in> set (listing digest fs)" "me_path e = n" by (auto simp: find_Some_iff)
  then have "e = entry_of digest fs n" by (auto simp: listing_def)
  with e True show ?thesis by simp
qed

lemma check_listed:
  "check_entry (listing digest gs) (entry_of digest fs n) =
     (if n = MANIFEST \<or> n \<notin> fst ` set gs then FileAbsent
      else if digest (the (map_of gs n)) = digest (the (map_of fs n)) then FileMatch else FileMismatch)"
  by (auto simp: check_entry_def find_listing prod_eq_iff)

text \<open>\<open>verify\<close> of a directory against the manifest of the files \<open>fs\<close>.\<close>

lemma verify_listing:
  assumes "valid_id (run_id d)" "map_of (ss_dirs st) d = Some gs" "map_of gs MANIFEST = Some (ManifestJson (listing digest fs))"
  shows "\<exists>v. verify digest d st = Inr v \<and>
    (verified_ok v \<longleftrightarrow> (\<forall>n. n \<noteq> MANIFEST \<longrightarrow> map_option digest (map_of gs n) = map_option digest (map_of fs n))) \<and>
    (\<forall>n. n \<noteq> MANIFEST \<longrightarrow> n \<in> fst ` set gs \<longrightarrow> n \<notin> fst ` set fs \<longrightarrow> (n, FileExtra) \<in> set (vf_files v))"
proof -
  let ?listed = "map (\<lambda>e. (me_path e, check_entry (listing digest gs) e)) (listing digest fs)"
  let ?extra = "map (\<lambda>e. (me_path e, FileExtra)) (filter (\<lambda>e. me_path e \<notin> me_path ` set (listing digest fs)) (listing digest gs))"
  define v where "v = \<lparr>vf_run = run_dir_text d, vf_manifest_sha256 = Some (fst (digest (ManifestJson (listing digest fs)))),
      vf_files = sort_key (\<lambda>(path, c). (path, check_rank c)) (?listed @ ?extra)\<rparr>"
  have plain: "plain_segment MANIFEST" by (simp add: plain_segment_def MANIFEST_def)
  have v: "verify digest d st = Inr v"
    using assms entries_listing [OF assms(1,2), of digest] plain by (simp add: verify_def read_file_def v_def)
  have names: "me_path ` set (listing digest xs) = {n \<in> fst ` set xs. n \<noteq> MANIFEST}" for xs
    by (auto simp: listing_def image_image)
  have files: "set (vf_files v) = set ?listed \<union> set ?extra" by (simp add: v_def)
  have ok: "verified_ok v \<longleftrightarrow>
      (\<forall>n \<in> fst ` set fs. n \<noteq> MANIFEST \<longrightarrow> n \<in> fst ` set gs \<and> digest (the (map_of gs n)) = digest (the (map_of fs n))) \<and>
      (\<forall>n \<in> fst ` set gs. n \<noteq> MANIFEST \<longrightarrow> n \<in> fst ` set fs)"
  proof -
    have "verified_ok v \<longleftrightarrow> (\<forall>(_, c) \<in> set ?listed \<union> set ?extra. c = FileMatch)"
      by (simp only: files [symmetric]) (simp add: verified_ok_def v_def list_all_iff)
    also have "\<dots> \<longleftrightarrow> (\<forall>e \<in> set (listing digest fs). check_entry (listing digest gs) e = FileMatch) \<and>
        me_path ` set (listing digest gs) \<subseteq> me_path ` set (listing digest fs)" by auto
    also have "(\<forall>e \<in> set (listing digest fs). check_entry (listing digest gs) e = FileMatch) \<longleftrightarrow>
        (\<forall>n \<in> fst ` set fs. n \<noteq> MANIFEST \<longrightarrow> n \<in> fst ` set gs \<and> digest (the (map_of gs n)) = digest (the (map_of fs n)))"
      unfolding listing_def [of digest fs] by (auto simp: check_listed)
    also have "me_path ` set (listing digest gs) \<subseteq> me_path ` set (listing digest fs) \<longleftrightarrow>
        (\<forall>n \<in> fst ` set gs. n \<noteq> MANIFEST \<longrightarrow> n \<in> fst ` set fs)" unfolding names by auto
    finally show ?thesis .
  qed
  have dom: "n \<in> fst ` set xs \<longleftrightarrow> map_of xs n \<noteq> None" for n and xs :: run_files by (simp add: map_of_eq_None_iff)
  have "verified_ok v \<longleftrightarrow> (\<forall>n. n \<noteq> MANIFEST \<longrightarrow> map_option digest (map_of gs n) = map_option digest (map_of fs n))"
  proof -
    have one: "map_option digest a = map_option digest b \<longleftrightarrow>
        (b \<noteq> None \<longrightarrow> a \<noteq> None \<and> digest (the a) = digest (the b)) \<and> (a \<noteq> None \<longrightarrow> b \<noteq> None)" for a b :: "content option"
      by (cases a; cases b) auto
    show ?thesis unfolding ok one Ball_def dom by blast
  qed
  moreover have "(n, FileExtra) \<in> set (vf_files v)" if "n \<noteq> MANIFEST" "n \<in> fst ` set gs" "n \<notin> fst ` set fs" for n
  proof -
    have "n \<in> me_path ` set (listing digest gs)" "n \<notin> me_path ` set (listing digest fs)" using that by (auto simp: names)
    then show ?thesis unfolding files by auto
  qed
  ultimately show ?thesis using v by blast
qed

text \<open>The freeze of an open run, to its end.\<close>

lemma freeze_run_settles:
  assumes "open_dir d st = Inr fs" "MANIFEST_TMP \<notin> fst ` set fs"
  shows "\<exists>st1 sha. settles (freeze_run digest d) st st1 sha \<and>
    map_of (ss_dirs st1) d = Some ((MANIFEST, ManifestJson (listing digest fs)) # fs)"
proof -
  let ?m = "ManifestJson (listing digest fs)"
  have d: "valid_id (run_id d)" "map_of (ss_dirs st) d = Some fs" "MANIFEST \<notin> fst ` set fs"
    using assms(1) by (auto simp: open_dir_def status_def split: if_splits option.splits)
  have tmp: "MANIFEST_TMP \<noteq> MANIFEST" by (simp add: MANIFEST_TMP_def MANIFEST_def)
  let ?f1 = "AList.update MANIFEST_TMP ?m fs"
  let ?s1 = "put_files d ?f1 st" and ?s2 = "put_files d ((MANIFEST, ?m) # ?f1) (put_files d ?f1 st)"
  have m1: "map_of ?f1 MANIFEST_TMP = Some ?m" "map_of ?f1 MANIFEST = None"
    using d(3) tmp by (auto simp: update_conv' map_of_eq_None_iff)
  have s1: "map_of (ss_dirs ?s1) d = Some ?f1" by (simp add: put_files_def update_conv')
  have s2: "map_of (ss_dirs ?s2) d = Some ((MANIFEST, ?m) # ?f1)" by (simp add: put_files_def update_conv')
  let ?s3 = "put_files d (AList.delete MANIFEST_TMP ((MANIFEST, ?m) # ?f1)) ?s2"
  have "settles (disk (freeze_tmp d ?m)) st ?s1 ()"
    unfolding disk_def by (rule settles_tick) (simp add: freeze_tmp_def assms(1))
  moreover have "settles (ask (can_link d)) ?s1 ?s1 True"
    by (rule settles_ask) (use m1 s1 in \<open>force simp: can_link_def map_of_eq_None_iff dest: map_of_SomeD\<close>)
  moreover have "settles (disk (freeze_link d)) ?s1 ?s2 ()"
    unfolding disk_def by (rule settles_tick) (simp add: freeze_link_def s1 m1)
  moreover have "settles (disk (freeze_untmp d)) ?s2 ?s3 ()"
    unfolding disk_def by (rule settles_tick) (simp add: freeze_untmp_def s2)
  ultimately have "settles (store_freeze d ?m) st ?s3 ()"
    unfolding store_freeze_def by (auto intro!: settles_then settles_bind)
  moreover have "settles (ask (entries digest d)) st st (listing digest fs)"
    by (rule settles_ask) (rule entries_listing [OF d(1,2)])
  ultimately have "settles (freeze_run digest d) st ?s3 (fst (digest ?m))"
    unfolding freeze_run_def by (auto simp: manifest_listing intro!: settles_bind settles_then)
  moreover have "AList.delete MANIFEST_TMP ((MANIFEST, ?m) # ?f1) = (MANIFEST, ?m) # fs"
    using tmp assms(2) by (simp add: delete_update_same delete_idem)
  then have "map_of (ss_dirs ?s3) d = Some ((MANIFEST, ?m) # fs)" by (simp add: put_files_def update_conv')
  ultimately show ?thesis by blast
qed

section \<open>Properties\<close>

text \<open>C26: a frozen run is tamper-evident. Freezing an open run ends in a directory with the same files
  and their manifest, which \<open>verify\<close> accepts; and whatever the directory holds later beside that
  manifest, \<open>verify\<close> accepts it exactly when it holds the same files with the same contents (as long as
  the digest does not collide on the contents): a file that was edited, added or removed is found.\<close>

theorem sealed_run_detects_changes:
  assumes "open_dir d st = Inr fs" "MANIFEST_TMP \<notin> fst ` set fs"
  shows "\<exists>st1 sha m. settles (freeze_run digest d) st st1 sha \<and>
    map_of (ss_dirs st1) d = Some ((MANIFEST, m) # fs) \<and> status d st1 = Inr RunFrozen \<and>
    (\<forall>st2 gs. map_of (ss_dirs st2) d = Some gs \<longrightarrow> map_of gs MANIFEST = Some m \<longrightarrow>
       inj_on digest (ran (map_of fs) \<union> ran (map_of gs)) \<longrightarrow>
       (\<exists>v. verify digest d st2 = Inr v \<and>
          (verified_ok v \<longleftrightarrow> (\<forall>n. n \<noteq> MANIFEST \<longrightarrow> map_of gs n = map_of fs n))))"
proof -
  have d: "valid_id (run_id d)" using assms(1) by (auto simp: open_dir_def status_def split: if_splits)
  obtain st1 sha where s: "settles (freeze_run digest d) st st1 sha"
      "map_of (ss_dirs st1) d = Some ((MANIFEST, ManifestJson (listing digest fs)) # fs)"
    using freeze_run_settles [OF assms] by blast
  have "\<exists>v. verify digest d st2 = Inr v \<and> (verified_ok v \<longleftrightarrow> (\<forall>n. n \<noteq> MANIFEST \<longrightarrow> map_of gs n = map_of fs n))"
    if g: "map_of (ss_dirs st2) d = Some gs" "map_of gs MANIFEST = Some (ManifestJson (listing digest fs))"
      and inj: "inj_on digest (ran (map_of fs) \<union> ran (map_of gs))" for st2 gs
  proof -
    have "map_option digest (map_of gs n) = map_option digest (map_of fs n) \<longleftrightarrow> map_of gs n = map_of fs n" for n
      using inj by (cases "map_of gs n"; cases "map_of fs n") (auto dest: inj_onD intro: ranI)
    with verify_listing [OF d g] show ?thesis by metis
  qed
  with s d show ?thesis by (intro exI [of _ st1] exI [of _ sha] exI [of _ "ManifestJson (listing digest fs)"]) (simp add: status_def)
qed

definition sample_store :: soe_store where
  "sample_store = \<lparr>ss_dirs = [(Cycle ''2026-W41'', [(''memo.md'', Bytes ''hold''), (''ops.json'', Bytes ''{}'')])],
     ss_candidates = [], ss_episodes = [], ss_forecasts = [], ss_logged_runs = []\<rparr>"

definition sample_digest :: "content \<Rightarrow> string \<times> int" where
  "sample_digest c = (case c of Bytes b \<Rightarrow> (b, int (length b)) | _ \<Rightarrow> (''-'', 1))"

theorem sealed_run_detects_changes_witness:
  "\<exists>st1 sha. settles (freeze_run sample_digest (Cycle ''2026-W41'')) sample_store st1 sha \<and>
     status (Cycle ''2026-W41'') st1 = Inr RunFrozen"
proof -
  let ?fs = "[(''memo.md'', Bytes ''hold''), (''ops.json'', Bytes ''{}'')]"
  have "open_dir (Cycle ''2026-W41'') sample_store = Inr ?fs" by code_simp
  moreover have "MANIFEST_TMP \<notin> fst ` set ?fs" by (simp add: MANIFEST_TMP_def)
  ultimately show ?thesis using sealed_run_detects_changes [of "Cycle ''2026-W41''" sample_store ?fs sample_digest] by blast
qed

text \<open>C35: the freeze itself is not atomic. A process that stops after the manifest was linked in and before
  its temporary copy was removed leaves a run that counts as frozen, refuses every further write, and
  is never accepted by \<open>verify\<close>: the temporary file is reported as an extra one.\<close>

theorem torn_freeze_never_verifies:
  assumes "open_dir d st = Inr fs" "MANIFEST_TMP \<notin> fst ` set fs" "freeze_run digest d (st, 2) = ((st2, n2), r)"
  shows "r = Inl Stopped \<and> status d st2 = Inr RunFrozen \<and>
    (\<forall>name b. write_file d name b st2 = Inl StoreRefused) \<and>
    (\<exists>v. verify digest d st2 = Inr v \<and> \<not> verified_ok v \<and> (MANIFEST_TMP, FileExtra) \<in> set (vf_files v))"
proof -
  let ?m = "ManifestJson (listing digest fs)"
  have d: "valid_id (run_id d)" "map_of (ss_dirs st) d = Some fs" "MANIFEST \<notin> fst ` set fs"
    using assms(1) by (auto simp: open_dir_def status_def split: if_splits option.splits)
  have tmp: "MANIFEST_TMP \<noteq> MANIFEST" by (simp add: MANIFEST_TMP_def MANIFEST_def)
  let ?f1 = "AList.update MANIFEST_TMP ?m fs"
  let ?s1 = "put_files d ?f1 st" and ?s2 = "put_files d ((MANIFEST, ?m) # ?f1) (put_files d ?f1 st)"
  have m1: "map_of ?f1 MANIFEST_TMP = Some ?m" "map_of ?f1 MANIFEST = None"
    using d(3) tmp by (auto simp: update_conv' map_of_eq_None_iff)
  have s1: "map_of (ss_dirs ?s1) d = Some ?f1" by (simp add: put_files_def update_conv')
  have s2: "map_of (ss_dirs ?s2) d = Some ((MANIFEST, ?m) # ?f1)" by (simp add: put_files_def update_conv')
  have "freeze_run digest d (st, 2) = ((?s2, 0), Inl Stopped)"
    using entries_listing [OF d(1,2), of digest] s1 m1
    by (simp add: freeze_run_def store_freeze_def abind_def athen_def ask_def disk_def tick_def
        manifest_listing freeze_tmp_def assms(1) freeze_link_def can_link_def numeral_2_eq_2)
  with assms(3) have r: "r = Inl Stopped" "st2 = ?s2" by auto
  have linked: "map_of ((MANIFEST, ?m) # ?f1) MANIFEST = Some ?m" by simp
  obtain v where v: "verify digest d ?s2 = Inr v"
      "\<forall>n. n \<noteq> MANIFEST \<longrightarrow> n \<in> fst ` set ((MANIFEST, ?m) # ?f1) \<longrightarrow> n \<notin> fst ` set fs \<longrightarrow> (n, FileExtra) \<in> set (vf_files v)"
    using verify_listing [OF d(1) s2 linked] by blast
  have "(MANIFEST_TMP, FileExtra) \<in> set (vf_files v)" using assms(2) tmp v(2) by (simp add: dom_update)
  moreover note v(1)
  moreover from calculation have "\<not> verified_ok v" by (auto simp: verified_ok_def list_all_iff)
  moreover have frozen: "status d ?s2 = Inr RunFrozen" using d(1) s2 by (simp add: status_def)
  ultimately show ?thesis unfolding r by (auto simp: write_file_def open_dir_def frozen)
qed

theorem torn_freeze_never_verifies_witness:
  "status (Cycle ''2026-W41'') (fst (fst (freeze_run sample_digest (Cycle ''2026-W41'') (sample_store, 2)))) = Inr RunFrozen"
proof -
  let ?fs = "[(''memo.md'', Bytes ''hold''), (''ops.json'', Bytes ''{}'')]"
  obtain st2 n2 r where r: "freeze_run sample_digest (Cycle ''2026-W41'') (sample_store, 2) = ((st2, n2), r)" by (metis surj_pair)
  have "open_dir (Cycle ''2026-W41'') sample_store = Inr ?fs" by code_simp
  moreover have "MANIFEST_TMP \<notin> fst ` set ?fs" by (simp add: MANIFEST_TMP_def)
  ultimately show ?thesis using torn_freeze_never_verifies [OF _ _ r] r by simp
qed

end
