(* ===== verification/Soe_Cycle.thy ===== *)
theory Soe_Cycle
  imports Soe_Store
begin

text \<open>
  The weekly cycle (\<open>application/soe/cycle.rs\<close>, \<open>job.rs\<close>) as it touches the durable state: the
  refusals, the resume of an earlier cycle's lost appends, the claim, the phases, the freeze and the
  appends after it, each under a renewed lease. What the model stages and the decision produce is an
  argument; the forecast is frozen and chained by the definitions of \<open>forecast.rs\<close>.
\<close>

definition FORECAST :: string where "FORECAST = ''forecast.json''"
definition FORECAST_LINE :: string where "FORECAST_LINE = ''forecast-line.json''"
definition CANDIDATES :: string where "CANDIDATES = ''candidates.jsonl''"
definition EPISODES :: string where "EPISODES = ''episodes.jsonl''"
definition HEAD :: string where "HEAD = ''head.json''"
definition PACKET :: string where "PACKET = ''packet.json''"
definition PROFILE :: string where "PROFILE = ''profile.toml''"
definition CARRIED :: string where "CARRIED = ''carried.json''"
definition DECIDED :: string where "DECIDED = ''decided.json''"
definition PORTFOLIO :: string where "PORTFOLIO = ''portfolio.json''"
definition MEMO :: string where "MEMO = ''memo.md''"
definition INPUTS :: string where "INPUTS = ''inputs.json''"
definition STAGES :: string where "STAGES = ''stages.json''"
definition FAILED :: string where "FAILED = ''failed.json''"
definition PROPOSALS :: string where "PROPOSALS = ''proposals.jsonl''"
definition CHALLENGES :: string where "CHALLENGES = ''challenges.jsonl''"

section \<open>Parameters\<close>

datatype target = TargetCycle | TargetReplay string

fun target_dir :: "target \<Rightarrow> string \<Rightarrow> run_dir" where
  "target_dir TargetCycle cycle_id = Cycle cycle_id"
| "target_dir (TargetReplay run) cycle_id = Replay run"

record generation_pin =
  gp_id :: string
  gp_sha256 :: string

record cycle_params =
  cp_target :: target
  cp_week :: iso_week
  cp_decided_at_ms :: int
  cp_generation :: generation_pin
  cp_architect :: string
  cp_critic :: string
  cp_max_proposals :: nat
  cp_forecast_max_weeks :: int

text \<open>What is observed before the claim, and what a claimed run decides: the contents of its files, the
  portfolio, the cycle's own proposals with their predictions, and the lines it teaches.\<close>

record observed =
  ob_head :: content
  ob_packet :: content
  ob_profile :: content
  ob_carried :: content

record week_work =
  ww_decided :: content
  ww_portfolio_json :: content
  ww_memo :: content
  ww_inputs :: content
  ww_stages :: content
  ww_ops :: content
  ww_portfolio :: weekly_portfolio
  ww_own :: "(string \<times> int \<times> forecast_item list) list"
  ww_events :: "string list"
  ww_episodes :: "string list"

text \<open>The hashes, and the parts of a run that are not modelled: what is observed before the claim
  (\<open>evidence_as_of\<close>, \<open>carry\<close>), the drafts the two agents append, the week's decision.\<close>

record cycle_env =
  ce_lhash :: "line_body \<Rightarrow> string"
  ce_fhash :: "forecast \<Rightarrow> string vres"
  ce_phash :: "weekly_portfolio \<Rightarrow> string vres"
  ce_digest :: "content \<Rightarrow> string \<times> int"
  ce_jhash :: "(string \<times> string) list \<Rightarrow> string"
  ce_profile :: operator_profile
  ce_runner :: bool
  ce_observe :: "soe_store \<Rightarrow> cycle_error + observed"
  ce_architect :: "soe_store \<Rightarrow> string list"
  ce_critic :: "soe_store \<Rightarrow> string list"
  ce_candidates :: "soe_store \<Rightarrow> bool"
  ce_decide :: "soe_store \<Rightarrow> cycle_error + week_work"

section \<open>The forecast log and its resume\<close>

definition forecast_log :: "(line_body \<Rightarrow> string) \<Rightarrow> soe_store \<Rightarrow> cycle_error + log_line list" where
  "forecast_log lhash st =
     (case verify_chain lhash (ss_forecasts st) of
        Inl _ \<Rightarrow> Inl ChainBroken
      | Inr _ \<Rightarrow> Inr (ss_forecasts st))"

text \<open>\<open>read_json\<close> of a run's \<open>forecast-line.json\<close>; a file that does not parse is an error.\<close>

definition read_line :: "run_dir \<Rightarrow> soe_store \<Rightarrow> cycle_error + log_line option" where
  "read_line d st =
     (case read_file d FORECAST_LINE st of
        Inl e \<Rightarrow> Inl e
      | Inr None \<Rightarrow> Inr None
      | Inr (Some (LineJson l)) \<Rightarrow> Inr (Some l)
      | Inr (Some _) \<Rightarrow> Inl RunFailed)"

definition read_rows :: "run_dir \<Rightarrow> string \<Rightarrow> soe_store \<Rightarrow> cycle_error + string list" where
  "read_rows d name st =
     (case read_file d name st of
        Inl e \<Rightarrow> Inl e
      | Inr None \<Rightarrow> Inr []
      | Inr (Some (Rows ls)) \<Rightarrow> Inr ls
      | Inr (Some _) \<Rightarrow> Inl RunFailed)"

definition append_logged :: "state_log \<Rightarrow> string \<Rightarrow> unit cycle_act" where
  "append_logged g line = athen ensure (disk (append_line g line))"

text \<open>The lines of one of the run's files that the state log does not have yet.\<close>

definition resume_rows :: "run_dir \<Rightarrow> state_log \<Rightarrow> string \<Rightarrow> unit cycle_act" where
  "resume_rows d g name =
     abind (ask (\<lambda>st. Inr (log_lines g st))) (\<lambda>have_lines.
     abind (ask (read_rows d name)) (\<lambda>own.
     each (append_logged g) (filter (\<lambda>l. l \<notin> set have_lines) own)))"

definition chain_tip :: "log_line list \<Rightarrow> string" where
  "chain_tip ls = (if ls = [] then GENESIS else ll_line_sha256 (last ls))"

definition resume_cycle :: "string \<Rightarrow> log_line \<Rightarrow> unit cycle_act" where
  "resume_cycle i line =
     athen (resume_rows (Cycle i) Candidates CANDIDATES)
     (athen (resume_rows (Cycle i) Episodes EPISODES)
     (athen ensure
     (disk (append_forecast line))))"

fun resume_cycles :: "string list \<Rightarrow> log_line list \<Rightarrow> string list \<Rightarrow> (string list \<times> log_line list) cycle_act" where
  "resume_cycles [] ls resumed = areturn (resumed, ls)"
| "resume_cycles (i # ids) ls resumed =
     (if i \<in> ll_cycle_id ` set ls then resume_cycles ids ls resumed
      else abind (ask (status (Cycle i))) (\<lambda>s.
        if s \<noteq> RunFrozen then resume_cycles ids ls resumed
        else abind (ask (read_line (Cycle i))) (\<lambda>l.
          case l of
            None \<Rightarrow> afail RunFailed
          | Some line \<Rightarrow>
              if ll_prev_sha256 line \<noteq> chain_tip ls \<or> ll_cycle_id line \<noteq> i then afail ChainBroken
              else athen (resume_cycle i line) (resume_cycles ids (ls @ [line]) (resumed @ [i])))))"

definition resume_learn :: "(line_body \<Rightarrow> string) \<Rightarrow> (string list \<times> log_line list) cycle_act" where
  "resume_learn lhash =
     abind (ask (forecast_log lhash)) (\<lambda>ls.
     abind (ask (\<lambda>st. Inr (cycles st))) (\<lambda>ids.
     resume_cycles ids ls []))"

section \<open>Preflight\<close>

definition pin_problems :: "generation_pin \<Rightarrow> bool" where
  "pin_problems g \<longleftrightarrow> \<not> valid_id (gp_id g) \<or> \<not> valid_sha256 (gp_sha256 g)"

definition preflight_problems :: "operator_profile \<Rightarrow> cycle_params \<Rightarrow> bool" where
  "preflight_problems profile p \<longleftrightarrow>
     pin_problems (cp_generation p) \<or> \<not> is_signed profile \<or>
     trim (cp_architect p) = [] \<or> trim (cp_critic p) = [] \<or>
     cp_architect p = cp_critic p \<or>
     cp_max_proposals p = 0 \<or> cp_forecast_max_weeks p = 0"

definition preflight :: "cycle_env \<Rightarrow> cycle_params \<Rightarrow> run_dir \<Rightarrow> log_line option cycle_act" where
  "preflight env p d =
     (if preflight_problems (ce_profile env) p then afail Refused
      else abind (if is_replay d then areturn [] else abind (resume_learn (ce_lhash env)) (\<lambda>(_, ls). areturn ls)) (\<lambda>ls.
        abind (ask (status d)) (\<lambda>s.
        case s of
          RunFrozen \<Rightarrow> afail CycleAlreadyFrozen
        | RunOpen \<Rightarrow> afail CycleUnfinished
        | RunAbsent \<Rightarrow>
            if is_replay d then areturn None
            else if run_id d \<in> ll_cycle_id ` set ls then afail CycleAlreadyFrozen
            else if ls = [] then areturn None
            else if cp_decided_at_ms p < ll_frozen_at_ms (last ls) then afail CycleOutOfOrder
            else areturn (Some (last ls)))))"

section \<open>The phases\<close>

datatype phase = Propose | Challenge | Closed

fun phase_marker :: "phase \<Rightarrow> string" where
  "phase_marker Propose = ''phase-propose.json''"
| "phase_marker Challenge = ''phase-challenge.json''"
| "phase_marker Closed = ''phase-closed.json''"

fun phase_rank :: "phase \<Rightarrow> nat" where
  "phase_rank Propose = 0" | "phase_rank Challenge = 1" | "phase_rank Closed = 2"

definition phase_at :: "run_dir \<Rightarrow> soe_store \<Rightarrow> cycle_error + phase option" where
  "phase_at d st =
     (case (read_file d (phase_marker Propose) st, read_file d (phase_marker Challenge) st, read_file d (phase_marker Closed) st) of
        (Inr a, Inr b, Inr c) \<Rightarrow>
          Inr (if c \<noteq> None then Some Closed else if b \<noteq> None then Some Challenge
               else if a \<noteq> None then Some Propose else None)
      | _ \<Rightarrow> Inl StoreRefused)"

definition open_phase :: "run_dir \<Rightarrow> phase \<Rightarrow> unit cycle_act" where
  "open_phase d ph =
     abind (ask (phase_at d)) (\<lambda>now.
     if (case now of None \<Rightarrow> False | Some q \<Rightarrow> phase_rank ph \<le> phase_rank q) then afail RunFailed
     else disk (write_file d (phase_marker ph) (Bytes (run_dir_text d))))"

text \<open>\<open>stage\<close>: a runner and a goal start the agent under a renewed lease; its drafts are appended one by
  one until it ends or the lease is lost.\<close>

definition run_stage :: "bool \<Rightarrow> run_dir \<Rightarrow> string \<Rightarrow> (soe_store \<Rightarrow> string list) \<Rightarrow> unit cycle_act" where
  "run_stage started d name drafts =
     (if started then athen ensure (abind (ask (\<lambda>st. Inr (drafts st))) (\<lambda>ls. each (\<lambda>l. disk (append_row d name l)) ls))
      else areturn ())"

definition model_stages :: "cycle_env \<Rightarrow> run_dir \<Rightarrow> unit cycle_act" where
  "model_stages env d =
     athen ensure (athen (open_phase d Propose)
     (athen (run_stage (ce_runner env) d PROPOSALS (ce_architect env))
     (athen ensure (athen (open_phase d Challenge)
     (abind (ask (\<lambda>st. Inr (ce_candidates env st))) (\<lambda>some.
     athen (run_stage (ce_runner env \<and> some) d CHALLENGES (ce_critic env))
     (athen ensure (open_phase d Closed))))))))"

section \<open>A claimed run\<close>

definition write_files :: "run_dir \<Rightarrow> run_files \<Rightarrow> unit cycle_act" where
  "write_files d fs = each (\<lambda>(name, b). disk (write_file d name b)) fs"

text \<open>\<open>Claimed::forecast\<close>.\<close>

definition cycle_forecast :: "cycle_env \<Rightarrow> cycle_params \<Rightarrow> string \<Rightarrow> week_work \<Rightarrow> cycle_error + forecast" where
  "cycle_forecast env p cycle_id w =
     (case freeze (ce_phash env) cycle_id (At (cp_decided_at_ms p)) (ww_portfolio w) (ww_own w) of
        Inl _ \<Rightarrow> Inl RunFailed
      | Inr f \<Rightarrow> (case horizon_problems f (cp_forecast_max_weeks p) of
           Inr [] \<Rightarrow> Inr f
         | _ \<Rightarrow> Inl RunFailed))"

definition cycle_line :: "cycle_env \<Rightarrow> log_line option \<Rightarrow> forecast \<Rightarrow> cycle_error + log_line" where
  "cycle_line env prev f =
     (case log_line_of (ce_lhash env) (ce_fhash env) prev f of Inl _ \<Rightarrow> Inl RunFailed | Inr l \<Rightarrow> Inr l)"

definition learn_appends :: "week_work \<Rightarrow> log_line \<Rightarrow> unit cycle_act" where
  "learn_appends w l =
     athen (each (append_logged Candidates) (ww_events w))
     (athen (each (append_logged Episodes) (ww_episodes w))
     (athen ensure (disk (append_forecast l))))"

text \<open>The freeze and the identity of what was decided, in the order the run takes them.\<close>

definition seal :: "cycle_env \<Rightarrow> run_dir \<Rightarrow> (string \<times> string) cycle_act" where
  "seal env d =
     abind (freeze_run (ce_digest env) d) (\<lambda>manifest_sha256.
     abind (ask (decision_sha256 (ce_jhash env) (ce_digest env) d)) (\<lambda>decision.
     areturn (manifest_sha256, decision)))"

definition claimed_run ::
  "cycle_env \<Rightarrow> cycle_params \<Rightarrow> string \<Rightarrow> run_dir \<Rightarrow> log_line option \<Rightarrow> observed \<Rightarrow> (string \<times> string) cycle_act" where
  "claimed_run env p cycle_id d prev ob =
     athen (write_files d [(HEAD, ob_head ob), (PACKET, ob_packet ob), (PROFILE, ob_profile ob), (CARRIED, ob_carried ob)])
     (athen (model_stages env d)
     (abind (ask (ce_decide env)) (\<lambda>w.
     abind (ask (\<lambda>_. cycle_forecast env p cycle_id w)) (\<lambda>f.
     athen (write_files d [(DECIDED, ww_decided w), (PORTFOLIO, ww_portfolio_json w), (MEMO, ww_memo w),
        (FORECAST, ForecastJson f), (INPUTS, ww_inputs w), (STAGES, ww_stages w), (OPS, ww_ops w),
        (CANDIDATES, Rows (ww_events w)), (EPISODES, Rows (ww_episodes w))])
     (case d of
        Cycle _ \<Rightarrow>
          abind (ask (\<lambda>_. cycle_line env prev f)) (\<lambda>l.
          athen (write_files d [(FORECAST_LINE, LineJson l)])
          (athen ensure
          (abind (seal env d) (\<lambda>shas.
          athen (learn_appends w l) (areturn shas)))))
      | _ \<Rightarrow> athen ensure (seal env d))))))"

text \<open>\<open>run_cycle\<close>: a failure after the claim leaves \<open>failed.json\<close> (when it can still be written) and
  nothing frozen; a lost lease, or a process that is gone, writes nothing more.\<close>

definition failed_run :: "run_dir \<Rightarrow> cycle_error \<Rightarrow> 'a cycle_act" where
  "failed_run d e =
     (if e = LeaseLost \<or> e = Stopped then afail e
      else athen ensure (athen (aignore (disk (write_file d FAILED (Bytes (run_dir_text d))))) (afail e)))"

definition run_cycle :: "cycle_env \<Rightarrow> cycle_params \<Rightarrow> (string \<times> string) cycle_act" where
  "run_cycle env p =
     (let cycle_id = iso_week_display (cp_week p); d = target_dir (cp_target p) cycle_id in
      abind (preflight env p d) (\<lambda>prev.
      abind (ask (ce_observe env)) (\<lambda>ob.
      athen ensure
      (athen (disk (claim d))
      (acatch (claimed_run env p cycle_id d prev ob) (failed_run d))))))"

text \<open>\<open>SoeCycleJob::cycle\<close>: a frozen week only has its lost appends resumed; a refused one that was
  already frozen is done.\<close>

definition cycle_job :: "cycle_env \<Rightarrow> cycle_params \<Rightarrow> unit cycle_act" where
  "cycle_job env p =
     abind (ask (status (Cycle (iso_week_display (cp_week p))))) (\<lambda>s.
     if s = RunFrozen then abind (resume_learn (ce_lhash env)) (\<lambda>_. areturn ())
     else acatch (abind (run_cycle env (p\<lparr>cp_target := TargetCycle\<rparr>)) (\<lambda>_. areturn ()))
       (\<lambda>e. if e = CycleAlreadyFrozen then areturn () else afail e))"

section \<open>The check of the whole state (freeze.rs)\<close>

definition sbind :: "'e + 'a \<Rightarrow> ('a \<Rightarrow> 'e + 'b) \<Rightarrow> 'e + 'b" where
  "sbind m f = (case m of Inl e \<Rightarrow> Inl e | Inr x \<Rightarrow> f x)"

fun smapM :: "('a \<Rightarrow> 'e + 'b) \<Rightarrow> 'a list \<Rightarrow> 'e + 'b list" where
  "smapM f [] = Inr []"
| "smapM f (x # xs) = (case f x of Inl e \<Rightarrow> Inl e
     | Inr y \<Rightarrow> (case smapM f xs of Inl e \<Rightarrow> Inl e | Inr ys \<Rightarrow> Inr (y # ys)))"

datatype log_state = LogMatch | LogMismatch | LogMissing | LogOrphan

fun log_state_rank :: "log_state \<Rightarrow> nat" where
  "log_state_rank LogMatch = 0" | "log_state_rank LogMismatch = 1"
| "log_state_rank LogMissing = 2" | "log_state_rank LogOrphan = 3"

record state_check =
  sc_runs :: "verified list"
  sc_open :: "string list"
  sc_log_lines :: nat
  sc_chain :: "code list"
  sc_log :: "(string \<times> log_state) list"

definition state_check_ok :: "state_check \<Rightarrow> bool" where
  "state_check_ok c \<longleftrightarrow> sc_chain c = [] \<and> list_all verified_ok (sc_runs c) \<and>
     list_all (\<lambda>(_, s). s = LogMatch) (sc_log c)"

text \<open>One run directory of the loop: its status, and a run that is not open re-hashed against its manifest
  (a logged run that is gone has none).\<close>

definition check_run :: "(content \<Rightarrow> string \<times> int) \<Rightarrow> soe_store \<Rightarrow> run_dir \<Rightarrow> cycle_error + (run_dir \<times> run_status \<times> verified option)" where
  "check_run digest st d =
     sbind (status d st) (\<lambda>s.
     case s of
       RunFrozen \<Rightarrow> sbind (verify digest d st) (\<lambda>v. Inr (d, s, Some v))
     | RunOpen \<Rightarrow> Inr (d, s, None)
     | RunAbsent \<Rightarrow> Inr (d, s, Some \<lparr>vf_run = run_dir_text d, vf_manifest_sha256 = None, vf_files = []\<rparr>))"

text \<open>A frozen cycle against its line of the log: the line it kept and the hash of the forecast it froze
  (\<open>from_json\<close> validates the record it reads).\<close>

definition log_state_of ::
  "(forecast \<Rightarrow> string vres) \<Rightarrow> log_line list \<Rightarrow> soe_store \<Rightarrow> string \<Rightarrow> cycle_error + log_state" where
  "log_state_of fhash ls st i =
     (case find (\<lambda>l. ll_cycle_id l = i) ls of
        None \<Rightarrow> Inr LogMissing
      | Some l \<Rightarrow>
          sbind (read_file (Cycle i) FORECAST_LINE st) (\<lambda>own.
          sbind (read_file (Cycle i) FORECAST st) (\<lambda>fc.
          let sha = (case fc of Some (ForecastJson f) \<Rightarrow>
                (case validate_forecast f of Inl _ \<Rightarrow> None
                 | Inr _ \<Rightarrow> (case fhash f of Inr s \<Rightarrow> Some s | Inl _ \<Rightarrow> None)) | _ \<Rightarrow> None) in
          Inr (if own = Some (LineJson l) \<and> sha = Some (ll_forecast_sha256 l) then LogMatch else LogMismatch))))"

definition verify_state ::
  "(line_body \<Rightarrow> string) \<Rightarrow> (forecast \<Rightarrow> string vres) \<Rightarrow> (content \<Rightarrow> string \<times> int) \<Rightarrow> soe_store \<Rightarrow> cycle_error + state_check" where
  "verify_state lhash fhash digest st =
     sbind (smapM (check_run digest st) (rev (remdups (rev (map Cycle (cycles st) @ ss_logged_runs st))))) (\<lambda>rows.
     let frozen = sort (remdups (concat (map (\<lambda>(d, s, _). case (d, s) of (Cycle i, RunFrozen) \<Rightarrow> [i] | _ \<Rightarrow> []) rows)));
         ls = ss_forecasts st in
     sbind (smapM (\<lambda>i. sbind (log_state_of fhash ls st i) (\<lambda>s. Inr (i, s))) frozen) (\<lambda>states.
     Inr \<lparr>sc_runs = sort_key vf_run (concat (map (\<lambda>(_, _, v). case v of None \<Rightarrow> [] | Some x \<Rightarrow> [x]) rows)),
          sc_open = concat (map (\<lambda>(d, s, _). if s = RunOpen then [run_dir_text d] else []) rows),
          sc_log_lines = length ls,
          sc_chain = (case verify_chain lhash ls of Inl e \<Rightarrow> e | Inr _ \<Rightarrow> []),
          sc_log = sort_key (\<lambda>(i, s). (i, log_state_rank s))
            (states @ map (\<lambda>l. (ll_cycle_id l, LogOrphan)) (filter (\<lambda>l. ll_cycle_id l \<notin> set frozen) ls))\<rparr>))"

end
