(* ===== verification/Soe_Cycle_Ledger.thy ===== *)
theory Soe_Cycle_Ledger
  imports Soe_Cycle Soe_Forecast_Props
begin

text \<open>
  The invariant of the durable state and that every action of the weekly cycle keeps it, wherever the
  process stops: Hoare triples for the parts of a run (\<open>running\<close> before its freeze, \<open>waiting\<close> after it), for
  the resume and for whole runs; that the resume answers; and the states the program can reach.
\<close>

section \<open>The invariant of the state\<close>

text \<open>The directory of a live cycle, and what a frozen one holds: its line for the forecast log, the
  forecast the line hashes, and the lines it teaches.\<close>

definition cyc :: "soe_store \<Rightarrow> string \<Rightarrow> run_files option" where
  "cyc st i = map_of (ss_dirs st) (Cycle i)"

definition sealed_dir :: "run_files \<Rightarrow> bool" where
  "sealed_dir fs \<longleftrightarrow> MANIFEST \<in> fst ` set fs"

definition plain_rows :: "string list \<Rightarrow> bool" where
  "plain_rows ls \<longleftrightarrow> (\<forall>l \<in> set ls. CHR 0x0A \<notin> set l)"

definition recorded :: "(forecast \<Rightarrow> string vres) \<Rightarrow> string \<Rightarrow> run_files \<Rightarrow> log_line \<Rightarrow> string list \<Rightarrow> string list \<Rightarrow> bool" where
  "recorded fhash i fs l cs es \<longleftrightarrow>
     map_of fs FORECAST_LINE = Some (LineJson l) \<and> ll_cycle_id l = i \<and>
     (\<exists>f. map_of fs FORECAST = Some (ForecastJson f) \<and> validate_forecast f = Inr () \<and>
        fhash f = Inr (ll_forecast_sha256 l)) \<and>
     map_of fs CANDIDATES = Some (Rows cs) \<and> plain_rows cs \<and>
     map_of fs EPISODES = Some (Rows es) \<and> plain_rows es"

text \<open>A frozen cycle is in the log with every line it teaches, or it is the one cycle that still waits
  for its appends, and its line follows the log as it stands.\<close>

definition cycle_ok :: "(line_body \<Rightarrow> string) \<Rightarrow> (forecast \<Rightarrow> string vres) \<Rightarrow> soe_store \<Rightarrow> string \<Rightarrow> run_files \<Rightarrow> bool" where
  "cycle_ok lhash fhash st i fs \<longleftrightarrow>
     (\<exists>l cs es. recorded fhash i fs l cs es \<and>
        (if i \<in> ll_cycle_id ` set (ss_forecasts st)
         then l \<in> set (ss_forecasts st) \<and> set cs \<subseteq> set (ss_candidates st) \<and> set es \<subseteq> set (ss_episodes st)
         else follows lhash (ss_forecasts st) l))"

definition pending :: "soe_store \<Rightarrow> string \<Rightarrow> bool" where
  "pending st i \<longleftrightarrow> (\<exists>fs. cyc st i = Some fs \<and> sealed_dir fs) \<and> i \<notin> ll_cycle_id ` set (ss_forecasts st)"

definition ledger_inv :: "(line_body \<Rightarrow> string) \<Rightarrow> (forecast \<Rightarrow> string vres) \<Rightarrow> soe_store \<Rightarrow> bool" where
  "ledger_inv lhash fhash st \<longleftrightarrow>
     verify_chain lhash (ss_forecasts st) = Inr () \<and>
     (\<forall>i fs. cyc st i = Some fs \<longrightarrow> valid_id i) \<and>
     (\<forall>i fs. cyc st i = Some fs \<longrightarrow> sealed_dir fs \<longrightarrow> cycle_ok lhash fhash st i fs) \<and>
     (\<forall>i \<in> ll_cycle_id ` set (ss_forecasts st). \<exists>fs. cyc st i = Some fs \<and> sealed_dir fs) \<and>
     (\<forall>i j. pending st i \<longrightarrow> pending st j \<longrightarrow> i = j)"

lemma cyc_put [simp]:
  "cyc (put_files d fs st) i = (if d = Cycle i then Some fs else cyc st i)"
  by (simp add: cyc_def put_files_def update_conv')

lemma put_logs [simp]:
  "ss_forecasts (put_files d fs st) = ss_forecasts st"
  "ss_candidates (put_files d fs st) = ss_candidates st"
  "ss_episodes (put_files d fs st) = ss_episodes st"
  by (simp_all add: put_files_def)

lemma ledger_empty: "ledger_inv lhash fhash \<lparr>ss_dirs = [], ss_candidates = [], ss_episodes = [], ss_forecasts = [], ss_logged_runs = L\<rparr>"
  by (simp add: ledger_inv_def cyc_def pending_def)

lemma ledgerD:
  assumes "ledger_inv lhash fhash st"
  shows "verify_chain lhash (ss_forecasts st) = Inr ()"
    and "cyc st i = Some fs \<Longrightarrow> valid_id i"
    and "cyc st i = Some fs \<Longrightarrow> sealed_dir fs \<Longrightarrow> cycle_ok lhash fhash st i fs"
    and "i \<in> ll_cycle_id ` set (ss_forecasts st) \<Longrightarrow> \<exists>fs. cyc st i = Some fs \<and> sealed_dir fs"
    and "pending st i \<Longrightarrow> pending st j \<Longrightarrow> i = j"
  using assms unfolding ledger_inv_def by (simp, metis, metis, metis, metis)

text \<open>The invariant reads the live directories and the logs only; a state that agrees on them, with the
  lines of the two row logs only growing, keeps it.\<close>

lemma ledger_cong:
  assumes "ledger_inv lhash fhash st"
    and "ss_forecasts st' = ss_forecasts st"
    and "set (ss_candidates st) \<subseteq> set (ss_candidates st')" "set (ss_episodes st) \<subseteq> set (ss_episodes st')"
    and "\<And>i fs. cyc st' i = Some fs \<Longrightarrow> valid_id i"
    and "\<And>i fs. cyc st' i = Some fs \<Longrightarrow> sealed_dir fs \<Longrightarrow>
       \<exists>fs0. cyc st i = Some fs0 \<and> sealed_dir fs0 \<and>
         (\<forall>n \<in> {FORECAST_LINE, FORECAST, CANDIDATES, EPISODES}. map_of fs n = map_of fs0 n)"
    and "\<And>i fs. cyc st i = Some fs \<Longrightarrow> sealed_dir fs \<Longrightarrow> \<exists>fs'. cyc st' i = Some fs' \<and> sealed_dir fs'"
  shows "ledger_inv lhash fhash st'" "pending st' i \<longleftrightarrow> pending st i"
proof -
  have same: "pending st' i \<longleftrightarrow> pending st i" for i
    unfolding pending_def using assms(2,6,7) by metis
  have ok: "cycle_ok lhash fhash st' i fs" if fs: "cyc st' i = Some fs" "sealed_dir fs" for i fs
  proof -
    from assms(6) [OF fs] obtain fs0 where fs0: "cyc st i = Some fs0" "sealed_dir fs0"
        "\<forall>n \<in> {FORECAST_LINE, FORECAST, CANDIDATES, EPISODES}. map_of fs n = map_of fs0 n" by blast
    then have rec: "recorded fhash i fs l cs es \<longleftrightarrow> recorded fhash i fs0 l cs es" for l cs es
      by (simp add: recorded_def)
    from ledgerD(3) [OF assms(1) fs0(1,2)] obtain l cs es where "recorded fhash i fs0 l cs es"
      "if i \<in> ll_cycle_id ` set (ss_forecasts st)
       then l \<in> set (ss_forecasts st) \<and> set cs \<subseteq> set (ss_candidates st) \<and> set es \<subseteq> set (ss_episodes st)
       else follows lhash (ss_forecasts st) l"
      unfolding cycle_ok_def by blast
    then show ?thesis unfolding cycle_ok_def rec assms(2) using assms(3,4)
      by (intro exI [of _ l] exI [of _ cs] exI [of _ es]) (auto split: if_splits)
  qed
  show "ledger_inv lhash fhash st'"
    unfolding ledger_inv_def assms(2)
  proof (intro conjI allI impI ballI)
    show "verify_chain lhash (ss_forecasts st) = Inr ()" by (rule ledgerD(1) [OF assms(1)])
    show "valid_id i" if "cyc st' i = Some fs" for i fs using that by (rule assms(5))
    show "cycle_ok lhash fhash st' i fs" if "cyc st' i = Some fs" "sealed_dir fs" for i fs using that by (rule ok)
    show "\<exists>fs. cyc st' i = Some fs \<and> sealed_dir fs" if i: "i \<in> ll_cycle_id ` set (ss_forecasts st)" for i
      using ledgerD(4) [OF assms(1) i] assms(7) by blast
    show "i = j" if "pending st' i" "pending st' j" for i j
      using that unfolding same by (rule ledgerD(5) [OF assms(1)])
  qed
  show "pending st' i \<longleftrightarrow> pending st i" by (rule same)
qed

lemma names_distinct [simp]:
  "FORECAST_LINE \<noteq> MANIFEST_TMP" "FORECAST \<noteq> MANIFEST_TMP" "CANDIDATES \<noteq> MANIFEST_TMP" "EPISODES \<noteq> MANIFEST_TMP"
  "FORECAST_LINE \<noteq> MANIFEST" "FORECAST \<noteq> MANIFEST" "CANDIDATES \<noteq> MANIFEST" "EPISODES \<noteq> MANIFEST"
  "MANIFEST_TMP \<noteq> MANIFEST" "MANIFEST \<noteq> MANIFEST_TMP" "PROPOSALS \<noteq> MANIFEST" "CHALLENGES \<noteq> MANIFEST"
  by (simp_all add: FORECAST_LINE_def FORECAST_def CANDIDATES_def EPISODES_def MANIFEST_TMP_def MANIFEST_def PROPOSALS_def CHALLENGES_def)

lemma ledger_append_line:
  assumes "ledger_inv lhash fhash st" "append_line g x st = Inr st'"
  shows "ledger_inv lhash fhash st'" "pending st' i \<longleftrightarrow> pending st i" "ss_dirs st' = ss_dirs st" "ss_forecasts st' = ss_forecasts st"
proof -
  have st': "ss_forecasts st' = ss_forecasts st" "ss_dirs st' = ss_dirs st"
    "set (ss_candidates st) \<subseteq> set (ss_candidates st')" "set (ss_episodes st) \<subseteq> set (ss_episodes st')"
    using assms(2) by (auto simp: append_line_def split: if_splits state_log.splits)
  then have "cyc st' = cyc st" by (simp add: cyc_def fun_eq_iff)
  then show "ledger_inv lhash fhash st'" "pending st' i \<longleftrightarrow> pending st i"
    using ledgerD(2) [OF assms(1)] by (rule_tac ledger_cong [OF assms(1) st'(1,3,4)]; simp)+
qed (use assms(2) in \<open>auto simp: append_line_def split: if_splits state_log.splits\<close>)

text \<open>A change inside a run that is not frozen, before or after, or of a run that is not a live cycle.\<close>

lemma ledger_put_open:
  assumes "ledger_inv lhash fhash st"
    and "case d of Cycle i \<Rightarrow> valid_id i \<and> (\<forall>fs0. cyc st i = Some fs0 \<longrightarrow> \<not> sealed_dir fs0) \<and> \<not> sealed_dir fs | _ \<Rightarrow> True"
  shows "ledger_inv lhash fhash (put_files d fs st)" "pending (put_files d fs st) i \<longleftrightarrow> pending st i"
proof -
  have c: "\<And>i gs. cyc (put_files d fs st) i = Some gs \<Longrightarrow> valid_id i"
    "\<And>i gs. cyc (put_files d fs st) i = Some gs \<Longrightarrow> sealed_dir gs \<Longrightarrow> cyc st i = Some gs"
    "\<And>i gs. cyc st i = Some gs \<Longrightarrow> sealed_dir gs \<Longrightarrow> cyc (put_files d fs st) i = Some gs"
    using assms(2) ledgerD(2) [OF assms(1)] by (auto split: if_splits run_dir.splits)
  show "ledger_inv lhash fhash (put_files d fs st)" "pending (put_files d fs st) i \<longleftrightarrow> pending st i"
    by (rule ledger_cong [OF assms(1)]; (simp; fail)?; blast dest: c)+
qed

section \<open>A claimed run before its freeze\<close>

text \<open>A live run that is open, after a completed resume: nothing waits for its appends, the log is the one
  the run was started on, and the run holds the files \<open>H\<close>. Of a replay only the invariant matters.\<close>

definition running ::
  "(line_body \<Rightarrow> string) \<Rightarrow> (forecast \<Rightarrow> string vres) \<Rightarrow> run_dir \<Rightarrow> log_line list \<Rightarrow> (string \<times> content) set \<Rightarrow> soe_store \<Rightarrow> bool" where
  "running lhash fhash d ls H st \<longleftrightarrow> ledger_inv lhash fhash st \<and>
     (case d of
        Cycle i \<Rightarrow> ss_forecasts st = ls \<and> (\<forall>j. \<not> pending st j) \<and>
          (\<exists>fs. cyc st i = Some fs \<and> \<not> sealed_dir fs \<and> (\<forall>(n, b) \<in> H. map_of fs n = Some b))
      | _ \<Rightarrow> True)"

lemma running_inv: "running lhash fhash d ls H st \<Longrightarrow> ledger_inv lhash fhash st"
  by (simp add: running_def)

lemma open_dir_Inr:
  "open_dir d st = Inr fs \<longleftrightarrow> valid_id (run_id d) \<and> map_of (ss_dirs st) d = Some fs \<and> \<not> sealed_dir fs"
  by (auto simp: open_dir_def status_def sealed_dir_def split: if_splits option.splits)

lemma running_put:
  assumes "running lhash fhash d ls H st" "open_dir d st = Inr fs0" "\<not> sealed_dir fs"
    and "\<And>n b. (n, b) \<in> H' \<Longrightarrow> (\<And>n b. (n, b) \<in> H \<Longrightarrow> map_of fs0 n = Some b) \<Longrightarrow> map_of fs n = Some b"
  shows "running lhash fhash d ls H' (put_files d fs st)"
proof (cases d)
  case [simp]: (Cycle i)
  have d: "valid_id i" "cyc st i = Some fs0" "\<not> sealed_dir fs0"
    using assms(2) by (simp_all add: open_dir_Inr cyc_def)
  have inv: "ledger_inv lhash fhash (put_files d fs st)" "\<And>j. pending (put_files d fs st) j \<longleftrightarrow> pending st j"
    using ledger_put_open [OF running_inv [OF assms(1)], where d = d and fs = fs] d assms(3) by simp_all
  have "map_of fs n = Some b" if "(n, b) \<in> H'" for n b
    using assms(4) [OF that] assms(1) d(2) by (auto simp: running_def)
  then show ?thesis using assms(1,3) inv by (auto simp: running_def)
qed (use ledger_put_open [OF running_inv [OF assms(1)], where d = d and fs = fs] in \<open>simp_all add: running_def\<close>)

lemma valid_file_name_not_MANIFEST: "valid_file_name n \<Longrightarrow> n \<noteq> MANIFEST"
  by (simp add: valid_file_name_def)

lemma run_write_file:
  "triple (running lhash fhash d ls H) (disk (write_file d n b))
     (\<lambda>_. running lhash fhash d ls (insert (n, b) H)) (ledger_inv lhash fhash)"
  unfolding disk_def
proof (rule triple_tick)
  fix st st' assume run: "running lhash fhash d ls H st" and "write_file d n b st = Inr st'"
  then obtain fs where fs: "valid_file_name n" "open_dir d st = Inr fs" "n \<notin> fst ` set fs"
      "st' = put_files d ((n, b) # fs) st"
    by (auto simp: write_file_def split: if_splits sum.splits)
  then have "\<not> sealed_dir ((n, b) # fs)"
    using valid_file_name_not_MANIFEST [of n] by (auto simp: open_dir_Inr sealed_dir_def)
  moreover have "map_of fs n = None" using fs(3) by (simp add: map_of_eq_None_iff)
  ultimately show "running lhash fhash d ls (insert (n, b) H) st'"
    unfolding fs(4) by (intro running_put [OF run fs(2)]) (auto simp: )
qed (rule running_inv)

lemma run_write_files:
  "triple (running lhash fhash d ls H) (write_files d xs)
     (\<lambda>_. running lhash fhash d ls (H \<union> set xs)) (ledger_inv lhash fhash)"
proof (induction xs arbitrary: H)
  case Nil
  then show ?case by (auto simp: write_files_def intro: triple_return)
next
  case (Cons x xs)
  obtain n b where [simp]: "x = (n, b)" by (cases x)
  have "triple (running lhash fhash d ls (insert (n, b) H)) (write_files d xs)
      (\<lambda>_. running lhash fhash d ls (H \<union> set (x # xs))) (ledger_inv lhash fhash)"
    using Cons [of "insert (n, b) H"] by simp
  from triple_then [OF run_write_file this] show ?case by (simp add: write_files_def)
qed

lemma run_drop: "running lhash fhash d ls H st \<Longrightarrow> running lhash fhash d ls {} st"
  by (auto simp: running_def split: run_dir.splits)

lemma run_write_file_any:
  "triple (running lhash fhash d ls {}) (disk (write_file d n b)) (\<lambda>_. running lhash fhash d ls {}) (ledger_inv lhash fhash)"
  by (rule triple_weaken [OF run_write_file [of _ _ _ _ "{}"]]) (auto intro: run_drop)

lemma run_append_row:
  assumes "n \<noteq> MANIFEST"
  shows "triple (running lhash fhash d ls {}) (disk (append_row d n l)) (\<lambda>_. running lhash fhash d ls {}) (ledger_inv lhash fhash)"
  unfolding disk_def
proof (rule triple_tick)
  fix st st' assume run: "running lhash fhash d ls {} st" and "append_row d n l st = Inr st'"
  then obtain fs fs' where fs: "open_dir d st = Inr fs" "st' = put_files d fs' st" "fst ` set fs' \<subseteq> insert n (fst ` set fs)"
    by (auto simp: append_row_def dom_update split: sum.splits option.splits content.splits) 
  then have "\<not> sealed_dir fs'" using assms by (auto simp: open_dir_Inr sealed_dir_def)
  then show "running lhash fhash d ls {} st'" unfolding fs(2) by (intro running_put [OF run fs(1)]) auto
qed (rule running_inv)

lemma run_ensure: "triple (running lhash fhash d ls H) ensure (\<lambda>_. running lhash fhash d ls H) (ledger_inv lhash fhash)"
  unfolding ensure_def by (rule triple_tick) (auto intro: running_inv)

lemma run_ask:
  "triple (running lhash fhash d ls H) (ask f) (\<lambda>_. running lhash fhash d ls H) (ledger_inv lhash fhash)"
  by (rule triple_ask) (auto intro: running_inv)

lemma run_open_phase:
  "triple (running lhash fhash d ls {}) (open_phase d ph) (\<lambda>_. running lhash fhash d ls {}) (ledger_inv lhash fhash)"
  unfolding open_phase_def
  by (intro triple_bind [OF run_ask] triple_if triple_fail run_write_file_any) (rule running_inv)

lemma run_run_stage:
  assumes "n \<noteq> MANIFEST"
  shows "triple (running lhash fhash d ls {}) (run_stage started d n drafts) (\<lambda>_. running lhash fhash d ls {}) (ledger_inv lhash fhash)"
  unfolding run_stage_def
  by (intro triple_if triple_then [OF run_ensure] triple_bind [OF run_ask] triple_each run_append_row assms triple_return)

lemma run_model_stages:
  "triple (running lhash fhash d ls {}) (model_stages env d) (\<lambda>_. running lhash fhash d ls {}) (ledger_inv lhash fhash)"
  unfolding model_stages_def
  by (intro triple_then [OF run_ensure] triple_then [OF run_open_phase] triple_bind [OF run_ask]
      triple_then [OF run_run_stage] run_open_phase names_distinct)

section \<open>From the freeze to the last append\<close>

text \<open>A frozen live cycle that waits for its appends: the rows \<open>C\<close> and \<open>E\<close> are in the two row logs already.\<close>

definition waiting ::
  "(line_body \<Rightarrow> string) \<Rightarrow> (forecast \<Rightarrow> string vres) \<Rightarrow> string \<Rightarrow> (run_dir \<times> run_files) list \<Rightarrow> log_line \<Rightarrow>
     string list \<Rightarrow> string list \<Rightarrow> log_line list \<Rightarrow> string set \<Rightarrow> string set \<Rightarrow> soe_store \<Rightarrow> bool" where
  "waiting lhash fhash i D l cs es ls C E st \<longleftrightarrow>
     ledger_inv lhash fhash st \<and> ss_dirs st = D \<and> ss_forecasts st = ls \<and> i \<notin> ll_cycle_id ` set ls \<and>
     (\<exists>fs. map_of D (Cycle i) = Some fs \<and> sealed_dir fs \<and> recorded fhash i fs l cs es) \<and>
     C \<subseteq> set (ss_candidates st) \<and> E \<subseteq> set (ss_episodes st)"

lemma waiting_inv: "waiting lhash fhash i D l cs es ls C E st \<Longrightarrow> ledger_inv lhash fhash st"
  by (simp add: waiting_def)

lemma waiting_less: "waiting lhash fhash i D l cs es ls C E st \<Longrightarrow> C' \<subseteq> C \<Longrightarrow> E' \<subseteq> E \<Longrightarrow> waiting lhash fhash i D l cs es ls C' E' st"
  by (auto simp: waiting_def)

fun log_grown :: "state_log \<Rightarrow> string set \<Rightarrow> string set \<Rightarrow> string \<Rightarrow> string set \<times> string set" where
  "log_grown Candidates C E x = (insert x C, E)"
| "log_grown Episodes C E x = (C, insert x E)"

lemma wait_ensure:
  "triple (waiting lhash fhash i D l cs es ls C E) ensure (\<lambda>_. waiting lhash fhash i D l cs es ls C E) (ledger_inv lhash fhash)"
  unfolding ensure_def by (rule triple_tick) (auto intro: waiting_inv)

lemma wait_append:
  "triple (waiting lhash fhash i D l cs es ls C E) (append_logged g x)
     (\<lambda>_. case log_grown g C E x of (C', E') \<Rightarrow> waiting lhash fhash i D l cs es ls C' E') (ledger_inv lhash fhash)"
  unfolding append_logged_def disk_def
proof (rule triple_then [OF wait_ensure], rule triple_tick)
  fix st st' assume st: "waiting lhash fhash i D l cs es ls C E st" "append_line g x st = Inr st'"
  note ledger_append_line [OF waiting_inv [OF st(1)] st(2)]
  moreover have "C \<union> (if g = Candidates then {x} else {}) \<subseteq> set (ss_candidates st')"
    "E \<union> (if g = Episodes then {x} else {}) \<subseteq> set (ss_episodes st')"
    using st by (auto simp: waiting_def append_line_def split: if_splits state_log.splits)
  ultimately show "(case log_grown g C E x of (C', E') \<Rightarrow> waiting lhash fhash i D l cs es ls C' E') st'"
    using st(1) by (cases g) (auto simp: waiting_def)
qed (rule waiting_inv)

lemma wait_candidates:
  "triple (waiting lhash fhash i D l cs es ls C E) (each (append_logged Candidates) xs)
     (\<lambda>_. waiting lhash fhash i D l cs es ls (C \<union> set xs) E) (ledger_inv lhash fhash)"
proof (induction xs arbitrary: C)
  case Nil
  then show ?case by (auto intro: triple_return)
next
  case (Cons x xs)
  from triple_then [OF wait_append [of _ _ _ _ _ _ _ _ C E Candidates x, simplified] Cons [of "insert x C"]]
  show ?case by simp
qed

lemma wait_episodes:
  "triple (waiting lhash fhash i D l cs es ls C E) (each (append_logged Episodes) xs)
     (\<lambda>_. waiting lhash fhash i D l cs es ls C (E \<union> set xs)) (ledger_inv lhash fhash)"
proof (induction xs arbitrary: E)
  case Nil
  then show ?case by (auto intro: triple_return)
next
  case (Cons x xs)
  from triple_then [OF wait_append [of _ _ _ _ _ _ _ _ C E Episodes x, simplified] Cons [of "insert x E"]]
  show ?case by simp
qed

lemma recorded_fun:
  "recorded fhash i fs l cs es \<Longrightarrow> recorded fhash i fs l' cs' es' \<Longrightarrow> l' = l \<and> cs' = cs \<and> es' = es"
  by (simp add: recorded_def)

text \<open>The last append: the cycle is in the log, and nothing waits any more.\<close>

definition caught_up :: "(line_body \<Rightarrow> string) \<Rightarrow> (forecast \<Rightarrow> string vres) \<Rightarrow> (run_dir \<times> run_files) list \<Rightarrow> log_line list \<Rightarrow> soe_store \<Rightarrow> bool" where
  "caught_up lhash fhash D ls st \<longleftrightarrow>
     ledger_inv lhash fhash st \<and> ss_dirs st = D \<and> ss_forecasts st = ls \<and> (\<forall>j. \<not> pending st j)"

lemma ledger_append_forecast:
  assumes "waiting lhash fhash i D l cs es ls (set cs) (set es) st"
  shows "caught_up lhash fhash D (ls @ [l]) (st\<lparr>ss_forecasts := ss_forecasts st @ [l]\<rparr>)"
proof -
  let ?st = "st\<lparr>ss_forecasts := ss_forecasts st @ [l]\<rparr>"
  obtain fs where w: "ledger_inv lhash fhash st" "ss_dirs st = D" "ss_forecasts st = ls" "i \<notin> ll_cycle_id ` set ls"
      "cyc st i = Some fs" "sealed_dir fs" "recorded fhash i fs l cs es"
      "set cs \<subseteq> set (ss_candidates st)" "set es \<subseteq> set (ss_episodes st)"
    using assms by (auto simp: waiting_def cyc_def)
  have l: "ll_cycle_id l = i" using w(7) by (simp add: recorded_def)
  have c: "cyc ?st = cyc st" by (simp add: cyc_def fun_eq_iff)
  have "cycle_ok lhash fhash st i fs" by (rule ledgerD(3) [OF w(1,5,6)])
  then have follows: "follows lhash ls l" using w(3,4) recorded_fun [OF w(7)] by (auto simp: cycle_ok_def)
  have only: "j = i" if "pending st j" for j
    using ledgerD(5) [OF w(1) that, of i] w(3-6) by (auto simp: pending_def)
  have none: "\<not> pending ?st j" for j
    using only [of j] l by (auto simp: pending_def c)
  have ok: "cycle_ok lhash fhash ?st j gs" if gs: "cyc st j = Some gs" "sealed_dir gs" for j gs
  proof (cases "j = i")
    case True
    then have [simp]: "gs = fs" using gs w(5) by simp
    show ?thesis unfolding cycle_ok_def using w l True
      by (intro exI [of _ l] exI [of _ cs] exI [of _ es]) simp
  next
    case False
    then have j: "j \<in> ll_cycle_id ` set ls" using only [of j] gs w(3) by (auto simp: pending_def)
    obtain l' cs' es' where "recorded fhash j gs l' cs' es'" "l' \<in> set ls"
        "set cs' \<subseteq> set (ss_candidates st)" "set es' \<subseteq> set (ss_episodes st)"
      using ledgerD(3) [OF w(1) gs] j w(3) by (auto simp: cycle_ok_def)
    then show ?thesis unfolding cycle_ok_def using w(3) j
      by (intro exI [of _ l'] exI [of _ cs'] exI [of _ es']) simp
  qed
  have "ledger_inv lhash fhash ?st" unfolding ledger_inv_def c
  proof (intro conjI allI impI ballI)
    show "verify_chain lhash (ss_forecasts ?st) = Inr ()"
      using follows ledgerD(1) [OF w(1)] w(3) by (simp add: verify_chain_snoc)
    show "valid_id j" if "cyc st j = Some gs" for j gs using that by (rule ledgerD(2) [OF w(1)])
    show "cycle_ok lhash fhash ?st j gs" if "cyc st j = Some gs" "sealed_dir gs" for j gs using that by (rule ok)
    show "\<exists>gs. cyc st j = Some gs \<and> sealed_dir gs" if j: "j \<in> ll_cycle_id ` set (ss_forecasts ?st)" for j
      using j ledgerD(4) [OF w(1), of j] w(5,6) l by auto
    show "j = k" if "pending ?st j" for j k using that none by blast
  qed
  then show ?thesis using none w(2,3) by (simp add: caught_up_def)
qed

lemma wait_append_forecast:
  "triple (waiting lhash fhash i D l cs es ls (set cs) (set es)) (athen ensure (disk (append_forecast l)))
     (\<lambda>_. caught_up lhash fhash D (ls @ [l])) (ledger_inv lhash fhash)"
  unfolding disk_def
proof (rule triple_then [OF wait_ensure], rule triple_tick)
  fix st st' assume "waiting lhash fhash i D l cs es ls (set cs) (set es) st" "append_forecast l st = Inr st'"
  then show "caught_up lhash fhash D (ls @ [l]) st'"
    by (auto simp: append_forecast_def intro: ledger_append_forecast)
qed (rule waiting_inv)

section \<open>The resume\<close>

lemma plain_names [simp]: "plain_segment CANDIDATES" "plain_segment EPISODES" "plain_segment FORECAST_LINE" "plain_segment FORECAST"
  by (simp_all add: plain_segment_def CANDIDATES_def EPISODES_def FORECAST_LINE_def FORECAST_def)

lemma waiting_read:
  assumes "waiting lhash fhash i D l cs es ls C E st"
  shows "read_rows (Cycle i) CANDIDATES st = Inr cs" "read_rows (Cycle i) EPISODES st = Inr es"
  using assms ledgerD(2) [OF waiting_inv [OF assms], of i]
  by (auto simp: waiting_def read_rows_def read_file_def recorded_def cyc_def)

lemma wait_resume_candidates:
  "triple (waiting lhash fhash i D l cs es ls {} {}) (resume_rows (Cycle i) Candidates CANDIDATES)
     (\<lambda>_. waiting lhash fhash i D l cs es ls (set cs) {}) (ledger_inv lhash fhash)"
  unfolding resume_rows_def
proof (rule triple_bind)
  show "triple (waiting lhash fhash i D l cs es ls {} {}) (ask (\<lambda>st. Inr (log_lines Candidates st)))
      (\<lambda>lines. waiting lhash fhash i D l cs es ls (set lines) {}) (ledger_inv lhash fhash)"
    by (rule triple_ask) (auto simp: waiting_def log_lines_def)
  fix lines
  show "triple (waiting lhash fhash i D l cs es ls (set lines) {})
      (abind (ask (read_rows (Cycle i) CANDIDATES)) (\<lambda>own. each (append_logged Candidates) (filter (\<lambda>l. l \<notin> set lines) own)))
      (\<lambda>_. waiting lhash fhash i D l cs es ls (set cs) {}) (ledger_inv lhash fhash)"
  proof (rule triple_bind)
    show "triple (waiting lhash fhash i D l cs es ls (set lines) {}) (ask (read_rows (Cycle i) CANDIDATES))
        (\<lambda>own st. own = cs \<and> waiting lhash fhash i D l cs es ls (set lines) {} st) (ledger_inv lhash fhash)"
      by (rule triple_ask) (auto simp: waiting_read dest: waiting_inv)
    show "triple (\<lambda>st. own = cs \<and> waiting lhash fhash i D l cs es ls (set lines) {} st)
        (each (append_logged Candidates) (filter (\<lambda>l. l \<notin> set lines) own))
        (\<lambda>_. waiting lhash fhash i D l cs es ls (set cs) {}) (ledger_inv lhash fhash)" for own
      by (rule triple_fact, rule triple_weaken [OF wait_candidates]) (auto elim!: waiting_less)
  qed
qed

lemma wait_resume_episodes:
  "triple (waiting lhash fhash i D l cs es ls (set cs) {}) (resume_rows (Cycle i) Episodes EPISODES)
     (\<lambda>_. waiting lhash fhash i D l cs es ls (set cs) (set es)) (ledger_inv lhash fhash)"
  unfolding resume_rows_def
proof (rule triple_bind)
  show "triple (waiting lhash fhash i D l cs es ls (set cs) {}) (ask (\<lambda>st. Inr (log_lines Episodes st)))
      (\<lambda>lines. waiting lhash fhash i D l cs es ls (set cs) (set lines)) (ledger_inv lhash fhash)"
    by (rule triple_ask) (auto simp: waiting_def log_lines_def)
  fix lines
  show "triple (waiting lhash fhash i D l cs es ls (set cs) (set lines))
      (abind (ask (read_rows (Cycle i) EPISODES)) (\<lambda>own. each (append_logged Episodes) (filter (\<lambda>l. l \<notin> set lines) own)))
      (\<lambda>_. waiting lhash fhash i D l cs es ls (set cs) (set es)) (ledger_inv lhash fhash)"
  proof (rule triple_bind)
    show "triple (waiting lhash fhash i D l cs es ls (set cs) (set lines)) (ask (read_rows (Cycle i) EPISODES))
        (\<lambda>own st. own = es \<and> waiting lhash fhash i D l cs es ls (set cs) (set lines) st) (ledger_inv lhash fhash)"
      by (rule triple_ask) (auto simp: waiting_read dest: waiting_inv)
    show "triple (\<lambda>st. own = es \<and> waiting lhash fhash i D l cs es ls (set cs) (set lines) st)
        (each (append_logged Episodes) (filter (\<lambda>l. l \<notin> set lines) own))
        (\<lambda>_. waiting lhash fhash i D l cs es ls (set cs) (set es)) (ledger_inv lhash fhash)" for own
      by (rule triple_fact, rule triple_weaken [OF wait_episodes]) (auto elim!: waiting_less)
  qed
qed

lemma wait_resume_cycle:
  "triple (waiting lhash fhash i D l cs es ls {} {}) (resume_cycle i l)
     (\<lambda>_. caught_up lhash fhash D (ls @ [l])) (ledger_inv lhash fhash)"
  unfolding resume_cycle_def
  by (intro triple_then [OF wait_resume_candidates] triple_then [OF wait_resume_episodes] wait_append_forecast)

text \<open>Part of the way through: the cycles \<open>J\<close> do not wait.\<close>

definition resuming :: "(line_body \<Rightarrow> string) \<Rightarrow> (forecast \<Rightarrow> string vres) \<Rightarrow> (run_dir \<times> run_files) list \<Rightarrow> log_line list \<Rightarrow> string set \<Rightarrow> soe_store \<Rightarrow> bool" where
  "resuming lhash fhash D ls J st \<longleftrightarrow>
     ledger_inv lhash fhash st \<and> ss_dirs st = D \<and> ss_forecasts st = ls \<and> (\<forall>j \<in> J. \<not> pending st j)"

lemma resuming_waiting:
  assumes "resuming lhash fhash D ls J st" "i \<notin> ll_cycle_id ` set ls" "status (Cycle i) st = Inr RunFrozen"
    and "read_line (Cycle i) st = Inr (Some line)"
  shows "\<exists>cs es. waiting lhash fhash i D line cs es ls {} {} st"
proof -
  have st: "ledger_inv lhash fhash st" "ss_dirs st = D" "ss_forecasts st = ls" using assms(1) by (simp_all add: resuming_def)
  obtain fs where fs: "cyc st i = Some fs" "sealed_dir fs"
    using assms(3) by (auto simp: status_def cyc_def sealed_dir_def split: option.splits if_splits)
  obtain l cs es where r: "recorded fhash i fs l cs es"
    using ledgerD(3) [OF st(1) fs] by (auto simp: cycle_ok_def)
  have "line = l" using assms(4) fs r by (auto simp: read_line_def read_file_def cyc_def recorded_def split: if_splits)
  with st fs r assms(2) show ?thesis by (auto simp: waiting_def cyc_def)
qed

lemma resume_cycles_triple:
  "triple (resuming lhash fhash D ls J) (resume_cycles ids ls res)
     (\<lambda>(_, ls'). resuming lhash fhash D ls' (J \<union> set ids)) (ledger_inv lhash fhash)"
proof (induction ids arbitrary: ls J res)
  case Nil
  then show ?case by (auto intro: triple_return)
next
  case (Cons i ids)
  have skip: "triple (resuming lhash fhash D ls (insert i J)) (resume_cycles ids ls res)
      (\<lambda>(_, ls'). resuming lhash fhash D ls' (J \<union> set (i # ids))) (ledger_inv lhash fhash)"
    using Cons [of ls "insert i J" res] by simp
  have inv: "\<And>st. resuming lhash fhash D ls J st \<Longrightarrow> ledger_inv lhash fhash st" by (simp add: resuming_def)
  show ?case
  proof (cases "i \<in> ll_cycle_id ` set ls")
    case True
    then show ?thesis unfolding resume_cycles.simps if_P [OF True]
      by (intro triple_pre [OF skip]) (auto simp: resuming_def pending_def)
  next
    case new: False
    define R where "R s st \<longleftrightarrow> resuming lhash fhash D ls J st \<and> status (Cycle i) st = Inr s" for s st
    define L where "L x st \<longleftrightarrow> R RunFrozen st \<and> read_line (Cycle i) st = Inr x" for x st
    have 1: "triple (resuming lhash fhash D ls J) (ask (status (Cycle i))) R (ledger_inv lhash fhash)"
      by (rule triple_ask) (auto simp: R_def inv)
    have 2: "triple (R RunFrozen) (ask (read_line (Cycle i))) L (ledger_inv lhash fhash)"
      by (rule triple_ask) (auto simp: R_def L_def inv)
    have 3: "triple (R s) (resume_cycles ids ls res)
        (\<lambda>(_, ls'). resuming lhash fhash D ls' (J \<union> set (i # ids))) (ledger_inv lhash fhash)" if "s \<noteq> RunFrozen" for s
      by (rule triple_pre [OF skip])
        (use that in \<open>auto simp: R_def resuming_def pending_def status_def cyc_def sealed_dir_def split: if_splits option.splits\<close>)
    have 4: "triple (L (Some line)) (resume_cycle i line) (\<lambda>_. resuming lhash fhash D (ls @ [line]) (insert i J)) (ledger_inv lhash fhash)" for line
    proof (rule triple_pre)
      show "triple (\<lambda>st. \<exists>cs es. waiting lhash fhash i D line cs es ls {} {} st) (resume_cycle i line)
          (\<lambda>_. resuming lhash fhash D (ls @ [line]) (insert i J)) (ledger_inv lhash fhash)"
        by (intro triple_ex, rule triple_weaken [OF wait_resume_cycle]) (auto simp: caught_up_def resuming_def)
      show "\<exists>cs es. waiting lhash fhash i D line cs es ls {} {} st" if "L (Some line) st" for st
        using that new by (auto simp: L_def R_def intro: resuming_waiting)
    qed
    have 5: "triple (resuming lhash fhash D (ls @ [line]) (insert i J)) (resume_cycles ids (ls @ [line]) (res @ [i]))
        (\<lambda>(_, ls'). resuming lhash fhash D ls' (J \<union> set (i # ids))) (ledger_inv lhash fhash)" for line
      using Cons [of "ls @ [line]" "insert i J" "res @ [i]"] by simp
    have fail: "triple (L x) (afail e) Q (ledger_inv lhash fhash)" for x e and Q :: "string list \<times> log_line list \<Rightarrow> soe_store \<Rightarrow> bool"
      by (rule triple_fail) (simp add: L_def R_def inv)
    show ?thesis unfolding resume_cycles.simps if_not_P [OF new]
    proof (rule triple_bind [OF 1])
      fix s
      show "triple (R s) (if s \<noteq> RunFrozen then resume_cycles ids ls res
          else abind (ask (read_line (Cycle i))) (\<lambda>l. case l of None \<Rightarrow> afail RunFailed
            | Some line \<Rightarrow> if ll_prev_sha256 line \<noteq> chain_tip ls \<or> ll_cycle_id line \<noteq> i then afail ChainBroken
                else athen (resume_cycle i line) (resume_cycles ids (ls @ [line]) (res @ [i]))))
        (\<lambda>(_, ls'). resuming lhash fhash D ls' (J \<union> set (i # ids))) (ledger_inv lhash fhash)"
      proof (cases "s = RunFrozen")
        case True
        show ?thesis unfolding True
          by (simp only: if_False not_True_eq_False simp_thms, rule triple_bind [OF 2], split option.split,
              intro conjI impI allI triple_if) (auto simp only: intro!: fail triple_then [OF 4] 5)
      next
        case False
        then show ?thesis using 3 by simp
      qed
    qed
  qed
qed

lemma sealed_dir_iff: "sealed_dir fs \<longleftrightarrow> map_of fs MANIFEST \<noteq> None"
  by (simp add: sealed_dir_def map_of_eq_None_iff)

lemma in_cycles: "ledger_inv lhash fhash st \<Longrightarrow> cyc st i = Some fs \<Longrightarrow> i \<in> set (cycles st)"
  using ledgerD(2) [of lhash fhash st i fs] by (force simp: cycles_def cyc_def dest: map_of_SomeD)

lemma pending_in_cycles: "ledger_inv lhash fhash st \<Longrightarrow> pending st i \<Longrightarrow> i \<in> set (cycles st)"
  by (auto simp: pending_def dest: in_cycles)

lemma resume_learn_triple:
  "triple (ledger_inv lhash fhash) (resume_learn lhash)
     (\<lambda>(_, ls) st. caught_up lhash fhash (ss_dirs st) ls st) (ledger_inv lhash fhash)"
proof -
  have "triple (\<lambda>st. ledger_inv lhash fhash st \<and> ss_dirs st = D) (resume_learn lhash)
     (\<lambda>(_, ls) st. caught_up lhash fhash (ss_dirs st) ls st) (ledger_inv lhash fhash)" for D
    unfolding resume_learn_def
  proof (rule triple_bind)
    show "triple (\<lambda>st. ledger_inv lhash fhash st \<and> ss_dirs st = D) (ask (forecast_log lhash))
        (\<lambda>ls. resuming lhash fhash D ls {}) (ledger_inv lhash fhash)"
      by (rule triple_ask) (auto simp: forecast_log_def resuming_def split: sum.splits)
    fix ls
    have ids: "triple (resuming lhash fhash D ls {}) (ask (\<lambda>st. Inr (cycles st)))
        (\<lambda>ids st. ids = cycles \<lparr>ss_dirs = D, ss_candidates = [], ss_episodes = [], ss_forecasts = [], ss_logged_runs = []\<rparr> \<and>
           resuming lhash fhash D ls {} st) (ledger_inv lhash fhash)"
      by (rule triple_ask) (auto simp: resuming_def cycles_def)
    show "triple (resuming lhash fhash D ls {}) (abind (ask (\<lambda>st. Inr (cycles st))) (\<lambda>ids. resume_cycles ids ls []))
        (\<lambda>(_, ls) st. caught_up lhash fhash (ss_dirs st) ls st) (ledger_inv lhash fhash)"
    proof (rule triple_bind [OF ids], rule triple_fact, rule triple_weaken [OF resume_cycles_triple [where J = "{}"]])
      fix ids x st
      assume ids: "ids = cycles \<lparr>ss_dirs = D, ss_candidates = [], ss_episodes = [], ss_forecasts = [], ss_logged_runs = []\<rparr>"
        and "(case x of (_, ls') \<Rightarrow> resuming lhash fhash D ls' ({} \<union> set ids)) st"
      then have st: "ledger_inv lhash fhash st" "ss_dirs st = D" "ss_forecasts st = snd x" "\<forall>i \<in> set ids. \<not> pending st i"
        by (auto simp: resuming_def split: prod.splits)
      then have "cycles st = ids" by (simp add: cycles_def ids)
      then have "\<not> pending st i" for i using pending_in_cycles [OF st(1), of i] st(4) by auto
      with st show "(case x of (_, ls) \<Rightarrow> \<lambda>st. caught_up lhash fhash (ss_dirs st) ls st) st"
        by (auto simp: caught_up_def split: prod.splits)
    qed
  qed
  then have "triple (\<lambda>st. \<exists>D. ledger_inv lhash fhash st \<and> ss_dirs st = D) (resume_learn lhash)
     (\<lambda>(_, ls) st. caught_up lhash fhash (ss_dirs st) ls st) (ledger_inv lhash fhash)" by (rule triple_ex)
  then show ?thesis by (rule triple_pre) simp
qed

section \<open>The start of a run\<close>

text \<open>What the preflight of a live run leaves: the log it will chain after, and no trace of the cycle.\<close>

definition cleared :: "(line_body \<Rightarrow> string) \<Rightarrow> (forecast \<Rightarrow> string vres) \<Rightarrow> int \<Rightarrow> run_dir \<Rightarrow> log_line option \<Rightarrow> log_line list \<Rightarrow> soe_store \<Rightarrow> bool" where
  "cleared lhash fhash ms d prev ls st \<longleftrightarrow> ledger_inv lhash fhash st \<and>
     (case d of
        Cycle i \<Rightarrow> ss_forecasts st = ls \<and> (\<forall>j. \<not> pending st j) \<and> cyc st i = None \<and>
          prev = (if ls = [] then None else Some (last ls)) \<and> i \<notin> ll_cycle_id ` set ls \<and>
          (ls \<noteq> [] \<longrightarrow> ll_frozen_at_ms (last ls) \<le> ms)
      | _ \<Rightarrow> True)"

lemma preflight_triple:
  assumes "ce_lhash env = lhash"
  shows "triple (ledger_inv lhash fhash) (preflight env p d)
     (\<lambda>prev st. \<exists>ls. cleared lhash fhash (cp_decided_at_ms p) d prev ls st) (ledger_inv lhash fhash)"
proof -
  define R where "R ls st \<longleftrightarrow> ledger_inv lhash fhash st \<and> (is_replay d \<or> caught_up lhash fhash (ss_dirs st) ls st)" for ls st
  define S where "S ls s st \<longleftrightarrow> R ls st \<and> status d st = Inr s" for ls s st
  have 1: "triple (ledger_inv lhash fhash) (if is_replay d then areturn [] else abind (resume_learn lhash) (\<lambda>(_, ls). areturn ls))
      R (ledger_inv lhash fhash)"
    by (intro triple_if triple_return triple_bind [OF resume_learn_triple])
      (auto simp: R_def caught_up_def split: prod.splits intro!: triple_return)
  have 2: "triple (R ls) (ask (status d)) (S ls) (ledger_inv lhash fhash)" for ls
    by (rule triple_ask) (auto simp: R_def S_def)
  have inv: "S ls s st \<Longrightarrow> ledger_inv lhash fhash st" for ls s st by (simp add: S_def R_def)
  have go: "cleared lhash fhash (cp_decided_at_ms p) d prev ls st"
    if "S ls RunAbsent st" "\<not> is_replay d \<Longrightarrow> run_id d \<notin> ll_cycle_id ` set ls"
      "\<not> is_replay d \<Longrightarrow> prev = (if ls = [] then None else Some (last ls)) \<and> (ls \<noteq> [] \<longrightarrow> ll_frozen_at_ms (last ls) \<le> cp_decided_at_ms p)"
    for ls prev st
    using that by (cases d) (auto simp: S_def R_def cleared_def caught_up_def status_def cyc_def split: if_splits option.splits)
  have 3: "triple (S ls RunAbsent)
      (if is_replay d then areturn None
       else if run_id d \<in> ll_cycle_id ` set ls then afail CycleAlreadyFrozen
       else if ls = [] then areturn None
       else if cp_decided_at_ms p < ll_frozen_at_ms (last ls) then afail CycleOutOfOrder
       else areturn (Some (last ls)))
      (\<lambda>prev st. \<exists>ls. cleared lhash fhash (cp_decided_at_ms p) d prev ls st) (ledger_inv lhash fhash)" for ls
    by (intro triple_if triple_return triple_fail) (auto intro: inv intro!: exI go)
  show ?thesis unfolding preflight_def assms
    by (rule triple_if, rule triple_fail, assumption, rule triple_bind [OF 1], rule triple_bind [OF 2],
        split run_status.split, intro conjI impI triple_fail, simp_all only:, (rule 3 | erule inv)+)
qed

lemma claim_triple:
  "triple (cleared lhash fhash ms d prev ls) (disk (claim d)) (\<lambda>_. running lhash fhash d ls {}) (ledger_inv lhash fhash)"
  unfolding disk_def
proof (rule triple_tick)
  fix st st' assume c: "cleared lhash fhash ms d prev ls st" "claim d st = Inr st'"
  then have st': "valid_id (run_id d)" "map_of (ss_dirs st) d = None" "st' = st\<lparr>ss_dirs := (d, []) # ss_dirs st\<rparr>"
    by (auto simp: claim_def split: if_splits)
  have cyc: "cyc st' j = (if d = Cycle j then Some [] else cyc st j)" for j by (simp add: st'(3) cyc_def)
  have inv: "ledger_inv lhash fhash st" using c(1) by (simp add: cleared_def)
  have old: "cyc st j = None" if "d = Cycle j" for j using that st'(2) by (simp add: cyc_def)
  have *: "ledger_inv lhash fhash st'" "pending st' j \<longleftrightarrow> pending st j" for j
    by (rule ledger_cong [OF inv]; use st' cyc old ledgerD(2) [OF inv] in \<open>fastforce simp: sealed_dir_def split: if_splits\<close>)+
  then show "running lhash fhash d ls {} st'"
    using c(1) cyc by (auto simp: running_def cleared_def sealed_dir_def st'(3) split: run_dir.splits)
qed (simp add: cleared_def)

section \<open>The freeze\<close>

text \<open>A run that is ready to freeze as the live cycle \<open>i\<close>.\<close>

definition ready :: "(line_body \<Rightarrow> string) \<Rightarrow> (forecast \<Rightarrow> string vres) \<Rightarrow> string \<Rightarrow> log_line list \<Rightarrow> log_line \<Rightarrow> string list \<Rightarrow> string list \<Rightarrow> (string \<times> content) set \<Rightarrow> bool" where
  "ready lhash fhash i ls l cs es H \<longleftrightarrow>
     follows lhash ls l \<and> ll_cycle_id l = i \<and> plain_rows cs \<and> plain_rows es \<and>
     (\<exists>f. validate_forecast f = Inr () \<and> fhash f = Inr (ll_forecast_sha256 l) \<and>
        {(FORECAST, ForecastJson f), (FORECAST_LINE, LineJson l), (CANDIDATES, Rows cs), (EPISODES, Rows es)} \<subseteq> H)"

lemma freeze_tmp_triple:
  assumes "\<And>n b. (n, b) \<in> H \<Longrightarrow> n \<noteq> MANIFEST_TMP"
  shows "triple (running lhash fhash d ls H) (disk (freeze_tmp d m))
     (\<lambda>_. running lhash fhash d ls (insert (MANIFEST_TMP, m) H)) (ledger_inv lhash fhash)"
  unfolding disk_def
proof (rule triple_tick)
  fix st st' assume run: "running lhash fhash d ls H st" and "freeze_tmp d m st = Inr st'"
  then obtain fs where fs: "open_dir d st = Inr fs" "st' = put_files d (AList.update MANIFEST_TMP m fs) st"
    by (auto simp: freeze_tmp_def split: sum.splits)
  have "\<not> sealed_dir (AList.update MANIFEST_TMP m fs)"
    using fs(1) by (auto simp: open_dir_Inr sealed_dir_def dom_update)
  then show "running lhash fhash d ls (insert (MANIFEST_TMP, m) H) st'"
    unfolding fs(2) by (rule running_put [OF run fs(1)]) (auto simp: update_conv' dest: assms)
qed (rule running_inv)

lemma link_waiting:
  assumes "running lhash fhash (Cycle i) ls H st" "(MANIFEST_TMP, m) \<in> H" "ready lhash fhash i ls l cs es H"
    and "freeze_link (Cycle i) st = Inr st'"
  shows "waiting lhash fhash i (ss_dirs st') l cs es ls {} {} st'"
proof -
  obtain fs where r: "ledger_inv lhash fhash st" "ss_forecasts st = ls" "\<And>j. \<not> pending st j"
      "cyc st i = Some fs" "\<not> sealed_dir fs" "\<forall>(n, b) \<in> H. map_of fs n = Some b"
    using assms(1) by (auto simp: running_def)
  let ?fs = "(MANIFEST, m) # fs"
  have "map_of fs MANIFEST_TMP = Some m" "map_of fs MANIFEST = None"
    using r(5,6) assms(2) by (auto simp: sealed_dir_def map_of_eq_None_iff)
  then have st': "st' = put_files (Cycle i) ?fs st"
    using assms(4) r(4) by (simp add: freeze_link_def cyc_def)
  have new: "i \<notin> ll_cycle_id ` set ls" using assms(3) by (auto simp: ready_def follows_def)
  obtain f where f: "validate_forecast f = Inr ()" "fhash f = Inr (ll_forecast_sha256 l)"
      "map_of fs FORECAST = Some (ForecastJson f)" "map_of fs FORECAST_LINE = Some (LineJson l)"
      "map_of fs CANDIDATES = Some (Rows cs)" "map_of fs EPISODES = Some (Rows es)"
    using assms(3) r(6) by (auto simp: ready_def)
  then have rec: "recorded fhash i ?fs l cs es" using assms(3) by (auto simp: recorded_def ready_def)
  have seal: "sealed_dir ?fs" by (simp add: sealed_dir_def)
  have pend: "pending st' j \<longleftrightarrow> j = i" for j
    using r(2) r(3) [of j] new seal by (auto simp: pending_def st' split: if_splits)
  have ok: "cycle_ok lhash fhash st' j gs" if gs: "cyc st' j = Some gs" "sealed_dir gs" for j gs
  proof (cases "j = i")
    case True
    with gs show ?thesis using rec new r(2) assms(3) by (auto simp: cycle_ok_def st' ready_def)
  next
    case False
    with gs have "cyc st j = Some gs" by (simp add: st' split: if_splits)
    from ledgerD(3) [OF r(1) this gs(2)] show ?thesis by (simp only: cycle_ok_def st' put_logs)
  qed
  have "ledger_inv lhash fhash st'" unfolding ledger_inv_def
  proof (intro conjI allI impI ballI)
    show "verify_chain lhash (ss_forecasts st') = Inr ()" using ledgerD(1) [OF r(1)] by (simp add: st')
    show "valid_id j" if "cyc st' j = Some gs" for j gs
      using that ledgerD(2) [OF r(1)] r(4) by (auto simp: st' split: if_splits)
    show "cycle_ok lhash fhash st' j gs" if "cyc st' j = Some gs" "sealed_dir gs" for j gs using that by (rule ok)
    show "\<exists>gs. cyc st' j = Some gs \<and> sealed_dir gs" if "j \<in> ll_cycle_id ` set (ss_forecasts st')" for j
      using that ledgerD(4) [OF r(1), of j] seal by (auto simp: st')
    show "j = k" if "pending st' j" "pending st' k" for j k using that by (simp add: pend)
  qed
  then show ?thesis using rec seal new r(2) st' by (auto simp: waiting_def put_files_def update_conv')
qed

lemma untmp_waiting:
  assumes "waiting lhash fhash i D l cs es ls {} {} st" "freeze_untmp (Cycle i) st = Inr st'"
  shows "waiting lhash fhash i (ss_dirs st') l cs es ls {} {} st'"
proof -
  obtain fs where w: "ledger_inv lhash fhash st" "ss_forecasts st = ls" "i \<notin> ll_cycle_id ` set ls"
      "cyc st i = Some fs" "sealed_dir fs" "recorded fhash i fs l cs es"
    using assms(1) by (auto simp: waiting_def cyc_def)
  let ?fs = "AList.delete MANIFEST_TMP fs"
  have st': "st' = put_files (Cycle i) ?fs st" using assms(2) w(4) by (simp add: freeze_untmp_def cyc_def)
  have same: "sealed_dir ?fs" "\<And>n. n \<noteq> MANIFEST_TMP \<Longrightarrow> map_of ?fs n = map_of fs n"
    using w(5) by (auto simp: sealed_dir_iff delete_conv')
  have "ledger_inv lhash fhash st'"
    by (rule ledger_cong [OF w(1)]; use st' w(4,5) same ledgerD(2) [OF w(1)] in \<open>auto split: if_splits\<close>)
  then show ?thesis using w same st' by (auto simp: waiting_def recorded_def put_files_def update_conv')
qed

definition waits :: "(line_body \<Rightarrow> string) \<Rightarrow> (forecast \<Rightarrow> string vres) \<Rightarrow> string \<Rightarrow> log_line \<Rightarrow> string list \<Rightarrow> string list \<Rightarrow> log_line list \<Rightarrow> soe_store \<Rightarrow> bool" where
  "waits lhash fhash i l cs es ls st \<longleftrightarrow> waiting lhash fhash i (ss_dirs st) l cs es ls {} {} st"

lemma waits_inv: "waits lhash fhash i l cs es ls st \<Longrightarrow> ledger_inv lhash fhash st"
  by (simp add: waits_def waiting_inv)

lemma can_link_running:
  assumes "running lhash fhash (Cycle i) ls (insert (MANIFEST_TMP, m) H) st"
  shows "can_link (Cycle i) st = Inr True"
proof -
  obtain fs where fs: "map_of (ss_dirs st) (Cycle i) = Some fs" "\<not> sealed_dir fs" "map_of fs MANIFEST_TMP = Some m"
    using assms by (auto simp: running_def cyc_def)
  then have "MANIFEST_TMP \<in> fst ` set fs" by (metis map_of_eq_None_iff option.distinct(1))
  with fs show ?thesis by (simp add: can_link_def sealed_dir_def)
qed

lemma store_freeze_cycle:
  assumes "ready lhash fhash i ls l cs es H" "\<And>n b. (n, b) \<in> H \<Longrightarrow> n \<noteq> MANIFEST_TMP"
  shows "triple (running lhash fhash (Cycle i) ls H) (store_freeze (Cycle i) m)
     (\<lambda>_. waits lhash fhash i l cs es ls) (ledger_inv lhash fhash)"
proof -
  let ?H = "insert (MANIFEST_TMP, m) H"
  have ready: "ready lhash fhash i ls l cs es ?H" using assms(1) by (auto simp: ready_def)
  have tmp: "triple (running lhash fhash (Cycle i) ls H) (disk (freeze_tmp (Cycle i) m))
      (\<lambda>_. running lhash fhash (Cycle i) ls ?H) (ledger_inv lhash fhash)"
    using assms(2) by (rule freeze_tmp_triple)
  have can: "triple (running lhash fhash (Cycle i) ls ?H) (ask (can_link (Cycle i)))
      (\<lambda>linked st. linked \<and> running lhash fhash (Cycle i) ls ?H st) (ledger_inv lhash fhash)"
    by (rule triple_ask) (auto simp: can_link_running intro: running_inv)
  have link: "triple (running lhash fhash (Cycle i) ls ?H) (disk (freeze_link (Cycle i)))
      (\<lambda>_. waits lhash fhash i l cs es ls) (ledger_inv lhash fhash)"
    unfolding disk_def waits_def by (rule triple_tick) (auto intro: running_inv link_waiting [OF _ _ ready])
  have untmp: "triple (waits lhash fhash i l cs es ls) (disk (freeze_untmp (Cycle i)))
      (\<lambda>_. waits lhash fhash i l cs es ls) (ledger_inv lhash fhash)"
    unfolding disk_def by (rule triple_tick) (auto simp: waits_def intro: waiting_inv untmp_waiting)
  show ?thesis unfolding store_freeze_def
    by (rule triple_then [OF tmp], rule triple_bind [OF can], rule triple_fact, rule triple_then [OF link],
        rule triple_then [OF untmp]) (simp add: triple_return)
qed

lemma seal_cycle:
  assumes "ready lhash fhash i ls l cs es H" "\<And>n b. (n, b) \<in> H \<Longrightarrow> n \<noteq> MANIFEST_TMP"
  shows "triple (running lhash fhash (Cycle i) ls H) (seal env (Cycle i)) (\<lambda>_. waits lhash fhash i l cs es ls) (ledger_inv lhash fhash)"
proof -
  have ask: "triple (waits lhash fhash i l cs es ls) (ask f) (\<lambda>_. waits lhash fhash i l cs es ls) (ledger_inv lhash fhash)" for f
    by (rule triple_ask) (auto intro: waits_inv)
  have freeze: "triple (running lhash fhash (Cycle i) ls H) (freeze_run (ce_digest env) (Cycle i))
      (\<lambda>_. waits lhash fhash i l cs es ls) (ledger_inv lhash fhash)"
    unfolding freeze_run_def
    by (rule triple_bind [OF run_ask], rule triple_then [OF store_freeze_cycle [OF assms]], assumption, rule triple_return)
  show ?thesis unfolding seal_def by (rule triple_bind [OF freeze], rule triple_bind [OF ask], rule triple_return)
qed

text \<open>A run that is not a live cycle touches nothing the invariant reads.\<close>

lemma put_other: "ledger_inv lhash fhash st \<Longrightarrow> \<forall>i. d \<noteq> Cycle i \<Longrightarrow> ledger_inv lhash fhash (put_files d fs st)"
  by (rule ledger_put_open) (auto split: run_dir.splits)

lemma seal_other:
  assumes "\<forall>i. d \<noteq> Cycle i"
  shows "triple (ledger_inv lhash fhash) (seal env d) (\<lambda>_. ledger_inv lhash fhash) (ledger_inv lhash fhash)"
proof -
  have ask: "triple (ledger_inv lhash fhash) (ask f) (\<lambda>_. ledger_inv lhash fhash) (ledger_inv lhash fhash)" for f
    by (rule triple_ask)
  have disks: "triple (ledger_inv lhash fhash) (disk (freeze_tmp d m)) (\<lambda>_. ledger_inv lhash fhash) (ledger_inv lhash fhash)"
    "triple (ledger_inv lhash fhash) (disk (freeze_link d)) (\<lambda>_. ledger_inv lhash fhash) (ledger_inv lhash fhash)"
    "triple (ledger_inv lhash fhash) (disk (freeze_untmp d)) (\<lambda>_. ledger_inv lhash fhash) (ledger_inv lhash fhash)" for m
    unfolding disk_def using assms
    by (rule_tac triple_tick; auto simp: freeze_tmp_def freeze_link_def freeze_untmp_def put_other split: sum.splits option.splits)+
  show ?thesis unfolding seal_def freeze_run_def store_freeze_def
    by (intro keep_bind keep_then triple_if triple_return triple_fail ask disks)
qed

section \<open>A whole run\<close>

lemma waits_learn:
  assumes "ww_events w = cs" "ww_episodes w = es"
  shows "triple (waits lhash fhash i l cs es ls) (learn_appends w l) (\<lambda>_. ledger_inv lhash fhash) (ledger_inv lhash fhash)"
proof -
  have "triple (waiting lhash fhash i D l cs es ls {} {}) (learn_appends w l) (\<lambda>_. ledger_inv lhash fhash) (ledger_inv lhash fhash)" for D
    unfolding learn_appends_def assms
    by (rule triple_then [OF wait_candidates], rule triple_then [OF wait_episodes], simp only: Un_empty_left,
        rule triple_weaken [OF wait_append_forecast]) (auto simp: caught_up_def)
  then have "triple (\<lambda>st. \<exists>D. waiting lhash fhash i D l cs es ls {} {} st) (learn_appends w l) (\<lambda>_. ledger_inv lhash fhash) (ledger_inv lhash fhash)"
    by (rule triple_ex)
  then show ?thesis by (rule triple_pre) (auto simp: waits_def)
qed

lemma checked_iff: "checked v x = Inr y \<longleftrightarrow> v = Inr () \<and> y = x"
  by (cases v) (auto simp: checked_def)

lemma freeze_Inr:
  "freeze phash c t w own = Inr f \<Longrightarrow> validate_forecast f = Inr () \<and> fc_cycle_id f = c \<and> fc_frozen_at f = t"
  by (auto simp: freeze_def Let_def rbind_eq_Inr checked_iff)

lemma cycle_forecast_Inr:
  "cycle_forecast env p c w = Inr f \<Longrightarrow>
   validate_forecast f = Inr () \<and> fc_cycle_id f = c \<and> fc_frozen_at f = At (cp_decided_at_ms p)"
  by (auto simp: cycle_forecast_def split: sum.splits list.splits dest: freeze_Inr)

lemma cycle_line_follows:
  assumes "cycle_line env (if ls = [] then None else Some (last ls)) f = Inr l"
    and "fc_frozen_at f = At ms" "fc_cycle_id f = i" "i \<notin> ll_cycle_id ` set ls"
    and "ls \<noteq> [] \<longrightarrow> ll_frozen_at_ms (last ls) \<le> ms"
  shows "follows (ce_lhash env) ls l" "ll_cycle_id l = i" "ce_fhash env f = Inr (ll_forecast_sha256 l)"
proof -
  have l: "log_line_of (ce_lhash env) (ce_fhash env) (if ls = [] then None else Some (last ls)) f = Inr l"
    using assms(1) by (auto simp: cycle_line_def split: sum.splits)
  note log_line_of_follows [OF l]
  with assms(2-5) show "follows (ce_lhash env) ls l" "ll_cycle_id l = i" "ce_fhash env f = Inr (ll_forecast_sha256 l)"
    by auto
qed

text \<open>The lines a run teaches are canonical JSON, which holds no newline.\<close>

definition plain_env :: "cycle_env \<Rightarrow> bool" where
  "plain_env env \<longleftrightarrow> (\<forall>st w. ce_decide env st = Inr w \<longrightarrow> plain_rows (ww_events w) \<and> plain_rows (ww_episodes w))"

definition run_names :: "string list" where
  "run_names = [DECIDED, PORTFOLIO, MEMO, FORECAST, INPUTS, STAGES, OPS, CANDIDATES, EPISODES, FORECAST_LINE]"

lemma run_names_not_tmp: "n \<in> set run_names \<Longrightarrow> n \<noteq> MANIFEST_TMP"
  by (auto simp: run_names_def DECIDED_def PORTFOLIO_def MEMO_def FORECAST_def INPUTS_def STAGES_def OPS_def
      CANDIDATES_def EPISODES_def FORECAST_LINE_def MANIFEST_TMP_def)

lemma claimed_run_cycle:
  assumes env: "ce_lhash env = lhash" "ce_fhash env = fhash" "plain_env env"
    and prev: "prev = (if ls = [] then None else Some (last ls))" "i \<notin> ll_cycle_id ` set ls"
      "ls \<noteq> [] \<longrightarrow> ll_frozen_at_ms (last ls) \<le> cp_decided_at_ms p"
  shows "triple (running lhash fhash (Cycle i) ls {}) (claimed_run env p i (Cycle i) prev ob)
     (\<lambda>_. ledger_inv lhash fhash) (ledger_inv lhash fhash)"
proof -
  let ?run = "\<lambda>H. running lhash fhash (Cycle i) ls H"
  let ?inv = "ledger_inv lhash fhash"
  define files where "files w f = [(DECIDED, ww_decided w), (PORTFOLIO, ww_portfolio_json w), (MEMO, ww_memo w),
        (FORECAST, ForecastJson f), (INPUTS, ww_inputs w), (STAGES, ww_stages w), (OPS, ww_ops w),
        (CANDIDATES, Rows (ww_events w)), (EPISODES, Rows (ww_episodes w))]" for w :: week_work and f :: forecast
  have observed: "triple (?run {}) (write_files (Cycle i) xs) (\<lambda>_. ?run {}) ?inv" for xs
    by (rule triple_weaken [OF run_write_files]) (auto intro: run_drop)
  have decide: "triple (?run {}) (ask (ce_decide env)) (\<lambda>w st. (plain_rows (ww_events w) \<and> plain_rows (ww_episodes w)) \<and> ?run {} st) ?inv"
    using env(3) by (intro triple_ask) (auto simp: plain_env_def intro: running_inv)
  have forecast: "triple (?run {}) (ask (\<lambda>_. cycle_forecast env p i w))
      (\<lambda>f st. (validate_forecast f = Inr () \<and> fc_cycle_id f = i \<and> fc_frozen_at f = At (cp_decided_at_ms p)) \<and> ?run {} st) ?inv" for w
    by (rule triple_ask) (auto intro: running_inv dest: cycle_forecast_Inr)
  have line: "triple (?run (set (files w f))) (ask (\<lambda>_. cycle_line env prev f))
      (\<lambda>l st. (follows lhash ls l \<and> ll_cycle_id l = i \<and> fhash f = Inr (ll_forecast_sha256 l)) \<and> ?run (set (files w f)) st) ?inv"
    if f: "fc_cycle_id f = i" "fc_frozen_at f = At (cp_decided_at_ms p)" for w f
  proof (rule triple_ask)
    fix st l assume "?run (set (files w f)) st" "cycle_line env prev f = Inr l"
    then show "(follows lhash ls l \<and> ll_cycle_id l = i \<and> fhash f = Inr (ll_forecast_sha256 l)) \<and> ?run (set (files w f)) st"
      using cycle_line_follows [OF _ f(2,1) prev(2,3), of env l] env(1,2) prev(1) by simp
  qed (rule running_inv)
  have freeze: "triple (?run (set (files w f) \<union> {(FORECAST_LINE, LineJson l)})) (seal env (Cycle i))
      (\<lambda>_. waits lhash fhash i l (ww_events w) (ww_episodes w) ls) ?inv"
    if "plain_rows (ww_events w)" "plain_rows (ww_episodes w)" "validate_forecast f = Inr ()"
      "follows lhash ls l" "ll_cycle_id l = i" "fhash f = Inr (ll_forecast_sha256 l)" for w f l
  proof (rule seal_cycle)
    show "ready lhash fhash i ls l (ww_events w) (ww_episodes w) (set (files w f) \<union> {(FORECAST_LINE, LineJson l)})"
      using that by (auto simp: ready_def files_def)
    show "n \<noteq> MANIFEST_TMP" if "(n, b) \<in> set (files w f) \<union> {(FORECAST_LINE, LineJson l)}" for n b
      using that by (intro run_names_not_tmp) (auto simp: files_def run_names_def)
  qed
  have wrote: "triple (?run {}) (write_files (Cycle i) (files w f)) (\<lambda>_. ?run (set (files w f))) ?inv" for w f
    using run_write_files [of _ _ _ _ "{}"] by simp
  have write_line: "triple (?run (set (files w f))) (write_files (Cycle i) [(FORECAST_LINE, LineJson l)])
      (\<lambda>_. ?run (set (files w f) \<union> {(FORECAST_LINE, LineJson l)})) ?inv" for w f l
    using run_write_files [of _ _ _ _ "set (files w f)" "[(FORECAST_LINE, LineJson l)]"] by simp
  show ?thesis unfolding claimed_run_def run_dir.case files_def [symmetric]
    apply (rule triple_then [OF observed], rule triple_then [OF run_model_stages], rule triple_bind [OF decide],
        rule triple_fact, rule triple_bind [OF forecast], rule triple_fact, rule triple_then [OF wrote])
    apply (elim conjE, rule triple_bind [OF line], assumption, assumption, rule triple_fact, elim conjE)
    apply (rule triple_then [OF write_line], rule triple_then [OF run_ensure], rule triple_bind [OF freeze]; (assumption)?)
    apply (rule triple_then [OF waits_learn [OF refl refl]], rule triple_return, assumption)
    done
qed

lemma claimed_run_other:
  assumes "\<forall>i. d \<noteq> Cycle i"
  shows "triple (running lhash fhash d ls {}) (claimed_run env p c d prev ob) (\<lambda>_. ledger_inv lhash fhash) (ledger_inv lhash fhash)"
proof -
  have d: "(case d of Cycle i \<Rightarrow> a i | Replay j \<Rightarrow> b | Review k \<Rightarrow> b) = b" for a :: "string \<Rightarrow> 'x" and b
    using assms by (cases d) auto
  have wrote: "triple (running lhash fhash d ls {}) (write_files d xs) (\<lambda>_. running lhash fhash d ls {}) (ledger_inv lhash fhash)" for xs
    by (rule triple_weaken [OF run_write_files]) (auto intro: run_drop)
  have seal: "triple (running lhash fhash d ls {}) (seal env d) (\<lambda>_. running lhash fhash d ls {}) (ledger_inv lhash fhash)"
    by (rule triple_weaken [OF seal_other [OF assms]]) (use assms in \<open>auto simp: running_def split: run_dir.splits\<close>)
  have "triple (running lhash fhash d ls {}) (claimed_run env p c d prev ob) (\<lambda>_. running lhash fhash d ls {}) (ledger_inv lhash fhash)"
    unfolding claimed_run_def d by (intro keep_then keep_bind wrote run_model_stages run_ask run_ensure seal)
  then show ?thesis by (rule triple_weaken) (auto intro: running_inv)
qed

lemma write_any: "triple (ledger_inv lhash fhash) (disk (write_file d n b)) (\<lambda>_. ledger_inv lhash fhash) (ledger_inv lhash fhash)"
  unfolding disk_def
proof (rule triple_tick)
  fix st st' assume inv: "ledger_inv lhash fhash st" and "write_file d n b st = Inr st'"
  then obtain fs where fs: "valid_file_name n" "open_dir d st = Inr fs" "st' = put_files d ((n, b) # fs) st"
    by (auto simp: write_file_def split: if_splits sum.splits)
  then show "ledger_inv lhash fhash st'"
    using valid_file_name_not_MANIFEST [OF fs(1)] unfolding fs(3)
    by (intro ledger_put_open [OF inv]) (auto simp: open_dir_Inr cyc_def sealed_dir_def split: run_dir.splits)
qed

lemma inv_ensure: "triple (ledger_inv lhash fhash) ensure (\<lambda>_. ledger_inv lhash fhash) (ledger_inv lhash fhash)"
  unfolding ensure_def by (rule triple_tick) auto

text \<open>The end of \<open>run_cycle\<close>: what happens to a failure after the claim.\<close>

lemma failed_run_keeps:
  "triple (ledger_inv lhash fhash) (failed_run d e) Q (ledger_inv lhash fhash)"
  unfolding failed_run_def
  by (intro triple_if triple_fail triple_then [OF inv_ensure] triple_then [OF triple_ignore [OF write_any]])

lemma cleared_inv: "cleared lhash fhash ms d prev ls st \<Longrightarrow> ledger_inv lhash fhash st"
  by (simp add: cleared_def)

lemma run_cycle_triple:
  assumes env: "ce_lhash env = lhash" "ce_fhash env = fhash" "plain_env env"
  shows "triple (ledger_inv lhash fhash) (run_cycle env p) (\<lambda>_. ledger_inv lhash fhash) (ledger_inv lhash fhash)"
proof -
  define i where "i = iso_week_display (cp_week p)"
  define d where "d = target_dir (cp_target p) i"
  let ?inv = "ledger_inv lhash fhash"
  let ?start = "\<lambda>prev st. \<exists>ls. cleared lhash fhash (cp_decided_at_ms p) d prev ls st"
  have ask: "triple (?start prev) (ask f) (\<lambda>_. ?start prev) ?inv" for prev and f :: "soe_store \<Rightarrow> cycle_error + observed"
    by (rule triple_ask) (auto dest: cleared_inv)
  have own: "triple (?start prev) ensure (\<lambda>_. ?start prev) ?inv" for prev
    unfolding ensure_def by (rule triple_tick) (auto dest: cleared_inv)
  have claimed: "triple (running lhash fhash d ls {}) (claimed_run env p i d prev ob) (\<lambda>_. ?inv) ?inv"
    if "cleared lhash fhash (cp_decided_at_ms p) d prev ls st" for prev ls st ob
  proof (cases "d = Cycle i")
    case True
    have prev: "prev = (if ls = [] then None else Some (last ls))" "i \<notin> ll_cycle_id ` set ls"
        "ls \<noteq> [] \<longrightarrow> ll_frozen_at_ms (last ls) \<le> cp_decided_at_ms p"
      using that unfolding cleared_def True run_dir.case by blast+
    show ?thesis unfolding True by (rule claimed_run_cycle [OF env prev])
  next
    case False
    then have "\<forall>j. d \<noteq> Cycle j" unfolding d_def by (cases "cp_target p") auto
    then show ?thesis by (rule claimed_run_other)
  qed
  show ?thesis unfolding run_cycle_def Let_def i_def [symmetric] d_def [symmetric]
  proof (rule triple_bind [OF preflight_triple [OF env(1)]], rule triple_bind [OF ask], rule triple_then [OF own], rule triple_ex)
    fix prev ob ls
    show "triple (cleared lhash fhash (cp_decided_at_ms p) d prev ls)
        (athen (disk (claim d)) (acatch (claimed_run env p i d prev ob) (failed_run d))) (\<lambda>_. ?inv) ?inv" (is "triple ?c ?m _ _")
    proof (cases "\<exists>st. ?c st")
      case True
      then show ?thesis by (elim exE) (rule triple_then [OF claim_triple triple_catch [OF claimed failed_run_keeps]])
    next
      case False
      then show ?thesis by (auto simp: triple_def)
    qed
  qed
qed

lemma cycle_job_triple:
  assumes env: "ce_lhash env = lhash" "ce_fhash env = fhash" "plain_env env"
  shows "triple (ledger_inv lhash fhash) (cycle_job env p) (\<lambda>_. ledger_inv lhash fhash) (ledger_inv lhash fhash)"
proof -
  let ?inv = "ledger_inv lhash fhash"
  have ask: "triple ?inv (ask f) (\<lambda>_. ?inv) ?inv" for f :: "soe_store \<Rightarrow> cycle_error + run_status"
    by (rule triple_ask)
  have resume: "triple ?inv (resume_learn (ce_lhash env)) (\<lambda>_. ?inv) ?inv"
    unfolding env(1) by (rule triple_weaken [OF resume_learn_triple]) (auto simp: caught_up_def split: prod.splits)
  show ?thesis unfolding cycle_job_def
    by (rule keep_bind [OF ask], rule triple_if, rule keep_bind [OF resume], rule triple_return, assumption,
        rule triple_catch, rule keep_bind [OF run_cycle_triple [OF env]])
      (auto intro: triple_return triple_fail)
qed

section \<open>The resume answers\<close>

lemma settles_append_logged:
  assumes "CHR 0x0A \<notin> set x"
  shows "\<exists>st'. settles (append_logged g x) st st' ()"
proof -
  obtain st' where "append_line g x st = Inr st'" using assms by (simp add: append_line_def)
  then have "settles (append_logged g x) st st' ()"
    unfolding append_logged_def ensure_def disk_def by (intro settles_then settles_tick) auto
  then show ?thesis ..
qed

lemma settles_appends: "plain_rows xs \<Longrightarrow> \<exists>st'. settles (each (append_logged g) xs) st st' ()"
proof (induction xs arbitrary: st)
  case (Cons x xs)
  then obtain st1 where "settles (append_logged g x) st st1 ()"
    using settles_append_logged [of x g st] by (auto simp: plain_rows_def)
  moreover obtain st2 where "settles (each (append_logged g) xs) st1 st2 ()"
    using Cons by (auto simp: plain_rows_def)
  ultimately show ?case by (auto intro: settles_then)
qed auto

lemma settles_resume_rows:
  assumes "read_rows d name st = Inr rows" "plain_rows rows"
  shows "\<exists>st'. settles (resume_rows d g name) st st' ()"
proof -
  have "plain_rows (filter (\<lambda>l. l \<notin> set (log_lines g st)) rows)" using assms(2) by (simp add: plain_rows_def)
  then obtain st' where "settles (each (append_logged g) (filter (\<lambda>l. l \<notin> set (log_lines g st)) rows)) st st' ()"
    using settles_appends by blast
  then have "settles (resume_rows d g name) st st' ()"
    unfolding resume_rows_def using assms(1)
    by (intro settles_bind [OF settles_ask] settles_bind [OF settles_ask, rotated]) auto
  then show ?thesis ..
qed

lemma settles_resume_cycle:
  assumes "waiting lhash fhash i D l cs es ls {} {} st"
  shows "\<exists>st'. settles (resume_cycle i l) st st' ()"
proof -
  have plain: "plain_rows cs" "plain_rows es" using assms by (auto simp: waiting_def recorded_def)
  obtain st1 where 1: "settles (resume_rows (Cycle i) Candidates CANDIDATES) st st1 ()"
    using settles_resume_rows [OF waiting_read(1) [OF assms] plain(1)] by blast
  have w1: "waiting lhash fhash i D l cs es ls (set cs) {} st1"
    by (rule settles_result [OF 1 wait_resume_candidates assms])
  obtain st2 where 2: "settles (resume_rows (Cycle i) Episodes EPISODES) st1 st2 ()"
    using settles_resume_rows [OF waiting_read(2) [OF w1] plain(2)] by blast
  have "settles (athen ensure (disk (append_forecast l))) st2 (st2\<lparr>ss_forecasts := ss_forecasts st2 @ [l]\<rparr>) ()"
    unfolding ensure_def disk_def by (intro settles_then settles_tick) (auto simp: append_forecast_def)
  with 1 2 show ?thesis unfolding resume_cycle_def by (blast intro: settles_then)
qed

lemma waiting_chained:
  assumes "waiting lhash fhash i D l cs es ls C E st"
  shows "ll_prev_sha256 l = chain_tip ls" "ll_cycle_id l = i"
proof -
  obtain fs where w: "ledger_inv lhash fhash st" "ss_forecasts st = ls" "i \<notin> ll_cycle_id ` set ls"
      "cyc st i = Some fs" "sealed_dir fs" "recorded fhash i fs l cs es"
    using assms by (auto simp: waiting_def cyc_def)
  have "follows lhash ls l"
    using ledgerD(3) [OF w(1,4,5)] w(2,3) recorded_fun [OF w(6)] by (auto simp: cycle_ok_def)
  then show "ll_prev_sha256 l = chain_tip ls" by (simp add: follows_def tip_def chain_tip_def)
  show "ll_cycle_id l = i" using w(6) by (simp add: recorded_def)
qed

lemma settles_resume_cycles:
  "resuming lhash fhash D ls J st \<Longrightarrow> set ids \<subseteq> {i. valid_id i} \<Longrightarrow> \<exists>st' r. settles (resume_cycles ids ls res) st st' r"
proof (induction ids arbitrary: ls J st res)
  case (Cons i ids)
  have valid: "valid_id i" "set ids \<subseteq> {i. valid_id i}" using Cons.prems(2) by auto
  obtain s where s: "status (Cycle i) st = Inr s" using valid(1) by (simp add: status_def)
  then have asks: "settles (ask (status (Cycle i))) st st s" by (rule settles_ask)
  show ?case
  proof (cases "i \<notin> ll_cycle_id ` set ls \<and> s = RunFrozen")
    case False
    obtain st' r where "settles (resume_cycles ids ls res) st st' r" using Cons.IH [OF Cons.prems(1) valid(2)] by blast
    then have "settles (resume_cycles (i # ids) ls res) st st' r"
      using False by (auto intro: settles_bind [OF asks])
    then show ?thesis by blast
  next
    case True
    have inv: "ledger_inv lhash fhash st" using Cons.prems(1) by (simp add: resuming_def)
    obtain fs where fs: "cyc st i = Some fs" "sealed_dir fs"
      using s True by (auto simp: status_def cyc_def sealed_dir_def split: option.splits if_splits)
    obtain l cs es where "recorded fhash i fs l cs es" using ledgerD(3) [OF inv fs] by (auto simp: cycle_ok_def)
    then have line: "read_line (Cycle i) st = Inr (Some l)"
      using fs valid(1) by (simp add: read_line_def read_file_def cyc_def recorded_def)
    then have asks_line: "settles (ask (read_line (Cycle i))) st st (Some l)" by (rule settles_ask)
    obtain cs es where w: "waiting lhash fhash i D l cs es ls {} {} st"
      using resuming_waiting [OF Cons.prems(1) _ _ line] True s by blast
    obtain st1 where 1: "settles (resume_cycle i l) st st1 ()" using settles_resume_cycle [OF w] by blast
    have "resuming lhash fhash D (ls @ [l]) {} st1"
      using settles_result [OF 1 wait_resume_cycle w] by (simp add: caught_up_def resuming_def)
    from Cons.IH [OF this valid(2)] obtain st2 r where 2: "settles (resume_cycles ids (ls @ [l]) (res @ [i])) st1 st2 r" by blast
    have "settles (resume_cycles (i # ids) ls res) st st2 r"
      unfolding resume_cycles.simps if_not_P [OF conjunct1 [OF True]]
      by (rule settles_bind [OF asks], subst if_not_P, use True in simp, rule settles_bind [OF asks_line],
          use waiting_chained [OF w] settles_then [OF 1 2] in simp)
    then show ?thesis by blast
  qed
qed auto

lemma resume_learn_settles:
  assumes "ledger_inv lhash fhash st"
  shows "\<exists>st' r. settles (resume_learn lhash) st st' r \<and> caught_up lhash fhash (ss_dirs st) (snd r) st'"
proof -
  have start: "resuming lhash fhash (ss_dirs st) (ss_forecasts st) {} st" using assms by (simp add: resuming_def)
  moreover have "set (cycles st) \<subseteq> {i. valid_id i}" by (auto simp: cycles_def)
  ultimately obtain st' r where loop: "settles (resume_cycles (cycles st) (ss_forecasts st) []) st st' r"
    using settles_resume_cycles by blast
  have "ss_dirs st' = ss_dirs st"
    using settles_result [OF loop resume_cycles_triple start] by (simp add: resuming_def case_prod_unfold)
  moreover have "settles (resume_learn lhash) st st' r"
    unfolding resume_learn_def using ledgerD(1) [OF assms] loop
    by (intro settles_bind [OF settles_ask] settles_bind [OF settles_ask, rotated]) (auto simp: forecast_log_def)
  moreover from settles_result [OF this resume_learn_triple assms] have "caught_up lhash fhash (ss_dirs st') (snd r) st'"
    by (simp add: case_prod_unfold)
  ultimately show ?thesis by metis
qed

section \<open>Reachable states\<close>

text \<open>Every state the program can leave behind: the empty store, then any sequence of scheduled jobs,
  commanded cycles (live or replayed) and resumes, each cut off after any number of steps, with
  replays and reviews being logged in between.\<close>

inductive soe_reachable :: "(line_body \<Rightarrow> string) \<Rightarrow> (forecast \<Rightarrow> string vres) \<Rightarrow> soe_store \<Rightarrow> bool"
  for lhash fhash where
  Start: "soe_reachable lhash fhash \<lparr>ss_dirs = [], ss_candidates = [], ss_episodes = [], ss_forecasts = [], ss_logged_runs = []\<rparr>"
| Logged: "soe_reachable lhash fhash st \<Longrightarrow> soe_reachable lhash fhash (st\<lparr>ss_logged_runs := L\<rparr>)"
| Job: "soe_reachable lhash fhash st \<Longrightarrow> ce_lhash env = lhash \<Longrightarrow> ce_fhash env = fhash \<Longrightarrow> plain_env env \<Longrightarrow>
    soe_reachable lhash fhash (fst (fst (cycle_job env p (st, n))))"
| Commanded: "soe_reachable lhash fhash st \<Longrightarrow> ce_lhash env = lhash \<Longrightarrow> ce_fhash env = fhash \<Longrightarrow> plain_env env \<Longrightarrow>
    soe_reachable lhash fhash (fst (fst (run_cycle env p (st, n))))"
| Resumed: "soe_reachable lhash fhash st \<Longrightarrow> soe_reachable lhash fhash (fst (fst (resume_learn lhash (st, n))))"

lemma reachable_inv: "soe_reachable lhash fhash st \<Longrightarrow> ledger_inv lhash fhash st"
proof (induction rule: soe_reachable.induct)
  case Start
  show ?case by (rule ledger_empty)
next
  case (Logged st L)
  then show ?case using ledgerD(2) [OF Logged.IH] by (intro ledger_cong [OF Logged.IH]) (auto simp: cyc_def)
next
  case (Job st env p n)
  then show ?case by (intro triple_state [OF cycle_job_triple])
next
  case (Commanded st env p n)
  then show ?case by (intro triple_state [OF run_cycle_triple])
next
  case (Resumed st n)
  then show ?case by (intro triple_state [OF resume_learn_triple]) (auto simp: caught_up_def split: prod.splits)
qed

end
