(* ===== verification/Soe_Cycle_Props.thy ===== *)
theory Soe_Cycle_Props
  imports Soe_Cycle_Ledger Soe_Sample
begin

text \<open>
  What the invariant means for the check of the whole state, on every reachable state, with a concrete
  crash.
\<close>

section \<open>The state check on reachable states\<close>

lemma verified_distinct: "verify_chain lhash ls = Inr () \<Longrightarrow> distinct (map ll_cycle_id ls)"
  by (induction ls rule: rev_induct) (auto simp: verify_chain_snoc follows_def)

lemma find_cycle:
  assumes "distinct (map ll_cycle_id ls)" "l \<in> set ls"
  shows "find (\<lambda>x. ll_cycle_id x = ll_cycle_id l) ls = Some l"
  using assms by (induction ls) auto

lemma sbind_Inr: "sbind m f = Inr y \<longleftrightarrow> (\<exists>x. m = Inr x \<and> f x = Inr y)"
  by (cases m) (auto simp: sbind_def)

lemma smapM_Inr: "smapM f xs = Inr ys \<longleftrightarrow> list_all2 (\<lambda>x y. f x = Inr y) xs ys"
proof (induction xs arbitrary: ys)
  case (Cons x xs)
  show ?case by (cases ys; cases "f x"; cases "smapM f xs") (auto simp flip: Cons.IH)
qed auto

lemma status_frozen: "status (Cycle i) st = Inr RunFrozen \<longleftrightarrow> valid_id i \<and> (\<exists>fs. cyc st i = Some fs \<and> sealed_dir fs)"
  by (auto simp: status_def cyc_def sealed_dir_def split: option.splits)

lemma log_state_inv:
  assumes inv: "ledger_inv lhash fhash st" and fs: "cyc st i = Some fs" "sealed_dir fs"
  shows "log_state_of fhash (ss_forecasts st) st i = Inr (if pending st i then LogMissing else LogMatch)"
proof (cases "i \<in> ll_cycle_id ` set (ss_forecasts st)")
  case False
  then have "find (\<lambda>l. ll_cycle_id l = i) (ss_forecasts st) = None" by (auto simp: find_None_iff)
  then show ?thesis using fs False by (auto simp: log_state_of_def pending_def)
next
  case True
  obtain l cs es where l: "recorded fhash i fs l cs es" "l \<in> set (ss_forecasts st)"
    using ledgerD(3) [OF inv fs] True by (auto simp: cycle_ok_def)
  then have "find (\<lambda>l. ll_cycle_id l = i) (ss_forecasts st) = Some l"
    using find_cycle [OF verified_distinct [OF ledgerD(1) [OF inv]] l(2)] by (simp add: recorded_def)
  then show ?thesis using l fs ledgerD(2) [OF inv fs(1)] True
    by (auto simp: log_state_of_def read_file_def sbind_def pending_def recorded_def cyc_def)
qed

text \<open>The live cycles \<open>verify_state\<close> finds frozen are those that are.\<close>

lemma check_run_Inr: "check_run digest st d = Inr (d', s, v) \<Longrightarrow> d' = d \<and> status d st = Inr s"
  by (auto simp: check_run_def sbind_Inr split: run_status.split_asm) (metis run_status.exhaust)+

lemma checked_frozen:
  assumes inv: "ledger_inv lhash fhash st" and rows: "list_all2 (\<lambda>d y. check_run digest st d = Inr y) ds rows"
    and ds: "set ds = Cycle ` set (cycles st) \<union> set (ss_logged_runs st)"
  shows "set (concat (map (\<lambda>(d, s, _). case (d, s) of (Cycle i, RunFrozen) \<Rightarrow> [i] | _ \<Rightarrow> []) rows)) =
    {i. \<exists>fs. cyc st i = Some fs \<and> sealed_dir fs}" (is "set (concat (map ?f rows)) = _")
proof (intro equalityI subsetI)
  fix i assume "i \<in> set (concat (map ?f rows))"
  then obtain v where "(Cycle i, RunFrozen, v) \<in> set rows" by (auto split: run_dir.splits run_status.splits)
  then obtain k where k: "k < length rows" "rows ! k = (Cycle i, RunFrozen, v)" by (auto simp: in_set_conv_nth)
  then have "check_run digest st (ds ! k) = Inr (Cycle i, RunFrozen, v)" using rows by (auto simp: list_all2_conv_all_nth)
  from check_run_Inr [OF this] have "status (Cycle i) st = Inr RunFrozen" by metis
  then show "i \<in> {i. \<exists>fs. cyc st i = Some fs \<and> sealed_dir fs}" by (simp add: status_frozen)
next
  fix i assume "i \<in> {i. \<exists>fs. cyc st i = Some fs \<and> sealed_dir fs}"
  then obtain fs where fs: "cyc st i = Some fs" "sealed_dir fs" by blast
  then have "Cycle i \<in> set ds" using in_cycles [OF inv fs(1)] ds by auto
  then obtain k where k: "k < length ds" "ds ! k = Cycle i" by (auto simp: in_set_conv_nth)
  obtain d s v where y: "rows ! k = (d, s, v)" by (metis surj_pair)
  have "check_run digest st (Cycle i) = Inr (d, s, v)" using rows k y by (auto simp: list_all2_conv_all_nth)
  from check_run_Inr [OF this] have "d = Cycle i" "s = RunFrozen"
    using fs ledgerD(2) [OF inv fs(1)] status_frozen [of i st] by auto
  moreover have "rows ! k \<in> set rows" using k rows by (auto simp: list_all2_lengthD)
  ultimately show "i \<in> set (concat (map ?f rows))" using y by force
qed

lemma at_most_one:
  assumes "distinct xs" "\<And>x y. x \<in> set xs \<Longrightarrow> y \<in> set xs \<Longrightarrow> x = y"
  shows "length xs \<le> 1"
  using assms card_le_Suc0_iff_eq [of "set xs"] by (simp add: distinct_card)

lemma verify_state_inv:
  assumes inv: "ledger_inv lhash fhash st" and c: "verify_state lhash fhash digest st = Inr c"
  shows "sc_chain c = [] \<and>
    set (sc_log c) = {(i, if pending st i then LogMissing else LogMatch) | i. \<exists>fs. cyc st i = Some fs \<and> sealed_dir fs} \<and>
    distinct (sc_log c)"
proof -
  let ?ds = "rev (remdups (rev (map Cycle (cycles st) @ ss_logged_runs st)))"
  obtain rows where rows: "smapM (check_run digest st) ?ds = Inr rows"
    using c by (auto simp: verify_state_def sbind_Inr Let_def)
  define frozen where "frozen = sort (remdups (concat (map (\<lambda>(d, s, _). case (d, s) of (Cycle i, RunFrozen) \<Rightarrow> [i] | _ \<Rightarrow> []) rows)))"
  obtain states where states: "smapM (\<lambda>i. sbind (log_state_of fhash (ss_forecasts st) st i) (\<lambda>s. Inr (i, s))) frozen = Inr states"
    using c rows by (auto simp: verify_state_def sbind_Inr Let_def frozen_def)
  have c': "sc_chain c = []"
    "sc_log c = sort_key (\<lambda>(i, s). (i, log_state_rank s)) (states @ map (\<lambda>l. (ll_cycle_id l, LogOrphan))
       (filter (\<lambda>l. ll_cycle_id l \<notin> set frozen) (ss_forecasts st)))"
    using c rows states ledgerD(1) [OF inv] by (auto simp: verify_state_def sbind_Inr Let_def frozen_def)
  have F: "set frozen = {i. \<exists>fs. cyc st i = Some fs \<and> sealed_dir fs}"
    unfolding frozen_def set_sort set_remdups
    by (rule checked_frozen [OF inv rows [unfolded smapM_Inr]]) auto
  let ?g = "\<lambda>i. (i, if pending st i then LogMissing else LogMatch)"
  have one: "y = ?g i" if "i \<in> set frozen" "sbind (log_state_of fhash (ss_forecasts st) st i) (\<lambda>s. Inr (i, s)) = Inr y" for i y
    using that log_state_inv [OF inv, of i] F by (auto simp: sbind_def)
  have st: "states = map ?g frozen"
  proof (rule nth_equalityI)
    have s: "length frozen = length states"
      "\<And>k. k < length states \<Longrightarrow> sbind (log_state_of fhash (ss_forecasts st) st (frozen ! k)) (\<lambda>s. Inr (frozen ! k, s)) = Inr (states ! k)"
      using states unfolding smapM_Inr list_all2_conv_all_nth by auto
    then show "length states = length (map ?g frozen)" by simp
    fix k assume k: "k < length states"
    have "states ! k = ?g (frozen ! k)" by (rule one [OF _ s(2) [OF k]]) (simp add: k s(1))
    then show "states ! k = map ?g frozen ! k" using k s(1) by simp
  qed
  have "filter (\<lambda>l. ll_cycle_id l \<notin> set frozen) (ss_forecasts st) = []"
    using ledgerD(4) [OF inv] F by (auto simp: filter_empty_conv)
  then have log: "sc_log c = sort_key (\<lambda>(i, s). (i, log_state_rank s)) (map ?g frozen)" using c'(2) st by simp
  have "distinct (map ?g frozen)" by (simp add: distinct_map inj_on_def frozen_def)
  then have "distinct (sc_log c)" unfolding log by (simp add: distinct_map_sort_key [where f = id, simplified])
  moreover have "set (sc_log c) = ?g ` set frozen" by (simp add: log)
  ultimately show ?thesis using c'(1) F by auto
qed

section \<open>Properties\<close>

lemma pending_read: "ledger_inv lhash fhash st \<Longrightarrow> cyc st i = Some fs \<Longrightarrow> sealed_dir fs \<Longrightarrow> \<not> pending st i \<Longrightarrow>
   \<exists>cs es. read_rows (Cycle i) CANDIDATES st = Inr cs \<and> set cs \<subseteq> set (ss_candidates st) \<and>
     read_rows (Cycle i) EPISODES st = Inr es \<and> set es \<subseteq> set (ss_episodes st)"
  using ledgerD(2,3) [of lhash fhash st i fs]
  by (auto simp: cycle_ok_def pending_def read_rows_def read_file_def recorded_def cyc_def)

text \<open>C14: the forecast log survives every crash. Whatever sequence of scheduled, commanded and replayed
  cycles and resumes has run, each stopped after any step or with its lease lost at any renewal, the
  log on disk is an intact hash chain; the state check finds no line that disagrees with its frozen
  cycle and no line without one; at most one frozen cycle still lacks its line; and a cycle whose line is
  there has all its candidate and episode lines in the state logs too.\<close>

theorem forecast_log_survives_crashes:
  assumes "soe_reachable lhash fhash st" "verify_state lhash fhash digest st = Inr c"
  shows "verify_chain lhash (ss_forecasts st) = Inr () \<and> sc_chain c = [] \<and>
    (\<forall>(i, s) \<in> set (sc_log c). status (Cycle i) st = Inr RunFrozen \<and> (s = LogMatch \<or> s = LogMissing)) \<and>
    length (filter (\<lambda>(_, s). s = LogMissing) (sc_log c)) \<le> 1 \<and>
    (\<forall>i. (i, LogMatch) \<in> set (sc_log c) \<longrightarrow>
       (\<exists>cs es. read_rows (Cycle i) CANDIDATES st = Inr cs \<and> set cs \<subseteq> set (ss_candidates st) \<and>
          read_rows (Cycle i) EPISODES st = Inr es \<and> set es \<subseteq> set (ss_episodes st)))"
proof (intro conjI allI impI)
  have inv: "ledger_inv lhash fhash st" by (rule reachable_inv [OF assms(1)])
  note c = verify_state_inv [OF inv assms(2)]
  have log: "set (sc_log c) = {(i, if pending st i then LogMissing else LogMatch) | i. \<exists>fs. cyc st i = Some fs \<and> sealed_dir fs}"
    using c by (elim conjE)
  show "verify_chain lhash (ss_forecasts st) = Inr ()" by (rule ledgerD(1) [OF inv])
  show "sc_chain c = []" using c by (elim conjE)
  show "\<forall>(i, s) \<in> set (sc_log c). status (Cycle i) st = Inr RunFrozen \<and> (s = LogMatch \<or> s = LogMissing)"
    unfolding log status_frozen using ledgerD(2) [OF inv] by auto
  show "length (filter (\<lambda>(_, s). s = LogMissing) (sc_log c)) \<le> 1"
  proof (rule at_most_one)
    show "distinct (filter (\<lambda>(_, s). s = LogMissing) (sc_log c))" using c by simp
    have "x = (i, LogMissing) \<and> pending st i" if "x \<in> set (filter (\<lambda>(_, s). s = LogMissing) (sc_log c))" "i = fst x" for x i
      using that log by (auto split: if_splits)
    then show "x = y" if "x \<in> set (filter (\<lambda>(_, s). s = LogMissing) (sc_log c))" "y \<in> set (filter (\<lambda>(_, s). s = LogMissing) (sc_log c))" for x y
      using that ledgerD(5) [OF inv] by metis
  qed
  show "\<exists>cs es. read_rows (Cycle i) CANDIDATES st = Inr cs \<and> set cs \<subseteq> set (ss_candidates st) \<and>
      read_rows (Cycle i) EPISODES st = Inr es \<and> set es \<subseteq> set (ss_episodes st)" if "(i, LogMatch) \<in> set (sc_log c)" for i
    using that pending_read [OF inv] by (auto simp: log split: if_splits)
qed

text \<open>C15: the resume repairs. From every state a crash can leave, \<open>resume_learn\<close> answers once it gets enough
  steps: it never refuses a broken chain, a missing or foreign line, and it leaves the frozen runs as
  they are and a state in which the check finds every frozen cycle in the log.\<close>

theorem resume_repairs:
  assumes "soe_reachable lhash fhash st"
  shows "\<exists>st' r. settles (resume_learn lhash) st st' r \<and> soe_reachable lhash fhash st' \<and> ss_dirs st' = ss_dirs st \<and>
    snd r = ss_forecasts st' \<and>
    (\<forall>digest c. verify_state lhash fhash digest st' = Inr c \<longrightarrow> sc_chain c = [] \<and> list_all (\<lambda>(_, s). s = LogMatch) (sc_log c))"
proof -
  have inv: "ledger_inv lhash fhash st" by (rule reachable_inv [OF assms])
  obtain st' r where s: "settles (resume_learn lhash) st st' r" and c: "caught_up lhash fhash (ss_dirs st) (snd r) st'"
    using resume_learn_settles [OF inv] by blast
  obtain k where "resume_learn lhash (st, k + 0) = ((st', 0), Inr r)" using s by (auto simp: settles_def)
  then have "soe_reachable lhash fhash st'" using Resumed [OF assms, of "k + 0"] by simp
  moreover have "sc_chain c = [] \<and> list_all (\<lambda>(_, s). s = LogMatch) (sc_log c)"
    if "verify_state lhash fhash digest st' = Inr c" for digest c
    using verify_state_inv [OF _ that] c by (auto simp: caught_up_def list_all_iff)
  ultimately show ?thesis using s c by (intro exI [of _ st'] exI [of _ r]) (simp add: caught_up_def)
qed

section \<open>A concrete crash\<close>

definition sample_work :: week_work where
  "sample_work = \<lparr>ww_decided = Bytes [], ww_portfolio_json = Bytes [], ww_memo = Bytes [], ww_inputs = Bytes [], ww_stages = Bytes [],
     ww_ops = Bytes [], ww_portfolio = sample_week,
     ww_own = [(''a'', 1, [\<lparr>fi_observable = EvidenceAppears ''ted'', fi_probability = 6000, fi_resolve_by = At 5000\<rparr>])],
     ww_events = [''{1}''], ww_episodes = [''{2}'', ''{3}'']\<rparr>"

definition sample_fhash :: "forecast \<Rightarrow> string vres" where
  "sample_fhash f = Inr (fc_cycle_id f)"

definition sample_cycle_env :: cycle_env where
  "sample_cycle_env = \<lparr>ce_lhash = sample_lhash, ce_fhash = sample_fhash, ce_phash = (\<lambda>_. Inr GENESIS),
     ce_digest = (\<lambda>_. (''d'', 0)), ce_jhash = (\<lambda>_. ''j''), ce_profile = sample_profile, ce_runner = False,
     ce_observe = (\<lambda>_. Inr \<lparr>ob_head = Bytes [], ob_packet = Bytes [], ob_profile = Bytes [], ob_carried = Bytes []\<rparr>),
     ce_architect = (\<lambda>_. []), ce_critic = (\<lambda>_. []), ce_candidates = (\<lambda>_. False), ce_decide = (\<lambda>_. Inr sample_work)\<rparr>"

definition sample_params :: cycle_params where
  "sample_params = \<lparr>cp_target = TargetCycle, cp_week = \<lparr>iw_year = 2026, iw_week = 41\<rparr>, cp_decided_at_ms = 1000,
     cp_generation = \<lparr>gp_id = ''g1'', gp_sha256 = GENESIS\<rparr>, cp_architect = ''arch'', cp_critic = ''crit'',
     cp_max_proposals = 3, cp_forecast_max_weeks = 12\<rparr>"

text \<open>A first week that stops after 28 steps: frozen, its candidate line appended, its lease lost before the
  episode lines and the forecast line.\<close>

definition crashed :: soe_store where
  "crashed = fst (fst (run_cycle sample_cycle_env sample_params
     (\<lparr>ss_dirs = [], ss_candidates = [], ss_episodes = [], ss_forecasts = [], ss_logged_runs = []\<rparr>, 28)))"

lemma crashed_reachable: "soe_reachable sample_lhash sample_fhash crashed"
  unfolding crashed_def
  by (rule Commanded [OF Start]) (simp_all add: sample_cycle_env_def plain_env_def plain_rows_def sample_work_def)

theorem forecast_log_survives_crashes_witness:
  "\<exists>c. verify_state sample_lhash sample_fhash (\<lambda>_. (''d'', 0)) crashed = Inr c \<and>
     ss_candidates crashed = [''{1}''] \<and> sc_log c = [(''2026-W41'', LogMissing)] \<and>
     length (filter (\<lambda>(_, s). s = LogMissing) (sc_log c)) \<le> 1"
proof -
  have "let st = crashed in (case verify_state sample_lhash sample_fhash (\<lambda>_. (''d'', 0)) st of
      Inr c \<Rightarrow> sc_log c = [(''2026-W41'', LogMissing)] | _ \<Rightarrow> False) \<and> ss_candidates st = [''{1}'']" by code_simp
  then have log: "(case verify_state sample_lhash sample_fhash (\<lambda>_. (''d'', 0)) crashed of
      Inr c \<Rightarrow> sc_log c = [(''2026-W41'', LogMissing)] | _ \<Rightarrow> False) \<and> ss_candidates crashed = [''{1}'']"
    unfolding Let_def .
  then obtain c where c: "verify_state sample_lhash sample_fhash (\<lambda>_. (''d'', 0)) crashed = Inr c" "sc_log c = [(''2026-W41'', LogMissing)]"
    by (auto split: sum.splits)
  from forecast_log_survives_crashes [OF crashed_reachable c(1)] c log show ?thesis by (intro exI [of _ c]) blast
qed

theorem resume_repairs_witness:
  "\<exists>st' r. settles (resume_learn sample_lhash) crashed st' r \<and> ss_dirs st' = ss_dirs crashed"
  using resume_repairs [OF crashed_reachable] by blast

end
