(* ===== verification/Ordered_Maps.thy ===== *)
theory Ordered_Maps
  imports Rust_Prelude
begin

text \<open>
  Ordered maps and sets of the Rust standard library: a \<open>BTreeMap\<close> is its list of entries, sorted by key, and a
  \<open>BTreeSet\<close> the sorted list of its elements. Shown here: an update changes one key, two maps with the same lookups
  are the same list, and grouping commutes with filtering.
\<close>

section \<open>Maps\<close>

text \<open>\<open>BTreeMap::entry(k)\<close> with what becomes of the entry.\<close>

fun bm_upd :: "'k::linorder \<Rightarrow> ('v option \<Rightarrow> 'v) \<Rightarrow> ('k \<times> 'v) list \<Rightarrow> ('k \<times> 'v) list" where
  "bm_upd k f [] = [(k, f None)]"
| "bm_upd k f ((a, b) # m) =
     (if k < a then (k, f None) # (a, b) # m
      else if k = a then (a, f (Some b)) # m
      else (a, b) # bm_upd k f m)"

definition bm_insert :: "'k::linorder \<Rightarrow> 'v \<Rightarrow> ('k \<times> 'v) list \<Rightarrow> ('k \<times> 'v) list" where
  "bm_insert k v = bm_upd k (\<lambda>_. v)"

text \<open>\<open>collect\<close> into a map: the last entry of a key wins.\<close>

definition bm_of :: "('k::linorder \<times> 'v) list \<Rightarrow> ('k \<times> 'v) list" where
  "bm_of kvs = fold (\<lambda>(k, v). bm_insert k v) kvs []"

text \<open>\<open>entry(key).or_default().push(x)\<close> for every \<open>x\<close>.\<close>

definition bm_push :: "'k::linorder \<Rightarrow> 'v \<Rightarrow> ('k \<times> 'v list) list \<Rightarrow> ('k \<times> 'v list) list" where
  "bm_push k x = bm_upd k (\<lambda>old. case old of None \<Rightarrow> [x] | Some l \<Rightarrow> l @ [x])"

definition bm_group :: "('a \<Rightarrow> 'k::linorder) \<Rightarrow> 'a list \<Rightarrow> ('k \<times> 'a list) list" where
  "bm_group key xs = fold (\<lambda>x. bm_push (key x) x) xs []"

text \<open>The elements of a \<open>BTreeSet\<close>, in order.\<close>

definition bset :: "'a::linorder list \<Rightarrow> 'a list" where
  "bset xs = sort (remdups xs)"

definition bm_ok :: "('k::linorder \<times> 'v) list \<Rightarrow> bool" where
  "bm_ok m \<longleftrightarrow> sorted_wrt (<) (map fst m)"

section \<open>Laws\<close>

lemma bm_ok_Nil [simp]: "bm_ok []" by (simp add: bm_ok_def)

lemma set_bm_upd: "fst ` set (bm_upd k f m) = insert k (fst ` set m)"
  by (induction m rule: bm_upd.induct) auto

lemma bm_ok_upd [simp]: "bm_ok m \<Longrightarrow> bm_ok (bm_upd k f m)"
proof (induction k f m rule: bm_upd.induct)
  case (2 k f a b m)
  have keys: "x \<in> set (bm_upd k f m) \<Longrightarrow> fst x = k \<or> fst x \<in> fst ` set m" for x
    using set_bm_upd [of k f m] by (metis image_eqI insertE)
  show ?case using 2 by (force simp: bm_ok_def dest: keys)
qed (simp add: bm_ok_def)

lemma bm_ok_None: "bm_ok ((a, b) # m) \<Longrightarrow> k \<le> a \<Longrightarrow> map_of m k = None"
  by (force simp: bm_ok_def map_of_eq_None_iff)

lemma bm_ok_ConsD: "bm_ok (x # m) \<Longrightarrow> bm_ok m" by (simp add: bm_ok_def)

lemma map_of_bm_upd [simp]: "bm_ok m \<Longrightarrow> map_of (bm_upd k f m) = (map_of m)(k \<mapsto> f (map_of m k))"
proof (induction k f m rule: bm_upd.induct)
  case (2 k f a b m)
  show ?case
  proof (cases "k < a")
    case True
    then show ?thesis using bm_ok_None [OF "2.prems"] by (auto simp: fun_eq_iff)
  next
    case False
    then show ?thesis using 2 bm_ok_ConsD [OF "2.prems"] by (auto simp: fun_eq_iff)
  qed
qed simp

lemma bm_ext:
  assumes "bm_ok m" "bm_ok n" "map_of m = map_of n"
  shows "m = n"
proof (rule map_sorted_distinct_set_unique [of fst])
  have d: "distinct (map fst m)" "distinct (map fst n)"
    using assms by (auto simp: bm_ok_def strict_sorted_iff)
  then show s: "set m = set n" using assms(3) by (metis map_of_inject_set)
  show "inj_on fst (set m \<union> set n)" using d s by (simp add: distinct_map)
qed (use assms in \<open>auto simp: bm_ok_def strict_sorted_iff\<close>)

lemma bm_ok_foldr: "bm_ok m \<Longrightarrow> (\<And>x n. bm_ok n \<Longrightarrow> bm_ok (f x n)) \<Longrightarrow> bm_ok (fold f xs m)"
  by (induction xs arbitrary: m) auto

lemma bm_ok_of [simp]: "bm_ok (bm_of kvs)"
  unfolding bm_of_def by (rule bm_ok_foldr) (auto simp: bm_insert_def)

lemma map_of_bm_of: "map_of (bm_of kvs) = map_of (rev kvs)"
proof -
  have "bm_ok m \<Longrightarrow> map_of (fold (\<lambda>(k, v). bm_insert k v) kvs m) = map_of m ++ map_of (rev kvs)" for m
    by (induction kvs arbitrary: m) (auto simp: bm_insert_def)
  then show ?thesis by (simp add: bm_of_def)
qed

lemma bm_ok_group [simp]: "bm_ok (bm_group key xs)"
  unfolding bm_group_def by (rule bm_ok_foldr) (auto simp: bm_push_def)

lemma map_of_group:
  "map_of (bm_group key xs) k = (if k \<in> key ` set xs then Some (filter (\<lambda>x. key x = k) xs) else None)"
proof (induction xs arbitrary: k rule: rev_induct)
  case (snoc x xs)
  have "bm_group key (xs @ [x]) = bm_push (key x) x (bm_group key xs)" by (simp add: bm_group_def)
  then have "map_of (bm_group key (xs @ [x])) = (map_of (bm_group key xs))(key x \<mapsto>
      (case map_of (bm_group key xs) (key x) of None \<Rightarrow> [x] | Some l \<Rightarrow> l @ [x]))"
    by (simp add: bm_push_def)
  with snoc show ?case
    by (cases "key x \<in> key ` set xs"; cases "k = key x") (auto simp: filter_empty_conv intro: rev_image_eqI)
qed (simp add: bm_group_def)

lemma set_bset [simp]: "set (bset xs) = set xs" by (simp add: bset_def)

lemma bset_strict: "sorted_wrt (<) (bset xs)"
  by (simp add: bset_def strict_sorted_iff)

lemma bset_eq: "set xs = set ys \<Longrightarrow> bset xs = bset ys"
  by (simp add: bset_def) (metis distinct_remdups set_remdups sorted_list_of_set_sort_remdups)

lemma bm_group_eq: "bm_group key xs = map (\<lambda>k. (k, filter (\<lambda>x. key x = k) xs)) (bset (map key xs))"
proof (rule bm_ext)
  show "bm_ok (map (\<lambda>k. (k, filter (\<lambda>x. key x = k) xs)) (bset (map key xs)))"
    by (simp add: bm_ok_def o_def bset_strict)
  show "map_of (bm_group key xs) = map_of (map (\<lambda>k. (k, filter (\<lambda>x. key x = k) xs)) (bset (map key xs)))"
    by (auto simp: map_of_group fun_eq_iff map_of_map_restrict restrict_map_def)
qed simp

text \<open>Two sets in order are one list when they have the same elements; a filtered set stays in order.\<close>

lemma bset_unique: "sorted_wrt (<) ys \<Longrightarrow> set ys = set xs \<Longrightarrow> bset xs = ys"
  by (metis bset_strict set_bset strict_sorted_equal)

lemma bset_filter: "filter p (bset xs) = bset (filter p xs)"
  by (rule bset_unique [symmetric]) (auto intro: sorted_wrt_filter bset_strict)

text \<open>The groups of the kept elements are the kept parts of the groups that have any.\<close>

lemma bm_group_filter:
  "filter (\<lambda>l. l \<noteq> []) (map (\<lambda>(k, l). filter p l) (bm_group key xs)) = map snd (bm_group key (filter p xs))"
proof -
  have key: "filter (\<lambda>k. \<exists>x \<in> set xs. p x \<and> key x = k) (bset (map key xs)) = bset (map key (filter p xs))"
    by (rule bset_unique [symmetric]) (auto simp: image_iff intro: sorted_wrt_filter bset_strict sym)
  have "filter (\<lambda>l. l \<noteq> []) (map (\<lambda>k. filter p (filter (\<lambda>x. key x = k) xs)) ks) =
      map (\<lambda>k. filter (\<lambda>x. key x = k) (filter p xs)) (filter (\<lambda>k. \<exists>x \<in> set xs. p x \<and> key x = k) ks)" for ks
    by (induction ks) (auto simp: filter_empty_conv conj_commute)
  then show ?thesis by (simp add: bm_group_eq o_def flip: key)
qed

end
