(* ===== verification/Source_Record.thy ===== *)
theory Source_Record
  imports Untrusted Ordered_Maps Soe_Value
begin

text \<open>
  Source records: \<open>src/src/domain/source/record.rs\<close>. One record is one item an approved source published, as a parser
  read it, with its clocks (published, observed, parsed), its provenance and its content hash. The sha256 of the
  canonical JSON of the content is the argument \<open>chash\<close>; a problem of a record is the field it names.
\<close>

section \<open>Source records\<close>

definition RECORD_SCHEMA :: string where "RECORD_SCHEMA = ''source_record/1''"

datatype source_class =
  LawRegulator | CompanyPrimary | RegistryMarketplace | CustomerDemand | IndependentReporting | SocialInference

datatype trust = Primary | Corroborating | TriggerOnly

fun class_allows :: "source_class \<Rightarrow> trust \<Rightarrow> bool" where
  "class_allows IndependentReporting tr \<longleftrightarrow> tr \<noteq> Primary"
| "class_allows SocialInference tr \<longleftrightarrow> tr = TriggerOnly"
| "class_allows _ tr \<longleftrightarrow> True"

datatype parse_status = ParseOk | ParsePartial | ParseFailed

datatype access_method = HttpGet | HttpPost | BulkFile

record parse_error =
  pe_field :: string
  pe_message :: string

record native_amount =
  na_amount :: string
  na_currency :: string

datatype place_role = PBuyer | PPerformance | PLegal | PDelivery

datatype code_scheme = Iso3166 | Nuts

record place =
  pl_role :: place_role
  pl_scheme :: code_scheme
  pl_code :: string

record origin =
  og_source_id :: string
  og_native_id :: "string option"

record sec_filing =
  sf_cik :: string
  sf_form :: string
  sf_items :: "string list"
  sf_title :: string

record ted_notice =
  tn_notice_type :: string
  tn_procedure_id :: "string option"
  tn_lot_ids :: "string list"
  tn_buyer_name :: "string option"
  tn_places :: "place list"
  tn_cpv :: "string list"
  tn_deadline_ms :: "int option"
  tn_value :: "native_amount option"

datatype withdrawn_how = Gone | Moved

record withdrawal =
  wd_how :: withdrawn_how
  wd_http_status :: "int option"
  wd_moved_to :: "string option"
  wd_reason :: string

datatype source_fact =
    SecFiling sec_filing
  | TedNotice ted_notice
  | FUnparsed string
  | FWithdrawn withdrawal

fun fact_kind :: "source_fact \<Rightarrow> string" where
  "fact_kind (SecFiling _) = ''sec_filing''"
| "fact_kind (TedNotice _) = ''ted_notice''"
| "fact_kind (FUnparsed _) = ''unparsed''"
| "fact_kind (FWithdrawn _) = ''withdrawn''"

fun fact_is_typed :: "source_fact \<Rightarrow> bool" where
  "fact_is_typed (SecFiling _) = True"
| "fact_is_typed (TedNotice _) = True"
| "fact_is_typed _ = False"

fun fact_currency :: "source_fact \<Rightarrow> string option" where
  "fact_currency (TedNotice n) = map_option na_currency (tn_value n)"
| "fact_currency _ = None"

record source_record =
  sr_schema :: string
  sr_record_id :: string
  sr_source_id :: string
  sr_source_class :: source_class
  sr_trust :: trust
  sr_native_id :: string
  sr_event_key :: string
  sr_entities :: "string list"
  sr_url :: string
  sr_published_ms :: int
  sr_observed_ms :: int
  sr_parsed_ms :: int
  sr_valid_from_ms :: int
  sr_valid_until_ms :: "int option"
  sr_jurisdiction :: string
  sr_language :: string
  sr_currency :: "string option"
  sr_content_hash :: string
  sr_snapshots :: "string list"
  sr_parser_version :: string
  sr_license_or_terms :: string
  sr_terms_sha256 :: string
  sr_access_method :: access_method
  sr_parse :: parse_status
  sr_parse_errors :: "parse_error list"
  sr_fact :: source_fact
  sr_supersedes :: "string option"
  sr_origin :: "origin option"

section \<open>Texts\<close>

definition valid_source_id :: "string \<Rightarrow> bool" where
  "valid_source_id s \<longleftrightarrow> s \<noteq> [] \<and>
     list_all (\<lambda>c. is_ascii_lowercase c \<or> is_ascii_digit c \<or> c = CHR ''_'') s"

definition valid_token :: "string \<Rightarrow> bool" where
  "valid_token s \<longleftrightarrow> s \<noteq> [] \<and> list_all (\<lambda>ch. \<not> is_whitespace ch \<and> \<not> is_control ch) (utf8_chars s)"

definition valid_url :: "string \<Rightarrow> bool" where
  "valid_url s \<longleftrightarrow> valid_token s \<and> (starts_with ''https://'' s \<or> starts_with ''http://'' s)"

definition valid_key :: "string \<Rightarrow> bool" where
  "valid_key s \<longleftrightarrow> valid_token s \<and> length (split_on CHR '':'' s) \<ge> 3 \<and>
     list_all (\<lambda>p. p \<noteq> []) (split_on CHR '':'' s)"

definition valid_decimal :: "string \<Rightarrow> bool" where
  "valid_decimal s \<longleftrightarrow>
     (let body = (case strip_prefix ''-'' s of Some r \<Rightarrow> r | None \<Rightarrow> s)
      in case split_once CHR ''.'' body of
           Some (whole, frac) \<Rightarrow> digits_only whole \<and> digits_only frac
         | None \<Rightarrow> digits_only body)"

definition valid_currency :: "string \<Rightarrow> bool" where
  "valid_currency s \<longleftrightarrow> length s = 3 \<and> list_all is_ascii_uppercase s"

definition valid_cpv :: "string \<Rightarrow> bool" where
  "valid_cpv s \<longleftrightarrow>
     (case split_once CHR ''-'' s of
        Some (c, chk) \<Rightarrow> length c = 8 \<and> list_all is_ascii_digit c \<and> length chk = 1 \<and> list_all is_ascii_digit chk
      | None \<Rightarrow> length s = 8 \<and> list_all is_ascii_digit s)"

fun first_duplicate_from :: "string list \<Rightarrow> string list \<Rightarrow> string option" where
  "first_duplicate_from seen [] = None"
| "first_duplicate_from seen (s # ss) =
     (if s \<in> set seen then Some s else first_duplicate_from (s # seen) ss)"

definition first_duplicate :: "string list \<Rightarrow> string option" where
  "first_duplicate = first_duplicate_from []"

text \<open>\<open>str::rsplit_once\<close>.\<close>

definition rsplit_once :: "char \<Rightarrow> string \<Rightarrow> (string \<times> string) option" where
  "rsplit_once d s = map_option (\<lambda>(b, a). (rev a, rev b)) (split_once d (rev s))"

definition record_id_of :: "string \<Rightarrow> string \<Rightarrow> string \<Rightarrow> string" where
  "record_id_of source_id native_id content_hash = source_id @ '':'' @ native_id @ '':'' @ content_hash"

definition split_record_id :: "string \<Rightarrow> (string \<times> string \<times> string) option" where
  "split_record_id s =
     Option.bind (split_once CHR '':'' s) (\<lambda>(source, rest).
     Option.bind (rsplit_once CHR '':'' rest) (\<lambda>(native, hash).
     if valid_source_id source \<and> valid_token native \<and> valid_sha256 hash then Some (source, native, hash)
     else None))"

definition split_parser_version :: "string \<Rightarrow> (string \<times> int) option" where
  "split_parser_version v =
     Option.bind (split_once CHR ''/'' v) (\<lambda>(name, n).
     if name \<noteq> [] \<and> list_all (\<lambda>c. is_ascii_lowercase c \<or> is_ascii_digit c \<or> c = CHR ''-'' \<or> c = CHR ''_'') name \<and>
        n \<noteq> [] \<and> \<not> starts_with ''0'' n \<and> list_all is_ascii_digit n
     then map_option (Pair name) (fits u32_ok (digits_val n)) else None)"

section \<open>The rules of a record\<close>

text \<open>A problem is the field it names; the reason is text for a reader.\<close>

definition ok_when :: "bool \<Rightarrow> string \<Rightarrow> string list" where
  "ok_when ok field = (if ok then [] else [field])"

definition amount_valid :: "native_amount \<Rightarrow> bool" where
  "amount_valid a \<longleftrightarrow> valid_decimal (na_amount a) \<and> valid_currency (na_currency a)"

definition place_valid :: "place \<Rightarrow> bool" where
  "place_valid p \<longleftrightarrow>
     (let b = pl_code p in
      case pl_scheme p of
        Iso3166 \<Rightarrow> length b \<in> {2, 3} \<and> list_all is_ascii_uppercase b
      | Nuts \<Rightarrow> 2 \<le> length b \<and> length b \<le> 5 \<and> list_all is_ascii_uppercase (take 2 b) \<and>
          list_all (\<lambda>c. is_ascii_uppercase c \<or> is_ascii_digit c) (drop 2 b))"

fun fact_problems :: "source_fact \<Rightarrow> string list" where
  "fact_problems (SecFiling f) =
     ok_when (length (sf_cik f) = 10 \<and> list_all is_ascii_digit (sf_cik f)) ''fact.cik'' @
     ok_when (valid_token (sf_form f)) ''fact.form'' @
     ok_when (list_all valid_token (sf_items f)) ''fact.items''"
| "fact_problems (TedNotice n) =
     ok_when (valid_token (tn_notice_type n)) ''fact.notice_type'' @
     ok_when (pred_option valid_token (tn_procedure_id n)) ''fact.procedure_id'' @
     ok_when (list_all valid_token (tn_lot_ids n)) ''fact.lot_ids'' @
     ok_when (first_duplicate (tn_lot_ids n) = None) ''fact.lot_ids'' @
     ok_when (pred_option (\<lambda>b. trim b \<noteq> []) (tn_buyer_name n)) ''fact.buyer_name'' @
     concat (map (\<lambda>p. ok_when (place_valid p) ''fact.places'') (tn_places n)) @
     ok_when (list_all valid_cpv (tn_cpv n)) ''fact.cpv'' @
     ok_when (pred_option amount_valid (tn_value n)) ''fact.value''"
| "fact_problems (FUnparsed reason) = ok_when (trim reason \<noteq> []) ''fact.reason''"
| "fact_problems (FWithdrawn w) =
     ok_when (trim (wd_reason w) \<noteq> []) ''fact.reason'' @
     (case (wd_how w, wd_moved_to w) of
        (Moved, None) \<Rightarrow> [''fact.moved_to'']
      | (Gone, Some _) \<Rightarrow> [''fact.moved_to'']
      | (_, Some u) \<Rightarrow> ok_when (valid_url u) ''fact.moved_to''
      | _ \<Rightarrow> []) @
     ok_when (pred_option (\<lambda>s. 300 \<le> s \<and> s \<le> 599) (wd_http_status w)) ''fact.http_status''"

text \<open>What the content hash covers; the canonical JSON and its sha256 are the argument \<open>chash\<close>.\<close>

record source_content =
  co_source_id :: string
  co_native_id :: string
  co_event_key :: string
  co_entities :: "string list"
  co_url :: string
  co_published_ms :: int
  co_valid_from_ms :: int
  co_valid_until_ms :: "int option"
  co_jurisdiction :: string
  co_language :: string
  co_currency :: "string option"
  co_fact :: source_fact
  co_origin :: "origin option"
  co_supersedes :: "string option"

definition content :: "source_record \<Rightarrow> source_content" where
  "content r = \<lparr>co_source_id = sr_source_id r, co_native_id = sr_native_id r, co_event_key = sr_event_key r,
     co_entities = sr_entities r, co_url = sr_url r, co_published_ms = sr_published_ms r,
     co_valid_from_ms = sr_valid_from_ms r, co_valid_until_ms = sr_valid_until_ms r,
     co_jurisdiction = sr_jurisdiction r, co_language = sr_language r, co_currency = sr_currency r,
     co_fact = sr_fact r, co_origin = sr_origin r, co_supersedes = sr_supersedes r\<rparr>"

definition with_identity :: "(source_content \<Rightarrow> string) \<Rightarrow> source_record \<Rightarrow> source_record" where
  "with_identity chash r =
     (let h = chash (content r)
      in r\<lparr>sr_content_hash := h, sr_record_id := record_id_of (sr_source_id r) (sr_native_id r) h\<rparr>)"

definition withdrawal_of ::
  "(source_content \<Rightarrow> string) \<Rightarrow> source_record \<Rightarrow> withdrawal \<Rightarrow> string \<Rightarrow> int \<Rightarrow> int \<Rightarrow> source_record" where
  "withdrawal_of chash r w snapshot observed_ms parsed_ms =
     with_identity chash (r\<lparr>sr_record_id := [], sr_content_hash := [], sr_currency := None,
       sr_observed_ms := observed_ms, sr_parsed_ms := parsed_ms, sr_snapshots := [snapshot],
       sr_parse := ParseOk, sr_parse_errors := [], sr_fact := FWithdrawn w, sr_supersedes := None\<rparr>)"

definition source_record_problems :: "(source_content \<Rightarrow> string) \<Rightarrow> source_record \<Rightarrow> string list" where
  "source_record_problems chash r =
     ok_when (sr_schema r = RECORD_SCHEMA) ''schema'' @
     ok_when (valid_source_id (sr_source_id r)) ''source_id'' @
     ok_when (valid_token (sr_native_id r)) ''native_id'' @
     ok_when (valid_key (sr_event_key r)) ''event_key'' @
     ok_when (list_all valid_key (sr_entities r)) ''entities'' @
     ok_when (first_duplicate (sr_entities r) = None) ''entities'' @
     ok_when (valid_url (sr_url r)) ''url'' @
     ok_when (sr_observed_ms r \<le> sr_parsed_ms r) ''parsed_ms'' @
     ok_when (pred_option (\<lambda>u. sr_valid_from_ms r < u) (sr_valid_until_ms r)) ''valid_until_ms'' @
     ok_when (valid_token (sr_jurisdiction r)) ''jurisdiction'' @
     ok_when (valid_token (sr_language r)) ''language'' @
     ok_when (pred_option valid_currency (sr_currency r)) ''currency'' @
     ok_when (sr_currency r = fact_currency (sr_fact r) \<or> fact_currency (sr_fact r) = None) ''currency'' @
     ok_when (valid_sha256 (sr_content_hash r) \<and> sr_content_hash r = chash (content r)) ''content_hash'' @
     ok_when (sr_record_id r = record_id_of (sr_source_id r) (sr_native_id r) (sr_content_hash r)) ''record_id'' @
     ok_when (sr_snapshots r \<noteq> []) ''snapshots'' @
     ok_when (list_all valid_sha256 (sr_snapshots r)) ''snapshots'' @
     ok_when (first_duplicate (sr_snapshots r) = None) ''snapshots'' @
     ok_when (split_parser_version (sr_parser_version r) \<noteq> None) ''parser_version'' @
     ok_when (trim (sr_license_or_terms r) \<noteq> []) ''license_or_terms'' @
     ok_when (valid_sha256 (sr_terms_sha256 r)) ''terms_sha256'' @
     ok_when (class_allows (sr_source_class r) (sr_trust r)) ''trust'' @
     ok_when ((sr_parse r, sr_parse_errors r = [], fact_kind (sr_fact r) = ''unparsed'') \<in>
       {(ParseOk, True, False), (ParsePartial, False, False), (ParseFailed, False, True)}) ''parse'' @
     ok_when (list_all (\<lambda>e. trim (pe_field e) \<noteq> [] \<and> trim (pe_message e) \<noteq> []) (sr_parse_errors r)) ''parse_errors'' @
     fact_problems (sr_fact r) @
     (case sr_supersedes r of
        None \<Rightarrow> []
      | Some s \<Rightarrow>
          if split_record_id s = None then [''supersedes'']
          else ok_when (s \<noteq> sr_record_id r) ''supersedes'') @
     (case sr_origin r of
        None \<Rightarrow> []
      | Some og \<Rightarrow>
          ok_when (valid_source_id (og_source_id og)) ''origin.source_id'' @
          ok_when (pred_option valid_token (og_native_id og)) ''origin.native_id'' @
          ok_when (\<not> (og_source_id og = sr_source_id r \<and> og_native_id og = Some (sr_native_id r))) ''origin'')"

definition source_record_valid :: "(source_content \<Rightarrow> string) \<Rightarrow> source_record \<Rightarrow> bool" where
  "source_record_valid chash r \<longleftrightarrow> source_record_problems chash r = []"

section \<open>Identity\<close>

lemma valid_source_id_no_colon: "valid_source_id s \<Longrightarrow> CHR '':'' \<notin> set s"
  by (auto simp: valid_source_id_def list_all_iff is_ascii_lowercase_def is_ascii_digit_def less_eq_char_def)

lemma valid_sha256_no_colon: "valid_sha256 s \<Longrightarrow> CHR '':'' \<notin> set s"
  by (auto simp: valid_sha256_def list_all_iff is_lower_hex_def is_ascii_digit_def less_eq_char_def)

lemma rsplit_once_append: "d \<notin> set b \<Longrightarrow> rsplit_once d (a @ d # b) = Some (a, b)"
  by (simp add: rsplit_once_def split_once_append)

lemma rsplit_onceD: "rsplit_once d s = Some (a, b) \<Longrightarrow> s = a @ d # b \<and> d \<notin> set b"
  by (auto simp: rsplit_once_def split_once_Some_iff) (metis append.assoc append_Cons append_Nil rev.simps(2) rev_append rev_rev_ident)

lemma split_record_id_of:
  assumes "valid_source_id s" "valid_token n" "valid_sha256 h"
  shows "split_record_id (record_id_of s n h) = Some (s, n, h)"
  using assms valid_source_id_no_colon valid_sha256_no_colon
  by (simp add: split_record_id_def record_id_of_def split_once_append rsplit_once_append)

lemma split_record_idD:
  "split_record_id x = Some (s, n, h) \<Longrightarrow>
     x = record_id_of s n h \<and> valid_source_id s \<and> valid_token n \<and> valid_sha256 h"
  by (auto simp: split_record_id_def record_id_of_def split_once_Some_iff bind_eq_Some_conv split: if_splits dest!: rsplit_onceD)

end
