(* ===== verification/Source_Asof.thy ===== *)
theory Source_Asof
  imports Source_Record
begin

text \<open>
  What the source records said at an instant: \<open>src/src/domain/source/asof.rs\<close> and the rules per class of
  \<open>src/src/domain/source/rules.rs\<close>. The store hands in records, fetches and tombstones; the view keeps the visible
  versions, applies corrections, grades the events and lists the disagreements. Instants are \<open>int\<close> milliseconds; the
  difference \<open>t - read\<close> overflows an \<open>i64\<close> only between instants more than 290 million years apart.

  Shown here: the deduplicated records, and that records unseen at \<open>t\<close> change no visible version.
\<close>

section \<open>Rules per class\<close>

datatype revision = Immutable | InPlace

record source_policy =
  sp_revision :: revision
  sp_listing_max_age_ms :: "int option"

datatype issue_code =
  JurisdictionMissing | ListingStale | ListingMaxAgeMissing | SourceNotInRegistry
  | SupersedesOtherEvent | SupersedesNotVisible

fun issue_code_rank :: "issue_code \<Rightarrow> nat" where
  "issue_code_rank JurisdictionMissing = 0"
| "issue_code_rank ListingStale = 1"
| "issue_code_rank ListingMaxAgeMissing = 2"
| "issue_code_rank SourceNotInRegistry = 3"
| "issue_code_rank SupersedesOtherEvent = 4"
| "issue_code_rank SupersedesNotVisible = 5"

text \<open>An issue without its detail, which its record and its code determine in one view.\<close>

record issue =
  is_record_id :: string
  is_code :: issue_code

definition issue_of :: "source_record \<Rightarrow> issue_code \<Rightarrow> issue" where
  "issue_of r c = \<lparr>is_record_id = sr_record_id r, is_code = c\<rparr>"

definition MIN_DEMAND_EVENTS :: nat where "MIN_DEMAND_EVENTS = 2"

datatype demand_status = DemandNone | SingleSignal | Aggregate

definition demand_status_of :: "nat \<Rightarrow> demand_status" where
  "demand_status_of n =
     (if n = 0 then DemandNone else if n < MIN_DEMAND_EVENTS then SingleSignal else Aggregate)"

definition valid_jurisdiction :: "string \<Rightarrow> bool" where
  "valid_jurisdiction j \<longleftrightarrow>
     (case split_once CHR ''-'' j of
        Some (country, part) \<Rightarrow>
          length country = 2 \<and> list_all is_ascii_uppercase country \<and> 1 \<le> length part \<and> length part \<le> 3 \<and>
          list_all (\<lambda>c. is_ascii_uppercase c \<or> is_ascii_digit c) part
      | None \<Rightarrow> length j \<in> {2, 3} \<and> list_all is_ascii_uppercase j)"

definition class_issues :: "source_record \<Rightarrow> source_policy option \<Rightarrow> int option \<Rightarrow> int \<Rightarrow> issue list" where
  "class_issues r policy newest_read t =
     (case policy of
        None \<Rightarrow> [issue_of r SourceNotInRegistry]
      | Some pol \<Rightarrow>
          (case sr_source_class r of
             LawRegulator \<Rightarrow>
               if \<not> valid_jurisdiction (sr_jurisdiction r) then [issue_of r JurisdictionMissing] else []
           | RegistryMarketplace \<Rightarrow>
               (case (sp_listing_max_age_ms pol, newest_read) of
                  (None, _) \<Rightarrow> [issue_of r ListingMaxAgeMissing]
                | (Some _, None) \<Rightarrow> [issue_of r ListingStale]
                | (Some mx, Some read) \<Rightarrow> if t - read > mx then [issue_of r ListingStale] else [])
           | _ \<Rightarrow> []))"

section \<open>Visibility\<close>

datatype as_of_mode = Captured | Knowable

record coverage =
  cv_source_id :: string
  cv_query_key :: string
  cv_fetched_ms :: int
  cv_from_ms :: int
  cv_to_ms :: int
  cv_complete :: bool
  cv_error_class :: "string option"

record purge =
  pu_source_id :: string
  pu_purged_ms :: int
  pu_raw_before_ms :: "int option"
  pu_records_before_ms :: "int option"
  pu_snapshots :: int
  pu_records :: int
  pu_reason :: string

record as_of_input =
  in_records :: "source_record list"
  in_coverage :: "coverage list"
  in_purges :: "purge list"
  in_policies :: "(string \<times> source_policy) list"

datatype record_state = InForce | Pending | Expired | SWithdrawn | SUnparsed

definition state_is_typed :: "record_state \<Rightarrow> bool" where
  "state_is_typed s \<longleftrightarrow> s \<in> {InForce, Pending, Expired}"

record current =
  cu_record :: source_record
  cu_visible_ms :: int
  cu_state :: record_state
  cu_last_fact :: "source_record option"

datatype superseded_by = ByRevision | ByCorrection

fun superseded_by_rank :: "superseded_by \<Rightarrow> nat" where
  "superseded_by_rank ByRevision = 0"
| "superseded_by_rank ByCorrection = 1"

record supersession =
  su_old :: string
  su_new :: string
  su_by :: superseded_by

datatype confidence = Confirmed | Corroborated | Single | CTriggerOnly | CNone

record event_row =
  er_event_key :: string
  er_confidence :: confidence
  er_primary :: nat
  er_origins :: "string list"
  er_records :: "string list"

record conflict =
  cf_event_key :: string
  cf_lots :: "string list"
  cf_field :: string
  cf_record_ids :: "string list"

record as_of_view =
  vw_at_ms :: int
  vw_mode :: as_of_mode
  vw_current :: "current list"
  vw_superseded :: "supersession list"
  vw_issues :: "issue list"
  vw_events :: "event_row list"
  vw_conflicts :: "conflict list"
  vw_visible :: "(string \<times> source_record) list"

definition origin_of :: "source_record \<Rightarrow> string" where
  "origin_of r = (case sr_origin r of Some og \<Rightarrow> og_source_id og | None \<Rightarrow> sr_source_id r)"

definition is_withdrawn :: "source_fact \<Rightarrow> bool" where
  "is_withdrawn f \<longleftrightarrow> (case f of FWithdrawn _ \<Rightarrow> True | _ \<Rightarrow> False)"

definition visible_ms :: "source_record \<Rightarrow> revision \<Rightarrow> as_of_mode \<Rightarrow> bool \<Rightarrow> int" where
  "visible_ms r revision mode reads_base =
     (let read = max (sr_published_ms r) (sr_observed_ms r)
      in case mode of
           Captured \<Rightarrow> max read (sr_parsed_ms r)
         | Knowable \<Rightarrow>
             if revision = Immutable \<and> reads_base \<and> \<not> is_withdrawn (sr_fact r) then sr_published_ms r else read)"

definition revision_of :: "(string \<times> source_policy) list \<Rightarrow> string \<Rightarrow> revision" where
  "revision_of policies s = (case map_of policies s of Some p \<Rightarrow> sp_revision p | None \<Rightarrow> InPlace)"

definition dedup_step :: "source_record \<Rightarrow> source_record option \<Rightarrow> source_record" where
  "dedup_step r old =
     (case old of
        None \<Rightarrow> r
      | Some e \<Rightarrow> if (sr_observed_ms r, sr_parsed_ms r) < (sr_observed_ms e, sr_parsed_ms e) then r else e)"

definition dedup :: "source_record list \<Rightarrow> (string \<times> source_record) list" where
  "dedup records = fold (\<lambda>r. bm_upd (sr_record_id r) (dedup_step r)) records []"

text \<open>\<open>Iterator::min_by_key\<close>: the first of the least.\<close>

fun min_by :: "('a \<Rightarrow> 'k::linorder) \<Rightarrow> 'a \<Rightarrow> 'a list \<Rightarrow> 'a" where
  "min_by key m [] = m"
| "min_by key m (x # xs) = min_by key (if key x < key m then x else m) xs"

definition base_version :: "source_record list \<Rightarrow> source_record" where
  "base_version vs = min_by (\<lambda>r. (sr_observed_ms r, sr_parsed_ms r, sr_record_id r)) (hd vs) (tl vs)"

definition reads_base :: "source_record list \<Rightarrow> source_record \<Rightarrow> bool" where
  "reads_base vs r \<longleftrightarrow> sr_record_id r = sr_record_id (base_version vs) \<or>
     list_ex (\<lambda>s. s \<in> set (sr_snapshots (base_version vs))) (sr_snapshots r)"

definition item_key :: "source_record \<Rightarrow> string \<times> string" where
  "item_key r = (sr_source_id r, sr_native_id r)"

definition visibility ::
  "source_record list \<Rightarrow> (string \<times> source_policy) list \<Rightarrow> as_of_mode \<Rightarrow>
     ((string \<times> string) \<times> (source_record \<times> int) list) list" where
  "visibility records policies mode =
     map (\<lambda>(key, vs). (key, map (\<lambda>r. (r, visible_ms r (revision_of policies (fst key)) mode (reads_base vs r))) vs))
       (bm_group item_key (map snd (dedup records)))"

definition version_key :: "source_record \<Rightarrow> int \<times> int \<times> int \<times> string" where
  "version_key r =
     (sr_observed_ms r, (case split_parser_version (sr_parser_version r) of Some (_, n) \<Rightarrow> n | None \<Rightarrow> 0),
      sr_parsed_ms r, sr_record_id r)"

definition newest_fetches :: "coverage list \<Rightarrow> int \<Rightarrow> (string \<times> int) list" where
  "newest_fetches cov t =
     fold (\<lambda>c. bm_upd (cv_source_id c)
             (\<lambda>old. case old of None \<Rightarrow> cv_fetched_ms c | Some e \<Rightarrow> max e (cv_fetched_ms c)))
       (filter (\<lambda>c. cv_complete c \<and> cv_fetched_ms c \<le> t) cov) []"

section \<open>The view\<close>

text \<open>Per item with a visible version: its visible versions, oldest first.\<close>

definition seen_items :: "as_of_input \<Rightarrow> int \<Rightarrow> as_of_mode \<Rightarrow> (source_record \<times> int) list list" where
  "seen_items input t mode =
     map (sort_key (version_key \<circ> fst))
       (filter (\<lambda>seen. seen \<noteq> [])
         (map (\<lambda>(_, vs). filter (\<lambda>(_, v). v \<le> t) vs)
           (visibility (in_records input) (in_policies input) mode)))"

definition supersession_set :: "supersession list \<Rightarrow> supersession list" where
  "supersession_set xs = sort_key (\<lambda>s. (su_old s, su_new s, superseded_by_rank (su_by s))) (remdups xs)"

definition issue_set :: "issue list \<Rightarrow> issue list" where
  "issue_set xs = sort_key (\<lambda>i. (is_record_id i, issue_code_rank (is_code i))) (remdups xs)"

text \<open>\<open>seen.windows(2)\<close>.\<close>

definition revisions :: "(source_record \<times> int) list \<Rightarrow> supersession list" where
  "revisions seen = map (\<lambda>((a, _), (b, _)).
     \<lparr>su_old = sr_record_id a, su_new = sr_record_id b, su_by = ByRevision\<rparr>) (zip seen (tl seen))"

text \<open>One visible record in the loop over corrections: what it removes, and the issue it raises.\<close>

definition correction ::
  "(string \<times> source_record) list \<Rightarrow> string list \<Rightarrow> source_record \<Rightarrow> supersession list \<times> issue list" where
  "correction visible currents r =
     (case sr_supersedes r of
        None \<Rightarrow> ([], [])
      | Some target \<Rightarrow>
          let raise = (\<lambda>c. if sr_record_id r \<in> set currents then [issue_of r c] else [])
          in case map_of visible target of
               None \<Rightarrow> ([], raise SupersedesNotVisible)
             | Some x \<Rightarrow>
                 if sr_event_key x \<noteq> sr_event_key r then ([], raise SupersedesOtherEvent)
                 else ([\<lparr>su_old = sr_record_id x, su_new = sr_record_id r, su_by = ByCorrection\<rparr>], []))"

definition state_of :: "source_record \<Rightarrow> int \<Rightarrow> record_state" where
  "state_of r t =
     (case sr_fact r of
        FWithdrawn _ \<Rightarrow> SWithdrawn
      | FUnparsed _ \<Rightarrow> SUnparsed
      | _ \<Rightarrow>
          if sr_valid_from_ms r > t then Pending
          else if (case sr_valid_until_ms r of Some u \<Rightarrow> u \<le> t | None \<Rightarrow> False) then Expired
          else InForce)"

definition current_of :: "(source_record \<times> int) list \<Rightarrow> int \<Rightarrow> current" where
  "current_of seen t =
     (let (r, v) = last seen; state = state_of r t
      in \<lparr>cu_record = r, cu_visible_ms = v, cu_state = state,
          cu_last_fact = (if state_is_typed state then None
            else find (\<lambda>x. fact_is_typed (sr_fact x)) (map fst (drop 1 (rev seen))))\<rparr>)"

text \<open>The newest read of the source of a record at or before \<open>t\<close>.\<close>

definition newest_read :: "(string \<times> int) list \<Rightarrow> source_record \<Rightarrow> int \<Rightarrow> int option" where
  "newest_read fetches r t =
     (case (if sr_observed_ms r \<le> t then Some (sr_observed_ms r) else None, map_of fetches (sr_source_id r)) of
        (Some a, Some b) \<Rightarrow> Some (max a b)
      | (Some a, None) \<Rightarrow> Some a
      | (None, b) \<Rightarrow> b)"

definition event_row_of :: "string list \<Rightarrow> string \<times> current list \<Rightarrow> event_row" where
  "event_row_of flagged kr =
     (let (key, rows) = kr;
          typed = map cu_record (filter (\<lambda>c. state_is_typed (cu_state c)) rows);
          counted = filter (\<lambda>r. sr_trust r \<noteq> TriggerOnly \<and> sr_record_id r \<notin> set flagged) typed;
          primary = length (filter (\<lambda>r. sr_trust r = Primary) counted);
          origins = bset (map origin_of counted)
      in \<lparr>er_event_key = key,
          er_confidence =
            (if primary > 0 then Confirmed
             else if length origins \<ge> 2 then Corroborated
             else if length origins = 1 then Single
             else if typed \<noteq> [] then CTriggerOnly
             else CNone),
          er_primary = primary, er_origins = origins,
          er_records = sort (map (sr_record_id \<circ> cu_record) rows)\<rparr>)"

definition event_rows :: "current list \<Rightarrow> string list \<Rightarrow> event_row list" where
  "event_rows cur flagged =
     map (event_row_of flagged) (bm_group (\<lambda>c. sr_event_key (cu_record c)) cur)"

definition decimal_key :: "string \<Rightarrow> string" where
  "decimal_key a =
     (let (neg, body) = (case strip_prefix ''-'' a of Some b \<Rightarrow> (True, b) | None \<Rightarrow> (False, a));
          (whole, frac) = (case split_once CHR ''.'' body of Some x \<Rightarrow> x | None \<Rightarrow> (body, []));
          whole = dropWhile (\<lambda>c. c = CHR ''0'') whole;
          frac = trim_zeros frac;
          whole = (if whole = [] then ''0'' else whole);
          s = (if frac = [] then whole else whole @ ''.'' @ frac)
      in if neg \<and> s \<noteq> ''0'' then ''-'' @ s else s)"

definition int_text :: "int \<Rightarrow> string" where
  "int_text n = (if n < 0 then ''-'' @ nat_text (nat (- n)) else nat_text (nat n))"

definition sorted_text :: "string list \<Rightarrow> string" where
  "sorted_text v = join '','' (sort v)"

fun compared :: "source_fact \<Rightarrow> (string \<times> string option) list" where
  "compared (SecFiling f) =
     [(''cik'', Some (sf_cik f)), (''form'', Some (sf_form f)), (''items'', Some (sorted_text (sf_items f)))]"
| "compared (TedNotice n) =
     [(''value'', map_option (\<lambda>v. decimal_key (na_amount v) @ '' '' @ na_currency v) (tn_value n)),
      (''deadline_ms'', map_option int_text (tn_deadline_ms n)),
      (''cpv'', if tn_cpv n \<noteq> [] then Some (sorted_text (tn_cpv n)) else None)]"
| "compared _ = []"

definition fact_stage :: "source_fact \<Rightarrow> string \<times> string \<times> string list" where
  "fact_stage f =
     (case f of
        TedNotice n \<Rightarrow> (fact_kind f, tn_notice_type n, sort (tn_lot_ids n))
      | _ \<Rightarrow> (fact_kind f, [], []))"

text \<open>What the records of one group state in their compared field number \<open>i\<close>. The facts of one group have one
  kind, so the same compared fields in the same order.\<close>

definition stated_values :: "nat \<Rightarrow> source_record list \<Rightarrow> (string \<times> string) list" where
  "stated_values i rows = List.map_filter (\<lambda>r. map_option (Pair (sr_record_id r))
     (if i < length (compared (sr_fact r)) then snd (compared (sr_fact r) ! i) else None)) rows"

definition group_conflicts :: "(string \<times> string \<times> string \<times> string list) \<times> source_record list \<Rightarrow> conflict list" where
  "group_conflicts g =
     (case g of ((event_key, _, _, lots), rows) \<Rightarrow>
        if length rows < 2 then []
        else List.map_filter (\<lambda>(i, field, _).
          let st = stated_values i rows
          in if length (bset (map snd st)) > 1
             then Some \<lparr>cf_event_key = event_key, cf_lots = lots, cf_field = field,
                        cf_record_ids = sort (map fst st)\<rparr>
             else None) (enumerate 0 (compared (sr_fact (hd rows)))))"

definition conflict_rows :: "current list \<Rightarrow> conflict list" where
  "conflict_rows cur =
     sort_key (\<lambda>c. (cf_event_key c, cf_lots c, cf_field c, cf_record_ids c))
       (concat (map group_conflicts
         (bm_group (\<lambda>r. (sr_event_key r, fact_stage (sr_fact r)))
           (map cu_record (filter (\<lambda>c. state_is_typed (cu_state c)) cur)))))"

text \<open>The view from the visible versions of the items and the newest fetches.\<close>

definition view_of ::
  "(string \<times> source_policy) list \<Rightarrow> (string \<times> int) list \<Rightarrow> int \<Rightarrow> as_of_mode \<Rightarrow>
     (source_record \<times> int) list list \<Rightarrow> as_of_view" where
  "view_of policies fetches t mode items =
     (let visible = bm_of (map (\<lambda>(r, _). (sr_record_id r, r)) (concat items));
          currents = map (\<lambda>seen. sr_record_id (fst (last seen))) items;
          corrected = map (correction visible currents) (map snd visible);
          removed = map su_old (concat (map fst corrected));
          kept = filter (\<lambda>seen. sr_record_id (fst (last seen)) \<notin> set removed) items;
          cur = map (\<lambda>seen. current_of seen t) kept;
          issues = issue_set (concat (map snd corrected) @
            concat (map (\<lambda>c. let r = cu_record c in
              class_issues r (map_of policies (sr_source_id r)) (newest_read fetches r t) t) cur))
      in \<lparr>vw_at_ms = t, vw_mode = mode, vw_current = cur,
          vw_superseded = supersession_set (concat (map revisions items) @ concat (map fst corrected)),
          vw_issues = issues,
          vw_events = event_rows cur (map is_record_id issues),
          vw_conflicts = conflict_rows cur,
          vw_visible = visible\<rparr>)"

definition as_of :: "as_of_input \<Rightarrow> int \<Rightarrow> as_of_mode \<Rightarrow> as_of_view" where
  "as_of input t mode =
     view_of (in_policies input) (newest_fetches (in_coverage input) t) t mode (seen_items input t mode)"

section \<open>One record per id\<close>

lemma bm_ok_dedup [simp]: "bm_ok (dedup rs)"
  unfolding dedup_def by (rule bm_ok_foldr) auto

lemma dedup_snoc: "dedup (rs @ [r]) = bm_upd (sr_record_id r) (dedup_step r) (dedup rs)"
  by (simp add: dedup_def)

lemma map_of_dedup_Nil [simp]: "map_of (dedup []) i = None"
  by (simp add: dedup_def)

lemma map_of_dedup_snoc:
  "map_of (dedup (rs @ [r])) = (map_of (dedup rs))(sr_record_id r \<mapsto> dedup_step r (map_of (dedup rs) (sr_record_id r)))"
  by (simp add: dedup_snoc)

lemma dedup_SomeD: "map_of (dedup rs) i = Some e \<Longrightarrow> e \<in> set rs \<and> sr_record_id e = i"
  by (induction rs arbitrary: i e rule: rev_induct)
    (auto simp: map_of_dedup_snoc dedup_step_def split: if_splits option.splits)

definition read_order :: "source_record \<Rightarrow> int \<times> int" where
  "read_order r = (sr_observed_ms r, sr_parsed_ms r)"

lemma dedup_append:
  assumes "\<And>r e. r \<in> set ls \<Longrightarrow> e \<in> set rs \<Longrightarrow> sr_record_id e = sr_record_id r \<Longrightarrow> read_order e \<le> read_order r"
  shows "map_of (dedup (rs @ ls)) i = (case map_of (dedup rs) i of Some e \<Rightarrow> Some e | None \<Rightarrow> map_of (dedup ls) i)"
  using assms
proof (induction ls arbitrary: i rule: rev_induct)
  case Nil
  then show ?case by (simp split: option.split)
next
  case (snoc r ls)
  have IH: "map_of (dedup (rs @ ls)) j = (case map_of (dedup rs) j of Some e \<Rightarrow> Some e | None \<Rightarrow> map_of (dedup ls) j)" for j
    using snoc by simp
  show ?case
  proof (cases "map_of (dedup rs) (sr_record_id r)")
    case (Some e)
    then have "read_order e \<le> read_order r" using snoc.prems dedup_SomeD by fastforce
    then have "dedup_step r (Some e) = e"
      by (auto simp: dedup_step_def read_order_def)
    with Some IH show ?thesis
      by (auto simp: map_of_dedup_snoc simp flip: append_assoc split: option.split)
  next
    case None
    with IH show ?thesis
      by (auto simp: map_of_dedup_snoc simp flip: append_assoc split: option.split)
  qed
qed

lemma set_dedup: "r \<in> set (map snd (dedup rs)) \<longleftrightarrow> map_of (dedup rs) (sr_record_id r) = Some r"
proof -
  have d: "distinct (map fst (dedup rs))" using bm_ok_dedup [of rs] by (simp add: bm_ok_def strict_sorted_iff)
  have "(i, e) \<in> set (dedup rs) \<longleftrightarrow> map_of (dedup rs) i = Some e" for i e
    using d by (simp add: map_of_eq_Some_iff)
  then show ?thesis using dedup_SomeD by (auto simp: image_iff) (metis snd_conv)+
qed

text \<open>The kept values of two maps, in the order of their keys.\<close>

lemma map_of_filter_snd:
  "bm_ok m \<Longrightarrow> map_of (filter (P \<circ> snd) m) i = (case map_of m i of Some v \<Rightarrow> if P v then Some v else None | None \<Rightarrow> None)"
proof (induction m)
  case (Cons x m)
  show ?case
  proof (cases "fst x = i")
    case True
    then have "map_of m i = None" using bm_ok_None [of "fst x" "snd x" m i] Cons.prems by (cases x) simp
    with True Cons.IH bm_ok_ConsD [OF Cons.prems] show ?thesis by (cases x) auto
  next
    case False
    with Cons.IH bm_ok_ConsD [OF Cons.prems] show ?thesis by (cases x) auto
  qed
qed simp

lemma filter_snd_ext:
  assumes "bm_ok m" "bm_ok n" "\<And>i v. P v \<Longrightarrow> map_of m i = Some v \<longleftrightarrow> map_of n i = Some v"
  shows "filter P (map snd m) = filter P (map snd n)"
proof -
  have ok: "bm_ok k \<Longrightarrow> bm_ok (filter (P \<circ> snd) k)" for k :: "('a \<times> 'b) list"
    by (simp add: bm_ok_def sorted_wrt_map) (rule sorted_wrt_filter)
  have "filter (P \<circ> snd) m = filter (P \<circ> snd) n"
  proof (rule bm_ext)
    show "map_of (filter (P \<circ> snd) m) = map_of (filter (P \<circ> snd) n)"
    proof
      fix i
      show "map_of (filter (P \<circ> snd) m) i = map_of (filter (P \<circ> snd) n) i"
        using assms(3) [of _ i] unfolding map_of_filter_snd [OF assms(1)] map_of_filter_snd [OF assms(2)]
        by (auto split: option.split) (metis option.inject)+
    qed
  qed (use assms ok in auto)
  then show ?thesis by (simp add: filter_map)
qed

section \<open>The visible versions\<close>

text \<open>When a record of the deduplicated list is visible.\<close>

definition visible_in :: "(string \<times> source_policy) list \<Rightarrow> as_of_mode \<Rightarrow> source_record list \<Rightarrow> source_record \<Rightarrow> int" where
  "visible_in policies mode rs r =
     visible_ms r (revision_of policies (sr_source_id r)) mode
       (reads_base (filter (\<lambda>x. item_key x = item_key r) rs) r)"

lemma visibility_eq:
  "visibility rs policies mode =
     map (\<lambda>(key, vs). (key, map (\<lambda>r. (r, visible_in policies mode (map snd (dedup rs)) r)) vs))
       (bm_group item_key (map snd (dedup rs)))"
  unfolding visibility_def bm_group_eq
  by (auto simp: visible_in_def item_key_def)

lemma seen_items_eq:
  "seen_items input t mode =
     (let rs = map snd (dedup (in_records input)); vis = visible_in (in_policies input) mode rs
      in map (\<lambda>vs. sort_key (version_key \<circ> fst) (map (\<lambda>r. (r, vis r)) vs))
           (map snd (bm_group item_key (filter (\<lambda>r. vis r \<le> t) rs))))"
proof -
  define rs where "rs = map snd (dedup (in_records input))"
  define vis where "vis = visible_in (in_policies input) mode rs"
  have 1: "filter (\<lambda>(_, v). v \<le> t) (map (\<lambda>r. (r, vis r)) vs) = map (\<lambda>r. (r, vis r)) (filter (\<lambda>r. vis r \<le> t) vs)" for vs
    by (induction vs) auto
  have 2: "filter (\<lambda>l. l \<noteq> []) (map (\<lambda>(_, vs). map (\<lambda>r. (r, vis r)) (filter (\<lambda>r. vis r \<le> t) vs)) g) =
      map (map (\<lambda>r. (r, vis r))) (filter (\<lambda>l. l \<noteq> []) (map (\<lambda>(k, l). filter (\<lambda>r. vis r \<le> t) l) g))"
    for g :: "((string \<times> string) \<times> source_record list) list"
    by (induction g) auto
  show ?thesis
    unfolding seen_items_def visibility_eq Let_def rs_def [symmetric] vis_def [symmetric]
    by (simp add: o_def split_def 1 [unfolded split_def])
      (use 2 [of "bm_group item_key rs"] bm_group_filter [of "\<lambda>r. vis r \<le> t" item_key rs] in
        \<open>simp add: split_def\<close>)
qed

text \<open>Records that stay unseen at \<open>t\<close> change no visible version.\<close>

lemma seen_items_stable:
  assumes reread: "\<And>r e. r \<in> set ls \<Longrightarrow> e \<in> set rs \<Longrightarrow> sr_record_id e = sr_record_id r \<Longrightarrow> read_order e \<le> read_order r"
    and old: "\<And>r. r \<in> set (map snd (dedup rs)) \<Longrightarrow>
      visible_in pol mode (map snd (dedup (rs @ ls))) r = visible_in pol mode (map snd (dedup rs)) r"
    and new: "\<And>r. r \<in> set ls \<Longrightarrow> t < visible_in pol mode (map snd (dedup (rs @ ls))) r"
  shows "seen_items \<lparr>in_records = rs @ ls, in_coverage = cv, in_purges = pu, in_policies = pol\<rparr> t mode =
    seen_items \<lparr>in_records = rs, in_coverage = cv', in_purges = pu', in_policies = pol\<rparr> t mode"
proof -
  let ?D = "map snd (dedup rs)" and ?D' = "map snd (dedup (rs @ ls))"
  let ?v = "visible_in pol mode ?D" and ?v' = "visible_in pol mode ?D'"
  have "filter (\<lambda>r. ?v' r \<le> t) ?D' = filter (\<lambda>r. ?v' r \<le> t) ?D"
  proof (rule filter_snd_ext)
    fix i r assume "?v' r \<le> t"
    then have "r \<notin> set ls" using new by fastforce
    then show "map_of (dedup (rs @ ls)) i = Some r \<longleftrightarrow> map_of (dedup rs) i = Some r"
      using dedup_SomeD [of ls i r] dedup_append [OF reread] by (auto split: option.split)
  qed simp_all
  also have "\<dots> = filter (\<lambda>r. ?v r \<le> t) ?D" using old by (intro filter_cong) auto
  finally have f: "filter (\<lambda>r. ?v' r \<le> t) ?D' = filter (\<lambda>r. ?v r \<le> t) ?D" .
  have m: "map (\<lambda>r. (r, ?v' r)) vs = map (\<lambda>r. (r, ?v r)) vs"
    if "vs \<in> snd ` set (bm_group item_key (filter (\<lambda>r. ?v r \<le> t) ?D))" for vs
    using that old by (auto simp: bm_group_eq intro!: old)
  then show ?thesis
    unfolding seen_items_eq Let_def as_of_input.simps f
    by (intro map_cong refl arg_cong [of _ _ "sort_key (version_key \<circ> fst)"] m) simp
qed

end
