(* ===== verification/Source_Packet.thy ===== *)
theory Source_Packet
  imports Source_Asof
begin

text \<open>
  The evidence packet: \<open>src/src/domain/source/packet.rs\<close> without its text rendering. A packet is one as-of view
  filtered to a query, with the freshness of the sources, the demand behind it and its citations; a page is its newest
  records. Shown here: a packet never looks ahead.
\<close>

section \<open>Packets\<close>

definition PACKET_SCHEMA :: string where "PACKET_SCHEMA = ''source_asof/1''"

record as_of_query =
  q_source :: "string option"
  q_entity :: "string option"
  q_event_key :: "string option"
  q_published_from_ms :: "int option"
  q_published_to_ms :: "int option"

definition query_keeps :: "as_of_query \<Rightarrow> source_record \<Rightarrow> bool" where
  "query_keeps q r \<longleftrightarrow>
     pred_option (\<lambda>s. s = sr_source_id r) (q_source q) \<and>
     pred_option (\<lambda>e. e \<in> set (sr_entities r)) (q_entity q) \<and>
     pred_option (\<lambda>k. k = sr_event_key r) (q_event_key q) \<and>
     pred_option (\<lambda>f. f \<le> sr_published_ms r) (q_published_from_ms q) \<and>
     pred_option (\<lambda>t. sr_published_ms r < t) (q_published_to_ms q)"

record fact_row =
  fr_record_id :: string
  fr_source_id :: string
  fr_native_id :: string
  fr_event_key :: string
  fr_entities :: "string list"
  fr_source_class :: source_class
  fr_trust :: trust
  fr_parse :: parse_status
  fr_parse_errors :: "parse_error list"
  fr_published_ms :: int
  fr_observed_ms :: int
  fr_visible_ms :: int
  fr_valid_from_ms :: int
  fr_valid_until_ms :: "int option"
  fr_jurisdiction :: string
  fr_language :: string
  fr_origin :: "origin option"
  fr_fact :: source_fact

record withdrawn_row =
  wr_record_id :: string
  wr_source_id :: string
  wr_native_id :: string
  wr_event_key :: string
  wr_observed_ms :: int
  wr_visible_ms :: int
  wr_withdrawn :: withdrawal
  wr_last_fact :: "string option"

record unparsed_row =
  ur_record_id :: string
  ur_source_id :: string
  ur_native_id :: string
  ur_event_key :: string
  ur_observed_ms :: int
  ur_visible_ms :: int
  ur_reason :: string
  ur_parse_errors :: "parse_error list"
  ur_last_fact :: "string option"

record demand_summary =
  dm_status :: demand_status
  dm_events :: nat
  dm_origins :: "string list"
  dm_records :: "string list"

record gap =
  ga_from_ms :: int
  ga_to_ms :: int

record query_freshness =
  qf_query_key :: string
  qf_last_fetch_ms :: int
  qf_age_ms :: int
  qf_covered_from_ms :: "int option"
  qf_covered_to_ms :: "int option"
  qf_gaps :: "gap list"

record freshness =
  fs_source_id :: string
  fs_queries :: "query_freshness list"
  fs_failed :: "coverage list"
  fs_parse_failures :: nat
  fs_partial_parses :: nat
  fs_purges :: "purge list"

record citation =
  ci_record_id :: string
  ci_url :: string
  ci_content_hash :: string
  ci_snapshots :: "string list"
  ci_parser_version :: string
  ci_access_method :: access_method
  ci_license_or_terms :: string
  ci_terms_sha256 :: string

record inference =
  if_text :: string
  if_model :: string
  if_prompt_sha256 :: string
  if_generation :: "string option"
  if_as_of_ms :: int

record evidence_packet =
  pk_schema :: string
  pk_as_of_ms :: int
  pk_mode :: as_of_mode
  pk_query :: as_of_query
  pk_facts :: "fact_row list"
  pk_pending :: "fact_row list"
  pk_expired :: "fact_row list"
  pk_withdrawn :: "withdrawn_row list"
  pk_unparsed :: "unparsed_row list"
  pk_superseded :: "supersession list"
  pk_events :: "event_row list"
  pk_conflicts :: "conflict list"
  pk_issues :: "issue list"
  pk_demand :: demand_summary
  pk_freshness :: "freshness list"
  pk_citations :: "citation list"
  pk_inferences :: "inference list"
  pk_omitted :: nat

definition fact_row_of :: "current \<Rightarrow> fact_row" where
  "fact_row_of c = (let r = cu_record c in
     \<lparr>fr_record_id = sr_record_id r, fr_source_id = sr_source_id r, fr_native_id = sr_native_id r,
      fr_event_key = sr_event_key r, fr_entities = sr_entities r, fr_source_class = sr_source_class r,
      fr_trust = sr_trust r, fr_parse = sr_parse r, fr_parse_errors = sr_parse_errors r,
      fr_published_ms = sr_published_ms r, fr_observed_ms = sr_observed_ms r, fr_visible_ms = cu_visible_ms c,
      fr_valid_from_ms = sr_valid_from_ms r, fr_valid_until_ms = sr_valid_until_ms r,
      fr_jurisdiction = sr_jurisdiction r, fr_language = sr_language r, fr_origin = sr_origin r,
      fr_fact = sr_fact r\<rparr>)"

definition citation_of :: "source_record \<Rightarrow> citation" where
  "citation_of r =
     \<lparr>ci_record_id = sr_record_id r, ci_url = sr_url r, ci_content_hash = sr_content_hash r,
      ci_snapshots = sr_snapshots r, ci_parser_version = sr_parser_version r,
      ci_access_method = sr_access_method r, ci_license_or_terms = sr_license_or_terms r,
      ci_terms_sha256 = sr_terms_sha256 r\<rparr>"

section \<open>Freshness\<close>

text \<open>The loop over the covered spans: the first start, the span merged last, the gaps found so far. The
  increment saturates at the width of \<open>i64\<close>.\<close>

definition span_step ::
  "int \<times> int \<Rightarrow> int option \<times> (int \<times> int) option \<times> gap list \<Rightarrow> int option \<times> (int \<times> int) option \<times> gap list" where
  "span_step ab st =
     (case (ab, st) of ((a, b), (first, merged, gaps)) \<Rightarrow>
        let first = (case first of None \<Rightarrow> Some a | Some f \<Rightarrow> Some f)
        in case merged of
             Some (ma, mb) \<Rightarrow>
               if a \<le> min (mb + 1) (2 ^ 63 - 1) then (first, Some (ma, max mb b), gaps)
               else (first, Some (a, b), gaps @ [\<lparr>ga_from_ms = mb, ga_to_ms = a\<rparr>])
           | None \<Rightarrow> (first, Some (a, b), gaps))"

definition query_freshness_of :: "string \<Rightarrow> coverage list \<Rightarrow> int \<Rightarrow> query_freshness" where
  "query_freshness_of query_key rows t =
     (let last_fetch = (if rows = [] then t else Max (set (map cv_fetched_ms rows)));
          spans = sort (List.map_filter (\<lambda>c.
            let e = min (min (cv_to_ms c) (cv_fetched_ms c)) t
            in if cv_from_ms c \<le> e then Some (cv_from_ms c, e) else None) rows);
          (first, merged, gaps) = fold span_step spans (None, None, [])
      in \<lparr>qf_query_key = query_key, qf_last_fetch_ms = last_fetch, qf_age_ms = t - last_fetch,
          qf_covered_from_ms = first, qf_covered_to_ms = map_option snd merged, qf_gaps = gaps\<rparr>)"

definition source_freshness :: "coverage list \<Rightarrow> purge list \<Rightarrow> current list \<Rightarrow> int \<Rightarrow> string \<Rightarrow> freshness" where
  "source_freshness cov purges cur t source =
     (let mine = filter (\<lambda>c. cv_source_id c = source \<and> cv_fetched_ms c \<le> t) cov;
          of_source = filter (\<lambda>c. sr_source_id (cu_record c) = source) cur
      in \<lparr>fs_source_id = source,
          fs_queries = map (\<lambda>(q, rows). query_freshness_of q rows t) (bm_group cv_query_key (filter cv_complete mine)),
          fs_failed = sort_key (\<lambda>c. (cv_fetched_ms c, cv_query_key c, cv_from_ms c, cv_to_ms c))
            (filter (\<lambda>c. \<not> cv_complete c) mine),
          fs_parse_failures = length (filter (\<lambda>c. cu_state c = SUnparsed) of_source),
          fs_partial_parses = length (filter (\<lambda>c. state_is_typed (cu_state c) \<and>
            sr_parse (cu_record c) = ParsePartial) of_source),
          fs_purges = sort_key (\<lambda>p. (pu_purged_ms p, pu_reason p))
            (filter (\<lambda>p. pu_source_id p = source \<and> pu_purged_ms p \<le> t) purges)\<rparr>)"

definition freshness_of :: "as_of_input \<Rightarrow> current list \<Rightarrow> as_of_query \<Rightarrow> int \<Rightarrow> freshness list" where
  "freshness_of input cur query t =
     (let sources = bset (case q_source query of
            Some s \<Rightarrow> [s]
          | None \<Rightarrow>
              map fst (in_policies input) @ map (sr_source_id \<circ> cu_record) cur @
              map cv_source_id (filter (\<lambda>c. cv_fetched_ms c \<le> t) (in_coverage input)) @
              map pu_source_id (filter (\<lambda>p. pu_purged_ms p \<le> t) (in_purges input)))
      in map (source_freshness (in_coverage input) (in_purges input) cur t) sources)"

section \<open>Building a packet\<close>

definition withdrawn_row_of :: "current \<Rightarrow> withdrawal \<Rightarrow> withdrawn_row" where
  "withdrawn_row_of c w = (let r = cu_record c in
     \<lparr>wr_record_id = sr_record_id r, wr_source_id = sr_source_id r, wr_native_id = sr_native_id r,
      wr_event_key = sr_event_key r, wr_observed_ms = sr_observed_ms r, wr_visible_ms = cu_visible_ms c,
      wr_withdrawn = w, wr_last_fact = map_option sr_record_id (cu_last_fact c)\<rparr>)"

definition unparsed_row_of :: "current \<Rightarrow> unparsed_row" where
  "unparsed_row_of c = (let r = cu_record c in
     \<lparr>ur_record_id = sr_record_id r, ur_source_id = sr_source_id r, ur_native_id = sr_native_id r,
      ur_event_key = sr_event_key r, ur_observed_ms = sr_observed_ms r, ur_visible_ms = cu_visible_ms c,
      ur_reason = (case sr_fact r of FUnparsed reason \<Rightarrow> reason | _ \<Rightarrow> []),
      ur_parse_errors = sr_parse_errors r, ur_last_fact = map_option sr_record_id (cu_last_fact c)\<rparr>)"

datatype packet_row =
    RFact fact_row | RPending fact_row | RExpired fact_row | RWithdrawn withdrawn_row | RUnparsed unparsed_row

definition packet_row_of :: "current \<Rightarrow> packet_row" where
  "packet_row_of c =
     (case (cu_state c, sr_fact (cu_record c)) of
        (InForce, _) \<Rightarrow> RFact (fact_row_of c)
      | (Pending, _) \<Rightarrow> RPending (fact_row_of c)
      | (Expired, _) \<Rightarrow> RExpired (fact_row_of c)
      | (SWithdrawn, FWithdrawn w) \<Rightarrow> RWithdrawn (withdrawn_row_of c w)
      | _ \<Rightarrow> RUnparsed (unparsed_row_of c))"

definition demand_of :: "as_of_view \<Rightarrow> string list \<Rightarrow> demand_summary" where
  "demand_of view kept =
     (let flagged = map is_record_id (vw_issues view);
          rows = filter (\<lambda>r. sr_source_class r = CustomerDemand \<and> sr_trust r \<noteq> TriggerOnly \<and>
                   sr_record_id r \<notin> set flagged)
            (map cu_record (filter (\<lambda>c. cu_state c = InForce \<and> sr_record_id (cu_record c) \<in> set kept)
              (vw_current view)));
          n = length (bset (map sr_event_key rows))
      in \<lparr>dm_status = demand_status_of n, dm_events = n, dm_origins = bset (map origin_of rows),
          dm_records = sort (map sr_record_id rows)\<rparr>)"

definition packet_build :: "as_of_input \<Rightarrow> int \<Rightarrow> as_of_mode \<Rightarrow> as_of_query \<Rightarrow> evidence_packet" where
  "packet_build input t mode query =
     (let view = as_of input t mode;
          rows = filter (\<lambda>c. query_keeps query (cu_record c)) (vw_current view);
          kept = map (sr_record_id \<circ> cu_record) rows;
          kept_events = map (sr_event_key \<circ> cu_record) rows;
          out = map packet_row_of rows;
          keeps_id = (\<lambda>i. case map_of (vw_visible view) i of Some r \<Rightarrow> query_keeps query r | None \<Rightarrow> False);
          superseded = filter (\<lambda>s. keeps_id (su_old s) \<or> keeps_id (su_new s)) (vw_superseded view);
          cited = bset (kept @ concat (map (\<lambda>s. [su_old s, su_new s]) superseded) @
            List.map_filter (\<lambda>c. map_option sr_record_id (cu_last_fact c))
              (filter (\<lambda>c. sr_record_id (cu_record c) \<in> set kept) (vw_current view)))
      in \<lparr>pk_schema = PACKET_SCHEMA, pk_as_of_ms = t, pk_mode = mode, pk_query = query,
          pk_facts = List.map_filter (\<lambda>x. case x of RFact r \<Rightarrow> Some r | _ \<Rightarrow> None) out,
          pk_pending = List.map_filter (\<lambda>x. case x of RPending r \<Rightarrow> Some r | _ \<Rightarrow> None) out,
          pk_expired = List.map_filter (\<lambda>x. case x of RExpired r \<Rightarrow> Some r | _ \<Rightarrow> None) out,
          pk_withdrawn = List.map_filter (\<lambda>x. case x of RWithdrawn r \<Rightarrow> Some r | _ \<Rightarrow> None) out,
          pk_unparsed = List.map_filter (\<lambda>x. case x of RUnparsed r \<Rightarrow> Some r | _ \<Rightarrow> None) out,
          pk_superseded = superseded,
          pk_events = filter (\<lambda>e. er_event_key e \<in> set kept_events) (vw_events view),
          pk_conflicts = filter (\<lambda>c. cf_event_key c \<in> set kept_events) (vw_conflicts view),
          pk_issues = filter (\<lambda>i. is_record_id i \<in> set kept) (vw_issues view),
          pk_demand = demand_of view kept,
          pk_freshness = freshness_of input (vw_current view) query t,
          pk_citations = List.map_filter (\<lambda>i. map_option citation_of (map_of (vw_visible view) i)) cited,
          pk_inferences = [], pk_omitted = 0\<rparr>)"

definition packet_rows :: "evidence_packet \<Rightarrow> nat" where
  "packet_rows p = length (pk_facts p) + length (pk_pending p) + length (pk_expired p) +
     length (pk_withdrawn p) + length (pk_unparsed p)"

text \<open>Every current record of a packet with its visible instant, in the order the page lists them.\<close>

definition page_order :: "evidence_packet \<Rightarrow> (int \<times> string) list" where
  "page_order p = sort_key (\<lambda>(v, i). (- v, i))
     (map (\<lambda>f. (fr_visible_ms f, fr_record_id f)) (pk_facts p @ pk_pending p @ pk_expired p) @
      map (\<lambda>w. (wr_visible_ms w, wr_record_id w)) (pk_withdrawn p) @
      map (\<lambda>u. (ur_visible_ms u, ur_record_id u)) (pk_unparsed p))"

definition page :: "evidence_packet \<Rightarrow> nat \<Rightarrow> evidence_packet" where
  "page p limit =
     (if packet_rows p \<le> limit then p
      else
        let kept = map snd (take limit (page_order p));
            keep_rows = filter (\<lambda>f. fr_record_id f \<in> set kept);
            facts = keep_rows (pk_facts p); pending = keep_rows (pk_pending p); expired = keep_rows (pk_expired p);
            withdrawn = filter (\<lambda>w. wr_record_id w \<in> set kept) (pk_withdrawn p);
            unparsed = filter (\<lambda>u. ur_record_id u \<in> set kept) (pk_unparsed p);
            events_kept = map fr_event_key (facts @ pending @ expired) @ map wr_event_key withdrawn @
              map ur_event_key unparsed;
            superseded = filter (\<lambda>s. su_old s \<in> set kept \<or> su_new s \<in> set kept) (pk_superseded p);
            cited = kept @ concat (map (\<lambda>s. [su_old s, su_new s]) superseded) @
              List.map_filter wr_last_fact withdrawn @ List.map_filter ur_last_fact unparsed
        in p\<lparr>pk_facts := facts, pk_pending := pending, pk_expired := expired, pk_withdrawn := withdrawn,
             pk_unparsed := unparsed, pk_superseded := superseded,
             pk_events := filter (\<lambda>e. er_event_key e \<in> set events_kept) (pk_events p),
             pk_conflicts := filter (\<lambda>c. cf_event_key c \<in> set events_kept) (pk_conflicts p),
             pk_issues := filter (\<lambda>i. is_record_id i \<in> set kept) (pk_issues p),
             pk_citations := filter (\<lambda>c. ci_record_id c \<in> set cited) (pk_citations p),
             pk_omitted := pk_omitted p + (packet_rows p - limit)\<rparr>)"

section \<open>No look-ahead\<close>

definition base_key :: "source_record \<Rightarrow> int \<times> int \<times> string" where
  "base_key r = (sr_observed_ms r, sr_parsed_ms r, sr_record_id r)"

text \<open>
  What arrives after \<open>t\<close>: in the captured mode a record published, read or parsed after \<open>t\<close>, in the knowable mode
  one published after \<open>t\<close>. A record read again, and in the knowable mode another version of an item, was read no
  earlier than the one stored before.
\<close>

definition arrives_after :: "int \<Rightarrow> as_of_mode \<Rightarrow> source_record list \<Rightarrow> source_record \<Rightarrow> bool" where
  "arrives_after t mode rs r \<longleftrightarrow>
     list_all (\<lambda>e. sr_record_id e = sr_record_id r \<longrightarrow> read_order e \<le> read_order r) rs \<and>
     (case mode of
        Captured \<Rightarrow> t < max (max (sr_published_ms r) (sr_observed_ms r)) (sr_parsed_ms r)
      | Knowable \<Rightarrow> t < sr_published_ms r \<and>
          list_all (\<lambda>e. item_key e = item_key r \<longrightarrow> base_key e \<le> base_key r) rs)"

lemma min_by_in: "min_by key m xs \<in> set (m # xs)"
  by (induction xs arbitrary: m) auto

lemma min_by_le: "y \<in> set (m # xs) \<Longrightarrow> key (min_by key m xs) \<le> key y"
proof (induction xs arbitrary: m y)
  case (Cons x xs)
  define n where "n = (if key x < key m then x else m)"
  have n: "key n \<le> key x" "key n \<le> key m" by (auto simp: n_def)
  have "key (min_by key n xs) \<le> key n" "z \<in> set xs \<Longrightarrow> key (min_by key n xs) \<le> key z" for z
    using Cons.IH by auto
  with n Cons.prems show ?case by (auto simp flip: n_def intro: order_trans)
qed simp

lemma base_version_eq:
  assumes "vs \<noteq> []" "inj_on base_key (set ws)" "set vs \<subseteq> set ws"
    "\<And>w. w \<in> set ws \<Longrightarrow> w \<in> set vs \<or> (\<exists>v \<in> set vs. base_key v \<le> base_key w)"
  shows "base_version ws = base_version vs"
proof -
  have is_min: "base_version us \<in> set us \<and> (\<forall>u \<in> set us. base_key (base_version us) \<le> base_key u)"
    if "us \<noteq> []" for us
    using that min_by_in [of base_key "hd us" "tl us"] min_by_le [of _ "hd us" "tl us" base_key]
    unfolding base_version_def base_key_def [symmetric] by simp
  have "ws \<noteq> []" using assms(1,3) by auto
  note v = is_min [OF assms(1)] and w = is_min [OF this]
  have "base_key (base_version vs) \<le> base_key (base_version ws)"
    using assms(4) v w by (meson order_trans)
  moreover have "base_key (base_version ws) \<le> base_key (base_version vs)" using v w assms(3) by auto
  ultimately have "base_key (base_version ws) = base_key (base_version vs)" by (rule antisym [rotated])
  then show ?thesis using assms(2,3) v w by (auto dest: inj_onD)
qed

lemma dedup_inj: "inj_on base_key (set (map snd (dedup rs)))"
proof (rule inj_onI)
  fix x y assume "x \<in> set (map snd (dedup rs))" "y \<in> set (map snd (dedup rs))" "base_key x = base_key y"
  moreover from this(3) have "sr_record_id x = sr_record_id y" by (simp add: base_key_def)
  ultimately show "x = y" unfolding set_dedup by (metis option.inject)
qed

lemma visible_in_stable:
  assumes late: "list_all (arrives_after t mode rs) ls" and r: "r \<in> set (map snd (dedup rs))"
  shows "visible_in pol mode (map snd (dedup (rs @ ls))) r = visible_in pol mode (map snd (dedup rs)) r"
proof (cases mode)
  case Captured
  then show ?thesis by (simp add: visible_in_def visible_ms_def)
next
  case Knowable
  let ?D = "map snd (dedup rs)" and ?D' = "map snd (dedup (rs @ ls))"
  let ?vs = "filter (\<lambda>x. item_key x = item_key r) ?D" and ?ws = "filter (\<lambda>x. item_key x = item_key r) ?D'"
  have app: "map_of (dedup (rs @ ls)) i = (case map_of (dedup rs) i of Some e \<Rightarrow> Some e | None \<Rightarrow> map_of (dedup ls) i)" for i
    using late by (intro dedup_append) (auto simp: list_all_iff arrives_after_def)
  have mem: "x \<in> set ?D' \<Longrightarrow> x \<in> set ?D \<or> x \<in> set ls" for x
    using app [of "sr_record_id x"] dedup_SomeD [of ls "sr_record_id x" x] unfolding set_dedup
    by (cases "map_of (dedup rs) (sr_record_id x)") simp_all
  have sub: "set ?D \<subseteq> set ?D'"
    using app unfolding subset_iff set_dedup by simp
  have r_old: "r \<in> set rs" using r dedup_SomeD unfolding set_dedup by blast
  have "base_version ?ws = base_version ?vs"
  proof (rule base_version_eq)
    show "?vs \<noteq> []" using r by (auto simp: filter_empty_conv)
    show "inj_on base_key (set ?ws)" using dedup_inj [of "rs @ ls"] by (auto intro: inj_on_subset)
    show "set ?vs \<subseteq> set ?ws" using sub by auto
  next
    fix w assume "w \<in> set ?ws"
    then have k: "item_key w = item_key r" and "w \<in> set ?D \<or> w \<in> set ls" using mem by auto
    then show "w \<in> set ?vs \<or> (\<exists>v \<in> set ?vs. base_key v \<le> base_key w)"
      using late r r_old Knowable by (fastforce simp: list_all_iff arrives_after_def)
  qed
  then show ?thesis by (simp add: visible_in_def reads_base_def)
qed

lemma visible_in_late:
  assumes "arrives_after t mode rs r"
  shows "t < visible_in pol mode ds r"
  using assms by (cases mode) (auto simp: arrives_after_def visible_in_def visible_ms_def Let_def)

lemma seen_items_later:
  assumes "list_all (arrives_after t mode (in_records input)) ls"
  shows "seen_items (input\<lparr>in_records := in_records input @ ls, in_coverage := cv, in_purges := pu\<rparr>) t mode =
    seen_items input t mode"
proof -
  have "seen_items \<lparr>in_records = in_records input @ ls, in_coverage = cv, in_purges = pu, in_policies = in_policies input\<rparr> t mode =
      seen_items \<lparr>in_records = in_records input, in_coverage = in_coverage input, in_purges = in_purges input,
        in_policies = in_policies input\<rparr> t mode"
    using assms visible_in_stable [OF assms] visible_in_late
    by (intro seen_items_stable) (auto simp: list_all_iff arrives_after_def)
  then show ?thesis by (cases input) simp
qed

lemma newest_fetches_later:
  "list_all (\<lambda>c. t < cv_fetched_ms c) cs \<Longrightarrow> newest_fetches (cov @ cs) t = newest_fetches cov t"
  unfolding newest_fetches_def filter_append
  by (subst (2) filter_False) (auto simp: list_all_iff)

lemma source_freshness_later:
  assumes "list_all (\<lambda>c. t < cv_fetched_ms c) cs" "list_all (\<lambda>p. t < pu_purged_ms p) ps"
  shows "source_freshness (cov @ cs) (pur @ ps) cur t = source_freshness cov pur cur t"
proof -
  have "filter (\<lambda>c. cv_source_id c = s \<and> cv_fetched_ms c \<le> t) cs = []" "filter (\<lambda>p. pu_source_id p = s \<and> pu_purged_ms p \<le> t) ps = []" for s
    using assms by (auto simp: list_all_iff filter_empty_conv)
  then show ?thesis by (intro ext) (simp add: source_freshness_def)
qed

lemma freshness_later:
  assumes "list_all (\<lambda>c. t < cv_fetched_ms c) cs" "list_all (\<lambda>p. t < pu_purged_ms p) ps"
  shows "freshness_of (input\<lparr>in_records := rs, in_coverage := in_coverage input @ cs, in_purges := in_purges input @ ps\<rparr>) cur query t =
    freshness_of input cur query t"
proof -
  have "filter (\<lambda>c. cv_fetched_ms c \<le> t) cs = []" "filter (\<lambda>p. pu_purged_ms p \<le> t) ps = []"
    using assms by (auto simp: list_all_iff filter_empty_conv)
  then show ?thesis by (simp add: freshness_of_def source_freshness_later [OF assms] cong: option.case_cong)
qed

section \<open>A store\<close>

text \<open>A filing read at 20 and parsed at 25, and an edit of it read at 60.\<close>

definition sample_filing :: source_record where
  "sample_filing =
     \<lparr>sr_schema = RECORD_SCHEMA, sr_record_id = ''sec:a1:h1'', sr_source_id = ''sec'', sr_source_class = LawRegulator,
      sr_trust = Primary, sr_native_id = ''a1'', sr_event_key = ''sec:filing:a1'', sr_entities = [],
      sr_url = ''https://sec/a1'', sr_published_ms = 10, sr_observed_ms = 20, sr_parsed_ms = 25,
      sr_valid_from_ms = 10, sr_valid_until_ms = None, sr_jurisdiction = ''US'', sr_language = ''en'',
      sr_currency = None, sr_content_hash = ''h1'', sr_snapshots = [''s1''], sr_parser_version = ''sec/1'',
      sr_license_or_terms = ''public'', sr_terms_sha256 = ''t'', sr_access_method = HttpGet, sr_parse = ParseOk,
      sr_parse_errors = [],
      sr_fact = SecFiling \<lparr>sf_cik = ''0000000001'', sf_form = ''8-K'', sf_items = [], sf_title = ''t''\<rparr>,
      sr_supersedes = None, sr_origin = None\<rparr>"

definition sample_edit :: source_record where
  "sample_edit = sample_filing\<lparr>sr_record_id := ''sec:a1:h2'', sr_content_hash := ''h2'', sr_published_ms := 55,
     sr_observed_ms := 60, sr_parsed_ms := 61, sr_snapshots := [''s2'']\<rparr>"

definition sample_input :: as_of_input where
  "sample_input = \<lparr>in_records = [sample_filing], in_coverage = [], in_purges = [],
     in_policies = [(''sec'', \<lparr>sp_revision = Immutable, sp_listing_max_age_ms = None\<rparr>)]\<rparr>"

text \<open>A query without filters.\<close>

definition no_filter :: as_of_query where
  "no_filter = \<lparr>q_source = None, q_entity = None, q_event_key = None, q_published_from_ms = None, q_published_to_ms = None\<rparr>"

lemma query_keeps_no_filter [simp]: "query_keeps no_filter r"
  by (simp add: query_keeps_def no_filter_def)

text \<open>
  C4: an evidence packet never looks ahead. Records, fetches and purge tombstones that arrive after \<open>t\<close> leave the
  packet at \<open>t\<close> unchanged. A fetch or a tombstone arrives after \<open>t\<close> by its own time. A record does, in the captured
  mode, when it was published, read or parsed after \<open>t\<close>, and, in the knowable mode, when it was published after \<open>t\<close>
  and is no earlier read than the stored versions of its item; in both, a record stored before is read again no
  earlier. The knowable mode promises no more: a reparse or a late first read of something published by \<open>t\<close> may
  change its packet at \<open>t\<close>.
\<close>

theorem packet_never_looks_ahead:
  assumes "list_all (arrives_after t mode (in_records input)) later"
    and "list_all (\<lambda>c. t < cv_fetched_ms c) fetches" and "list_all (\<lambda>p. t < pu_purged_ms p) tombstones"
  shows "packet_build (input\<lparr>in_records := in_records input @ later, in_coverage := in_coverage input @ fetches,
      in_purges := in_purges input @ tombstones\<rparr>) t mode query = packet_build input t mode query"
proof -
  have "as_of (input\<lparr>in_records := in_records input @ later, in_coverage := in_coverage input @ fetches,
      in_purges := in_purges input @ tombstones\<rparr>) t mode = as_of input t mode"
    unfolding as_of_def seen_items_later [OF assms(1)] by (simp add: newest_fetches_later [OF assms(2)])
  then show ?thesis unfolding packet_build_def freshness_later [OF assms(2,3)] by simp
qed

theorem packet_never_looks_ahead_witness:
  "list_all (arrives_after 30 Captured (in_records sample_input)) [sample_edit] \<and>
   packet_build (sample_input\<lparr>in_records := in_records sample_input @ [sample_edit],
     in_coverage := in_coverage sample_input @ [], in_purges := in_purges sample_input @ []\<rparr>) 30 Captured no_filter =
   packet_build sample_input 30 Captured no_filter"
proof -
  have "list_all (arrives_after 30 Captured (in_records sample_input)) [sample_edit]" by code_simp
  from this packet_never_looks_ahead [OF this, of "[]" "[]" no_filter] show ?thesis by simp
qed

end
