(* ===== verification/Soe_Observe.thy ===== *)
theory Soe_Observe
  imports Source_Packet Soe_Gates
begin

text \<open>
  Observation: \<open>src/src/domain/soe/observe.rs\<close>, the step from an evidence packet to the index the stages cite and the
  views the gates read. Shown here: what supports a candidate is sound evidence of the view.
\<close>

section \<open>The evidence index\<close>

record evidence_ref =
  ef_record_id :: string
  ef_event_key :: string
  ef_source_id :: string
  ef_source_class :: "source_class option"
  ef_trust :: "trust option"
  ef_state :: record_state
  ef_url :: string
  ef_published_ms :: "int option"
  ef_observed_ms :: int
  ef_visible_ms :: int
  ef_origin :: "string option"
  ef_confidence :: confidence
  ef_confirmations :: nat

record evidence_index =
  ix_as_of_ms :: int
  ix_refs :: "(string \<times> evidence_ref) list"

text \<open>The maps over the citations and the events of the packet (a later entry of a key wins).\<close>

definition cited_url :: "evidence_packet \<Rightarrow> string \<Rightarrow> string" where
  "cited_url p i =
     (case map_of (bm_of (map (\<lambda>c. (ci_record_id c, ci_url c)) (pk_citations p))) i of Some u \<Rightarrow> u | None \<Rightarrow> [])"

definition event_grade :: "evidence_packet \<Rightarrow> string \<Rightarrow> confidence \<times> nat" where
  "event_grade p key =
     (case map_of (bm_of (map (\<lambda>e. (er_event_key e, (er_confidence e, length (er_origins e)))) (pk_events p))) key of
        Some g \<Rightarrow> g | None \<Rightarrow> (CNone, 0))"

definition typed_ref :: "evidence_packet \<Rightarrow> record_state \<Rightarrow> fact_row \<Rightarrow> evidence_ref" where
  "typed_ref p state r =
     \<lparr>ef_record_id = fr_record_id r, ef_event_key = fr_event_key r, ef_source_id = fr_source_id r,
      ef_source_class = Some (fr_source_class r), ef_trust = Some (fr_trust r), ef_state = state,
      ef_url = cited_url p (fr_record_id r), ef_published_ms = Some (fr_published_ms r),
      ef_observed_ms = fr_observed_ms r, ef_visible_ms = fr_visible_ms r,
      ef_origin = map_option og_source_id (fr_origin r),
      ef_confidence = fst (event_grade p (fr_event_key r)),
      ef_confirmations = snd (event_grade p (fr_event_key r))\<rparr>"

definition untyped_ref ::
  "evidence_packet \<Rightarrow> record_state \<Rightarrow> string \<Rightarrow> string \<Rightarrow> string \<Rightarrow> int \<Rightarrow> int \<Rightarrow> evidence_ref" where
  "untyped_ref p state i event_key source_id obs vis =
     \<lparr>ef_record_id = i, ef_event_key = event_key, ef_source_id = source_id, ef_source_class = None,
      ef_trust = None, ef_state = state, ef_url = cited_url p i, ef_published_ms = None,
      ef_observed_ms = obs, ef_visible_ms = vis, ef_origin = None,
      ef_confidence = fst (event_grade p event_key), ef_confirmations = snd (event_grade p event_key)\<rparr>"

definition packet_refs :: "evidence_packet \<Rightarrow> evidence_ref list" where
  "packet_refs p =
     map (typed_ref p InForce) (pk_facts p) @ map (typed_ref p Pending) (pk_pending p) @
     map (typed_ref p Expired) (pk_expired p) @
     map (\<lambda>w. untyped_ref p SWithdrawn (wr_record_id w) (wr_event_key w) (wr_source_id w)
       (wr_observed_ms w) (wr_visible_ms w)) (pk_withdrawn p) @
     map (\<lambda>u. untyped_ref p SUnparsed (ur_record_id u) (ur_event_key u) (ur_source_id u)
       (ur_observed_ms u) (ur_visible_ms u)) (pk_unparsed p)"

definition evidence_index_of :: "evidence_packet \<Rightarrow> evidence_index" where
  "evidence_index_of p =
     \<lparr>ix_as_of_ms = pk_as_of_ms p, ix_refs = bm_of (map (\<lambda>r. (ef_record_id r, r)) (packet_refs p))\<rparr>"

definition index_get :: "evidence_index \<Rightarrow> string \<Rightarrow> evidence_ref option" where
  "index_get ix i = map_of (ix_refs ix) i"

definition index_contains :: "evidence_index \<Rightarrow> string \<Rightarrow> bool" where
  "index_contains ix i \<longleftrightarrow> index_get ix i \<noteq> None"

section \<open>Views\<close>

definition kind_of :: "fact_row \<Rightarrow> string list \<Rightarrow> (string \<times> confidence) list \<Rightarrow> cited_kind" where
  "kind_of r flagged events =
     (if fr_trust r = TriggerOnly \<or> fr_record_id r \<in> set flagged then Trigger
      else if fr_source_class r = CustomerDemand then Demand
      else case map_of events (fr_event_key r) of
        Some c \<Rightarrow> if c = Confirmed \<or> c = Corroborated then Fact else Trigger
      | None \<Rightarrow> Trigger)"

text \<open>When a conflict became visible: the latest of its records, if the packet lists all of them.\<close>

definition conflict_at :: "(string \<times> int) list \<Rightarrow> conflict \<Rightarrow> int option" where
  "conflict_at visible c =
     (let at = map (map_of visible) (cf_record_ids c)
      in if at = [] \<or> None \<in> set at then None else Some (Max (set (map the at))))"

definition contradict :: "(string \<times> int) list \<Rightarrow> conflict \<Rightarrow> (string \<times> int) list \<Rightarrow> (string \<times> int) list" where
  "contradict visible c m =
     (case conflict_at visible c of
        None \<Rightarrow> m
      | Some at \<Rightarrow> fold (\<lambda>i. bm_upd i (\<lambda>old. case old of None \<Rightarrow> at | Some e \<Rightarrow> min e at)) (cf_record_ids c) m)"

definition contradictions :: "evidence_packet \<Rightarrow> (string \<times> int) list" where
  "contradictions p =
     (let visible = bm_of (map (\<lambda>r. (fr_record_id r, fr_visible_ms r)) (pk_facts p @ pk_pending p @ pk_expired p))
      in fold (contradict visible) (pk_conflicts p) [])"

definition packet_view :: "evidence_packet \<Rightarrow> fact_row \<Rightarrow> cited_record" where
  "packet_view p r =
     \<lparr>cr_record_id = fr_record_id r, cr_event_key = fr_event_key r,
      cr_kind = kind_of r (map is_record_id (pk_issues p))
        (bm_of (map (\<lambda>e. (er_event_key e, er_confidence e)) (pk_events p))),
      cr_knowable_at = At (fr_visible_ms r), cr_valid_until = map_option At (fr_valid_until_ms r),
      cr_contradicted_at = map_option At (map_of (contradictions p) (fr_record_id r))\<rparr>"

definition packet_views :: "evidence_packet \<Rightarrow> cited_record list" where
  "packet_views p = sort_key cr_record_id (map (packet_view p) (pk_facts p @ pk_expired p))"

section \<open>What supports a candidate\<close>

lemma seen_items_visible:
  assumes "seen \<in> set (seen_items input t mode)"
  shows "seen \<noteq> [] \<and> (\<forall>(r, v) \<in> set seen. v \<le> t)"
proof -
  have nil: "sort_key k xs = [] \<longleftrightarrow> xs = []" for k :: "'b \<Rightarrow> 'c::linorder" and xs
    by (metis set_empty set_sort)
  show ?thesis using assms by (auto simp: seen_items_def nil)
qed

lemma current_view:
  assumes "c \<in> set (vw_current (as_of input t mode))"
  shows "cu_visible_ms c \<le> t \<and> cu_state c = state_of (cu_record c) t"
proof -
  obtain seen where seen: "seen \<in> set (seen_items input t mode)" "c = current_of seen t"
    using assms by (auto simp: as_of_def view_of_def Let_def)
  then have "last seen \<in> set seen" using seen_items_visible by simp
  then have "snd (last seen) \<le> t" using seen_items_visible [OF seen(1)] by fastforce
  then show ?thesis by (simp add: seen(2) current_of_def split_def Let_def)
qed

lemma in_map_filter: "y \<in> set (List.map_filter f xs) \<longleftrightarrow> (\<exists>x \<in> set xs. f x = Some y)"
  by (force simp: List.map_filter_def)

lemma stated_values_rows: "(i, v) \<in> set (stated_values n rows) \<Longrightarrow> \<exists>r \<in> set rows. sr_record_id r = i"
  by (auto simp: stated_values_def in_map_filter)

lemma group_conflicts_rows:
  assumes "f \<in> set (group_conflicts (k, rows))"
  shows "cf_event_key f = fst k \<and> rows \<noteq> [] \<and> (\<forall>i \<in> set (cf_record_ids f). \<exists>r \<in> set rows. sr_record_id r = i)"
  using assms
  by (cases k) (auto simp: group_conflicts_def in_map_filter Let_def split: if_splits dest!: stated_values_rows; blast)

lemma conflict_rows_group:
  assumes "f \<in> set (conflict_rows cur)"
  obtains k rows where "f \<in> set (group_conflicts (k, rows))"
    "\<And>r. r \<in> set rows \<Longrightarrow> \<exists>c \<in> set cur. state_is_typed (cu_state c) \<and> cu_record c = r \<and> sr_event_key r = fst k"
proof -
  let ?rs = "map cu_record (filter (\<lambda>c. state_is_typed (cu_state c)) cur)"
  obtain g where g: "g \<in> set (bm_group (\<lambda>r. (sr_event_key r, fact_stage (sr_fact r))) ?rs)"
    and f: "f \<in> set (group_conflicts g)"
    using assms by (force simp: conflict_rows_def)
  obtain k rows where kr: "g = (k, rows)" by (cases g)
  have "\<exists>c \<in> set cur. state_is_typed (cu_state c) \<and> cu_record c = r \<and> sr_event_key r = fst k" if "r \<in> set rows" for r
    using g that unfolding kr by (auto simp: bm_group_eq)
  with f that show ?thesis unfolding kr by blast
qed

lemma conflict_rows_typed:
  assumes "f \<in> set (conflict_rows cur)"
  shows "(\<forall>i \<in> set (cf_record_ids f). \<exists>c \<in> set cur. state_is_typed (cu_state c) \<and> sr_record_id (cu_record c) = i) \<and>
    cf_event_key f \<in> (sr_event_key \<circ> cu_record) ` set cur"
proof -
  obtain k rows where f: "f \<in> set (group_conflicts (k, rows))"
    and rows: "\<And>r. r \<in> set rows \<Longrightarrow> \<exists>c \<in> set cur. state_is_typed (cu_state c) \<and> cu_record c = r \<and> sr_event_key r = fst k"
    using conflict_rows_group [OF assms] by blast
  note g = group_conflicts_rows [OF f]
  have "hd rows \<in> set rows" using g by simp
  with g rows [of "hd rows"] have "cf_event_key f \<in> (sr_event_key \<circ> cu_record) ` set cur" by force
  with g rows show ?thesis by blast
qed

lemma map_of_contradict_fold:
  assumes "bm_ok m"
  shows "bm_ok (fold (\<lambda>i. bm_upd i (\<lambda>old. case old of None \<Rightarrow> at | Some e \<Rightarrow> min e at)) ks m) \<and>
    map_of (fold (\<lambda>i. bm_upd i (\<lambda>old. case old of None \<Rightarrow> at | Some e \<Rightarrow> min e at)) ks m) j =
      (if j \<in> set ks then Some (case map_of m j of None \<Rightarrow> at | Some e \<Rightarrow> min e (at::int)) else map_of m j)"
  using assms by (induction ks arbitrary: m) (auto split: option.splits)

lemma contradict_keeps:
  assumes "bm_ok m"
  shows "bm_ok (contradict visible c m) \<and>
    (\<forall>j e. map_of m j = Some e \<longrightarrow> (\<exists>e' \<le> e. map_of (contradict visible c m) j = Some e')) \<and>
    (\<forall>at j. conflict_at visible c = Some at \<longrightarrow> j \<in> set (cf_record_ids c) \<longrightarrow>
       (\<exists>e \<le> at. map_of (contradict visible c m) j = Some e))"
  using assms map_of_contradict_fold [OF assms]
  by (auto simp: contradict_def split: option.splits)

lemma contradictions_fold:
  assumes "bm_ok m"
  shows "(\<forall>j e. map_of m j = Some e \<longrightarrow> (\<exists>e' \<le> e. map_of (fold (contradict visible) cs m) j = Some e')) \<and>
    (\<forall>c at j. c \<in> set cs \<longrightarrow> conflict_at visible c = Some at \<longrightarrow> j \<in> set (cf_record_ids c) \<longrightarrow>
       (\<exists>e \<le> at. map_of (fold (contradict visible) cs m) j = Some e))"
  using assms
proof (induction cs arbitrary: m)
  case (Cons c cs)
  note k = contradict_keeps [OF Cons.prems, of visible c]
  note ih = Cons.IH [of "contradict visible c m"]
  show ?case
  proof (intro conjI allI impI)
    fix j e assume "map_of m j = Some e"
    then show "\<exists>e' \<le> e. map_of (fold (contradict visible) (c # cs) m) j = Some e'"
      using k ih by (auto dest!: spec [of _ j])
  next
    fix d at j assume d: "d \<in> set (c # cs)" "conflict_at visible d = Some at" "j \<in> set (cf_record_ids d)"
    show "\<exists>e \<le> at. map_of (fold (contradict visible) (c # cs) m) j = Some e"
    proof (cases "d = c")
      case True
      then obtain e where "e \<le> at" "map_of (contradict visible c m) j = Some e" using k d by blast
      moreover then obtain e' where "e' \<le> e" "map_of (fold (contradict visible) cs (contradict visible c m)) j = Some e'"
        using k ih by blast
      ultimately show ?thesis by (auto intro: order_trans)
    next
      case False
      then show ?thesis using d k ih by auto
    qed
  qed
qed simp

lemma conflict_at_bound:
  assumes "cf_record_ids f \<noteq> []" "\<And>i. i \<in> set (cf_record_ids f) \<Longrightarrow> \<exists>v \<le> t. map_of visible i = Some v"
  shows "\<exists>at \<le> t. conflict_at visible f = Some at"
proof -
  have "None \<notin> set (map (map_of visible) (cf_record_ids f))" using assms(2) by fastforce
  moreover have "Max (set (map the (map (map_of visible) (cf_record_ids f)))) \<le> t"
    using assms by (subst Max_le_iff) fastforce+
  ultimately show ?thesis using assms(1) by (auto simp: conflict_at_def Let_def)
qed

text \<open>The rows of an unfiltered packet are the current records of the view.\<close>

lemma packet_row_kinds:
  "packet_row_of c = RFact r \<longleftrightarrow> cu_state c = InForce \<and> r = fact_row_of c"
  "packet_row_of c = RPending r \<longleftrightarrow> cu_state c = Pending \<and> r = fact_row_of c"
  "packet_row_of c = RExpired r \<longleftrightarrow> cu_state c = Expired \<and> r = fact_row_of c"
  by (auto simp: packet_row_of_def split: record_state.splits source_fact.splits)

lemma packet_parts:
  "pk_facts (packet_build input t mode no_filter) = map fact_row_of (filter (\<lambda>c. cu_state c = InForce) (vw_current (as_of input t mode)))"
  "pk_pending (packet_build input t mode no_filter) = map fact_row_of (filter (\<lambda>c. cu_state c = Pending) (vw_current (as_of input t mode)))"
  "pk_expired (packet_build input t mode no_filter) = map fact_row_of (filter (\<lambda>c. cu_state c = Expired) (vw_current (as_of input t mode)))"
proof -
  have "List.map_filter (\<lambda>x. case x of RFact r \<Rightarrow> Some r | _ \<Rightarrow> None) (map packet_row_of cs) =
      map fact_row_of (filter (\<lambda>c. cu_state c = InForce) cs)"
    "List.map_filter (\<lambda>x. case x of RPending r \<Rightarrow> Some r | _ \<Rightarrow> None) (map packet_row_of cs) =
      map fact_row_of (filter (\<lambda>c. cu_state c = Pending) cs)"
    "List.map_filter (\<lambda>x. case x of RExpired r \<Rightarrow> Some r | _ \<Rightarrow> None) (map packet_row_of cs) =
      map fact_row_of (filter (\<lambda>c. cu_state c = Expired) cs)" for cs
    by (induction cs) (auto simp: List.map_filter_def packet_row_of_def split: record_state.splits source_fact.splits)
  then show
    "pk_facts (packet_build input t mode no_filter) = map fact_row_of (filter (\<lambda>c. cu_state c = InForce) (vw_current (as_of input t mode)))"
    "pk_pending (packet_build input t mode no_filter) = map fact_row_of (filter (\<lambda>c. cu_state c = Pending) (vw_current (as_of input t mode)))"
    "pk_expired (packet_build input t mode no_filter) = map fact_row_of (filter (\<lambda>c. cu_state c = Expired) (vw_current (as_of input t mode)))"
    by (simp_all add: packet_build_def Let_def)
qed

lemma packet_events: "pk_events (packet_build input t mode query) = filter (\<lambda>e. er_event_key e \<in>
    (sr_event_key \<circ> cu_record) ` set (filter (\<lambda>c. query_keeps query (cu_record c)) (vw_current (as_of input t mode))))
    (vw_events (as_of input t mode))"
  by (simp add: packet_build_def Let_def)

lemma bm_of_bound:
  assumes "k \<in> fst ` set kvs" "\<And>a b. (a, b) \<in> set kvs \<Longrightarrow> P b"
  shows "\<exists>v. P v \<and> map_of (bm_of kvs) k = Some v"
proof -
  have "map_of (rev kvs) k \<noteq> None" using assms(1) by (auto simp: map_of_eq_None_iff)
  then obtain v where "map_of (rev kvs) k = Some v" by auto
  moreover then have "(k, v) \<in> set kvs" by (auto dest: map_of_SomeD)
  ultimately show ?thesis using assms(2) by (auto simp: map_of_bm_of)
qed

lemma packet_contradicts:
  fixes input t mode
  defines "p \<equiv> packet_build input t mode no_filter"
  assumes f: "f \<in> set (vw_conflicts (as_of input t mode))" and i: "i \<in> set (cf_record_ids f)"
  shows "\<exists>e \<le> t. map_of (contradictions p) i = Some e"
proof -
  let ?cur = "vw_current (as_of input t mode)"
  let ?vis = "bm_of (map (\<lambda>r. (fr_record_id r, fr_visible_ms r)) (pk_facts p @ pk_pending p @ pk_expired p))"
  have cur: "f \<in> set (conflict_rows ?cur)" using f by (simp add: as_of_def view_of_def Let_def)
  have "\<exists>v \<le> t. map_of ?vis j = Some v" if "j \<in> set (cf_record_ids f)" for j
  proof (rule bm_of_bound)
    obtain c where "c \<in> set ?cur" "state_is_typed (cu_state c)" "sr_record_id (cu_record c) = j"
      using conflict_rows_typed [OF cur] \<open>j \<in> _\<close> by blast
    then show "j \<in> fst ` set (map (\<lambda>r. (fr_record_id r, fr_visible_ms r)) (pk_facts p @ pk_pending p @ pk_expired p))"
      by (force simp: p_def packet_parts state_is_typed_def fact_row_of_def Let_def image_image)
  next
    fix a b assume "(a, b) \<in> set (map (\<lambda>r. (fr_record_id r, fr_visible_ms r)) (pk_facts p @ pk_pending p @ pk_expired p))"
    then show "b \<le> t" using current_view by (auto simp: p_def packet_parts fact_row_of_def Let_def)
  qed
  then obtain at where at: "at \<le> t" "conflict_at ?vis f = Some at"
    using conflict_at_bound [of f t ?vis] length_pos_if_in_set [OF i] by auto
  have ev: "cf_event_key f \<in> (sr_event_key \<circ> cu_record) ` set ?cur"
    using conflict_rows_typed [OF cur] by blast
  then have "f \<in> set (pk_conflicts p)" using f by (simp add: p_def packet_build_def Let_def)
  then show ?thesis
    using contradictions_fold [of "[]" ?vis "pk_conflicts p"] at i
    unfolding contradictions_def Let_def by (meson bm_ok_Nil order_trans)
qed


lemma image_filter_mem: "i \<in> A \<Longrightarrow> i \<in> f ` {x \<in> S. f x \<in> A} \<longleftrightarrow> i \<in> f ` S"
  by blast

lemma packet_issue_ids:
  "i \<in> (sr_record_id \<circ> cu_record) ` set (vw_current (as_of input t mode)) \<Longrightarrow>
   i \<in> is_record_id ` set (pk_issues (packet_build input t mode no_filter)) \<longleftrightarrow>
   i \<in> is_record_id ` set (vw_issues (as_of input t mode))"
  using image_filter_mem [of i _ is_record_id "set (vw_issues (as_of input t mode))"]
  by (simp add: packet_build_def Let_def)

lemma kind_of_supported:
  assumes "kind_of r flagged (bm_of (map (\<lambda>e. (er_event_key e, er_confidence e)) es)) \<noteq> Trigger"
  shows "fr_trust r \<noteq> TriggerOnly \<and> fr_record_id r \<notin> set flagged \<and>
    (fr_source_class r = CustomerDemand \<or>
     (\<exists>e \<in> set es. er_event_key e = fr_event_key r \<and> er_confidence e \<in> {Confirmed, Corroborated}))"
  using assms
  by (auto simp: kind_of_def map_of_bm_of split: if_splits option.splits dest!: map_of_SomeD; metis)

text \<open>What a current record that supports a candidate at \<open>t\<close> is.\<close>

definition sound_support :: "as_of_view \<Rightarrow> int \<Rightarrow> current \<Rightarrow> bool" where
  "sound_support view t c \<longleftrightarrow>
     (let r = cu_record c
      in cu_state c = InForce \<and> cu_visible_ms c \<le> t \<and> sr_trust r \<noteq> TriggerOnly \<and>
         sr_record_id r \<notin> is_record_id ` set (vw_issues view) \<and>
         list_all (\<lambda>f. sr_record_id r \<notin> set (cf_record_ids f)) (vw_conflicts view) \<and>
         (sr_source_class r = CustomerDemand \<or>
          list_ex (\<lambda>e. er_event_key e = sr_event_key r \<and> er_confidence e \<in> {Confirmed, Corroborated}) (vw_events view)))"

lemma view_sound:
  assumes v: "v \<in> set (packet_views (packet_build input t mode no_filter))" and s: "supports v (At t)"
  shows "\<exists>c \<in> set (vw_current (as_of input t mode)). sr_record_id (cu_record c) = cr_record_id v \<and>
    sound_support (as_of input t mode) t c"
proof -
  let ?p = "packet_build input t mode no_filter" and ?w = "as_of input t mode"
  obtain c where c: "c \<in> set (vw_current ?w)" "cu_state c = InForce \<or> cu_state c = Expired"
    and v: "v = packet_view ?p (fact_row_of c)"
    using v by (auto simp: packet_views_def packet_parts)
  note cv = current_view [OF c(1)]
  have "cu_state c = InForce"
  proof (rule ccontr)
    assume "cu_state c \<noteq> InForce"
    then have "state_of (cu_record c) t = Expired" using c cv by simp
    then obtain u where "sr_valid_until_ms (cu_record c) = Some u" "u \<le> t"
      by (auto simp: state_of_def split: source_fact.splits if_splits option.splits)
    then show False using s by (simp add: supports_def fresh_def v packet_view_def fact_row_of_def Let_def)
  qed
  moreover have "list_all (\<lambda>f. sr_record_id (cu_record c) \<notin> set (cf_record_ids f)) (vw_conflicts ?w)"
  proof (rule ccontr)
    assume "\<not> ?thesis"
    then obtain f where "f \<in> set (vw_conflicts ?w)" "sr_record_id (cu_record c) \<in> set (cf_record_ids f)"
      by (auto simp: list_all_iff)
    then obtain e where "e \<le> t" "map_of (contradictions ?p) (sr_record_id (cu_record c)) = Some e"
      using packet_contradicts by blast
    then show False using s
      by (simp add: supports_def contradicted_def v packet_view_def fact_row_of_def Let_def torder_def)
  qed
  moreover have "sr_trust (cu_record c) \<noteq> TriggerOnly \<and> sr_record_id (cu_record c) \<notin> is_record_id ` set (vw_issues ?w) \<and>
      (sr_source_class (cu_record c) = CustomerDemand \<or> (\<exists>e \<in> set (vw_events ?w).
        er_event_key e = sr_event_key (cu_record c) \<and> er_confidence e \<in> {Confirmed, Corroborated}))"
  proof -
    have "cr_kind v \<noteq> Trigger" using s by (simp add: supports_def)
    then have "kind_of (fact_row_of c) (map is_record_id (pk_issues ?p))
        (bm_of (map (\<lambda>e. (er_event_key e, er_confidence e)) (pk_events ?p))) \<noteq> Trigger"
      by (simp add: v packet_view_def)
    note k = kind_of_supported [OF this]
    have "sr_record_id (cu_record c) \<in> (sr_record_id \<circ> cu_record) ` set (vw_current ?w)" using c(1) by auto
    note i = packet_issue_ids [OF this]
    have "set (pk_events ?p) \<subseteq> set (vw_events ?w)" by (auto simp: packet_events)
    with k i show ?thesis by (auto simp: fact_row_of_def Let_def)
  qed
  ultimately have "sound_support ?w t c" using cv by (auto simp: sound_support_def Let_def list_ex_iff)
  moreover have "cr_record_id v = sr_record_id (cu_record c)"
    by (simp add: v packet_view_def fact_row_of_def Let_def)
  ultimately show ?thesis using c(1) by auto
qed

section \<open>Views of a store\<close>

lemma sample_seen: "seen_items sample_input 30 Captured = [[(sample_filing, 25)]]"
  by code_simp

lemma sample_view:
  "as_of sample_input 30 Captured =
     \<lparr>vw_at_ms = 30, vw_mode = Captured,
      vw_current = [\<lparr>cu_record = sample_filing, cu_visible_ms = 25, cu_state = InForce, cu_last_fact = None\<rparr>],
      vw_superseded = [], vw_issues = [],
      vw_events = [\<lparr>er_event_key = ''sec:filing:a1'', er_confidence = Confirmed, er_primary = 1,
        er_origins = [''sec''], er_records = [''sec:a1:h1'']\<rparr>],
      vw_conflicts = [], vw_visible = [(''sec:a1:h1'', sample_filing)]\<rparr>"
  unfolding as_of_def sample_seen by code_simp

definition filing_cited :: cited_record where
  "filing_cited = \<lparr>cr_record_id = ''sec:a1:h1'', cr_event_key = ''sec:filing:a1'', cr_kind = Fact,
     cr_knowable_at = At 25, cr_valid_until = None, cr_contradicted_at = None\<rparr>"

lemma sample_views: "packet_views (packet_build sample_input 30 Captured no_filter) = [filing_cited]"
proof -
  let ?p = "packet_build sample_input 30 Captured no_filter"
  let ?c = "\<lparr>cu_record = sample_filing, cu_visible_ms = 25, cu_state = InForce, cu_last_fact = None\<rparr>"
  have f: "pk_facts ?p = [fact_row_of ?c]" "pk_expired ?p = []" by (simp_all add: packet_parts sample_view)
  have e: "pk_events ?p = vw_events (as_of sample_input 30 Captured)" "pk_issues ?p = []" "pk_conflicts ?p = []"
    by (simp_all add: packet_build_def Let_def sample_view sample_filing_def)
  have "packet_view ?p (fact_row_of ?c) = filing_cited"
    unfolding packet_view_def e sample_view contradictions_def as_of_view.simps Let_def by code_simp
  then show ?thesis by (simp add: packet_views_def f)
qed

text \<open>
  C9: what supports a candidate is sound evidence. At the time of a packet, a cited view supports a candidate only
  if it is the current version of a record in force, visible by then, not a trigger, without a broken rule, in no
  conflict, and either demand or of an event that a primary source or two independent origins establish.
\<close>

theorem supporting_evidence_sound:
  assumes "v \<in> set (packet_views (packet_build input t mode no_filter))" and "supports v (At t)"
  shows "\<exists>c \<in> set (vw_current (as_of input t mode)). sr_record_id (cu_record c) = cr_record_id v \<and>
    sound_support (as_of input t mode) t c"
  using view_sound [OF assms] .

theorem supporting_evidence_sound_witness:
  "filing_cited \<in> set (packet_views (packet_build sample_input 30 Captured no_filter)) \<and> supports filing_cited (At 30) \<and>
   (\<exists>c \<in> set (vw_current (as_of sample_input 30 Captured)). sr_record_id (cu_record c) = ''sec:a1:h1'' \<and>
      sound_support (as_of sample_input 30 Captured) 30 c)"
proof -
  have m: "filing_cited \<in> set (packet_views (packet_build sample_input 30 Captured no_filter))"
    by (simp add: sample_views)
  moreover have s: "supports filing_cited (At 30)" by code_simp
  moreover note supporting_evidence_sound [OF m s]
  ultimately show ?thesis by (simp add: filing_cited_def)
qed

end
