(* ===== verification/Soe_Challenge.thy ===== *)
theory Soe_Challenge
  imports Soe_Observe Soe_Forecast
begin

text \<open>
  What the models write: proposals (\<open>src/src/domain/soe/proposal.rs\<close>) and challenges
  (\<open>src/src/domain/soe/challenge.rs\<close>), their checks against the evidence of the cycle, and the merge of the challenges of
  one candidate. The three value types of an input (\<open>u32\<close>, \<open>Bps\<close>, \<open>Minor\<close>) are \<open>int\<close> here, so the generic functions of
  the source take the parser and the printer of the type as arguments. A JSON value is a datatype, and the parser of
  \<open>serde_json\<close> and the shapes it reads are arguments.
\<close>

section \<open>What a model may not write\<close>

definition COMPUTED_KEYS :: "string list" where
  "COMPUTED_KEYS =
     [''monthly_revenue_collected'', ''monthly_cash_contribution'', ''owner_time_cost'', ''time_adjusted_contribution'',
      ''initial_capital'', ''payback'', ''payback_time_adjusted'', ''expected_loss'', ''scenarios'', ''occupied_months'',
      ''run_rate_month'', ''economics_version'', ''inputs_sha256'', ''verdict'', ''gates'', ''failures'',
      ''next_information'', ''rank'', ''keys'', ''fit'', ''evidence_confidence'', ''confidence'', ''confirmations'',
      ''action'', ''allocation'', ''provenance'', ''proposed_at'', ''call_id'', ''model'', ''engine'', ''generation'',
      ''skill_sha256'', ''cycle_id'']"

text \<open>\<open>serde_json::Value\<close>; a number is its text.\<close>

datatype json = JNull | JBool bool | JNumber string | JString string | JArray "json list" | JObject "(string \<times> json) list"

fun computed_walk :: "json \<Rightarrow> string \<Rightarrow> problem list"
  and walk_fields :: "(string \<times> json) list \<Rightarrow> string \<Rightarrow> problem list"
  and walk_items :: "json list \<Rightarrow> nat \<Rightarrow> string \<Rightarrow> problem list" where
  "computed_walk (JObject m) path = walk_fields m path"
| "computed_walk (JArray a) path = walk_items a 0 path"
| "computed_walk _ path = []"
| "walk_fields [] path = []"
| "walk_fields ((k, x) # m) path =
     (let at = (if path = [] then k else path @ ''.'' @ k)
      in (if k \<in> set COMPUTED_KEYS then [(COMPUTED_FIELD, at)] else computed_walk x at) @ walk_fields m path)"
| "walk_items [] i path = []"
| "walk_items (x # a) i path = computed_walk x (at_index path i) @ walk_items a (Suc i) path"

definition computed_keys :: "json \<Rightarrow> problem list" where
  "computed_keys v = computed_walk v []"

text \<open>Every key of a value, at any depth.\<close>

fun json_keys :: "json \<Rightarrow> string set" where
  "json_keys (JObject m) = fst ` set m \<union> (\<Union>x \<in> set m. json_keys (snd x))"
| "json_keys (JArray a) = (\<Union>x \<in> set a. json_keys x)"
| "json_keys _ = {}"

section \<open>Proposals\<close>

datatype basis = BFact "string list" | BInference string

record input_basis =
  ib_field :: string
  ib_basis :: basis

record proposal_draft =
  pd_opportunity :: opportunity
  pd_bases :: "input_basis list"
  pd_novelty :: tier
  pd_forecast :: "forecast_item list"

record unsupported =
  un_field :: string
  un_value :: string

text \<open>
  A draft from JSON text: the parser of \<open>serde_json\<close> and the shape of the target type are the arguments \<open>parse\<close> and
  \<open>shape\<close>. A problem of either is its code.
\<close>

definition draft_from_json ::
  "(string \<Rightarrow> json option) \<Rightarrow> (json \<Rightarrow> proposal_draft option) \<Rightarrow> string \<Rightarrow> problem list + proposal_draft" where
  "draft_from_json parse shape s =
     (case parse s of
        None \<Rightarrow> Inl [(INVALID_RECORD, [])]
      | Some v \<Rightarrow>
          let computed = computed_keys v
          in if computed \<noteq> [] then Inl computed
             else case shape v of
               None \<Rightarrow> Inl [(INVALID_RECORD, [])]
             | Some d \<Rightarrow>
                 (case validate_opportunity (pd_opportunity d) of Inl e \<Rightarrow> Inl e | Inr _ \<Rightarrow> Inr d))"

definition draft_fields :: "proposal_draft \<Rightarrow> string list" where
  "draft_fields d = map fst (econ_inputs (o_economics (pd_opportunity d)))"

definition basis_of :: "proposal_draft \<Rightarrow> string \<Rightarrow> basis option" where
  "basis_of d field = map_option ib_basis (find (\<lambda>b. ib_field b = field) (pd_bases d))"

fun basis_problems :: "evidence_index \<Rightarrow> string list \<Rightarrow> string \<Rightarrow> basis \<Rightarrow> problem list" where
  "basis_problems ix signals at (BFact evidence) =
     p_check (evidence \<noteq> []) FACT_WITHOUT_EVIDENCE (at @ ''.basis'') @
     concat (map (\<lambda>i.
       if \<not> index_contains ix i \<or> i \<notin> set signals then [(UNSUPPORTED_EVIDENCE, at @ ''.basis.evidence'')] else [])
       evidence)"
| "basis_problems ix signals at (BInference why) = p_text (at @ ''.basis.why'') why"

text \<open>The evidence locators of one input trace to the records its basis names.\<close>

definition trace_problems :: "evidence_index \<Rightarrow> proposal_draft \<Rightarrow> string \<times> input \<Rightarrow> problem list" where
  "trace_problems ix d fi =
     (case fi of (field, i) \<Rightarrow>
        let locators = filter (\<lambda>l. l \<noteq> LUnknown) (input_evidence i)
        in if locators = [] then []
           else case basis_of d field of
             Some (BFact evidence) \<Rightarrow>
               (let urls = filter (\<lambda>u. u \<noteq> []) (map ef_url (List.map_filter (index_get ix) evidence))
                in concat (map (\<lambda>l. p_check (case l of LUrl u \<Rightarrow> u \<in> set urls | _ \<Rightarrow> False) UNTRACED_EVIDENCE
                     (field @ ''.evidence'')) locators))
           | _ \<Rightarrow> [(UNTRACED_EVIDENCE, field @ ''.evidence'')])"

definition draft_check :: "proposal_draft \<Rightarrow> evidence_index \<Rightarrow> time \<Rightarrow> problem list" where
  "draft_check d ix decided_at =
     (let o1 = pd_opportunity d; names = draft_fields d in
      (case validate_opportunity o1 of Inl e \<Rightarrow> map (\<lambda>(c, _). (c, ''opportunity'')) e | Inr _ \<Rightarrow> []) @
      p_not_after ''opportunity.as_of'' (o_as_of o1) decided_at @
      p_each (\<lambda>i s. p_check (index_contains ix s) UNSUPPORTED_EVIDENCE (at_index ''opportunity.signals'' i)) (o_signals o1) @
      p_unique ''bases.field'' (map ib_field (pd_bases d)) @
      p_each (\<lambda>i b. p_check (ib_field b \<in> set names) UNKNOWN_FIELD (at_index ''bases'' i @ ''.field'') @
        basis_problems ix (o_signals o1) (at_index ''bases'' i) (ib_basis b)) (pd_bases d) @
      concat (map (trace_problems ix d) (econ_inputs (o_economics o1))) @
      p_each (\<lambda>i x. forecast_item_problems x (at_index ''forecast'' i) decided_at names) (pd_forecast d))"

text \<open>The estimate of an input as text.\<close>

definition est_text :: "(int \<Rightarrow> string) \<Rightarrow> int est \<Rightarrow> string" where
  "est_text show_value e =
     (case e of
        Range l b h \<Rightarrow> show_value l @ ''..'' @ show_value b @ ''..'' @ show_value h
      | EUnknown r \<Rightarrow> unknown_text r)"

fun input_text :: "input \<Rightarrow> string" where
  "input_text (ICount a) = est_text int_text (a_value a)"
| "input_text (IShare a) = est_text int_text (a_value a)"
| "input_text (IAmount a) = est_text minor_display (a_value a)"

definition unsupported_of :: "proposal_draft \<Rightarrow> unsupported list" where
  "unsupported_of d =
     map (\<lambda>(f, i). \<lparr>un_field = f, un_value = input_text i\<rparr>)
       (filter (\<lambda>(f, i). input_is_known i \<and> basis_of d f = None) (econ_inputs (o_economics (pd_opportunity d))))"

record provenance =
  pv_agent :: string
  pv_model :: string
  pv_engine :: string
  pv_skill_sha256 :: string
  pv_generation :: string
  pv_call_id :: string
  pv_proposed_at :: time

definition provenance_problems :: "provenance \<Rightarrow> problem list" where
  "provenance_problems p =
     p_text ''provenance.agent'' (pv_agent p) @
     p_text ''provenance.model'' (pv_model p) @
     p_text ''provenance.engine'' (pv_engine p) @
     p_text ''provenance.generation'' (pv_generation p) @
     p_text ''provenance.call_id'' (pv_call_id p) @
     p_sha256 ''provenance.skill_sha256'' (pv_skill_sha256 p) @
     p_known ''provenance.proposed_at'' (pv_proposed_at p)"

record mechanism_proposal =
  mp_schema :: schema_tag
  mp_ident :: string
  mp_version :: int
  mp_cycle_id :: string
  mp_provenance :: provenance
  mp_draft :: proposal_draft

abbreviation mp_opportunity :: "mechanism_proposal \<Rightarrow> opportunity" where
  "mp_opportunity p \<equiv> pd_opportunity (mp_draft p)"

definition proposal_problems :: "mechanism_proposal \<Rightarrow> problem list" where
  "proposal_problems p =
     p_id ''cycle_id'' (mp_cycle_id p) @
     provenance_problems (mp_provenance p) @
     (case validate_opportunity (mp_opportunity p) of
        Inl e \<Rightarrow> map (\<lambda>(c, _). (c, ''draft.opportunity'')) e | Inr _ \<Rightarrow> [])"

definition validate_proposal :: "mechanism_proposal \<Rightarrow> problem list + unit" where
  "validate_proposal p =
     validate ''mechanism_proposal'' (mp_schema p) (mp_ident p) (mp_version p) (proposal_problems p)"

definition proposal_stamp ::
  "string \<Rightarrow> string \<Rightarrow> proposal_draft \<Rightarrow> provenance \<Rightarrow> (code list, mechanism_proposal) res" where
  "proposal_stamp i cycle_id d pv =
     rbind (one_error (schema_tag_v1 ''mechanism_proposal'')) (\<lambda>schema.
     let p = \<lparr>mp_schema = schema, mp_ident = i, mp_version = 1, mp_cycle_id = cycle_id, mp_provenance = pv,
              mp_draft = d\<rparr>
     in checked (validate_proposal p) p)"

interpretation proposal_record: soe_record "''mechanism_proposal''" mp_schema mp_ident mp_version
  proposal_problems validate_proposal
  by unfold_locales (simp add: validate_proposal_def)

section \<open>Challenges\<close>

datatype challenge_kind =
  DisconfirmingEvidence | HiddenLabor | DependencyFailure | BaseRate | LegalAccess | Transferability | DuplicateSource

datatype effect =
    Widen string "string option" "string option" "string option" "string option"
      \<comment> \<open>field, low, base, high, unknown reason\<close>
  | BlockGate gate_code
  | NoEffect

record challenge_draft =
  ch_target :: string
  ch_kind :: challenge_kind
  ch_claim :: string
  ch_evidence :: "string list"
  ch_effect :: effect

definition challenge_from_json ::
  "(string \<Rightarrow> json option) \<Rightarrow> (json \<Rightarrow> challenge_draft option) \<Rightarrow> string \<Rightarrow> problem list + challenge_draft" where
  "challenge_from_json parse shape s =
     (case parse s of
        None \<Rightarrow> Inl [(INVALID_RECORD, [])]
      | Some v \<Rightarrow>
          let computed = computed_keys v
          in if computed \<noteq> [] then Inl computed
             else case shape v of None \<Rightarrow> Inl [(INVALID_RECORD, [])] | Some d \<Rightarrow> Inr d)"

definition direction :: "string \<Rightarrow> better option" where
  "direction field =
     (case strip_prefix ''economics.'' field of
        None \<Rightarrow> None
      | Some rest \<Rightarrow>
          let name = (case strip_prefix ''revenue.'' rest of Some r \<Rightarrow> r | None \<Rightarrow> rest)
          in if name \<in> {''leads_per_month'', ''conversion'', ''price_per_month'', ''contract_value'', ''win_probability'',
                 ''asset_monthly_revenue'', ''partner_monthly_revenue'', ''share''} then Some Higher
             else if name \<in> {''churn_per_month'', ''collection_loss'', ''delivery_weeks'', ''owner_hours_total'',
                 ''variable_cost'', ''fixed_costs_per_month'', ''owner_hours_per_month'', ''ramp_months'',
                 ''initial.acquisition'', ''initial.setup'', ''initial.validation'', ''initial.working_capital''} then Some Lower
             else None)"

text \<open>\<open>str::parse\<close> of \<open>u32\<close> (an optional \<open>+\<close>) and of \<open>i64\<close> (an optional sign).\<close>

definition parse_u32 :: "string \<Rightarrow> int option" where
  "parse_u32 s =
     (let d = (case strip_prefix ''+'' s of Some r \<Rightarrow> r | None \<Rightarrow> s)
      in if digits_only d then fits u32_ok (digits_val d) else None)"

definition parse_i64 :: "string \<Rightarrow> int option" where
  "parse_i64 s =
     (let (neg, d) = (case strip_prefix ''-'' s of
              Some r \<Rightarrow> (True, r)
            | None \<Rightarrow> (False, case strip_prefix ''+'' s of Some r \<Rightarrow> r | None \<Rightarrow> s))
      in if digits_only d then fits i64_ok (if neg then - digits_val d else digits_val d) else None)"

definition parse_count :: "string \<Rightarrow> int vres" where
  "parse_count s = ok_or (parse_u32 (trim s)) INVALID_FIELD"

definition parse_bps :: "string \<Rightarrow> int vres" where
  "parse_bps s = rbind (ok_or (parse_i64 (trim s)) INVALID_FIELD) bps_new"

definition parse_minor :: "string \<Rightarrow> int vres" where
  "parse_minor s = minor_from_str (trim s)"

section \<open>The merge\<close>

text \<open>\<open>x.as_deref().map(T::parse_text).transpose()\<close>.\<close>

definition parse_end :: "(string \<Rightarrow> int vres) \<Rightarrow> string option \<Rightarrow> int option vres" where
  "parse_end parse x = (case x of None \<Rightarrow> Inr None | Some s \<Rightarrow> rmap Some (parse s))"

definition parse_ends ::
  "(string \<Rightarrow> int vres) \<Rightarrow> string option \<Rightarrow> string option \<Rightarrow> string option \<Rightarrow>
     (int option \<times> int option \<times> int option) vres" where
  "parse_ends parse l b h =
     rbind (parse_end parse l) (\<lambda>lo. rbind (parse_end parse b) (\<lambda>ba. rbind (parse_end parse h) (\<lambda>hi.
     Inr (lo, ba, hi))))"

fun worse_of :: "better \<Rightarrow> int \<Rightarrow> int \<Rightarrow> int" where
  "worse_of Higher v cur = min v cur"
| "worse_of Lower v cur = max v cur"

definition adverse_end :: "(int \<Rightarrow> string) \<Rightarrow> better \<Rightarrow> int \<Rightarrow> int option \<Rightarrow> string \<Rightarrow> int \<times> string list" where
  "adverse_end show_value better cur v name =
     (case v of
        None \<Rightarrow> (cur, [])
      | Some v \<Rightarrow>
          let w = worse_of better v cur
          in (w, if w = cur \<and> v \<noteq> cur
                 then [name @ '' '' @ show_value v @ '' would flatter the candidate ('' @ name @ '' stays '' @
                       show_value cur @ '')'']
                 else []))"

definition merge_est ::
  "(int \<Rightarrow> string) \<Rightarrow> int est \<Rightarrow> int option \<times> int option \<times> int option \<Rightarrow> better \<Rightarrow> int est \<times> string list" where
  "merge_est show_value e x better =
     (case e of
        EUnknown _ \<Rightarrow> (e, [''the input is unknown: a challenge cannot make it known''])
      | Range lo ba hi \<Rightarrow>
          let (xl, xb, xh) = x;
              (l, i1) = adverse_end show_value better lo xl ''low'';
              (b, i2) = adverse_end show_value better ba xb ''base'';
              (h, i3) = adverse_end show_value better hi xh ''high'';
              (l, b, h) = (case better of
                  Higher \<Rightarrow> (let b = min b h in (min l b, b, h))
                | Lower \<Rightarrow> (let b = max b l in (l, b, max h b)))
          in (Range l b h, i1 @ i2 @ i3))"

definition widen_one ::
  "(int \<Rightarrow> string) \<Rightarrow> (string \<Rightarrow> int vres) \<Rightarrow> int assumption \<Rightarrow> better \<Rightarrow> string option \<Rightarrow> string option \<Rightarrow>
     string option \<Rightarrow> string option \<Rightarrow> (int assumption \<times> string \<times> string \<times> string list) vres" where
  "widen_one show_value parse a better l b h reason =
     (let before = est_text show_value (a_value a) in
      case reason of
        Some r \<Rightarrow>
          if \<not> est_is_known (a_value a) then Inr (a, before, before, [''already unknown''])
          else let e = est_unknown r in Inr (a\<lparr>a_value := e\<rparr>, before, est_text show_value e, [])
      | None \<Rightarrow>
          rbind (parse_ends parse l b h) (\<lambda>x.
          let (e, ignored) = merge_est show_value (a_value a) x better
          in Inr (a\<lparr>a_value := e\<rparr>, before, est_text show_value e, ignored)))"

record ch_change =
  cg_challenge :: string
  cg_field :: string
  cg_before :: string
  cg_after :: string

record ch_ignored =
  cn_challenge :: string
  cn_why :: string

record applied =
  ap_opportunity :: opportunity
  ap_changes :: "ch_change list"
  ap_ignored :: "ch_ignored list"
  ap_holds :: "gate_failure list"

definition applied_held :: "applied \<Rightarrow> gate_verdict \<Rightarrow> gate_verdict" where
  "applied_held a v = with_holds v (ap_holds a)"

record challenge =
  cl_schema :: schema_tag
  cl_ident :: string
  cl_version :: int
  cl_cycle_id :: string
  cl_provenance :: provenance
  cl_draft :: challenge_draft

definition widen_input ::
  "economic_inputs input_mut \<Rightarrow> better \<Rightarrow> string option \<Rightarrow> string option \<Rightarrow> string option \<Rightarrow> string option \<Rightarrow>
     (economic_inputs \<times> string \<times> string \<times> string list) vres" where
  "widen_input m better l b h reason =
     (case m of
        MCount a w \<Rightarrow> rmap (\<lambda>(a', r). (w a', r)) (widen_one int_text parse_count a better l b h reason)
      | MShare a w \<Rightarrow> rmap (\<lambda>(a', r). (w a', r)) (widen_one int_text parse_bps a better l b h reason)
      | MAmount a w \<Rightarrow> rmap (\<lambda>(a', r). (w a', r)) (widen_one minor_display parse_minor a better l b h reason))"

definition apply_one :: "applied \<Rightarrow> challenge \<Rightarrow> applied vres" where
  "apply_one out c =
     (case ch_effect (cl_draft c) of
        NoEffect \<Rightarrow> Inr out
      | BlockGate gate \<Rightarrow>
          Inr (out\<lparr>ap_holds := ap_holds out @
            [\<lparr>gf_code = gate, gf_outcome = Hold, gf_field = Some (''challenge.'' @ cl_ident c)\<rparr>]\<rparr>)
      | Widen field l b h reason \<Rightarrow>
          (case (direction field, input_mut (o_economics (ap_opportunity out)) field) of
             (Some better, Some m) \<Rightarrow>
               rbind (widen_input m better l b h reason) (\<lambda>(e, before, after, ignored).
               Inr (out\<lparr>ap_opportunity := (ap_opportunity out)\<lparr>o_economics := e\<rparr>,
                 ap_ignored := ap_ignored out @
                   map (\<lambda>why. \<lparr>cn_challenge = cl_ident c, cn_why = field @ '': '' @ why\<rparr>) ignored,
                 ap_changes := ap_changes out @
                   (if before \<noteq> after
                    then [\<lparr>cg_challenge = cl_ident c, cg_field = field, cg_before = before, cg_after = after\<rparr>]
                    else [])\<rparr>))
           | _ \<Rightarrow> Inl (Err UNKNOWN_FIELD)))"

definition apply_challenges :: "opportunity \<Rightarrow> challenge list \<Rightarrow> applied vres" where
  "apply_challenges opp challenges =
     rfold apply_one \<lparr>ap_opportunity = opp, ap_changes = [], ap_ignored = [], ap_holds = []\<rparr>
       (sort_key cl_ident (filter (\<lambda>c. ch_target (cl_draft c) = o_ident opp) challenges))"

section \<open>Checks\<close>

definition ends_problem :: "economic_inputs input_mut \<Rightarrow> string option \<Rightarrow> string option \<Rightarrow> string option \<Rightarrow> problem list" where
  "ends_problem m l b h =
     (case parse_ends (case m of MCount _ _ \<Rightarrow> parse_count | MShare _ _ \<Rightarrow> parse_bps | MAmount _ _ \<Rightarrow> parse_minor) l b h of
        Inl (Err c) \<Rightarrow> [(c, ''effect'')]
      | _ \<Rightarrow> [])"

definition challenge_check :: "challenge_draft \<Rightarrow> evidence_index \<Rightarrow> opportunity list \<Rightarrow> problem list" where
  "challenge_check d ix targets =
     (let target = find (\<lambda>opp. o_ident opp = ch_target d) targets in
      p_text ''claim'' (ch_claim d) @
      p_check (target \<noteq> None) UNKNOWN_TARGET ''target'' @
      p_each (\<lambda>i s. p_check (index_contains ix s) UNSUPPORTED_EVIDENCE (at_index ''evidence'' i)) (ch_evidence d) @
      (case (ch_effect d, target) of
         (Widen field l b h reason, Some opp) \<Rightarrow>
           (case (direction field, input_mut (o_economics opp) field) of
              (Some _, Some m) \<Rightarrow> ends_problem m l b h
            | _ \<Rightarrow> [(UNKNOWN_FIELD, ''effect.field'')]) @
           p_check (l \<noteq> None \<or> b \<noteq> None \<or> h \<noteq> None \<or> reason \<noteq> None) INVALID_FIELD ''effect''
       | _ \<Rightarrow> []))"

definition challenge_problems :: "challenge \<Rightarrow> problem list" where
  "challenge_problems c =
     p_id ''cycle_id'' (cl_cycle_id c) @
     p_id ''draft.target'' (ch_target (cl_draft c)) @
     p_text ''draft.claim'' (ch_claim (cl_draft c)) @
     provenance_problems (cl_provenance c)"

definition validate_challenge :: "challenge \<Rightarrow> problem list + unit" where
  "validate_challenge c =
     validate ''challenge'' (cl_schema c) (cl_ident c) (cl_version c) (challenge_problems c)"

definition challenge_stamp ::
  "string \<Rightarrow> string \<Rightarrow> challenge_draft \<Rightarrow> provenance \<Rightarrow> (code list, challenge) res" where
  "challenge_stamp i cycle_id d pv =
     rbind (one_error (schema_tag_v1 ''challenge'')) (\<lambda>schema.
     let c = \<lparr>cl_schema = schema, cl_ident = i, cl_version = 1, cl_cycle_id = cycle_id, cl_provenance = pv,
              cl_draft = d\<rparr>
     in checked (validate_challenge c) c)"

interpretation challenge_record: soe_record "''challenge''" cl_schema cl_ident cl_version
  challenge_problems validate_challenge
  by unfold_locales (simp add: validate_challenge_def)

end
