(* ===== verification/Soe_Challenge_Props.thy ===== *)
theory Soe_Challenge_Props
  imports Soe_Challenge Soe_Sample
begin

text \<open>
  What challenges and drafts guarantee: a merge moves every input against the candidate only, a challenge that passes
  its check applies, a draft with a computed key is refused; and a checked challenge that leaves an opportunity its
  own rules refuse.
\<close>

section \<open>A challenge only worsens\<close>

fun worsened :: "better \<Rightarrow> int est \<Rightarrow> int est \<Rightarrow> bool" where
  "worsened Higher (Range l b h) (Range l' b' h') \<longleftrightarrow> l' \<le> l \<and> b' \<le> b \<and> h' \<le> h"
| "worsened Lower (Range l b h) (Range l' b' h') \<longleftrightarrow> l \<le> l' \<and> b \<le> b' \<and> h \<le> h'"
| "worsened _ (Range l b h) (EUnknown r) \<longleftrightarrow> True"
| "worsened _ (EUnknown r) e \<longleftrightarrow> e = EUnknown r"

lemma worsened_refl: "worsened d e e"
  by (cases d; cases e) auto

lemma worsened_trans: "worsened d e e' \<Longrightarrow> worsened d e' e'' \<Longrightarrow> worsened d e e''"
  by (cases d; cases e; cases e'; cases e'') auto

lemma adverse_end_worse: "worse_of d (fst (adverse_end show_value d cur v name)) cur = fst (adverse_end show_value d cur v name)"
  by (cases d) (auto simp: adverse_end_def Let_def split: option.splits)

lemma adverse_end_width: "P cur \<Longrightarrow> pred_option P v \<Longrightarrow> P (fst (adverse_end show_value d cur v name))"
  by (cases d; cases v) (auto simp: adverse_end_def min_def max_def)

definition ends_width :: "(int \<Rightarrow> bool) \<Rightarrow> int option \<times> int option \<times> int option \<Rightarrow> bool" where
  "ends_width P x \<longleftrightarrow> (case x of (l, b, h) \<Rightarrow> pred_option P l \<and> pred_option P b \<and> pred_option P h)"

lemma merge_est_worsens: "worsened d e (fst (merge_est show_value e x d))"
proof (cases e)
  case (Range l b h)
  obtain xl xb xh where x: "x = (xl, xb, xh)" by (cases x)
  show ?thesis
    using adverse_end_worse [of d show_value l xl "''low''"] adverse_end_worse [of d show_value b xb "''base''"]
      adverse_end_worse [of d show_value h xh "''high''"]
    by (cases d) (auto simp: merge_est_def Range x split_def Let_def min_def max_def split: if_splits)
qed (simp add: merge_est_def)

lemma merge_est_ok:
  assumes "est_ok P e" "ends_width P x"
  shows "est_ok P (fst (merge_est show_value e x d))"
proof (cases e)
  case (Range l b h)
  obtain xl xb xh where x: "x = (xl, xb, xh)" by (cases x)
  have "P (fst (adverse_end show_value d l xl ''low''))" "P (fst (adverse_end show_value d b xb ''base''))"
    "P (fst (adverse_end show_value d h xh ''high''))"
    using assms by (auto simp: Range x ends_width_def intro!: adverse_end_width)
  then show ?thesis
    by (cases d) (auto simp: merge_est_def Range x split_def Let_def min_def max_def)
qed (simp add: merge_est_def)

text \<open>An input after a challenge: the same kind, evidence, date and text, with a value no better.\<close>

definition same_support :: "int assumption \<Rightarrow> int assumption \<Rightarrow> bool" where
  "same_support a b \<longleftrightarrow> a_evidence b = a_evidence a \<and> a_as_of b = a_as_of a \<and> a_note b = a_note a"

fun input_worsened :: "better \<Rightarrow> input \<Rightarrow> input \<Rightarrow> bool" where
  "input_worsened d (ICount a) (ICount b) \<longleftrightarrow> same_support a b \<and> worsened d (a_value a) (a_value b)"
| "input_worsened d (IShare a) (IShare b) \<longleftrightarrow> same_support a b \<and> worsened d (a_value a) (a_value b)"
| "input_worsened d (IAmount a) (IAmount b) \<longleftrightarrow> same_support a b \<and> worsened d (a_value a) (a_value b)"
| "input_worsened d _ _ \<longleftrightarrow> False"

lemma input_worsened_refl: "input_worsened d i i"
  by (cases i) (auto simp: worsened_refl same_support_def)

lemma input_worsened_trans: "input_worsened d i j \<Longrightarrow> input_worsened d j k \<Longrightarrow> input_worsened d i k"
  by (cases i; cases j; cases k) (auto simp: same_support_def intro: worsened_trans)

lemma widen_one_worsens:
  assumes "widen_one show_value parse a d l b h reason = Inr (a', r)"
  shows "same_support a a' \<and> worsened d (a_value a) (a_value a')"
  using assms merge_est_worsens [of d "a_value a" show_value] worsened_refl
  by (cases "a_value a")
    (auto simp: widen_one_def Let_def est_unknown_def rbind_eq_Inr split_def same_support_def split: option.splits if_splits)

lemma parse_ends_width:
  assumes "parse_ends parse l b h = Inr x" "\<And>s v. parse s = Inr v \<Longrightarrow> P v"
  shows "ends_width P x"
proof -
  have "parse_end parse y = Inr v \<Longrightarrow> pred_option P v" for y v
    using assms(2) by (auto simp: parse_end_def rmap_eq_Inr split: option.splits)
  with assms(1) show ?thesis by (auto simp: parse_ends_def rbind_eq_Inr ends_width_def)
qed

lemma widen_one_width:
  assumes "widen_one show_value parse a d l b h reason = Inr (a', r)" "est_ok P (a_value a)"
    "\<And>s v. parse s = Inr v \<Longrightarrow> P v"
  shows "est_ok P (a_value a')"
  using assms(1,2) merge_est_ok [OF assms(2) parse_ends_width [OF _ assms(3)]]
  by (auto simp: widen_one_def Let_def est_unknown_def rbind_eq_Inr split_def split: option.splits if_splits)

lemma parse_widths:
  "parse_count s = Inr v \<Longrightarrow> u32_ok v" "parse_bps s = Inr v \<Longrightarrow> bps_ok v" "parse_minor s = Inr v \<Longrightarrow> i64_ok v"
  by (auto simp: parse_count_def parse_u32_def parse_bps_def bps_new_def bps_ok_def parse_minor_def minor_from_str_def
      fits_def u16_ok_def ok_or_def rbind_eq_Inr Let_def split: if_splits option.splits)

lemma widen_input_worsens:
  assumes "widen_input m d l b h reason = Inr (e, r)"
  shows "\<exists>i. mut_write m i = Some e \<and> input_worsened d (mut_value m) i \<and> (input_typed (mut_value m) \<longrightarrow> input_typed i)"
proof (cases m)
  case (MCount a w)
  then obtain a' where "widen_one int_text parse_count a d l b h reason = Inr (a', r)" "e = w a'"
    using assms by (auto simp: widen_input_def rmap_eq_Inr)
  then show ?thesis using MCount widen_one_worsens widen_one_width [OF _ _ parse_widths(1)]
    by (intro exI [of _ "ICount a'"]) auto
next
  case (MShare a w)
  then obtain a' where "widen_one int_text parse_bps a d l b h reason = Inr (a', r)" "e = w a'"
    using assms by (auto simp: widen_input_def rmap_eq_Inr)
  then show ?thesis using MShare widen_one_worsens widen_one_width [OF _ _ parse_widths(2)]
    by (intro exI [of _ "IShare a'"]) auto
next
  case (MAmount a w)
  then obtain a' where "widen_one minor_display parse_minor a d l b h reason = Inr (a', r)" "e = w a'"
    using assms by (auto simp: widen_input_def rmap_eq_Inr)
  then show ?thesis using MAmount widen_one_worsens widen_one_width [OF _ _ parse_widths(3)]
    by (intro exI [of _ "IAmount a'"]) auto
qed

lemma econ_fields_distinct: "distinct (map fst (econ_inputs e))"
  by (cases "e_revenue e") (simp_all add: econ_inputs_def)

text \<open>Every input has a direction.\<close>

lemma econ_fields_directed: "(f, i) \<in> set (econ_inputs e) \<Longrightarrow> direction f \<noteq> None"
  by (cases "e_revenue e") (auto simp: econ_inputs_def direction_def)

definition input_step :: "string \<times> input \<Rightarrow> string \<times> input \<Rightarrow> bool" where
  "input_step x y \<longleftrightarrow> fst y = fst x \<and> (\<exists>d. direction (fst x) = Some d \<and> input_worsened d (snd x) (snd y))"

definition econ_worsened :: "economic_inputs \<Rightarrow> economic_inputs \<Rightarrow> bool" where
  "econ_worsened e e' \<longleftrightarrow> same_frame e e' \<and> list_all2 input_step (econ_inputs e) (econ_inputs e')"

lemma input_step_refl: "x \<in> set (econ_inputs e) \<Longrightarrow> input_step x x"
  using econ_fields_directed [of "fst x" "snd x" e] by (auto simp: input_step_def input_worsened_refl)

lemma input_step_trans: "input_step x y \<Longrightarrow> input_step y z \<Longrightarrow> input_step x z"
  by (auto simp: input_step_def dest: input_worsened_trans)

lemma econ_worsened_refl: "econ_worsened e e"
  by (auto simp: econ_worsened_def same_frame_def intro!: list.rel_refl_strong input_step_refl)

lemma econ_worsened_trans: "econ_worsened e e' \<Longrightarrow> econ_worsened e' e'' \<Longrightarrow> econ_worsened e e''"
  using list_all2_trans [of input_step input_step input_step, OF input_step_trans]
  by (auto simp: econ_worsened_def same_frame_def)

lemma find_distinct:
  "distinct (map fst xs) \<Longrightarrow> (f, i) \<in> set xs \<Longrightarrow> map_option snd (find (\<lambda>(g, _). g = f) xs) = Some i"
  by (induction xs) (auto simp: rev_image_eqI)

lemma econ_input_in: "econ_input e f = Some i \<longleftrightarrow> (f, i) \<in> set (econ_inputs e)"
proof
  assume "econ_input e f = Some i"
  then show "(f, i) \<in> set (econ_inputs e)"
    by (auto simp: econ_input_def find_Some_iff) (metis nth_mem)
qed (simp add: econ_input_def find_distinct econ_fields_distinct)

lemma write_worsens:
  assumes m: "input_mut e field = Some m" and w: "mut_write m i = Some e'" and d: "direction field = Some d"
    and i: "input_worsened d (mut_value m) i"
  shows "econ_worsened e e'"
proof -
  have "econ_input e field = Some (mut_value m)" using m input_mut_value [of e field] by simp
  then have v: "(field, j) \<in> set (econ_inputs e) \<Longrightarrow> j = mut_value m" for j
    by (metis econ_input_in option.inject)
  have "input_step x (case x of (g, j) \<Rightarrow> (g, if g = field then i else j))" if "x \<in> set (econ_inputs e)" for x
    using that v d i input_step_refl [OF that] by (auto simp: input_step_def split: prod.splits)
  then have "list_all2 input_step (econ_inputs e) (set_input field i (econ_inputs e))"
    by (auto simp: set_input_def list_all2_map2 intro!: list.rel_refl_strong)
  then show ?thesis using input_mut_write [OF m w] by (simp add: econ_worsened_def)
qed

lemma write_typed:
  assumes "input_mut e field = Some m" "mut_write m i = Some e'" "input_typed (mut_value m) \<longrightarrow> input_typed i" "econ_typed e"
  shows "econ_typed e'"
proof -
  have "econ_input e field = Some (mut_value m)" using assms(1) input_mut_value [of e field] by simp
  then have "input_typed (mut_value m)" using assms(4) by (auto simp: econ_typed_def list_all_iff econ_input_in)
  then show ?thesis
    using input_mut_write [OF assms(1,2)] assms(3,4)
    by (auto simp: econ_typed_def list_all_iff set_input_def same_frame_def)
qed

text \<open>What a challenged opportunity keeps of the proposed one.\<close>

definition only_worse :: "opportunity \<Rightarrow> opportunity \<Rightarrow> bool" where
  "only_worse opp opp' \<longleftrightarrow> opp' = opp\<lparr>o_economics := o_economics opp'\<rparr> \<and>
     econ_worsened (o_economics opp) (o_economics opp') \<and>
     (econ_typed (o_economics opp) \<longrightarrow> econ_typed (o_economics opp'))"

lemma only_worse_refl: "only_worse opp opp"
  by (simp add: only_worse_def econ_worsened_refl)

lemma only_worse_trans:
  assumes "only_worse a b" "only_worse b c"
  shows "only_worse a c"
proof -
  have b: "b = a\<lparr>o_economics := o_economics b\<rparr>" and c: "c = b\<lparr>o_economics := o_economics c\<rparr>"
    using assms by (simp_all add: only_worse_def)
  have "b\<lparr>o_economics := o_economics c\<rparr> = a\<lparr>o_economics := o_economics c\<rparr>"
    by (subst b) simp
  with c have "c = a\<lparr>o_economics := o_economics c\<rparr>" by simp
  then show ?thesis using assms econ_worsened_trans by (auto simp: only_worse_def)
qed

lemma apply_one_worse:
  assumes "apply_one out c = Inr out'"
  shows "only_worse (ap_opportunity out) (ap_opportunity out')"
proof (cases "ch_effect (cl_draft c)")
  case (Widen field l b h reason)
  then obtain d m e r where d: "direction field = Some d" and m: "input_mut (o_economics (ap_opportunity out)) field = Some m"
    and w: "widen_input m d l b h reason = Inr (e, r)" and out: "ap_opportunity out' = (ap_opportunity out)\<lparr>o_economics := e\<rparr>"
    using assms by (auto simp: apply_one_def rbind_eq_Inr split: option.splits)
  obtain i where i: "mut_write m i = Some e" "input_worsened d (mut_value m) i"
    "input_typed (mut_value m) \<longrightarrow> input_typed i"
    using widen_input_worsens [OF w] by blast
  show ?thesis
    using write_worsens [OF m i(1) d i(2)] write_typed [OF m i(1,3)] by (simp add: only_worse_def out)
qed (use assms in \<open>auto simp: apply_one_def only_worse_refl\<close>)

lemma apply_fold_worse: "rfold apply_one out cs = Inr out' \<Longrightarrow> only_worse (ap_opportunity out) (ap_opportunity out')"
proof (induction cs arbitrary: out)
  case (Cons c cs)
  then obtain mid where "apply_one out c = Inr mid" "rfold apply_one mid cs = Inr out'"
    by (auto simp: rbind_eq_Inr)
  with Cons.IH apply_one_worse only_worse_trans show ?case by blast
qed (simp add: only_worse_refl)

lemma apply_only_worse: "apply_challenges opp cs = Inr out \<Longrightarrow> only_worse opp (ap_opportunity out)"
  unfolding apply_challenges_def by (drule apply_fold_worse) simp

section \<open>A checked challenge applies\<close>

definition parse_of :: "'r input_mut \<Rightarrow> string \<Rightarrow> int vres" where
  "parse_of m = (case m of MCount _ _ \<Rightarrow> parse_count | MShare _ _ \<Rightarrow> parse_bps | MAmount _ _ \<Rightarrow> parse_minor)"

lemma widen_input_total:
  assumes "parse_ends (parse_of m) l b h = Inr x"
  shows "\<exists>r. widen_input m d l b h reason = Inr r"
  using assms
  by (cases m; cases reason) (auto simp: widen_input_def widen_one_def parse_of_def Let_def split_def)

lemma parse_no_panic: "parse_ends (parse_of m) l b h \<noteq> Inl Panic"
proof -
  have "parse_of m s \<noteq> Inl Panic" for s
    by (cases m) (auto simp: parse_of_def parse_count_def parse_bps_def parse_minor_def bps_new_def minor_from_str_def
        ok_or_def rbind_eq_Inl split: option.splits if_splits)
  then show ?thesis
    by (auto simp: parse_ends_def parse_end_def rbind_eq_Inl rmap_eq_Inl split: option.splits)
qed

lemma same_kind:
  assumes "econ_worsened e e'" "input_mut e field = Some m"
  shows "\<exists>m'. input_mut e' field = Some m' \<and> parse_of m' = parse_of m"
proof -
  have "econ_input e field = Some (mut_value m)" using assms(2) input_mut_value [of e field] by simp
  then have "(field, mut_value m) \<in> set (econ_inputs e)" by (simp add: econ_input_in)
  then obtain y where y: "y \<in> set (econ_inputs e')" "input_step (field, mut_value m) y"
    using assms(1) unfolding econ_worsened_def by (metis in_set_conv_nth list_all2_lengthD list_all2_nthD)
  then have "econ_input e' field = Some (snd y)" by (cases y) (auto simp: econ_input_in input_step_def)
  then obtain m' where "input_mut e' field = Some m'" "mut_value m' = snd y"
    using input_mut_value [of e' field] by auto
  moreover have "input_worsened d (mut_value m) (mut_value m') \<Longrightarrow> parse_of m' = parse_of m" for d
    by (cases m; cases m') (auto simp: parse_of_def)
  ultimately show ?thesis using y(2) by (auto simp: input_step_def)
qed

lemma apply_one_total:
  assumes ok: "challenge_check (cl_draft c) ix targets = []"
    and target: "find (\<lambda>o1. o_ident o1 = ch_target (cl_draft c)) targets = Some opp"
    and worse: "only_worse opp (ap_opportunity out)"
  shows "\<exists>out'. apply_one out c = Inr out'"
proof (cases "ch_effect (cl_draft c)")
  case (Widen field l b h reason)
  with ok target obtain d m where d: "direction field = Some d" and m: "input_mut (o_economics opp) field = Some m"
    and e: "ends_problem m l b h = []"
    by (auto simp: challenge_check_def Let_def split: option.splits)
  obtain x where x: "parse_ends (parse_of m) l b h = Inr x"
    using e parse_no_panic [of m l b h] unfolding ends_problem_def parse_of_def [symmetric]
    by (cases "parse_ends (parse_of m) l b h") (auto split: fault.splits)
  obtain m' where m': "input_mut (o_economics (ap_opportunity out)) field = Some m'" "parse_of m' = parse_of m"
    using same_kind [OF _ m] worse by (auto simp: only_worse_def)
  obtain r where "widen_input m' d l b h reason = Inr r"
    using widen_input_total [of m'] x m'(2) by metis
  then show ?thesis by (cases r) (simp add: apply_one_def Widen d m'(1))
qed (simp_all add: apply_one_def)

lemma apply_fold_total:
  assumes "\<And>c. c \<in> set cs \<Longrightarrow> challenge_check (cl_draft c) ix targets = [] \<and>
      find (\<lambda>o1. o_ident o1 = ch_target (cl_draft c)) targets = Some opp"
    and "only_worse opp (ap_opportunity out)"
  shows "\<exists>out'. rfold apply_one out cs = Inr out'"
  using assms
proof (induction cs arbitrary: out)
  case (Cons c cs)
  then obtain mid where mid: "apply_one out c = Inr mid" using apply_one_total [of c ix targets opp out] by auto
  then have "only_worse opp (ap_opportunity mid)" using Cons.prems(2) apply_one_worse only_worse_trans by blast
  with Cons show ?case by (auto simp: mid)
qed simp

lemma find_target:
  "distinct (map o_ident targets) \<Longrightarrow> opp \<in> set targets \<Longrightarrow> find (\<lambda>o1. o_ident o1 = o_ident opp) targets = Some opp"
  by (induction targets) (auto simp: rev_image_eqI)

lemma apply_total:
  assumes "distinct (map o_ident targets)" "opp \<in> set targets" "list_all (\<lambda>c. challenge_check (cl_draft c) ix targets = []) cs"
  shows "\<exists>out. apply_challenges opp cs = Inr out"
  unfolding apply_challenges_def
  using find_target [OF assms(1,2)] assms(3)
  by (intro apply_fold_total [where ix = ix and targets = targets and opp = opp])
    (auto simp: list_all_iff only_worse_refl)

section \<open>Keys\<close>

lemma walk_Nil:
  "computed_walk v path = [] \<longleftrightarrow> json_keys v \<inter> set COMPUTED_KEYS = {}"
  "walk_fields m path = [] \<longleftrightarrow> (fst ` set m \<union> (\<Union>x \<in> set m. json_keys (snd x))) \<inter> set COMPUTED_KEYS = {}"
  "walk_items a i path = [] \<longleftrightarrow> (\<Union>x \<in> set a. json_keys x) \<inter> set COMPUTED_KEYS = {}"
  by (induction v path and m path and a i path rule: computed_walk_walk_fields_walk_items.induct) (auto simp: Let_def)

section \<open>A challenged sample\<close>

definition sample_provenance :: provenance where
  "sample_provenance = \<lparr>pv_agent = ''critic'', pv_model = ''m'', pv_engine = ''e'', pv_skill_sha256 = replicate 64 CHR ''a'',
     pv_generation = ''g'', pv_call_id = ''c'', pv_proposed_at = At 900\<rparr>"

definition sample_challenge :: "string \<Rightarrow> effect \<Rightarrow> challenge" where
  "sample_challenge i e = \<lparr>cl_schema = \<lparr>st_record = ''challenge'', st_version = 1\<rparr>, cl_ident = i, cl_version = 1,
     cl_cycle_id = ''2026-w41'', cl_provenance = sample_provenance,
     cl_draft = \<lparr>ch_target = ''opp-1'', ch_kind = HiddenLabor, ch_claim = ''more hours'', ch_evidence = [], ch_effect = e\<rparr>\<rparr>"

definition more_hours :: challenge where
  "more_hours = sample_challenge ''c1''
     (Widen ''economics.owner_hours_per_month'' None (Some ''14'') (Some ''5'') None)"

definition below_zero :: challenge where
  "below_zero = sample_challenge ''c2''
     (Widen ''economics.revenue.partner_monthly_revenue'' (Some ''-0.03'') None None None)"

definition empty_index :: evidence_index where
  "empty_index = \<lparr>ix_as_of_ms = 1000, ix_refs = []\<rparr>"

abbreviation shared :: opportunity where
  "shared \<equiv> sample_opportunity PartnerRevshare (RevenueShare (given 4 5 6) (given 2000 2500 3000) (given 0 100 500))"

lemma shared_valid: "validate_opportunity shared = Inr ()"
  by code_simp

lemma more_hours_checked: "challenge_check (cl_draft more_hours) empty_index [shared] = []"
  by code_simp

lemma below_zero_checked: "challenge_check (cl_draft below_zero) empty_index [shared] = []"
  by code_simp

text \<open>
  C5: a critic can only make a candidate look worse. After any challenges that apply, the opportunity is the proposed
  one but for its economic inputs; every input keeps its kind, evidence and date; each end of a known estimate moved
  only against the candidate (or the estimate became unknown), an unknown one stays as it is, and the ranges stay
  ordered and within their types.
\<close>

theorem challenge_only_worsens:
  assumes "apply_challenges opp cs = Inr out"
  shows "only_worse opp (ap_opportunity out)"
  using apply_only_worse [OF assms] .

theorem challenge_only_worsens_witness:
  "\<exists>out. apply_challenges shared [more_hours] = Inr out \<and> only_worse shared (ap_opportunity out) \<and>
     a_value (e_owner_hours_per_month (o_economics (ap_opportunity out))) = Range 4 14 14"
proof -
  have "case apply_challenges shared [more_hours] of
      Inr out \<Rightarrow> a_value (e_owner_hours_per_month (o_economics (ap_opportunity out))) = Range 4 14 14 | Inl _ \<Rightarrow> False"
    by code_simp
  then obtain out where o: "apply_challenges shared [more_hours] = Inr out"
    "a_value (e_owner_hours_per_month (o_economics (ap_opportunity out))) = Range 4 14 14"
    by (auto split: sum.splits)
  from challenge_only_worsens [OF o(1)] o show ?thesis by blast
qed

text \<open>
  C16: what passes the check applies. When the candidates of a cycle have distinct ids and every challenge passes its
  check against them, the challenges of each candidate merge without an error, in whatever order their ids give.
\<close>

theorem checked_challenges_apply:
  assumes "distinct (map o_ident targets)" and "opp \<in> set targets"
    and "list_all (\<lambda>c. challenge_check (cl_draft c) ix targets = []) cs"
  shows "\<exists>out. apply_challenges opp cs = Inr out"
  using apply_total [OF assms] .

theorem checked_challenges_apply_witness:
  "list_all (\<lambda>c. challenge_check (cl_draft c) empty_index [shared] = []) [more_hours, below_zero] \<and>
   (\<exists>out. apply_challenges shared [more_hours, below_zero] = Inr out)"
proof -
  have "list_all (\<lambda>c. challenge_check (cl_draft c) empty_index [shared] = []) [more_hours, below_zero]"
    by (simp add: more_hours_checked below_zero_checked)
  with checked_challenges_apply [of "[shared]" shared empty_index "[more_hours, below_zero]"]
  show ?thesis by simp
qed

section \<open>What the check lets through\<close>

lemma merge_low_negative:
  assumes "v < 0"
  shows "\<exists>l b' h'. fst (merge_est show_value (Range lo ba hi) (Some v, b, h) Higher) = Range l b' h' \<and> l < 0"
  using assms by (auto simp: merge_est_def adverse_end_def Let_def split_def min_def)

lemma negative_end_merges:
  assumes field: "input_mut e field = Some (MAmount a w)" "est_is_known (a_value a)"
    and low_end: "parse_minor lo = Inr v" "v < 0"
    and w: "widen_input (MAmount a w) Higher (Some lo) b h None = Inr (e', r)"
  shows "\<exists>a' l b' h'. (field, IAmount a') \<in> set (econ_inputs e') \<and> a_value a' = Range l b' h' \<and> l < 0"
proof -
  obtain l0 b0 h0 where known: "a_value a = Range l0 b0 h0" using field(2) by (cases "a_value a") simp_all
  obtain a' where a': "widen_one minor_display parse_minor a Higher (Some lo) b h None = Inr (a', r)" "e' = w a'"
    using w by (auto simp: widen_input_def rmap_eq_Inr)
  then obtain x where x: "parse_ends parse_minor (Some lo) b h = Inr x"
    "a_value a' = fst (merge_est minor_display (a_value a) x Higher)"
    by (auto simp: widen_one_def Let_def rbind_eq_Inr split_def)
  obtain xb xh where "x = (Some v, xb, xh)"
    using x(1) low_end(1) by (auto simp: parse_ends_def parse_end_def rbind_eq_Inr)
  with x(2) known merge_low_negative [OF low_end(2)] obtain l b' h' where v: "a_value a' = Range l b' h'" "l < 0"
    by metis
  have "econ_input e field = Some (IAmount a)" using field(1) input_mut_value [of e field] by simp
  then have "(field, IAmount a) \<in> set (econ_inputs e)" by (simp add: econ_input_in)
  moreover have "econ_inputs e' = set_input field (IAmount a') (econ_inputs e)"
    using input_mut_write [OF field(1), of "IAmount a'" e'] a'(2) by simp
  ultimately have "(field, IAmount a') \<in> set (econ_inputs e')" by (force simp: set_input_def)
  with v show ?thesis by blast
qed

text \<open>
  C20: a checked challenge can leave an opportunity its own rules refuse. The check parses an end as the field's type
  and accepts an amount below zero, which the merge then takes as the adverse end: whatever the opportunity, a
  challenge that lowers a known amount below zero and passes its check applies, and the record rules, which refuse a
  negative amount, refuse what it leaves. The week does not validate the challenged opportunity again.
\<close>

theorem challenge_breaks_record_rules:
  assumes "challenge_check (cl_draft c) ix [opp] = []" and "ch_target (cl_draft c) = o_ident opp"
    and "ch_effect (cl_draft c) = Widen field (Some lo) b h None"
    and "input_mut (o_economics opp) field = Some (MAmount a w)" and "est_is_known (a_value a)"
    and "direction field = Some Higher" and "parse_minor lo = Inr v" and "v < 0"
  shows "\<exists>out. apply_challenges opp [c] = Inr out \<and> validate_opportunity (ap_opportunity out) \<noteq> Inr ()"
proof -
  obtain out where out: "apply_challenges opp [c] = Inr out"
    using apply_total [where targets = "[opp]" and opp = opp and cs = "[c]" and ix = ix] assms(1) by auto
  then obtain e r where e: "widen_input (MAmount a w) Higher (Some lo) b h None = Inr (e, r)"
    "o_economics (ap_opportunity out) = e"
    by (auto simp: apply_challenges_def apply_one_def assms(2-4,6) rbind_eq_Inr)
  obtain a' l b' h' where a': "(field, IAmount a') \<in> set (econ_inputs e)" "a_value a' = Range l b' h'" "l < 0"
    using negative_end_merges [OF assms(4,5,7,8) e(1)] by blast
  have "validate_opportunity (ap_opportunity out) = Inr () \<Longrightarrow> False"
    using validated_amounts [of "ap_opportunity out" field "IAmount a'"] a' e(2) by auto
  with out show ?thesis by blast
qed

theorem challenge_breaks_record_rules_witness:
  "validate_opportunity shared = Inr () \<and> challenge_check (cl_draft below_zero) empty_index [shared] = [] \<and>
   (\<exists>out. apply_challenges shared [below_zero] = Inr out \<and> validate_opportunity (ap_opportunity out) \<noteq> Inr ())"
proof -
  let ?field = "''economics.revenue.partner_monthly_revenue''"
  have "case input_mut (o_economics shared) ?field of Some (MAmount a w) \<Rightarrow> est_is_known (a_value a) | _ \<Rightarrow> False"
    "direction ?field = Some Higher" "parse_minor ''-0.03'' = Inr (- 3)"
    by code_simp+
  then obtain a w where m: "input_mut (o_economics shared) ?field = Some (MAmount a w)" "est_is_known (a_value a)"
    "direction ?field = Some Higher" "parse_minor ''-0.03'' = Inr (- 3)"
    by (auto split: option.splits input_mut.splits)
  have "ch_target (cl_draft below_zero) = o_ident shared"
    "ch_effect (cl_draft below_zero) = Widen ?field (Some ''-0.03'') None None None"
    by (simp_all add: below_zero_def sample_challenge_def sample_opportunity_def)
  from challenge_breaks_record_rules [OF below_zero_checked this m(1,2,3,4)]
  show ?thesis using shared_valid below_zero_checked by simp
qed

lemma walk_codes:
  "fst ` set (computed_walk w path) \<subseteq> {COMPUTED_FIELD}" "fst ` set (walk_fields m path) \<subseteq> {COMPUTED_FIELD}"
  "fst ` set (walk_items a i path) \<subseteq> {COMPUTED_FIELD}"
  by (induction w path and m path and a i path rule: computed_walk_walk_fields_walk_items.induct)
    (simp_all add: Let_def image_Un)

lemma computed_keys_Nil: "computed_keys v = [] \<longleftrightarrow> json_keys v \<inter> set COMPUTED_KEYS = {}"
  by (simp add: computed_keys_def walk_Nil)

lemma computed_keys_codes: "computed_keys v \<noteq> [] \<Longrightarrow> fst ` set (computed_keys v) = {COMPUTED_FIELD}"
  using walk_codes(1) [of v "[]"] unfolding computed_keys_def by (cases "computed_walk v []") auto

text \<open>
  C19: a model writes nothing the engine computes. A draft of a proposal or of a challenge is read from JSON only when
  no key at any depth of it is one of the computed or stamped keys; otherwise both are refused with
  \<open>computed_field\<close> alone. Without such a key the shape decides, and a proposal's opportunity must keep its record
  rules too. A text that is no JSON is an invalid record.
\<close>

theorem model_writes_no_computed_key:
  "case parse s of
     None \<Rightarrow> draft_from_json parse shape s = Inl [(INVALID_RECORD, [])] \<and>
       challenge_from_json parse shape' s = Inl [(INVALID_RECORD, [])]
   | Some v \<Rightarrow>
       if json_keys v \<inter> set COMPUTED_KEYS = {} then
         draft_from_json parse shape s =
           (case shape v of
              None \<Rightarrow> Inl [(INVALID_RECORD, [])]
            | Some d \<Rightarrow> (case validate_opportunity (pd_opportunity d) of Inr _ \<Rightarrow> Inr d | Inl problems \<Rightarrow> Inl problems)) \<and>
         challenge_from_json parse shape' s =
           (case shape' v of None \<Rightarrow> Inl [(INVALID_RECORD, [])] | Some d \<Rightarrow> Inr d)
       else \<exists>problems. draft_from_json parse shape s = Inl problems \<and>
         challenge_from_json parse shape' s = Inl problems \<and> fst ` set problems = {COMPUTED_FIELD}"
proof (cases "parse s")
  case (Some v)
  then show ?thesis
    using computed_keys_Nil [of v] computed_keys_codes [of v]
    by (auto simp: draft_from_json_def challenge_from_json_def Let_def split: option.split sum.split)
qed (simp add: draft_from_json_def challenge_from_json_def)

theorem model_writes_no_computed_key_witness:
  "\<exists>problems. challenge_from_json (\<lambda>_. Some (JObject [(''claim'', JArray [JObject [(''rank'', JNull)]])])) (\<lambda>_. None) ''x'' =
     Inl problems \<and> fst ` set problems = {COMPUTED_FIELD}"
proof -
  let ?v = "JObject [(''claim'', JArray [JObject [(''rank'', JNull)]])]"
  have "json_keys ?v \<inter> set COMPUTED_KEYS \<noteq> {}" by (auto simp: COMPUTED_KEYS_def)
  then show ?thesis
    using model_writes_no_computed_key [where parse = "\<lambda>_. Some ?v" and s = "''x''" and shape = "\<lambda>_. None" and shape' = "\<lambda>_. None"]
    by auto
qed

end
