(* ===== verification/Soe_Decide.thy ===== *)
theory Soe_Decide
  imports Soe_Challenge_Props Soe_Allocate_Props
begin

text \<open>
  The week after the models: \<open>decide_week\<close> of \<open>src/src/domain/soe/allocate.rs\<close>, which checks the proposals and
  challenges of a week against its evidence packet, merges the challenges into the candidates, assesses them and
  allocates. The hashes, the text of a time and the detail of a failure are the arguments of the stages it calls.
  Shown here: a candidate the week passes rests on sound evidence of the store.
\<close>

section \<open>The week after the models\<close>

record week_input =
  wi_head :: week_head
  wi_packet :: evidence_packet
  wi_proposals :: "mechanism_proposal list"
  wi_challenges :: "challenge list"
  wi_active :: "(string \<times> nat) list" \<comment> \<open>opportunity id, next stage\<close>
  wi_profile :: operator_profile

record decided =
  dc_proposal :: string
  dc_applied :: applied
  dc_assessment :: assessment
  dc_track :: track

record decided_week =
  dw_portfolio :: weekly_portfolio
  dw_notes :: "alloc_note list"
  dw_decided :: "decided list"
  dw_cited :: "cited_record list"
  dw_evidence :: evidence_index

text \<open>Every problem of the inputs of a week, as codes.\<close>

definition week_errors :: "week_input \<Rightarrow> code list" where
  "week_errors w =
     (let at = wh_as_of (wi_head w);
          evidence = evidence_index_of (wi_packet w);
          targets = map mp_opportunity (wi_proposals w)
      in (if at \<noteq> At (pk_as_of_ms (wi_packet w)) then [INVALID_TIME] else []) @
         map fst (p_unique ''proposals.opportunity.id'' (map o_ident targets)) @
         concat (map (\<lambda>x. map fst (draft_check (mp_draft x) evidence at)) (wi_proposals w)) @
         concat (map (\<lambda>c. map fst (challenge_check (cl_draft c) evidence targets)) (wi_challenges w)))"

definition decide_one ::
  "econ_hash \<Rightarrow> assess_hash \<Rightarrow> (time \<Rightarrow> string) \<Rightarrow> week_input \<Rightarrow> cited_record list \<Rightarrow> mechanism_proposal \<Rightarrow>
     decided vres" where
  "decide_one hash ahash show_time w cited x =
     rbind (apply_challenges (mp_opportunity x) (wi_challenges w)) (\<lambda>applied.
     rbind (assess hash ahash show_time (ap_opportunity applied) cited (wi_profile w) (wh_as_of (wi_head w))) (\<lambda>a.
     Inr \<lparr>dc_proposal = mp_ident x, dc_applied = applied,
          dc_assessment = a\<lparr>as_verdict := applied_held applied (as_verdict a)\<rparr>,
          dc_track = (case map_of (wi_active w) (o_ident (mp_opportunity x)) of
            Some next_stage \<Rightarrow> Active next_stage | None \<Rightarrow> New)\<rparr>))"

definition decided_candidate :: "decided \<Rightarrow> candidate" where
  "decided_candidate d = \<lparr>cd_opportunity = ap_opportunity (dc_applied d), cd_assessment = dc_assessment d,
     cd_track = dc_track d\<rparr>"

definition decide_week ::
  "econ_hash \<Rightarrow> assess_hash \<Rightarrow> (time \<Rightarrow> string) \<Rightarrow> (gate_failure \<Rightarrow> string) \<Rightarrow> alloc_hash \<Rightarrow> week_input \<Rightarrow>
     (code list, decided_week) res" where
  "decide_week hash ahash show_time detail chash w =
     (if week_errors w \<noteq> [] then Inl (Err (week_errors w))
      else
        let cited = packet_views (wi_packet w)
        in rbind (one_error (rmapM (decide_one hash ahash show_time w cited) (wi_proposals w))) (\<lambda>decided.
           rbind (allocate hash detail chash (wi_head w) (map decided_candidate decided) (wi_profile w) cited) (\<lambda>out.
           Inr \<lparr>dw_portfolio = ao_portfolio out, dw_notes = ao_notes out, dw_decided = decided, dw_cited = cited,
                dw_evidence = evidence_index_of (wi_packet w)\<rparr>)))"

section \<open>What a week keeps\<close>

lemma rmapM_from: "rmapM f xs = Inr ys \<Longrightarrow> y \<in> set ys \<Longrightarrow> \<exists>x \<in> set xs. f x = Inr y"
  by (induction xs arbitrary: ys) (auto simp: rbind_eq_Inr rmap_eq_Inr)

lemma with_holds_pass: "gv_verdict (with_holds v hs) = Pass \<Longrightarrow> gv_failures v = [] \<and> hs = []"
  using settle_pass [of "gv_failures v @ map (\<lambda>f. f\<lparr>gf_outcome := Hold\<rparr>) hs"]
  by (simp add: with_holds_def split: prod.splits)

lemma gates_pass:
  assumes "gates hash opp cited p t = Inr v" "gv_failures v = []"
  shows "evidence_gate opp cited t = []"
proof -
  obtain sc raw where "run_gates opp cited p t sc = Inr raw" "v = finish raw t sc"
    using assms(1) by (auto simp: gates_def rbind_eq_Inr split: if_splits)
  moreover then have "raw = []"
    using assms(2) by (auto simp: finish_def settle_out retain_from_Nil_iff sort_key_eq_Nil split: prod.splits dest!: arg_cong [of _ _ snd])
  ultimately show ?thesis by (auto simp: run_gates_def rbind_eq_Inr)
qed

lemma evidence_gate_support:
  assumes "evidence_gate opp cited t = []"
  shows "\<exists>v \<in> set cited. cr_record_id v \<in> set (o_signals opp) \<and> supports v t"
proof -
  have "\<exists>v \<in> set (cited_views opp cited). supports v t"
    using assms by (auto simp: evidence_gate_def Let_def filter_empty_conv split: if_splits)
  then show ?thesis by (auto simp: cited_views_def in_map_filter find_Some_iff) (metis nth_mem)
qed

lemma decide_one_facts:
  assumes "decide_one hash ahash show_time w cited x = Inr d"
  shows "only_worse (mp_opportunity x) (ap_opportunity (dc_applied d)) \<and>
    (gv_verdict (as_verdict (dc_assessment d)) = Pass \<longrightarrow> ap_holds (dc_applied d) = [] \<and>
       (\<exists>v \<in> set cited. cr_record_id v \<in> set (o_signals (mp_opportunity x)) \<and> supports v (wh_as_of (wi_head w))))"
proof -
  obtain ap a where ap: "apply_challenges (mp_opportunity x) (wi_challenges w) = Inr ap"
    and a: "assess hash ahash show_time (ap_opportunity ap) cited (wi_profile w) (wh_as_of (wi_head w)) = Inr a"
    and d: "dc_applied d = ap" "as_verdict (dc_assessment d) = with_holds (as_verdict a) (ap_holds ap)"
    using assms by (auto simp: decide_one_def rbind_eq_Inr applied_held_def)
  have worse: "only_worse (mp_opportunity x) (ap_opportunity ap)" using apply_only_worse [OF ap] .
  then have sig: "o_signals (ap_opportunity ap) = o_signals (mp_opportunity x)"
    unfolding only_worse_def by (metis opportunity.ext_inject opportunity.surjective opportunity.update_convs(12))
  have "gates hash (ap_opportunity ap) cited (wi_profile w) (wh_as_of (wi_head w)) = Inr (as_verdict a)"
    using a by (auto simp: assess_def rbind_eq_Inr Let_def)
  with worse d sig with_holds_pass gates_pass evidence_gate_support show ?thesis by metis
qed

lemma apply_one_holds:
  assumes "apply_one out c = Inr out'"
  shows "ap_holds out' = ap_holds out @ (case ch_effect (cl_draft c) of
      BlockGate gate \<Rightarrow> [\<lparr>gf_code = gate, gf_outcome = Hold, gf_field = Some (''challenge.'' @ cl_ident c)\<rparr>] | _ \<Rightarrow> [])"
  using assms by (auto simp: apply_one_def rbind_eq_Inr split: effect.splits option.splits)

lemma apply_fold_holds:
  "rfold apply_one out cs = Inr out' \<Longrightarrow>
     ap_holds out' = ap_holds out @ concat (map (\<lambda>c. case ch_effect (cl_draft c) of
      BlockGate gate \<Rightarrow> [\<lparr>gf_code = gate, gf_outcome = Hold, gf_field = Some (''challenge.'' @ cl_ident c)\<rparr>] | _ \<Rightarrow> []) cs)"
  by (induction cs arbitrary: out) (auto simp: rbind_eq_Inr dest!: apply_one_holds)

lemma no_holds_no_block:
  assumes "apply_challenges opp cs = Inr out" "ap_holds out = []" "c \<in> set cs" "ch_target (cl_draft c) = o_ident opp"
  shows "ch_effect (cl_draft c) \<noteq> BlockGate gate"
  using apply_fold_holds [OF assms(1) [unfolded apply_challenges_def]] assms(2-4) by fastforce

lemma guarded_chain:
  "(if e \<noteq> [] then Inl (Err e) else rbind A (\<lambda>d. rbind (B d) (\<lambda>x. Inr (C d x)))) = Inr wk \<Longrightarrow>
     e = [] \<and> (\<exists>d x. A = Inr d \<and> B d = Inr x \<and> wk = C d x)"
  by (simp add: rbind_eq_Inr split: if_split_asm) blast

lemma decided_from:
  assumes "decide_week hash ahash show_time detail chash w = Inr wk" "d \<in> set (dw_decided wk)"
  shows "week_errors w = [] \<and> (\<exists>x \<in> set (wi_proposals w).
    decide_one hash ahash show_time w (packet_views (wi_packet w)) x = Inr d)"
proof -
  from guarded_chain [OF assms(1) [unfolded decide_week_def Let_def]] have e: "week_errors w = []"
    and r: "rmapM (decide_one hash ahash show_time w (packet_views (wi_packet w))) (wi_proposals w) = Inr (dw_decided wk)"
    by auto
  from rmapM_from [OF r assms(2)] e show ?thesis by blast
qed

lemma decide_one_parts:
  assumes "decide_one hash ahash show_time w cited x = Inr d"
  shows "dc_proposal d = mp_ident x \<and> apply_challenges (mp_opportunity x) (wi_challenges w) = Inr (dc_applied d)"
  using assms by (auto simp: decide_one_def rbind_eq_Inr)

lemma week_at: "week_errors w = [] \<Longrightarrow> wh_as_of (wi_head w) = At (pk_as_of_ms (wi_packet w))"
  by (auto simp: week_errors_def Let_def split: if_splits)

text \<open>
  C3: a candidate the week passes rests on evidence. Decide a week on the unfiltered packet of a store at \<open>t\<close>: a decided
  candidate whose verdict is \<open>PASS\<close> comes from a proposal of the week, no challenge blocks it, its inputs are the proposed
  ones or worse, and among the records the proposal cites is a current one that is sound support at \<open>t\<close> --- in
  force, visible by then, unflagged, in no conflict, and established or customer demand.
\<close>

theorem passed_candidate_rests_on_evidence:
  assumes "wi_packet w = packet_build input t mode no_filter"
    and "decide_week hash ahash show_time detail chash w = Inr wk"
    and "d \<in> set (dw_decided wk)" and "passes (dc_assessment d)"
  shows "\<exists>x \<in> set (wi_proposals w). dc_proposal d = mp_ident x \<and>
    only_worse (mp_opportunity x) (ap_opportunity (dc_applied d)) \<and>
    (\<forall>c \<in> set (wi_challenges w). ch_target (cl_draft c) = o_ident (mp_opportunity x) \<longrightarrow>
       (\<forall>gate. ch_effect (cl_draft c) \<noteq> BlockGate gate)) \<and>
    (\<exists>c \<in> set (vw_current (as_of input t mode)).
       sr_record_id (cu_record c) \<in> set (o_signals (mp_opportunity x)) \<and> sound_support (as_of input t mode) t c)"
proof -
  obtain x where x: "x \<in> set (wi_proposals w)" "decide_one hash ahash show_time w (packet_views (wi_packet w)) x = Inr d"
    and e: "week_errors w = []"
    using decided_from [OF assms(2,3)] by blast
  have at: "wh_as_of (wi_head w) = At t" using week_at [OF e] by (simp add: assms(1) packet_build_def Let_def)
  note f = decide_one_facts [OF x(2)] and p = decide_one_parts [OF x(2)]
  from f assms(4) have h: "ap_holds (dc_applied d) = []" by (simp add: passes_def)
  from f assms(4) at obtain v where "v \<in> set (packet_views (packet_build input t mode no_filter))"
    "cr_record_id v \<in> set (o_signals (mp_opportunity x))" "supports v (At t)"
    by (auto simp: passes_def assms(1))
  with view_sound obtain c where "c \<in> set (vw_current (as_of input t mode))"
    "sr_record_id (cu_record c) \<in> set (o_signals (mp_opportunity x))" "sound_support (as_of input t mode) t c" by metis
  with x(1) p f no_holds_no_block [of _ _ "dc_applied d"] h show ?thesis by blast
qed

section \<open>A decided week\<close>

text \<open>A small one-off deal whose price rests on the sample filing, proposed for the week at 1500.\<close>

definition guess :: "'a \<Rightarrow> 'a \<Rightarrow> 'a \<Rightarrow> 'a assumption" where
  "guess lo m hi = \<lparr>a_value = Range lo m hi, a_evidence = [], a_as_of = At 100, a_note = None\<rparr>"

definition backed :: "'a \<Rightarrow> 'a \<Rightarrow> 'a \<Rightarrow> 'a assumption" where
  "backed lo m hi = \<lparr>a_value = Range lo m hi, a_evidence = [LUrl ''https://sec/a1''], a_as_of = At 100, a_note = None\<rparr>"

definition backed_deal :: opportunity where
  "backed_deal = (sample_opportunity HighTicketDelivery sample_one_off)
     \<lparr>o_signals := [''sec:a1:h1''],
      o_risk := sample_risk\<lparr>ra_concentration := [\<lparr>c_dimension = DClient, c_name = ''partner'', c_share = 30\<rparr>]\<rparr>,
      o_economics := \<lparr>e_currency = Eur, e_fx = None,
        e_revenue = OneOff (backed 5 6 7) (guess 10000 10000 10000) (guess 4 4 4) (guess 0 0 0) (guess 0 0 0),
        e_variable_cost = guess 0 0 0, e_fixed_costs_per_month = guess 0 0 0, e_owner_hours_per_month = guess 0 0 0,
        e_ramp_months = guess 0 0 0,
        e_initial = \<lparr>ic_acquisition = guess 0 0 0, ic_setup = guess 0 0 0, ic_validation = guess 0 0 0,
          ic_working_capital = guess 0 0 0\<rparr>,
        e_revenue_quality = QContracted, e_tax_review = TaxReviewed\<rparr>\<rparr>"

definition backed_draft :: proposal_draft where
  "backed_draft = \<lparr>pd_opportunity = backed_deal,
     pd_bases = [\<lparr>ib_field = f_CONTRACT_VALUE, ib_basis = BFact [''sec:a1:h1'']\<rparr>],
     pd_novelty = TLow, pd_forecast = []\<rparr>"

definition backed_proposal :: mechanism_proposal where
  "backed_proposal = \<lparr>mp_schema = \<lparr>st_record = ''mechanism_proposal'', st_version = 1\<rparr>, mp_ident = ''prop-1'',
     mp_version = 1, mp_cycle_id = ''2026-w41'', mp_provenance = sample_provenance, mp_draft = backed_draft\<rparr>"

definition backed_week :: week_input where
  "backed_week = \<lparr>wi_head = sample_head, wi_packet = packet_build sample_input 1500 Captured no_filter,
     wi_proposals = [backed_proposal], wi_challenges = [], wi_active = [], wi_profile = cheap_profile\<rparr>"

lemma late_seen: "seen_items sample_input 1500 Captured = [[(sample_filing, 25)]]"
  by code_simp

lemma late_view:
  "as_of sample_input 1500 Captured =
     \<lparr>vw_at_ms = 1500, vw_mode = Captured,
      vw_current = [\<lparr>cu_record = sample_filing, cu_visible_ms = 25, cu_state = InForce, cu_last_fact = None\<rparr>],
      vw_superseded = [], vw_issues = [],
      vw_events = [\<lparr>er_event_key = ''sec:filing:a1'', er_confidence = Confirmed, er_primary = 1,
        er_origins = [''sec''], er_records = [''sec:a1:h1'']\<rparr>],
      vw_conflicts = [], vw_visible = [(''sec:a1:h1'', sample_filing)]\<rparr>"
  unfolding as_of_def late_seen by code_simp

lemma late_parts:
  defines "p \<equiv> packet_build sample_input 1500 Captured no_filter"
  defines "c \<equiv> \<lparr>cu_record = sample_filing, cu_visible_ms = 25, cu_state = InForce, cu_last_fact = None\<rparr>"
  shows "pk_as_of_ms p = 1500" "pk_facts p = [fact_row_of c]" "pk_pending p = []" "pk_expired p = []" "pk_withdrawn p = []"
    "pk_unparsed p = []" "pk_events p = vw_events (as_of sample_input 1500 Captured)" "pk_issues p = []" "pk_conflicts p = []"
    "pk_citations p = [citation_of sample_filing]"
  unfolding p_def c_def
  by (simp_all add: packet_parts late_view packet_build_def Let_def sample_filing_def packet_row_of_def bset_def)

lemma late_packet:
  "packet_views (packet_build sample_input 1500 Captured no_filter) = [filing_cited]"
  "evidence_index_of (packet_build sample_input 1500 Captured no_filter) =
     \<lparr>ix_as_of_ms = 1500, ix_refs = [(''sec:a1:h1'', \<lparr>ef_record_id = ''sec:a1:h1'', ef_event_key = ''sec:filing:a1'',
        ef_source_id = ''sec'', ef_source_class = Some LawRegulator, ef_trust = Some Primary, ef_state = InForce,
        ef_url = ''https://sec/a1'', ef_published_ms = Some 10, ef_observed_ms = 20, ef_visible_ms = 25, ef_origin = None,
        ef_confidence = Confirmed, ef_confirmations = 1\<rparr>)]\<rparr>"
proof -
  let ?p = "packet_build sample_input 1500 Captured no_filter"
  let ?c = "\<lparr>cu_record = sample_filing, cu_visible_ms = 25, cu_state = InForce, cu_last_fact = None\<rparr>"
  have "packet_view ?p (fact_row_of ?c) = filing_cited"
    unfolding packet_view_def late_parts late_view contradictions_def as_of_view.simps Let_def by code_simp
  then show "packet_views ?p = [filing_cited]" by (simp add: packet_views_def late_parts)
  show "evidence_index_of ?p = \<lparr>ix_as_of_ms = 1500, ix_refs = [(''sec:a1:h1'', \<lparr>ef_record_id = ''sec:a1:h1'',
        ef_event_key = ''sec:filing:a1'',
        ef_source_id = ''sec'', ef_source_class = Some LawRegulator, ef_trust = Some Primary, ef_state = InForce,
        ef_url = ''https://sec/a1'', ef_published_ms = Some 10, ef_observed_ms = 20, ef_visible_ms = 25, ef_origin = None,
        ef_confidence = Confirmed, ef_confirmations = 1\<rparr>)]\<rparr>"
    unfolding evidence_index_of_def packet_refs_def typed_ref_def cited_url_def event_grade_def late_parts late_view
      as_of_view.simps Let_def by code_simp
qed

lemma backed_draft_checked:
  "draft_check backed_draft (evidence_index_of (packet_build sample_input 1500 Captured no_filter)) (At 1500) = []"
  unfolding late_packet by code_simp

lemma backed_no_errors: "week_errors backed_week = []"
  by (simp add: week_errors_def Let_def backed_week_def sample_head_def backed_proposal_def backed_draft_checked late_parts
      p_unique_def)

definition backed_scenarios :: scenarios where
  "backed_scenarios =
     \<lparr>sc_economics_version = 1, sc_inputs_sha256 = ''sha'', sc_currency = Eur, sc_native_currency = Eur, sc_basis = PreTax,
      sc_run_rate_month = 12,
      sc_downside = \<lparr>sm_scenario = Downside, sm_monthly_revenue_collected = Known 5, sm_monthly_cash_contribution = Known 5,
        sm_owner_hours_per_month = Known 0, sm_owner_time_cost = Known 0, sm_time_adjusted_contribution = Known 5,
        sm_initial_capital = Known 0, sm_payback = Known (Months 0), sm_payback_time_adjusted = Known (Months 0),
        sm_occupied_months = Some (Known 1)\<rparr>,
      sc_base = \<lparr>sm_scenario = Base, sm_monthly_revenue_collected = Known 6, sm_monthly_cash_contribution = Known 6,
        sm_owner_hours_per_month = Known 0, sm_owner_time_cost = Known 0, sm_time_adjusted_contribution = Known 6,
        sm_initial_capital = Known 0, sm_payback = Known (Months 0), sm_payback_time_adjusted = Known (Months 0),
        sm_occupied_months = Some (Known 1)\<rparr>,
      sc_upside = \<lparr>sm_scenario = Upside, sm_monthly_revenue_collected = Known 7, sm_monthly_cash_contribution = Known 7,
        sm_owner_hours_per_month = Known 0, sm_owner_time_cost = Known 0, sm_time_adjusted_contribution = Known 7,
        sm_initial_capital = Known 0, sm_payback = Known (Months 0), sm_payback_time_adjusted = Known (Months 0),
        sm_occupied_months = Some (Known 1)\<rparr>,
      sc_expected_loss = Known \<lparr>lr_low = 1000, lr_high = 16666\<rparr>\<rparr>"

definition backed_keys :: "rank_key \<Rightarrow> key_value" where
  "backed_keys k = (case k of
       EvidenceConfidence \<Rightarrow> KTier THigh
     | TimeAdjustedBase \<Rightarrow> KMoney \<lparr>m_minor = 6, m_currency = Eur\<rparr>
     | PaybackBase \<Rightarrow> KPayback (Months 0)
     | DaysToDecisiveEvidence \<Rightarrow> KDays 1
     | Reversibility \<Rightarrow> KTier THigh
     | CapabilityFit \<Rightarrow> KFit FProven
     | ConcentrationMax \<Rightarrow> KShare 30
     | Defensibility \<Rightarrow> KTier TMedium)"

definition backed_assessment :: assessment where
  "backed_assessment = \<lparr>as_id = ''opp-1'', as_version = 1,
     as_verdict = \<lparr>gv_verdict = Pass, gv_as_of = At 1500, gv_economics_version = 1, gv_inputs_sha256 = ''sha'', gv_failures = []\<rparr>,
     as_scenarios = backed_scenarios,
     as_fit = \<lparr>cf_level = FProven, cf_skills = [\<lparr>sf_skill = ''rust'', sf_level = FProven, sf_capability = Some ''rust''\<rparr>]\<rparr>,
     as_keys = backed_keys, as_inputs_sha256 = ''sha''\<rparr>"

lemma backed_values:
  "scenarios_of sha_ok backed_deal cheap_profile = Inr backed_scenarios"
  "gates sha_ok backed_deal [filing_cited] cheap_profile (At 1500) = Inr (as_verdict backed_assessment)"
  "days_to_decisive_evidence (\<lambda>_. []) backed_deal (At 1500) = Inr (KDays 1)"
  "fit_of backed_deal cheap_profile (At 1500) = as_fit backed_assessment"
  "evidence_confidence backed_deal [filing_cited] (At 1500) = THigh"
  "concentration_max (o_risk backed_deal) = Some 30"
  "o_ordinal backed_deal = \<lparr>od_defensibility = TMedium, od_reversibility = THigh\<rparr>"
  "o_ident backed_deal = ''opp-1''" "o_version backed_deal = 1"
  by code_simp+

lemma backed_assessed:
  "assess sha_ok (\<lambda>_ _ _. Inr ''sha'') (\<lambda>_. []) backed_deal [filing_cited] cheap_profile (At 1500) = Inr backed_assessment"
proof -
  have "metric_value (sm_time_adjusted_contribution (sc_base backed_scenarios))
      (\<lambda>v. KMoney \<lparr>m_minor = v, m_currency = sc_currency backed_scenarios\<rparr>) = KMoney \<lparr>m_minor = 6, m_currency = Eur\<rparr>"
    "metric_value (sm_payback (sc_base backed_scenarios)) KPayback = KPayback (Months 0)"
    by code_simp+
  then have "(\<lambda>k. case k of
       EvidenceConfidence \<Rightarrow> KTier THigh
     | TimeAdjustedBase \<Rightarrow> metric_value (sm_time_adjusted_contribution (sc_base backed_scenarios))
                 (\<lambda>v. KMoney \<lparr>m_minor = v, m_currency = sc_currency backed_scenarios\<rparr>)
     | PaybackBase \<Rightarrow> metric_value (sm_payback (sc_base backed_scenarios)) KPayback
     | DaysToDecisiveEvidence \<Rightarrow> KDays 1
     | Reversibility \<Rightarrow> KTier THigh
     | CapabilityFit \<Rightarrow> KFit FProven
     | ConcentrationMax \<Rightarrow> KShare 30
     | Defensibility \<Rightarrow> KTier TMedium) = backed_keys"
    by (simp add: fun_eq_iff backed_keys_def split: rank_key.split)
  then show ?thesis
    by (simp add: assess_def backed_values Let_def backed_assessment_def)
qed

lemma backed_allocated:
  "case allocate sha_ok detail_text week_sha sample_head
       [\<lparr>cd_opportunity = backed_deal, cd_assessment = backed_assessment, cd_track = New\<rparr>] cheap_profile [filing_cited] of
     Inr out \<Rightarrow> map rr_action (w_ranked (ao_portfolio out)) = [CheapTest 0 5] | Inl _ \<Rightarrow> False"
  by code_simp

definition backed_decided :: decided where
  "backed_decided = \<lparr>dc_proposal = ''prop-1'',
     dc_applied = \<lparr>ap_opportunity = backed_deal, ap_changes = [], ap_ignored = [], ap_holds = []\<rparr>,
     dc_assessment = backed_assessment, dc_track = New\<rparr>"

lemma backed_decide_one:
  "decide_one sha_ok (\<lambda>_ _ _. Inr ''sha'') (\<lambda>_. []) backed_week [filing_cited] backed_proposal = Inr backed_decided"
proof -
  have "apply_challenges backed_deal [] = Inr (dc_applied backed_decided)"
    by (simp add: apply_challenges_def backed_decided_def)
  moreover have "applied_held (dc_applied backed_decided) (as_verdict backed_assessment) = as_verdict backed_assessment"
    by code_simp
  ultimately show ?thesis
    by (simp add: decide_one_def backed_week_def backed_proposal_def backed_draft_def sample_head_def backed_assessed)
      (simp add: backed_decided_def backed_assessed)
qed

lemma backed_week_decided:
  "\<exists>wk. decide_week sha_ok (\<lambda>_ _ _. Inr ''sha'') (\<lambda>_. []) detail_text week_sha backed_week = Inr wk \<and>
     dw_decided wk = [backed_decided]"
proof -
  have "decided_candidate backed_decided =
      \<lparr>cd_opportunity = backed_deal, cd_assessment = backed_assessment, cd_track = New\<rparr>"
    by (simp add: decided_candidate_def backed_decided_def)
  with backed_allocated obtain out where "allocate sha_ok detail_text week_sha sample_head
      [decided_candidate backed_decided] cheap_profile [filing_cited] = Inr out" by (auto split: sum.splits)
  moreover have "rmapM (decide_one sha_ok (\<lambda>_ _ _. Inr ''sha'') (\<lambda>_. []) backed_week
      (packet_views (wi_packet backed_week))) (wi_proposals backed_week) = Inr [backed_decided]"
    using backed_decide_one late_packet(1) by (simp add: backed_week_def)
  ultimately show ?thesis
    unfolding decide_week_def Let_def using backed_no_errors by (simp add: backed_week_def late_packet(1))
qed

theorem passed_candidate_rests_on_evidence_witness:
  "\<exists>wk. decide_week sha_ok (\<lambda>_ _ _. Inr ''sha'') (\<lambda>_. []) detail_text week_sha backed_week = Inr wk \<and>
     (\<exists>d \<in> set (dw_decided wk). passes (dc_assessment d) \<and>
       (\<exists>c \<in> set (vw_current (as_of sample_input 1500 Captured)).
          sr_record_id (cu_record c) = ''sec:a1:h1'' \<and> sound_support (as_of sample_input 1500 Captured) 1500 c))"
proof -
  obtain wk where wk: "decide_week sha_ok (\<lambda>_ _ _. Inr ''sha'') (\<lambda>_. []) detail_text week_sha backed_week = Inr wk"
    "backed_decided \<in> set (dw_decided wk)" using backed_week_decided by auto
  have pass: "passes (dc_assessment backed_decided)"
    by (simp add: backed_decided_def backed_assessment_def passes_def)
  have packet: "wi_packet backed_week = packet_build sample_input 1500 Captured no_filter" by (simp add: backed_week_def)
  have "o_signals (mp_opportunity backed_proposal) = [''sec:a1:h1'']"
    by (simp add: backed_proposal_def backed_draft_def backed_deal_def)
  with passed_candidate_rests_on_evidence [OF packet wk pass] wk pass show ?thesis
    by (auto simp: backed_week_def)
qed

end
