(* ===== verification/Soe_Replay.thy ===== *)
theory Soe_Replay
  imports Soe_Decide
begin

text \<open>
  Replay of labelled weeks: \<open>src/src/domain/soe/replay.rs\<close>, the set of labelled decision dates, the scores of what a replayed
  week answered and the stability of its ranking. The calendar of \<open>chrono\<close> is a parameter; a perturbation is kept where the
  source keeps its name. Shown here: the stability of a week is exactly that of the rankings of its
  perturbed candidates against its own.
\<close>

section \<open>Replay sets\<close>

datatype replay_split = Development | Holdout

datatype replay_label = LabelGood | LabelBad | LabelStale | LabelContradictory | LabelHold

record replay_case =
  rc_ident :: string
  rc_decided_at :: time
  rc_week :: "iso_week option"
  rc_split :: replay_split
  rc_label :: replay_label
  rc_good :: "string list"
  rc_bad :: "string list"
  rc_outcome_note :: string
  rc_proposals :: "json list"
  rc_challenges :: "json list"

text \<open>
  \<open>IsoWeek::of\<close>: the calendar of \<open>chrono\<close> is the arguments \<open>iso_of_ms\<close> (the ISO year and week of an instant, if it has
  one) and \<open>isoywd\<close> (which weeks a year has); \<open>monday_ms\<close> is the first instant of the Monday of a week.
\<close>

definition iso_week_of :: "(int \<Rightarrow> (int \<times> int) option) \<Rightarrow> (int \<Rightarrow> int \<Rightarrow> bool) \<Rightarrow> time \<Rightarrow> iso_week option" where
  "iso_week_of iso_of_ms isoywd t =
     Option.bind (earliest t) (\<lambda>ms. Option.bind (iso_of_ms ms) (\<lambda>(y, n).
       case iso_week_new isoywd y n of Inr w \<Rightarrow> Some w | Inl _ \<Rightarrow> None))"

definition case_week :: "(time \<Rightarrow> iso_week option) \<Rightarrow> replay_case \<Rightarrow> iso_week option" where
  "case_week week_of c = (case rc_week c of Some w \<Rightarrow> Some w | None \<Rightarrow> week_of (rc_decided_at c))"

definition decided_at_ms :: "replay_case \<Rightarrow> int option" where
  "decided_at_ms c = (case rc_decided_at c of At t \<Rightarrow> Some t | _ \<Rightarrow> None)"

definition has_drafts :: "replay_case \<Rightarrow> bool" where
  "has_drafts c \<longleftrightarrow> rc_proposals c \<noteq> [] \<or> rc_challenges c \<noteq> []"

record replay_set =
  rt_schema :: schema_tag
  rt_ident :: string
  rt_version :: int
  rt_synthetic :: bool
  rt_profile :: string
  rt_note :: string
  rt_cases :: "replay_case list"

definition cases_in :: "replay_set \<Rightarrow> replay_split \<Rightarrow> replay_case list" where
  "cases_in s split = filter (\<lambda>c. rc_split c = split) (rt_cases s)"

definition check_profile :: "replay_set \<Rightarrow> operator_profile \<Rightarrow> unit vres" where
  "check_profile s p = (if rt_profile s = p_ident p then Inr () else Inl (Err PROFILE_MISMATCH))"

definition is_object :: "json \<Rightarrow> bool" where
  "is_object v \<longleftrightarrow> (case v of JObject _ \<Rightarrow> True | _ \<Rightarrow> False)"

definition case_time_problems ::
  "(time \<Rightarrow> iso_week option) \<Rightarrow> (iso_week \<Rightarrow> int) \<Rightarrow> string \<Rightarrow> replay_case \<Rightarrow> problem list" where
  "case_time_problems week_of monday_ms at c =
     (case (decided_at_ms c, case_week week_of c) of
        (None, _) \<Rightarrow> [(INVALID_TIME, at @ ''.decided_at'')]
      | (Some _, None) \<Rightarrow> [(INVALID_TIME, at @ ''.decided_at'')]
      | (Some t, Some w) \<Rightarrow>
          p_check (monday_ms w - DAY_MS \<le> t \<and> t < monday_ms w + 8 * DAY_MS) INVALID_FIELD (at @ ''.week''))"

definition replay_problems ::
  "(time \<Rightarrow> iso_week option) \<Rightarrow> (iso_week \<Rightarrow> int) \<Rightarrow> replay_set \<Rightarrow> problem list" where
  "replay_problems week_of monday_ms s =
     p_id ''profile'' (rt_profile s) @
     p_text ''note'' (rt_note s) @
     p_check (rt_cases s \<noteq> []) INVALID_FIELD ''cases'' @
     p_unique ''cases.id'' (map rc_ident (rt_cases s)) @
     p_each (\<lambda>i c.
       (let at = at_index ''cases'' i;
            drafts = (\<lambda>what ds. p_each (\<lambda>j d. p_check (is_object d) INVALID_FIELD (at @ ''.'' @ at_index what j)) ds)
        in p_id (at @ ''.id'') (rc_ident c) @
           p_text (at @ ''.outcome_note'') (rc_outcome_note c) @
           case_time_problems week_of monday_ms at c @
           p_unique_texts (at @ ''.good'') (rc_good c) @
           p_unique_texts (at @ ''.bad'') (rc_bad c) @
           map (\<lambda>_. (INVALID_FIELD, at @ ''.bad'')) (filter (\<lambda>g. g \<in> set (rc_bad c)) (rc_good c)) @
           drafts ''proposals'' (rc_proposals c) @ drafts ''challenges'' (rc_challenges c))) (rt_cases s)"

definition validate_replay_set ::
  "(time \<Rightarrow> iso_week option) \<Rightarrow> (iso_week \<Rightarrow> int) \<Rightarrow> replay_set \<Rightarrow> problem list + unit" where
  "validate_replay_set week_of monday_ms s =
     validate ''replay_set'' (rt_schema s) (rt_ident s) (rt_version s) (replay_problems week_of monday_ms s)"

interpretation replay_record: soe_record "''replay_set''" rt_schema rt_ident rt_version
  "replay_problems week_of monday_ms" "validate_replay_set week_of monday_ms" for week_of monday_ms
  by unfold_locales (simp add: validate_replay_set_def)

section \<open>Scores\<close>

record week_answer =
  wa_hold :: bool
  wa_ranked :: "string list"

definition week_answer_of :: "weekly_portfolio \<Rightarrow> week_answer" where
  "week_answer_of p = \<lparr>wa_hold = is_hold p, wa_ranked = map rr_id (w_ranked p)\<rparr>"

definition agrees :: "replay_label \<Rightarrow> week_answer \<Rightarrow> bool" where
  "agrees label a = (if label = LabelGood then \<not> wa_hold a else wa_hold a)"

record case_score =
  cs_label :: replay_label
  cs_agrees :: bool
  cs_missed :: "string list"
  cs_false_positives :: "string list"

definition score_case :: "replay_case \<Rightarrow> week_answer \<Rightarrow> case_score" where
  "score_case c a =
     \<lparr>cs_label = rc_label c, cs_agrees = agrees (rc_label c) a,
      cs_missed = filter (\<lambda>g. g \<notin> set (wa_ranked a)) (rc_good c),
      cs_false_positives = filter (\<lambda>b. b \<in> set (wa_ranked a)) (rc_bad c)\<rparr>"

definition ratio_bps :: "nat \<Rightarrow> nat \<Rightarrow> bps option" where
  "ratio_bps n d =
     (if d = 0 then None
      else case bps_new (min (int n * BPS_FULL div int d) BPS_FULL) of Inr b \<Rightarrow> Some b | Inl _ \<Rightarrow> None)"

section \<open>Rank stability\<close>

text \<open>A perturbation that moved the ranking (the source keeps its name).\<close>

record moved =
  mo_perturbation :: perturbation
  mo_before :: "string list"
  mo_after :: "string list"

record stability =
  sy_scale_bps :: int
  sy_perturbations :: nat
  sy_stable :: nat
  sy_moved :: "moved list"

definition ranked_ids :: "assessment list \<Rightarrow> operator_profile \<Rightarrow> string list" where
  "ranked_ids all p = map as_id (rank all (p_rank_order p))"

definition reassessed ::
  "econ_hash \<Rightarrow> assess_hash \<Rightarrow> (time \<Rightarrow> string) \<Rightarrow> decided_week \<Rightarrow> operator_profile \<Rightarrow>
     (opportunity \<Rightarrow> opportunity vres) \<Rightarrow> assessment list vres" where
  "reassessed hash ahash show_time wk p f =
     rmapM (\<lambda>d.
       rbind (f (ap_opportunity (dc_applied d))) (\<lambda>opp.
       rbind (assess hash ahash show_time opp (dw_cited wk) p (w_as_of (dw_portfolio wk))) (\<lambda>a.
       Inr (a\<lparr>as_verdict := applied_held (dc_applied d) (as_verdict a)\<rparr>)))) (dw_decided wk)"

definition stability_step ::
  "econ_hash \<Rightarrow> assess_hash \<Rightarrow> (time \<Rightarrow> string) \<Rightarrow> decided_week \<Rightarrow> operator_profile \<Rightarrow> string list \<Rightarrow>
     stability \<Rightarrow> perturbation \<Rightarrow> stability vres" where
  "stability_step hash ahash show_time wk p before out pt =
     rbind (reassessed hash ahash show_time wk p (\<lambda>opp. rmap fst (perturb opp pt))) (\<lambda>all.
     let after = ranked_ids all p;
         out = out\<lparr>sy_perturbations := sy_perturbations out + 1\<rparr>
     in Inr (if after = before then out\<lparr>sy_stable := sy_stable out + 1\<rparr>
             else out\<lparr>sy_moved := sy_moved out @ [\<lparr>mo_perturbation = pt, mo_before = before, mo_after = after\<rparr>]\<rparr>))"

definition rank_stability ::
  "econ_hash \<Rightarrow> assess_hash \<Rightarrow> (time \<Rightarrow> string) \<Rightarrow> decided_week \<Rightarrow> operator_profile \<Rightarrow> int \<Rightarrow> stability vres" where
  "rank_stability hash ahash show_time wk p scale_bps =
     (let out = \<lparr>sy_scale_bps = scale_bps, sy_perturbations = 0, sy_stable = 0, sy_moved = []\<rparr>
      in if dw_decided wk = [] then Inr out
         else rbind (reassessed hash ahash show_time wk p Inr) (\<lambda>all.
              rfold (stability_step hash ahash show_time wk p (ranked_ids all p)) out (tornado scale_bps)))"

section \<open>The summary of a split\<close>

record scored =
  sd_answer :: week_answer
  sd_score :: case_score
  sd_unsupported_claims :: nat
  sd_stability :: stability

record replay_summary =
  ry_cases :: nat
  ry_agree :: nat
  ry_agreement_bps :: "bps option"
  ry_held :: nat
  ry_held_right :: nat
  ry_hold_labels :: nat
  ry_hold_precision_bps :: "bps option"
  ry_hold_recall_bps :: "bps option"
  ry_missed :: nat
  ry_false_positives :: nat
  ry_unsupported_claims :: nat
  ry_perturbations :: nat
  ry_stable :: nat
  ry_stability_bps :: "bps option"

definition summarize :: "scored list \<Rightarrow> replay_summary" where
  "summarize cs =
     (let n = length cs;
          agree = length (filter (cs_agrees \<circ> sd_score) cs);
          held = length (filter (wa_hold \<circ> sd_answer) cs);
          hold_labels = length (filter (\<lambda>c. cs_label (sd_score c) \<noteq> LabelGood) cs);
          held_right = length (filter (\<lambda>c. wa_hold (sd_answer c) \<and> cs_label (sd_score c) \<noteq> LabelGood) cs);
          perturbations = sum_list (map (sy_perturbations \<circ> sd_stability) cs);
          stable = sum_list (map (sy_stable \<circ> sd_stability) cs)
      in \<lparr>ry_cases = n, ry_agree = agree, ry_agreement_bps = ratio_bps agree n, ry_held = held,
          ry_held_right = held_right, ry_hold_labels = hold_labels,
          ry_hold_precision_bps = ratio_bps held_right held, ry_hold_recall_bps = ratio_bps held_right hold_labels,
          ry_missed = sum_list (map (length \<circ> cs_missed \<circ> sd_score) cs),
          ry_false_positives = sum_list (map (length \<circ> cs_false_positives \<circ> sd_score) cs),
          ry_unsupported_claims = sum_list (map sd_unsupported_claims cs),
          ry_perturbations = perturbations, ry_stable = stable, ry_stability_bps = ratio_bps stable perturbations\<rparr>)"

section \<open>The baseline of the stability\<close>

lemma allocate_ranked_ids: "allocate_ranked p cands i as f = Inr (f', rows, ns) \<Longrightarrow> map rr_id rows = map as_id as"
proof (induction as arbitrary: i f rows ns)
  case (Cons a as)
  obtain c g taken where c: "by_id cands (as_id a) = Inr c" "fill_take f c p = Inr (g, taken)"
    using Cons.prems by (auto simp: rbind_eq_Inr)
  then obtain rows' ns' action where "allocate_ranked p cands (i + 1) as g = Inr (f', rows', ns')"
    "rows = ranked_row_of (int i + 1) a (p_rank_order p) action # rows'"
    using Cons.prems by (cases taken) (auto simp: rbind_eq_Inr Let_def split: prod.splits)
  with Cons.IH show ?case by (simp add: ranked_row_of_def)
qed simp

lemma allocate_head:
  assumes "allocate hash detail chash head cands p cited = Inr out"
  shows "w_as_of (ao_portfolio out) = wh_as_of head"
proof -
  have "\<not> (same_decision head (map cd_assessment cands) @ map fst (p_unique ''candidates'' (map as_id (map cd_assessment cands))) \<noteq> [])"
    using assms by (auto simp: allocate_def Let_def split: if_splits)
  then show ?thesis using assms by (auto simp: allocate_def Let_def rbind_eq_Inr checked_Inr)
qed

lemma week_parts:
  assumes "decide_week hash ahash show_time detail chash w = Inr wk"
  shows "w_as_of (dw_portfolio wk) = wh_as_of (wi_head w)" "dw_cited wk = packet_views (wi_packet w)"
    "rmapM (decide_one hash ahash show_time w (dw_cited wk)) (wi_proposals w) = Inr (dw_decided wk)"
    "map rr_id (w_ranked (dw_portfolio wk)) = ranked_ids (map dc_assessment (dw_decided wk)) (wi_profile w)"
proof -
  obtain out where r: "rmapM (decide_one hash ahash show_time w (packet_views (wi_packet w))) (wi_proposals w) = Inr (dw_decided wk)"
    and a: "allocate hash detail chash (wi_head w) (map decided_candidate (dw_decided wk)) (wi_profile w)
      (packet_views (wi_packet w)) = Inr out" and wk: "dw_portfolio wk = ao_portfolio out"
      "dw_cited wk = packet_views (wi_packet w)"
    using guarded_chain [OF assms [unfolded decide_week_def Let_def]] by auto
  show "w_as_of (dw_portfolio wk) = wh_as_of (wi_head w)" using allocate_head [OF a] wk(1) by simp
  show "dw_cited wk = packet_views (wi_packet w)" by (rule wk(2))
  show "rmapM (decide_one hash ahash show_time w (dw_cited wk)) (wi_proposals w) = Inr (dw_decided wk)"
    using r wk(2) by simp
  from a obtain f ns where "allocate_ranked (wi_profile w) (map decided_candidate (dw_decided wk)) 0
      (rank (map cd_assessment (map decided_candidate (dw_decided wk))) (p_rank_order (wi_profile w)))
      (empty_fill (wi_profile w)) = Inr (f, w_ranked (ao_portfolio out), ns)" by (elim allocate_steps) blast
  from allocate_ranked_ids [OF this]
  show "map rr_id (w_ranked (dw_portfolio wk)) = ranked_ids (map dc_assessment (dw_decided wk)) (wi_profile w)"
    by (simp add: wk(1) ranked_ids_def decided_candidate_def comp_def)
qed

lemma reassessed_unchanged:
  assumes "decide_week hash ahash show_time detail chash w = Inr wk"
  shows "reassessed hash ahash show_time wk (wi_profile w) Inr = Inr (map dc_assessment (dw_decided wk))"
proof -
  note p = week_parts [OF assms]
  have one: "rbind (assess hash ahash show_time (ap_opportunity (dc_applied d)) (dw_cited wk) (wi_profile w)
      (w_as_of (dw_portfolio wk))) (\<lambda>a. Inr (a\<lparr>as_verdict := applied_held (dc_applied d) (as_verdict a)\<rparr>)) =
    Inr (dc_assessment d)" if d: "d \<in> set (dw_decided wk)" for d
  proof -
    obtain x where "decide_one hash ahash show_time w (dw_cited wk) x = Inr d"
      using rmapM_from [OF p(3) d] by blast
    then show ?thesis by (auto simp: decide_one_def rbind_eq_Inr p(1))
  qed
  have "rmapM (\<lambda>d. rbind (assess hash ahash show_time (ap_opportunity (dc_applied d)) (dw_cited wk) (wi_profile w)
      (w_as_of (dw_portfolio wk))) (\<lambda>a. Inr (a\<lparr>as_verdict := applied_held (dc_applied d) (as_verdict a)\<rparr>))) ds =
    Inr (map dc_assessment ds)" if "set ds \<subseteq> set (dw_decided wk)" for ds
    using that by (induction ds) (simp_all add: one)
  from this [of "dw_decided wk"] show ?thesis by (simp add: reassessed_def)
qed

text \<open>
  The ranking of a week under one perturbation, without the loop: the challenged inputs of each decided candidate
  perturbed, gated again on the evidence of the week at its decision time with the holds of its challenges, and ranked.
\<close>

definition perturbed_ranking ::
  "econ_hash \<Rightarrow> assess_hash \<Rightarrow> (time \<Rightarrow> string) \<Rightarrow> decided_week \<Rightarrow> operator_profile \<Rightarrow> perturbation \<Rightarrow> string list vres" where
  "perturbed_ranking hash ahash show_time wk p pt =
     rbind (rmapM (\<lambda>d.
       rbind (perturb (ap_opportunity (dc_applied d)) pt) (\<lambda>(opp, _).
       rbind (assess hash ahash show_time opp (dw_cited wk) p (w_as_of (dw_portfolio wk))) (\<lambda>a.
       Inr (a\<lparr>as_verdict := with_holds (as_verdict a) (ap_holds (dc_applied d))\<rparr>)))) (dw_decided wk)) (\<lambda>all.
     Inr (map as_id (rank all (p_rank_order p))))"

definition stability_of :: "int \<Rightarrow> string list \<Rightarrow> perturbation list \<Rightarrow> string list list \<Rightarrow> stability" where
  "stability_of scale_bps week pts rankings =
     \<lparr>sy_scale_bps = scale_bps, sy_perturbations = length pts, sy_stable = count_list rankings week,
      sy_moved = map (\<lambda>(pt, after). \<lparr>mo_perturbation = pt, mo_before = week, mo_after = after\<rparr>)
        (filter (\<lambda>(_, after). after \<noteq> week) (zip pts rankings))\<rparr>"

lemma rbind_rmap_fst: "rbind (rmap fst m) g = rbind m (\<lambda>(x, _). g x)"
  by (cases m) (auto split: prod.splits)

lemma reassessed_perturbed:
  "rbind (reassessed hash ahash show_time wk p (\<lambda>opp. rmap fst (perturb opp pt))) (\<lambda>all. Inr (ranked_ids all p)) =
     perturbed_ranking hash ahash show_time wk p pt"
  by (simp add: reassessed_def perturbed_ranking_def ranked_ids_def applied_held_def rbind_rmap_fst)

lemma stability_step_ranking:
  "stability_step hash ahash show_time wk p before out pt =
     rbind (perturbed_ranking hash ahash show_time wk p pt) (\<lambda>after.
     Inr (out\<lparr>sy_perturbations := sy_perturbations out + 1,
       sy_stable := sy_stable out + (if after = before then 1 else 0),
       sy_moved := sy_moved out @
         (if after = before then [] else [\<lparr>mo_perturbation = pt, mo_before = before, mo_after = after\<rparr>])\<rparr>))"
  unfolding reassessed_perturbed [symmetric] stability_step_def
  by (cases "reassessed hash ahash show_time wk p (\<lambda>opp. rmap fst (perturb opp pt))") (simp_all add: Let_def)

lemma stability_fold_exact:
  "rfold (stability_step hash ahash show_time wk p before) out pts =
     rmap (\<lambda>rankings. out\<lparr>sy_perturbations := sy_perturbations out + length pts,
       sy_stable := sy_stable out + count_list rankings before,
       sy_moved := sy_moved out @ sy_moved (stability_of 0 before pts rankings)\<rparr>)
     (rmapM (perturbed_ranking hash ahash show_time wk p) pts)"
proof (induction pts arbitrary: out)
  case Nil
  show ?case by (simp add: stability_of_def)
next
  case (Cons pt pts)
  show ?case
  proof (cases "perturbed_ranking hash ahash show_time wk p pt")
    case (Inr after)
    show ?thesis
      by (cases "rmapM (perturbed_ranking hash ahash show_time wk p) pts")
        (auto simp: stability_step_ranking [of _ _ _ _ _ _ out pt] Inr Cons.IH stability_of_def)
  qed (simp add: stability_step_ranking [of _ _ _ _ _ _ out pt])
qed

text \<open>
  C22: the stability of a week is measured against the week itself. For every perturbation of the tornado the inputs of
  the decided candidates are perturbed, the candidates assessed again and ranked; a perturbation counts as stable
  exactly when that ranking is the one of the week's portfolio, and every other one is listed, in order, with both
  rankings. A week without candidates counts none, and an error of any of these steps is the answer.
\<close>

theorem stability_measures_the_week:
  assumes "decide_week hash ahash show_time detail chash w = Inr wk"
  shows "rank_stability hash ahash show_time wk (wi_profile w) scale_bps =
    (if dw_decided wk = [] then Inr (stability_of scale_bps [] [] [])
     else rmap (stability_of scale_bps (map rr_id (w_ranked (dw_portfolio wk))) (tornado scale_bps))
       (rmapM (perturbed_ranking hash ahash show_time wk (wi_profile w)) (tornado scale_bps)))"
proof (cases "dw_decided wk = []")
  case True
  then show ?thesis by (simp add: rank_stability_def stability_of_def)
next
  case False
  have "ranked_ids (map dc_assessment (dw_decided wk)) (wi_profile w) = map rr_id (w_ranked (dw_portfolio wk))"
    using week_parts(4) [OF assms] by simp
  then show ?thesis
    using False by (simp add: rank_stability_def reassessed_unchanged [OF assms] stability_fold_exact)
      (rule arg_cong [where f = "\<lambda>f. rmap f _"], simp add: fun_eq_iff stability_of_def)
qed

text \<open>The week of the sample with its inputs at nothing and at twice their value.\<close>

definition backed_after :: "perturbation \<Rightarrow> string list vres" where
  "backed_after pt =
     rbind (perturb backed_deal pt) (\<lambda>(opp, _).
     rbind (assess sha_ok (\<lambda>_ _ _. Inr ''sha'') (\<lambda>_. []) opp [filing_cited] cheap_profile (At 1500)) (\<lambda>a.
     Inr (map as_id (rank [a\<lparr>as_verdict := with_holds (as_verdict a) []\<rparr>] (p_rank_order cheap_profile)))))"

lemma backed_unmoved:
  "rmap fst (perturb backed_deal \<lparr>pt_input = POwnerHours, pt_scale_bps = - 10000\<rparr>) = Inr backed_deal \<and>
   rmap fst (perturb backed_deal \<lparr>pt_input = POwnerHours, pt_scale_bps = 10000\<rparr>) = Inr backed_deal \<and>
   rmap fst (perturb backed_deal \<lparr>pt_input = PChurn, pt_scale_bps = - 10000\<rparr>) = Inr backed_deal \<and>
   rmap fst (perturb backed_deal \<lparr>pt_input = PChurn, pt_scale_bps = 10000\<rparr>) = Inr backed_deal"
  by code_simp

lemma backed_moved:
  "rmapM backed_after [\<lparr>pt_input = PConversion, pt_scale_bps = - 10000\<rparr>, \<lparr>pt_input = PConversion, pt_scale_bps = 10000\<rparr>,
     \<lparr>pt_input = PPrice, pt_scale_bps = - 10000\<rparr>, \<lparr>pt_input = PPrice, pt_scale_bps = 10000\<rparr>] =
   Inr [[], [''opp-1''], [], [''opp-1'']]"
  by code_simp

lemma backed_ranking:
  assumes "decide_week sha_ok (\<lambda>_ _ _. Inr ''sha'') (\<lambda>_. []) detail_text week_sha backed_week = Inr wk"
    and "dw_decided wk = [backed_decided]"
  shows "perturbed_ranking sha_ok (\<lambda>_ _ _. Inr ''sha'') (\<lambda>_. []) wk cheap_profile pt = backed_after pt"
proof -
  note p = week_parts [OF assms(1)]
  have wk: "w_as_of (dw_portfolio wk) = At 1500" "dw_cited wk = [filing_cited]"
    using p(1,2) by (simp_all add: backed_week_def sample_head_def late_packet(1))
  have b: "rbind (rbind m (\<lambda>x. Inr [x])) f = rbind m (\<lambda>x. f [x])" "rbind (rbind m g) h = rbind m (\<lambda>x. rbind (g x) h)"
    for m :: "('e, 'a) res" and f :: "'a list \<Rightarrow> ('e, 'b) res" and g :: "'a \<Rightarrow> ('e, 'c) res" and h :: "'c \<Rightarrow> ('e, 'b) res"
    by (cases m; simp)+
  show ?thesis
    by (cases "perturb backed_deal pt")
      (auto simp: perturbed_ranking_def backed_after_def assms(2) backed_decided_def wk b split: prod.splits)
qed

lemma backed_after_same:
  assumes "rmap fst (perturb backed_deal pt) = Inr backed_deal"
  shows "backed_after pt = Inr [''opp-1'']"
proof -
  obtain fs where p: "perturb backed_deal pt = Inr (backed_deal, fs)"
    using assms by (cases "perturb backed_deal pt") auto
  have "map as_id (rank [backed_assessment\<lparr>as_verdict := with_holds (as_verdict backed_assessment) []\<rparr>] (p_rank_order cheap_profile)) =
      [''opp-1'']" by code_simp
  then show ?thesis by (simp add: backed_after_def p backed_assessed)
qed

theorem stability_measures_the_week_witness:
  "\<exists>wk. decide_week sha_ok (\<lambda>_ _ _. Inr ''sha'') (\<lambda>_. []) detail_text week_sha backed_week = Inr wk \<and>
     rank_stability sha_ok (\<lambda>_ _ _. Inr ''sha'') (\<lambda>_. []) wk cheap_profile 10000 =
       Inr \<lparr>sy_scale_bps = 10000, sy_perturbations = 8, sy_stable = 6, sy_moved =
         [\<lparr>mo_perturbation = \<lparr>pt_input = PConversion, pt_scale_bps = - 10000\<rparr>, mo_before = [''opp-1''], mo_after = []\<rparr>,
          \<lparr>mo_perturbation = \<lparr>pt_input = PPrice, pt_scale_bps = - 10000\<rparr>, mo_before = [''opp-1''], mo_after = []\<rparr>]\<rparr>"
proof -
  obtain wk where wk: "decide_week sha_ok (\<lambda>_ _ _. Inr ''sha'') (\<lambda>_. []) detail_text week_sha backed_week = Inr wk"
    "dw_decided wk = [backed_decided]" using backed_week_decided by blast
  have p: "wi_profile backed_week = cheap_profile" by (simp add: backed_week_def)
  have "map rr_id (w_ranked (dw_portfolio wk)) = map as_id (rank [backed_assessment] (p_rank_order cheap_profile))"
    using week_parts(4) [OF wk(1)] wk(2) by (simp add: p ranked_ids_def backed_decided_def)
  also have "\<dots> = [''opp-1'']" by code_simp
  finally have week: "map rr_id (w_ranked (dw_portfolio wk)) = [''opp-1'']" .
  have t: "tornado 10000 = map (\<lambda>(i, s). \<lparr>pt_input = i, pt_scale_bps = s\<rparr>)
      [(POwnerHours, - 10000), (POwnerHours, 10000), (PConversion, - 10000), (PConversion, 10000),
       (PChurn, - 10000), (PChurn, 10000), (PPrice, - 10000), (PPrice, 10000)]"
    by (simp add: tornado_def)
  have "rmapM (perturbed_ranking sha_ok (\<lambda>_ _ _. Inr ''sha'') (\<lambda>_. []) wk cheap_profile) (tornado 10000) =
      rmapM backed_after (tornado 10000)"
    using backed_ranking [OF wk] by (metis ext)
  also have "\<dots> = Inr [[''opp-1''], [''opp-1''], [], [''opp-1''], [''opp-1''], [''opp-1''], [], [''opp-1'']]"
    using backed_unmoved backed_moved by (auto simp: t backed_after_same rbind_eq_Inr)
  finally show ?thesis
    using stability_measures_the_week [OF wk(1), of 10000] wk(2) by (auto simp: p week stability_of_def t wk(1))
qed

end
