(* ===== verification/Soe_Eval.thy ===== *)
theory Soe_Eval
  imports Soe_Replay
begin

text \<open>
  Evaluation cases (\<open>src/src/domain/soe/eval.rs\<close>) and episodes (\<open>src/src/domain/soe/episode.rs\<close>, with the quality of a decision
  of \<open>src/src/domain/lineage/episode.rs\<close>). A case replays one dated decision and lists the differences from what is expected;
  a difference is a value where the source writes a text. Shown here: a validated case never reports a look-ahead, and
  is ok exactly when the answer is the expected one.
\<close>

section \<open>Evaluation cases\<close>

datatype case_class = ClGood | ClBad | ClStale | ClContradictory | ClHold | ClBoundary | ClLookahead

record expected =
  ex_verdicts :: "(string \<times> verdict) list"
  ex_gates :: "(string \<times> string list) list"
  ex_ranked :: "string list"
  ex_next_information :: "string list"
  ex_versions :: "(string \<times> int) list"

record eval_case =
  ec_schema :: schema_tag
  ec_ident :: string
  ec_version :: int
  ec_as_of :: time
  ec_class :: case_class
  ec_synthetic :: bool
  ec_profile :: string
  ec_note :: string
  ec_cited :: "cited_record list"
  ec_expected :: expected
  ec_candidates :: "opportunity list"

definition set_difference :: "string list \<Rightarrow> string list \<Rightarrow> string list" where
  "set_difference xs ys = filter (\<lambda>x. x \<notin> set ys) (bset xs)"

definition eval_problems :: "eval_case \<Rightarrow> problem list" where
  "eval_problems c =
     (let ids = map o_ident (ec_candidates c);
          x = ec_expected c;
          stray = (\<lambda>field keys. map (\<lambda>_. (INVALID_FIELD, field)) (set_difference keys ids))
      in p_known ''as_of'' (ec_as_of c) @
         p_id ''profile'' (ec_profile c) @
         p_text ''note'' (ec_note c) @
         cited_problems (ec_cited c) @
         p_unique ''candidates (id, version)'' (map (\<lambda>o1. (o_ident o1, o_version o1)) (ec_candidates c)) @
         p_each (\<lambda>i o1. case validate_opportunity o1 of
             Inl e \<Rightarrow> map (\<lambda>(code, _). (code, at_index ''candidates'' i)) e | Inr _ \<Rightarrow> []) (ec_candidates c) @
         map (\<lambda>_. (INVALID_FIELD, ''expected.verdicts'')) (set_difference ids (map fst (ex_verdicts x))) @
         stray ''expected.verdicts'' (map fst (ex_verdicts x)) @
         stray ''expected.gates'' (map fst (ex_gates x)) @
         stray ''expected.versions'' (map fst (ex_versions x)) @
         concat (map (\<lambda>(i, labels).
           p_unique_texts (''expected.gates.'' @ i) labels @
           p_check (labels = [] \<or> map_of (ex_verdicts x) i \<noteq> Some Pass) INVALID_FIELD (''expected.gates.'' @ i))
           (ex_gates x)) @
         concat (map (\<lambda>(i, v).
           p_check (list_ex (\<lambda>o1. o_ident o1 = i \<and> o_version o1 = v) (ec_candidates c)) INVALID_FIELD
             (''expected.versions.'' @ i)) (ex_versions x)) @
         p_unique ''expected.ranked'' (ex_ranked x) @
         p_check (set (ex_ranked x) = set (map fst (filter (\<lambda>(_, v). v = Pass) (ex_verdicts x)))) INVALID_FIELD
           ''expected.ranked'' @
         p_unique_texts ''expected.next_information'' (ex_next_information x))"

definition validate_eval_case :: "eval_case \<Rightarrow> problem list + unit" where
  "validate_eval_case c = validate ''eval_case'' (ec_schema c) (ec_ident c) (ec_version c) (eval_problems c)"

interpretation eval_record: soe_record "''eval_case''" ec_schema ec_ident ec_version eval_problems validate_eval_case
  by unfold_locales (simp add: validate_eval_case_def)

record answer =
  aw_verdicts :: "(string \<times> verdict) list"
  aw_gates :: "(string \<times> string list) list"
  aw_versions :: "(string \<times> int) list"
  aw_ranked :: "string list"
  aw_next_information :: "string list"

text \<open>A difference of the answer from what is expected (the source keeps its text).\<close>

datatype case_diff =
    DVerdict string "verdict option"
  | DGates string "string list" "string list" \<comment> \<open>missing, unexpected\<close>
  | DVersion string "int option"
  | DRanked
  | DNextInformation
  | DLookahead string
  | DNoWeek
  | DHoldWeek code

record case_result =
  es_ident :: string
  es_class :: case_class
  es_ok :: bool
  es_diffs :: "case_diff list"
  es_answer :: answer

definition assess_all ::
  "econ_hash \<Rightarrow> assess_hash \<Rightarrow> (time \<Rightarrow> string) \<Rightarrow> eval_case \<Rightarrow> cited_record list \<Rightarrow> operator_profile \<Rightarrow>
     assessment list vres" where
  "assess_all hash ahash show_time c cited p =
     rbind (current_versions (ec_candidates c) (ec_as_of c)) (\<lambda>opps.
     rmapM (\<lambda>o1. assess hash ahash show_time o1 cited p (ec_as_of c)) opps)"

definition answer_of :: "assessment list \<Rightarrow> operator_profile \<Rightarrow> answer" where
  "answer_of all p =
     \<lparr>aw_verdicts = bm_of (map (\<lambda>a. (as_id a, gv_verdict (as_verdict a))) all),
      aw_gates = bm_of (map (\<lambda>a. (as_id a, verdict_labels (as_verdict a))) all),
      aw_versions = bm_of (map (\<lambda>a. (as_id a, as_version a)) all),
      aw_ranked = ranked_ids all p, aw_next_information = week_next_information all\<rparr>"

definition gates_diff :: "answer \<Rightarrow> string \<times> string list \<Rightarrow> case_diff list" where
  "gates_diff got iw =
     (case iw of (i, labels) \<Rightarrow>
        let have_labels = (case map_of (aw_gates got) i of Some l \<Rightarrow> l | None \<Rightarrow> [])
        in if set labels = set have_labels then []
           else [DGates i (set_difference labels have_labels) (set_difference have_labels labels)])"

definition case_diffs :: "expected \<Rightarrow> answer \<Rightarrow> case_diff list" where
  "case_diffs x got =
     concat (map (\<lambda>(i, v). if map_of (aw_verdicts got) i = Some v then [] else [DVerdict i (map_of (aw_verdicts got) i)])
       (ex_verdicts x)) @
     concat (map (gates_diff got) (ex_gates x)) @
     concat (map (\<lambda>(i, v). if map_of (aw_versions got) i = Some v then [] else [DVersion i (map_of (aw_versions got) i)])
       (ex_versions x)) @
     (if ex_ranked x \<noteq> aw_ranked got then [DRanked] else []) @
     (if ex_next_information x \<noteq> aw_next_information got then [DNextInformation] else [])"

text \<open>The records as they were knowable at the decision.\<close>

definition blind :: "time \<Rightarrow> cited_record list \<Rightarrow> cited_record list" where
  "blind t cited =
     map (\<lambda>c. if (case cr_contradicted_at c of Some u \<Rightarrow> torder u t = After | None \<Rightarrow> False)
              then c\<lparr>cr_contradicted_at := None\<rparr> else c)
       (filter (\<lambda>c. knowable c t) cited)"

definition lookahead_diffs :: "assessment list \<Rightarrow> assessment list \<Rightarrow> case_diff list" where
  "lookahead_diffs all other =
     concat (map (\<lambda>(a, b). if as_verdict a \<noteq> as_verdict b \<or> map (as_keys a) rank_key_all \<noteq> map (as_keys b) rank_key_all
       then [DLookahead (as_id a)] else []) (zip all other))"

text \<open>The hold week of a case; the canonical sha256 of the profile is the argument \<open>psha\<close>.\<close>

definition hold_diffs ::
  "(time \<Rightarrow> iso_week option) \<Rightarrow> (operator_profile \<Rightarrow> string) \<Rightarrow> week_hash \<Rightarrow> time \<Rightarrow> operator_profile \<Rightarrow>
     assessment list \<Rightarrow> case_diff list vres" where
  "hold_diffs week_of psha whash t p all =
     (case week_of t of
        None \<Rightarrow> Inr [DNoWeek]
      | Some week \<Rightarrow>
          (case hold_week whash \<lparr>wh_id = iso_week_display week, wh_week = week, wh_as_of = t,
               wh_currency = p_currency p, wh_profile_sha256 = psha p\<rparr> all of
             Inr _ \<Rightarrow> Inr []
           | Inl (Err es) \<Rightarrow> Inr (map DHoldWeek es)
           | Inl Panic \<Rightarrow> Inl Panic))"

definition run_case ::
  "econ_hash \<Rightarrow> assess_hash \<Rightarrow> (time \<Rightarrow> string) \<Rightarrow> (time \<Rightarrow> iso_week option) \<Rightarrow> (operator_profile \<Rightarrow> string) \<Rightarrow>
     week_hash \<Rightarrow> eval_case \<Rightarrow> operator_profile \<Rightarrow> case_result vres" where
  "run_case hash ahash show_time week_of psha whash c p =
     (if ec_profile c \<noteq> p_ident p then Inl (Err PROFILE_MISMATCH)
      else
        rbind (assess_all hash ahash show_time c (ec_cited c) p) (\<lambda>all.
        let ans = answer_of all p in
        rbind (assess_all hash ahash show_time c (blind (ec_as_of c) (ec_cited c)) p) (\<lambda>other.
        rbind (if aw_ranked ans = [] then hold_diffs week_of psha whash (ec_as_of c) p all else Inr []) (\<lambda>hd.
        let out = case_diffs (ec_expected c) ans @ lookahead_diffs all other @ hd
        in Inr \<lparr>es_ident = ec_ident c, es_class = ec_class c, es_ok = (out = []), es_diffs = out, es_answer = ans\<rparr>))))"

section \<open>Episodes\<close>

datatype decision_quality = QSupported | QUnsupported | QDecisionUnknown

datatype execution_quality = XClean | XDegraded | XFailed | XNotApplicable

datatype outcome_quality = OFavorable | OUnfavorable | ONeutral | OOutcomeUnknown

datatype attribution =
  AtInformation | AtAnalysis | AtMemory | AtComposition | AtDecision | AtRisk | AtExecution | AtInfrastructure
  | AtRandomOutcome

datatype lesson_status = LsProposed | LsAccepted | LsRejected

datatype quadrant =
  GoodDecisionGoodOutcome | GoodDecisionBadOutcome | BadDecisionGoodOutcome | BadDecisionBadOutcome | QuadrantUnknown

fun quadrant_of :: "decision_quality \<Rightarrow> outcome_quality \<Rightarrow> quadrant" where
  "quadrant_of QSupported OFavorable = GoodDecisionGoodOutcome"
| "quadrant_of QSupported OUnfavorable = GoodDecisionBadOutcome"
| "quadrant_of QUnsupported OFavorable = BadDecisionGoodOutcome"
| "quadrant_of QUnsupported OUnfavorable = BadDecisionBadOutcome"
| "quadrant_of _ _ = QuadrantUnknown"

record quality =
  qu_decision :: decision_quality
  qu_decision_note :: string
  qu_execution :: execution_quality
  qu_execution_note :: "string option"
  qu_outcome :: outcome_quality
  qu_attribution :: "attribution list"

record lesson =
  ln_text :: string
  ln_status :: lesson_status
  ln_affects :: "locator list"

record episode_action =
  ea_kind :: approval_kind
  ea_at :: time
  ea_approved_by :: string

record episode_forecast =
  ef_monthly_cash :: "minor est"
  ef_time_adjusted :: "minor est"
  ef_owner_hours :: "int est"

record episode_actual =
  ac_monthly_cash :: "minor est"
  ac_owner_hours :: "int est"

record opportunity_episode =
  oe_schema :: schema_tag
  oe_ident :: string
  oe_version :: int
  oe_opportunity :: string
  oe_opportunity_version :: int
  oe_profile_sha256 :: string
  oe_decided_at :: time
  oe_verdict :: verdict
  oe_currency :: currency
  oe_actions :: "episode_action list"
  oe_spend :: minor
  oe_owner_hours :: int
  oe_forecast_base :: episode_forecast
  oe_actual :: episode_actual
  oe_surprise :: "string option"
  oe_evidence_strength :: tier
  oe_quality :: quality
  oe_lesson :: "lesson option"

definition episode_quadrant :: "opportunity_episode \<Rightarrow> quadrant" where
  "episode_quadrant e = quadrant_of (qu_decision (oe_quality e)) (qu_outcome (oe_quality e))"

definition episode_problems :: "opportunity_episode \<Rightarrow> problem list" where
  "episode_problems e =
     p_id ''opportunity'' (oe_opportunity e) @
     p_check (oe_opportunity_version e \<ge> 1) INVALID_VERSION ''opportunity_version'' @
     p_sha256 ''profile_sha256'' (oe_profile_sha256 e) @
     p_known ''decided_at'' (oe_decided_at e) @
     p_each (\<lambda>i a.
       p_text (at_index ''actions'' i @ ''.approved_by'') (ea_approved_by a) @
       p_known (at_index ''actions'' i @ ''.at'') (ea_at a) @
       p_not_after ''decided_at'' (oe_decided_at e) (ea_at a)) (oe_actions e) @
     p_non_negative ''spend'' (oe_spend e) @
     (case oe_surprise e of Some s \<Rightarrow> p_text ''surprise'' s | None \<Rightarrow> []) @
     p_text ''quality.decision_note'' (qu_decision_note (oe_quality e)) @
     (case oe_lesson e of Some l \<Rightarrow> p_text ''lesson.text'' (ln_text l) | None \<Rightarrow> [])"

definition validate_episode :: "opportunity_episode \<Rightarrow> problem list + unit" where
  "validate_episode e =
     validate ''opportunity_episode'' (oe_schema e) (oe_ident e) (oe_version e) (episode_problems e)"

interpretation episode_record: soe_record "''opportunity_episode''" oe_schema oe_ident oe_version
  episode_problems validate_episode
  by unfold_locales (simp add: validate_episode_def)

section \<open>A case never looks ahead\<close>

lemma blind_seen_at: "blind t cited = seen_at t cited"
  by (auto simp: blind_def seen_at_def as_seen_def split: option.split)

lemma gates_blind: "distinct (map cr_record_id cited) \<Longrightarrow> gates hash opp (blind t cited) p t = gates hash opp cited p t"
  using evidence_gate_seen_at [of cited opp t] by (simp add: blind_seen_at gates_def run_gates_def)

lemma confidence_blind:
  assumes "distinct (map cr_record_id cited)"
  shows "evidence_confidence opp (blind t cited) t = evidence_confidence opp cited t"
  by (simp add: evidence_confidence_def Let_def blind_seen_at cited_views_seen_at [OF assms] filter_map list_ex_iff
      comp_def image_image) blast

lemma assess_blind:
  assumes "distinct (map cr_record_id cited)"
    and "assess hash ahash show_time opp cited p t = Inr a" "assess hash ahash show_time opp (blind t cited) p t = Inr b"
  shows "as_verdict a = as_verdict b \<and> as_keys a = as_keys b"
  using assms(2,3) unfolding assess_def gates_blind [OF assms(1)] confidence_blind [OF assms(1)]
  by (auto simp: rbind_eq_Inr Let_def)

lemma lookahead_none:
  assumes "distinct (map cr_record_id cited)"
    and "rmapM (\<lambda>o1. assess hash ahash show_time o1 cited p t) opps = Inr all"
    and "rmapM (\<lambda>o1. assess hash ahash show_time o1 (blind t cited) p t) opps = Inr other"
  shows "lookahead_diffs all other = []"
  using assms(2,3)
proof (induction opps arbitrary: all other)
  case (Cons o1 opps)
  obtain a as b bs where "assess hash ahash show_time o1 cited p t = Inr a" "assess hash ahash show_time o1 (blind t cited) p t = Inr b"
    and r: "rmapM (\<lambda>o1. assess hash ahash show_time o1 cited p t) opps = Inr as"
      "rmapM (\<lambda>o1. assess hash ahash show_time o1 (blind t cited) p t) opps = Inr bs"
    and e: "all = a # as" "other = b # bs"
    using Cons.prems by (auto simp: rbind_eq_Inr)
  with assess_blind [OF assms(1)] Cons.IH [OF r] show ?case by (auto simp: lookahead_diffs_def)
qed (simp add: lookahead_diffs_def)

definition matches :: "expected \<Rightarrow> answer \<Rightarrow> bool" where
  "matches x got \<longleftrightarrow>
     list_all (\<lambda>(i, v). map_of (aw_verdicts got) i = Some v) (ex_verdicts x) \<and>
     list_all (\<lambda>(i, labels). set labels = set (case map_of (aw_gates got) i of Some l \<Rightarrow> l | None \<Rightarrow> [])) (ex_gates x) \<and>
     list_all (\<lambda>(i, v). map_of (aw_versions got) i = Some v) (ex_versions x) \<and>
     ex_ranked x = aw_ranked got \<and> ex_next_information x = aw_next_information got"

lemma diff_none: "concat (map (\<lambda>x. if P x then [] else [f x]) xs) = [] \<longleftrightarrow> list_all P xs"
  by (induction xs) auto

lemma case_diffs_none: "case_diffs x got = [] \<longleftrightarrow> matches x got"
  unfolding case_diffs_def matches_def gates_diff_def [abs_def] Let_def split_def append_is_Nil_conv diff_none by auto

lemma case_diffs_no_lookahead: "DLookahead i \<notin> set (case_diffs x got)"
  by (auto simp: case_diffs_def gates_diff_def Let_def split: if_splits prod.splits)

lemma hold_diffs_no_lookahead: "hold_diffs week_of psha whash t p all = Inr ds \<Longrightarrow> DLookahead i \<notin> set ds"
  by (auto simp: hold_diffs_def split: option.splits sum.splits fault.splits)

text \<open>
  C21: an evaluation case tests the decision and only the decision. For a validated case, the replay never reports a
  look-ahead --- dropping what was not knowable at the decision changes no verdict and no rank key --- and the case is
  ok exactly when the answer has the expected verdicts, gates, versions, ranking and next information and, when
  nothing ranks, the week can be recorded as a hold.
\<close>

theorem eval_case_exact:
  assumes "validate_eval_case c = Inr ()"
    and "run_case hash ahash show_time week_of psha whash c p = Inr r"
  shows "(\<forall>i. DLookahead i \<notin> set (es_diffs r)) \<and>
    (\<exists>all. assess_all hash ahash show_time c (ec_cited c) p = Inr all \<and> es_answer r = answer_of all p \<and>
      (es_ok r \<longleftrightarrow> matches (ec_expected c) (es_answer r) \<and>
        (aw_ranked (es_answer r) = [] \<longrightarrow> hold_diffs week_of psha whash (ec_as_of c) p all = Inr [])))"
proof -
  have "eval_problems c = []" using assms(1) eval_record.validated_iff [of c] by simp
  then have d: "distinct (map cr_record_id (ec_cited c))"
    by (simp add: eval_problems_def Let_def cited_problems_def problem_simps)
  obtain all other ds where a: "assess_all hash ahash show_time c (ec_cited c) p = Inr all"
    and b: "assess_all hash ahash show_time c (blind (ec_as_of c) (ec_cited c)) p = Inr other"
    and h: "(if aw_ranked (answer_of all p) = [] then hold_diffs week_of psha whash (ec_as_of c) p all else Inr []) = Inr ds"
    and r': "Inr \<lparr>es_ident = ec_ident c, es_class = ec_class c,
        es_ok = (case_diffs (ec_expected c) (answer_of all p) @ lookahead_diffs all other @ ds = []),
        es_diffs = case_diffs (ec_expected c) (answer_of all p) @ lookahead_diffs all other @ ds,
        es_answer = answer_of all p\<rparr> = (Inr r :: case_result vres)"
    using assms(2) unfolding run_case_def Let_def rbind_eq_Inr if_split [of "\<lambda>x. x = Inr r"] by blast
  have r: "es_answer r = answer_of all p"
      "es_diffs r = case_diffs (ec_expected c) (answer_of all p) @ lookahead_diffs all other @ ds"
      "es_ok r \<longleftrightarrow> es_diffs r = []"
    using r' by auto
  have l: "lookahead_diffs all other = []"
    using a b lookahead_none [OF d] by (auto simp: assess_all_def rbind_eq_Inr)
  have "DLookahead i \<notin> set ds" for i
    using h hold_diffs_no_lookahead by (auto split: if_split_asm)
  then show ?thesis
    using a h r l case_diffs_none [of "ec_expected c"] case_diffs_no_lookahead by (auto split: if_split_asm)
qed

section \<open>A case\<close>

text \<open>The sample deal decided at 1500 on a filing that is contradicted at 2000.\<close>

definition late_contradiction :: "cited_record list" where
  "late_contradiction = [filing_cited\<lparr>cr_contradicted_at := Some (At 2000)\<rparr>]"

definition sample_case :: eval_case where
  "sample_case = \<lparr>ec_schema = \<lparr>st_record = ''eval_case'', st_version = 1\<rparr>, ec_ident = ''case-1'', ec_version = 1,
     ec_as_of = At 1500, ec_class = ClLookahead, ec_synthetic = True, ec_profile = ''profile-1'', ec_note = ''look-ahead'',
     ec_cited = late_contradiction,
     ec_expected = \<lparr>ex_verdicts = [(''opp-1'', Pass)], ex_gates = [], ex_ranked = [''opp-1''], ex_next_information = [],
       ex_versions = [(''opp-1'', 1)]\<rparr>,
     ec_candidates = [backed_deal]\<rparr>"

lemma sample_case_valid: "validate_eval_case sample_case = Inr ()"
  by code_simp

lemma sample_case_blind: "blind (At 1500) late_contradiction = [filing_cited]"
  by code_simp

lemma sample_case_assessed:
  "assess_all sha_ok (\<lambda>_ _ _. Inr ''sha'') (\<lambda>_. []) sample_case late_contradiction cheap_profile = Inr [backed_assessment]"
  "assess_all sha_ok (\<lambda>_ _ _. Inr ''sha'') (\<lambda>_. []) sample_case [filing_cited] cheap_profile = Inr [backed_assessment]"
proof -
  have v: "current_versions (ec_candidates sample_case) (At 1500) = Inr [backed_deal]" by code_simp
  have t: "ec_as_of sample_case = At 1500" by (simp add: sample_case_def)
  have d: "distinct (map cr_record_id late_contradiction)" by (simp add: late_contradiction_def)
  have "assess sha_ok (\<lambda>_ _ _. Inr ''sha'') (\<lambda>_. []) backed_deal late_contradiction cheap_profile (At 1500) =
      assess sha_ok (\<lambda>_ _ _. Inr ''sha'') (\<lambda>_. []) backed_deal [filing_cited] cheap_profile (At 1500)"
    unfolding assess_def gates_blind [OF d, symmetric] confidence_blind [OF d, symmetric] sample_case_blind by simp
  then show
    "assess_all sha_ok (\<lambda>_ _ _. Inr ''sha'') (\<lambda>_. []) sample_case late_contradiction cheap_profile = Inr [backed_assessment]"
    "assess_all sha_ok (\<lambda>_ _ _. Inr ''sha'') (\<lambda>_. []) sample_case [filing_cited] cheap_profile = Inr [backed_assessment]"
    by (simp_all add: assess_all_def v t backed_assessed)
qed

theorem eval_case_exact_witness:
  "\<exists>r. run_case sha_ok (\<lambda>_ _ _. Inr ''sha'') (\<lambda>_. []) (\<lambda>_. None) (\<lambda>_. []) (\<lambda>_. []) sample_case cheap_profile = Inr r \<and>
     es_ok r \<and> DLookahead ''opp-1'' \<notin> set (es_diffs r)"
proof -
  have ans: "matches (ec_expected sample_case) (answer_of [backed_assessment] cheap_profile)" by code_simp
  have ranked: "aw_ranked (answer_of [backed_assessment] cheap_profile) \<noteq> []" by code_simp
  have c: "ec_profile sample_case = p_ident cheap_profile" "ec_cited sample_case = late_contradiction" "ec_as_of sample_case = At 1500"
    by (simp_all add: sample_case_def cheap_profile_def sample_profile_def)
  then obtain r where r: "run_case sha_ok (\<lambda>_ _ _. Inr ''sha'') (\<lambda>_. []) (\<lambda>_. None) (\<lambda>_. []) (\<lambda>_. []) sample_case cheap_profile = Inr r"
    using ranked by (simp add: run_case_def sample_case_assessed sample_case_blind Let_def)
  with eval_case_exact [OF sample_case_valid r] ans ranked c sample_case_assessed show ?thesis by auto
qed

end
