(* ===== verification/Soe_Review.thy ===== *)
theory Soe_Review
  imports Soe_Challenge Soe_Rank
begin

text \<open>
  The review of the live weeks: \<open>src/src/domain/soe/ops.rs\<close> (what a cycle cost to run), \<open>src/src/domain/soe/review.rs\<close> (the
  grades of the operator and the review packet) and the sources of a packet in \<open>src/src/application/soe/review.rs\<close>. Tokens
  and milliseconds are \<open>int\<close> with the saturating sums of \<open>u64\<close> and \<open>u32\<close>; counts (\<open>usize\<close>) are \<open>nat\<close>; the detail text of a
  stop flag is dropped. The loop of \<open>ReviewPacket::of\<close> updates independent accumulators, here one fold each.

  Shown here: the packet counts every row once, unclear terms are always flagged, and a cost is never understated.
\<close>

section \<open>Cycle operations\<close>

datatype ops_stage = StObserve | StArchitect | StChallenge | StAllocate | StReport

text \<open>\<open>format!("{s:?}").to_uppercase()\<close>.\<close>

fun ops_stage_name :: "ops_stage \<Rightarrow> string" where
  "ops_stage_name StObserve = ''OBSERVE''"
| "ops_stage_name StArchitect = ''ARCHITECT''"
| "ops_stage_name StChallenge = ''CHALLENGE''"
| "ops_stage_name StAllocate = ''ALLOCATE''"
| "ops_stage_name StReport = ''REPORT''"

record stage_run =
  sn_stage :: ops_stage
  sn_agent :: "string option"
  sn_latency_ms :: int
  sn_prompt_tokens :: int
  sn_completion_tokens :: int
  sn_ok :: bool
  sn_tokens_unknown :: bool

record token_prices =
  tp_currency :: currency
  tp_prompt_per_million :: minor
  tp_completion_per_million :: minor

datatype ops_cost = CostKnown minor currency | CostUnknown string

record cycle_ops =
  co_cycle_id :: string
  co_stages :: "stage_run list"
  co_source_failures :: "string list"
  co_latency_ms :: int
  co_prompt_tokens :: int
  co_completion_tokens :: int
  co_failed_stages :: nat
  co_tokens_unknown :: "ops_stage list"
  co_cost :: ops_cost

definition MILLION :: int where "MILLION = 1000000"

text \<open>\<open>saturating_add\<close> of an unsigned type of \<open>w\<close> bits.\<close>

definition sat_add :: "nat \<Rightarrow> int \<Rightarrow> int \<Rightarrow> int" where
  "sat_add w a b = min (a + b) (2 ^ w - 1)"

definition stage_sum :: "(stage_run \<Rightarrow> int) \<Rightarrow> stage_run list \<Rightarrow> int" where
  "stage_sum f stages = foldl (sat_add 64) 0 (map f stages)"

definition priced :: "minor \<Rightarrow> int \<Rightarrow> minor vres" where
  "priced price tokens = rbind (ok_or (fits i64_ok tokens) OVERFLOW) (\<lambda>n. minor_mul_div price n MILLION Outflow)"

definition cost_of :: "ops_stage list \<Rightarrow> int \<Rightarrow> int \<Rightarrow> token_prices option \<Rightarrow> ops_cost vres" where
  "cost_of unknown prompt completion prices =
     (if unknown \<noteq> [] then
        Inr (CostUnknown (''tokens unknown: '' @ join '', '' (map ops_stage_name unknown) @ '' ended with no reply''))
      else case prices of
        Some p \<Rightarrow>
          rbind (priced (tp_prompt_per_million p) prompt) (\<lambda>a.
          rbind (priced (tp_completion_per_million p) completion) (\<lambda>b.
          rbind (minor_checked_add a b) (\<lambda>s. Inr (CostKnown s (tp_currency p)))))
      | None \<Rightarrow> Inr (CostUnknown ''no token prices configured''))"

definition cycle_ops_of ::
  "string \<Rightarrow> stage_run list \<Rightarrow> string list \<Rightarrow> token_prices option \<Rightarrow> cycle_ops vres" where
  "cycle_ops_of cycle_id stages source_failures prices =
     (let prompt = stage_sum sn_prompt_tokens stages;
          completion = stage_sum sn_completion_tokens stages;
          unknown = map sn_stage (filter sn_tokens_unknown stages)
      in rbind (cost_of unknown prompt completion prices) (\<lambda>cost.
         Inr \<lparr>co_cycle_id = cycle_id, co_stages = stages, co_source_failures = remdups_adj (sort source_failures),
              co_latency_ms = stage_sum sn_latency_ms stages, co_prompt_tokens = prompt,
              co_completion_tokens = completion, co_failed_stages = length (filter (Not \<circ> sn_ok) stages),
              co_tokens_unknown = unknown, co_cost = cost\<rparr>))"

section \<open>Grades\<close>

definition MIN_LIVE_CYCLES :: nat where "MIN_LIVE_CYCLES = 4"
definition CAL_BINS :: nat where "CAL_BINS = 5"

datatype miss_kind = Missed | FalsePositive

datatype failure_class =
  FcEvidence | FcEconomics | FcHiddenLabor | FcNoveltyBias | FcCapability | FcLegalAccess | FcSourceGap

text \<open>The derived order of the enum, by declaration.\<close>

fun failure_rank :: "failure_class \<Rightarrow> nat" where
  "failure_rank FcEvidence = 0"
| "failure_rank FcEconomics = 1"
| "failure_rank FcHiddenLabor = 2"
| "failure_rank FcNoveltyBias = 3"
| "failure_rank FcCapability = 4"
| "failure_rank FcLegalAccess = 5"
| "failure_rank FcSourceGap = 6"

lemma failure_rank_inj: "failure_rank a = failure_rank b \<Longrightarrow> a = b"
  by (cases a; cases b) simp_all

instantiation failure_class :: linorder
begin

definition less_eq_failure_class :: "failure_class \<Rightarrow> failure_class \<Rightarrow> bool" where
  "less_eq_failure_class a b \<longleftrightarrow> failure_rank a \<le> failure_rank b"

definition less_failure_class :: "failure_class \<Rightarrow> failure_class \<Rightarrow> bool" where
  "less_failure_class a b \<longleftrightarrow> failure_rank a < failure_rank b"

instance
  by intro_classes (auto simp: less_eq_failure_class_def less_failure_class_def intro: failure_rank_inj)

end

record miss =
  ms_kind :: miss_kind
  ms_candidate :: string
  ms_class :: failure_class

record cycle_grade =
  cg_schema :: schema_tag
  cg_ident :: string
  cg_version :: int
  cg_cycle_id :: string
  cg_graded_by :: string
  cg_graded_at :: time
  cg_relevance :: int
  cg_evidence :: int
  cg_economics :: int
  cg_hidden_labor :: int
  cg_novelty_bias :: int
  cg_actionability :: int
  cg_correction_minutes :: int
  cg_research_hours :: int
  cg_changed_decision :: bool
  cg_misses :: "miss list"
  cg_note :: "string option"

definition grade_scores :: "cycle_grade \<Rightarrow> (string \<times> int) list" where
  "grade_scores g =
     [(''relevance'', cg_relevance g), (''evidence'', cg_evidence g), (''economics'', cg_economics g),
      (''hidden_labor'', cg_hidden_labor g), (''novelty_bias'', cg_novelty_bias g),
      (''actionability'', cg_actionability g)]"

definition grade_problems :: "cycle_grade \<Rightarrow> problem list" where
  "grade_problems g =
     p_id ''cycle_id'' (cg_cycle_id g) @
     p_text ''graded_by'' (cg_graded_by g) @
     p_known ''graded_at'' (cg_graded_at g) @
     concat (map (\<lambda>(f, v). p_check (1 \<le> v \<and> v \<le> 5) INVALID_FIELD f) (grade_scores g)) @
     p_each (\<lambda>i m. p_text (at_index ''misses'' i @ ''.candidate'') (ms_candidate m)) (cg_misses g)"

definition validate_grade :: "cycle_grade \<Rightarrow> problem list + unit" where
  "validate_grade g = validate ''cycle_grade'' (cg_schema g) (cg_ident g) (cg_version g) (grade_problems g)"

interpretation grade_record: soe_record "''cycle_grade''" cg_schema cg_ident cg_version grade_problems validate_grade
  by unfold_locales (simp add: validate_grade_def)

section \<open>The review of the live cycles\<close>

record source_terms =
  te_source_id :: string
  te_license_or_terms :: string
  te_terms_sha256 :: string

definition terms_stated :: "source_terms \<Rightarrow> bool" where
  "terms_stated s \<longleftrightarrow> trim (te_license_or_terms s) \<noteq> [] \<and> valid_sha256 (te_terms_sha256 s)"

record cycle_input =
  cy_cycle_id :: string
  cy_portfolio :: weekly_portfolio
  cy_mechanisms :: "(string \<times> mechanism) list"
  cy_unsupported_claims :: nat
  cy_sources :: "source_terms list"
  cy_ops :: cycle_ops
  cy_grade :: "cycle_grade option"

datatype stop_code =
  CorrectionBurdenHigh | RepeatedUnsupportedEconomics | SourceTermsUnclear | NoDecisionValue
  | AcquisitionDownsideUnbounded

fun stop_response :: "stop_code \<Rightarrow> string" where
  "stop_response CorrectionBurdenHigh = ''do not add sources or automation''"
| "stop_response RepeatedUnsupportedEconomics = ''stop live validation; return to O1/O3 evaluation''"
| "stop_response SourceTermsUnclear =
     ''disable the source and derived public output; keep only permitted metadata''"
| "stop_response NoDecisionValue = ''stop or narrow scope; do not advance because infrastructure exists''"
| "stop_response AcquisitionDownsideUnbounded = ''NO-GO; never compensate with a higher model confidence''"

text \<open>A flag without its detail text.\<close>

record stop_flag =
  sg_code :: stop_code
  sg_response :: string

definition flag_of :: "stop_code \<Rightarrow> stop_flag" where
  "flag_of c = \<lparr>sg_code = c, sg_response = stop_response c\<rparr>"

definition correction_burden :: "cycle_grade list \<Rightarrow> bool" where
  "correction_burden graded \<longleftrightarrow> length graded \<ge> 2 \<and> cg_correction_minutes (last graded) > 0 \<and>
     cg_correction_minutes (last graded) \<ge> cg_correction_minutes (hd graded)"

definition unbounded_acquisition :: "cycle_input \<Rightarrow> bool" where
  "unbounded_acquisition c \<longleftrightarrow>
     list_ex (\<lambda>r. map_of (cy_mechanisms c) (gr_id r) = Some AcquireTransform \<and>
       ''DOWNSIDE_UNSTATED'' \<in> set (gr_gates r)) (w_held (cy_portfolio c) @ w_rejected (cy_portfolio c))"

definition stop_flags :: "cycle_input list \<Rightarrow> stop_flag list" where
  "stop_flags cycles =
     (let graded = List.map_filter cy_grade cycles in
      (if correction_burden graded then [flag_of CorrectionBurdenHigh] else []) @
      (if length (filter (\<lambda>c. cy_unsupported_claims c > 0) cycles) \<ge> 2
       then [flag_of RepeatedUnsupportedEconomics] else []) @
      (if list_ex (\<lambda>s. \<not> terms_stated s) (concat (map cy_sources cycles)) then [flag_of SourceTermsUnclear] else []) @
      (if length graded \<ge> MIN_LIVE_CYCLES \<and> \<not> list_ex cg_changed_decision graded
       then [flag_of NoDecisionValue] else []) @
      (if cycles \<noteq> [] \<and> unbounded_acquisition (last cycles) then [flag_of AcquisitionDownsideUnbounded] else []))"

record cycle_row =
  cw_cycle_id :: string
  cw_week :: iso_week
  cw_hold :: bool
  cw_ranked :: nat
  cw_held :: nat
  cw_rejected :: nat
  cw_tests :: nat
  cw_owner_hours :: int
  cw_cash :: minor
  cw_unsupported_claims :: nat
  cw_grade :: "(string \<times> int) list option"
  cw_changed_decision :: "bool option"

datatype lane = O6A | O6B

instantiation lane :: linorder
begin

definition less_eq_lane :: "lane \<Rightarrow> lane \<Rightarrow> bool" where
  "less_eq_lane a b \<longleftrightarrow> a = O6A \<or> b = O6B"

definition less_lane :: "lane \<Rightarrow> lane \<Rightarrow> bool" where
  "less_lane a b \<longleftrightarrow> a = O6A \<and> b = O6B"

instance
proof
  fix a b c :: lane
  show "(a < b) = (a \<le> b \<and> \<not> b \<le> a)" "a \<le> a" "a \<le> b \<or> b \<le> a"
    by (cases a; cases b; simp add: less_eq_lane_def less_lane_def)+
  show "a = b" if "a \<le> b" "b \<le> a" using that by (cases a; cases b) (simp_all add: less_eq_lane_def)
  show "a \<le> c" if "a \<le> b" "b \<le> c" using that by (cases a; cases b; cases c) (simp_all add: less_eq_lane_def)
qed

end

definition lane_of :: "mechanism \<Rightarrow> lane option" where
  "lane_of m =
     (if m \<in> {AcquireTransform, PartnerRevshare} then Some O6B
      else if m \<in> {MHold, MReject} then None else Some O6A)"

record lane_row =
  lw_ranked :: nat
  lw_tests :: nat
  lw_held :: nat
  lw_rejected :: nat

record miss_tally =
  mt_missed :: nat
  mt_false_positive :: nat

record ops_totals =
  ot_latency_ms :: int
  ot_prompt_tokens :: int
  ot_completion_tokens :: int
  ot_failed_stages :: nat
  ot_tokens_unknown_stages :: nat
  ot_source_failures :: nat
  ot_cost :: "(minor \<times> currency) option"
  ot_correction_minutes :: int
  ot_research_hours :: int

record source_row =
  sw_source_id :: string
  sw_terms_stated :: bool
  sw_cycles :: nat

record review_packet =
  rp_cycles :: "cycle_row list"
  rp_enough_cycles :: bool
  rp_graded :: nat
  rp_calibration :: calibration
  rp_misses :: "(failure_class \<times> miss_tally) list"
  rp_ops :: ops_totals
  rp_sources :: "source_row list"
  rp_lanes :: "(lane \<times> lane_row) list"
  rp_stop_flags :: "stop_flag list"
  rp_decisions :: "string list"

definition is_test :: "portfolio_action \<Rightarrow> bool" where
  "is_test a \<longleftrightarrow> (case a of CheapTest _ _ \<Rightarrow> True | ContinueActive \<Rightarrow> True | _ \<Rightarrow> False)"

text \<open>The body of the loop over the cycles, one accumulator at a time.\<close>

definition no_lane :: lane_row where
  "no_lane = \<lparr>lw_ranked = 0, lw_tests = 0, lw_held = 0, lw_rejected = 0\<rparr>"

definition lane_bump ::
  "(string \<times> mechanism) list \<Rightarrow> string \<Rightarrow> (lane_row \<Rightarrow> lane_row) \<Rightarrow> (lane \<times> lane_row) list \<Rightarrow> (lane \<times> lane_row) list" where
  "lane_bump mechanisms i f lanes =
     (case Option.bind (map_of mechanisms i) lane_of of
        None \<Rightarrow> lanes
      | Some l \<Rightarrow> bm_upd l (\<lambda>old. f (case old of None \<Rightarrow> no_lane | Some e \<Rightarrow> e)) lanes)"

definition lanes_step :: "cycle_input \<Rightarrow> (lane \<times> lane_row) list \<Rightarrow> (lane \<times> lane_row) list" where
  "lanes_step c lanes =
     (let p = cy_portfolio c;
          l1 = fold (\<lambda>r. lane_bump (cy_mechanisms c) (rr_id r) (\<lambda>e. e\<lparr>lw_ranked := lw_ranked e + 1,
            lw_tests := lw_tests e + (if is_test (rr_action r) then 1 else 0)\<rparr>)) (w_ranked p) lanes;
          l2 = fold (\<lambda>r. lane_bump (cy_mechanisms c) (gr_id r) (\<lambda>e. e\<lparr>lw_held := lw_held e + 1,
            lw_tests := lw_tests e + (if is_test (gr_action r) then 1 else 0)\<rparr>)) (w_held p) l1
      in fold (\<lambda>r. lane_bump (cy_mechanisms c) (gr_id r) (\<lambda>e. e\<lparr>lw_rejected := lw_rejected e + 1\<rparr>)) (w_rejected p) l2)"

text \<open>The first row of a source in the cycle counts (\<open>seen.insert\<close>).\<close>

fun first_rows :: "string list \<Rightarrow> source_terms list \<Rightarrow> source_terms list" where
  "first_rows seen [] = []"
| "first_rows seen (s # ss) =
     (if te_source_id s \<in> set seen then first_rows seen ss else s # first_rows (te_source_id s # seen) ss)"

definition sources_step :: "cycle_input \<Rightarrow> (string \<times> bool \<times> nat) list \<Rightarrow> (string \<times> bool \<times> nat) list" where
  "sources_step c sources =
     fold (\<lambda>s. bm_upd (te_source_id s) (\<lambda>old. case old of
         None \<Rightarrow> (terms_stated s, 1) | Some (b, n) \<Rightarrow> (b \<and> terms_stated s, n + 1)))
       (first_rows [] (cy_sources c)) sources"

definition cost_step :: "cycle_input \<Rightarrow> (minor \<times> currency) option option \<Rightarrow> (minor \<times> currency) option option" where
  "cost_step c cost = Some (case (cost, co_cost (cy_ops c)) of
       (None, CostKnown a cur) \<Rightarrow> Some (a, cur)
     | (Some (Some (s, cur)), CostKnown a cur') \<Rightarrow>
         if cur = cur' then (case minor_checked_add s a of Inr t \<Rightarrow> Some (t, cur) | Inl _ \<Rightarrow> None) else None
     | _ \<Rightarrow> None)"

definition miss_bump :: "miss \<Rightarrow> miss_tally option \<Rightarrow> miss_tally" where
  "miss_bump m old =
     (let e = (case old of None \<Rightarrow> \<lparr>mt_missed = 0, mt_false_positive = 0\<rparr> | Some e \<Rightarrow> e)
      in case ms_kind m of
           Missed \<Rightarrow> e\<lparr>mt_missed := mt_missed e + 1\<rparr>
         | FalsePositive \<Rightarrow> e\<lparr>mt_false_positive := mt_false_positive e + 1\<rparr>)"

definition misses_step :: "cycle_input \<Rightarrow> (failure_class \<times> miss_tally) list \<Rightarrow> (failure_class \<times> miss_tally) list" where
  "misses_step c misses =
     (case cy_grade c of
        None \<Rightarrow> misses
      | Some g \<Rightarrow> fold (\<lambda>m. bm_upd (ms_class m) (miss_bump m)) (cg_misses g) misses)"

definition ops_step :: "cycle_input \<Rightarrow> ops_totals \<Rightarrow> ops_totals" where
  "ops_step c t =
     (let o1 = cy_ops c;
          t = t\<lparr>ot_latency_ms := sat_add 64 (ot_latency_ms t) (co_latency_ms o1),
                ot_prompt_tokens := sat_add 64 (ot_prompt_tokens t) (co_prompt_tokens o1),
                ot_completion_tokens := sat_add 64 (ot_completion_tokens t) (co_completion_tokens o1),
                ot_failed_stages := ot_failed_stages t + co_failed_stages o1,
                ot_tokens_unknown_stages := ot_tokens_unknown_stages t + length (co_tokens_unknown o1),
                ot_source_failures := ot_source_failures t + length (co_source_failures o1)\<rparr>
      in case cy_grade c of
           None \<Rightarrow> t
         | Some g \<Rightarrow> t\<lparr>ot_correction_minutes := sat_add 32 (ot_correction_minutes t) (cg_correction_minutes g),
                        ot_research_hours := sat_add 32 (ot_research_hours t) (cg_research_hours g)\<rparr>)"

definition cycle_row_of :: "cycle_input \<Rightarrow> cycle_row" where
  "cycle_row_of c =
     (let p = cy_portfolio c in
      \<lparr>cw_cycle_id = cy_cycle_id c, cw_week = w_week p, cw_hold = is_hold p,
       cw_ranked = length (w_ranked p), cw_held = length (w_held p), cw_rejected = length (w_rejected p),
       cw_tests = length (filter is_test (map rr_action (w_ranked p) @ map gr_action (w_held p))),
       cw_owner_hours = al_owner_hours (w_allocation p), cw_cash = al_cash (w_allocation p),
       cw_unsupported_claims = cy_unsupported_claims c,
       cw_grade = map_option (\<lambda>g. bm_of (grade_scores g)) (cy_grade c),
       cw_changed_decision = map_option cg_changed_decision (cy_grade c)\<rparr>)"

definition no_ops :: ops_totals where
  "no_ops = \<lparr>ot_latency_ms = 0, ot_prompt_tokens = 0, ot_completion_tokens = 0, ot_failed_stages = 0,
     ot_tokens_unknown_stages = 0, ot_source_failures = 0, ot_cost = None, ot_correction_minutes = 0,
     ot_research_hours = 0\<rparr>"

definition total_cost :: "cycle_input list \<Rightarrow> (minor \<times> currency) option" where
  "total_cost cycles = Option.bind (fold cost_step cycles None) id"

definition review_packet_of :: "cycle_input list \<Rightarrow> resolved list \<Rightarrow> review_packet" where
  "review_packet_of cycles res =
     \<lparr>rp_cycles = map cycle_row_of cycles, rp_enough_cycles = length cycles \<ge> MIN_LIVE_CYCLES,
      rp_graded = length (filter (\<lambda>c. cy_grade c \<noteq> None) cycles),
      rp_calibration = calibration_of (map (\<lambda>r. (rd_probability r, rd_hit r)) res) CAL_BINS,
      rp_misses = fold misses_step cycles [],
      rp_ops = (fold ops_step cycles no_ops)\<lparr>ot_cost := total_cost cycles\<rparr>,
      rp_sources = map (\<lambda>(i, b, n). \<lparr>sw_source_id = i, sw_terms_stated = b, sw_cycles = n\<rparr>)
        (fold sources_step cycles []),
      rp_lanes = fold lanes_step cycles [], rp_stop_flags = stop_flags cycles,
      rp_decisions = [''STOP'', ''REWORK'', ''AUTHORIZE_O5'']\<rparr>"

section \<open>The sources of a packet\<close>

definition packet_source_of :: "evidence_packet \<Rightarrow> (string \<times> string) list" where
  "packet_source_of p =
     bm_of (map (\<lambda>r. (fr_record_id r, fr_source_id r)) (pk_facts p @ pk_pending p @ pk_expired p) @
       map (\<lambda>r. (wr_record_id r, wr_source_id r)) (pk_withdrawn p) @
       map (\<lambda>r. (ur_record_id r, ur_source_id r)) (pk_unparsed p))"

definition packet_sources :: "evidence_packet \<Rightarrow> source_terms list" where
  "packet_sources p = map snd (fold (\<lambda>c by_source.
     case map_of (packet_source_of p) (ci_record_id c) of
       None \<Rightarrow> by_source
     | Some source \<Rightarrow>
         let t = \<lparr>te_source_id = source, te_license_or_terms = ci_license_or_terms c, te_terms_sha256 = ci_terms_sha256 c\<rparr>
         in case map_of by_source source of
              Some prev \<Rightarrow> if \<not> terms_stated prev \<or> terms_stated t then by_source else bm_insert source t by_source
            | None \<Rightarrow> bm_insert source t by_source) (pk_citations p) [])"

section \<open>Tallies\<close>

definition get_lane :: "(lane \<times> lane_row) list \<Rightarrow> lane \<Rightarrow> lane_row" where
  "get_lane m l = (case map_of m l of None \<Rightarrow> no_lane | Some e \<Rightarrow> e)"

definition get_tally :: "(failure_class \<times> miss_tally) list \<Rightarrow> failure_class \<Rightarrow> miss_tally" where
  "get_tally m k = (case map_of m k of None \<Rightarrow> \<lparr>mt_missed = 0, mt_false_positive = 0\<rparr> | Some e \<Rightarrow> e)"

definition in_lane :: "lane \<Rightarrow> cycle_input \<Rightarrow> string \<Rightarrow> bool" where
  "in_lane l c i \<longleftrightarrow> Option.bind (map_of (cy_mechanisms c) i) lane_of = Some l"

definition lane_rows :: "lane \<Rightarrow> ('r \<Rightarrow> string) \<Rightarrow> (weekly_portfolio \<Rightarrow> 'r list) \<Rightarrow> cycle_input list \<Rightarrow> 'r list" where
  "lane_rows l ident rows cycles =
     concat (map (\<lambda>c. filter (\<lambda>r. in_lane l c (ident r)) (rows (cy_portfolio c))) cycles)"

definition lane_add :: "nat \<Rightarrow> nat \<Rightarrow> nat \<Rightarrow> nat \<Rightarrow> lane_row \<Rightarrow> lane_row" where
  "lane_add a t h r e = \<lparr>lw_ranked = lw_ranked e + a, lw_tests = lw_tests e + t, lw_held = lw_held e + h,
     lw_rejected = lw_rejected e + r\<rparr>"

lemma lane_updates:
  "(\<lambda>e::lane_row. e\<lparr>lw_ranked := lw_ranked e + 1, lw_tests := lw_tests e + n\<rparr>) = lane_add 1 n 0 0"
  "(\<lambda>e::lane_row. e\<lparr>lw_held := lw_held e + 1, lw_tests := lw_tests e + n\<rparr>) = lane_add 0 n 1 0"
  "(\<lambda>e::lane_row. e\<lparr>lw_rejected := lw_rejected e + 1\<rparr>) = lane_add 0 0 0 1"
  by (simp_all add: fun_eq_iff lane_add_def)

lemma lane_bump_ok [simp]: "bm_ok m \<Longrightarrow> bm_ok (lane_bump ms i f m)"
  by (simp add: lane_bump_def split: option.split)

lemma get_lane_bump:
  "bm_ok m \<Longrightarrow> get_lane (lane_bump (cy_mechanisms c) i f m) l = (if in_lane l c i then f (get_lane m l) else get_lane m l)"
  by (auto simp: lane_bump_def get_lane_def in_lane_def split: option.split)

lemma bm_ok_bumps [simp]: "bm_ok m \<Longrightarrow> bm_ok (fold (\<lambda>r. lane_bump (cy_mechanisms c) (g r) (f r)) rs m)"
  by (rule bm_ok_foldr) auto

lemma get_lane_bumps:
  assumes "bm_ok m"
  shows "get_lane (fold (\<lambda>r. lane_bump (cy_mechanisms c) (g r) (lane_add (a r) (t r) (h r) (d r))) rs m) l =
    (let qs = filter (\<lambda>r. in_lane l c (g r)) rs
     in lane_add (sum_list (map a qs)) (sum_list (map t qs)) (sum_list (map h qs)) (sum_list (map d qs)) (get_lane m l))"
  using assms
  by (induction rs arbitrary: m) (simp_all add: get_lane_bump lane_add_def Let_def)

lemma sum_list_const_one: "sum_list (map (\<lambda>_. 1::nat) xs) = length xs" "sum_list (map (\<lambda>_. 0::nat) xs) = 0"
  by (induction xs) simp_all

lemma sum_list_indicator: "sum_list (map (\<lambda>x. if P x then 1 else (0::nat)) xs) = length (filter P xs)"
  by (induction xs) simp_all

lemmas lane_sums = sum_list_const_one sum_list_indicator

lemma lanes_step_ok [simp]: "bm_ok m \<Longrightarrow> bm_ok (lanes_step c m)"
  by (simp add: lanes_step_def Let_def)

lemma lanes_step_get:
  assumes "bm_ok m"
  shows "get_lane (lanes_step c m) l =
    lane_add (length (lane_rows l rr_id w_ranked [c]))
      (length (filter is_test (map rr_action (lane_rows l rr_id w_ranked [c]) @ map gr_action (lane_rows l gr_id w_held [c]))))
      (length (lane_rows l gr_id w_held [c])) (length (lane_rows l gr_id w_rejected [c])) (get_lane m l)"
proof -
  let ?p = "cy_portfolio c"
  let ?l1 = "fold (\<lambda>r. lane_bump (cy_mechanisms c) (rr_id r) (lane_add 1 (if is_test (rr_action r) then 1 else 0) 0 0)) (w_ranked ?p) m"
  let ?l2 = "fold (\<lambda>r. lane_bump (cy_mechanisms c) (gr_id r) (lane_add 0 (if is_test (gr_action r) then 1 else 0) 1 0)) (w_held ?p) ?l1"
  have step: "lanes_step c m = fold (\<lambda>r. lane_bump (cy_mechanisms c) (gr_id r) (lane_add 0 0 0 1)) (w_rejected ?p) ?l2"
    unfolding lanes_step_def Let_def lane_updates ..
  have ok: "bm_ok ?l1" "bm_ok ?l2" using assms by simp_all
  show ?thesis
    unfolding step get_lane_bumps [OF ok(2)] get_lane_bumps [OF ok(1)] get_lane_bumps [OF assms] Let_def lane_sums
    by (simp add: lane_rows_def filter_map comp_def lane_add_def)
qed

lemma lanes_get:
  assumes "bm_ok m"
  shows "get_lane (fold lanes_step cycles m) l =
    lane_add (length (lane_rows l rr_id w_ranked cycles))
      (length (filter is_test (map rr_action (lane_rows l rr_id w_ranked cycles) @ map gr_action (lane_rows l gr_id w_held cycles))))
      (length (lane_rows l gr_id w_held cycles)) (length (lane_rows l gr_id w_rejected cycles)) (get_lane m l)"
  using assms
proof (induction cycles arbitrary: m)
  case Nil
  then show ?case by (simp add: lane_add_def lane_rows_def)
next
  case (Cons c cs)
  have "bm_ok (lanes_step c m)" using Cons.prems by simp
  note ih = Cons.IH [OF this]
  show ?case by (simp add: ih lanes_step_get [OF Cons.prems] lane_rows_def) (simp add: lane_add_def)
qed

lemma get_tally_upd:
  "bm_ok m \<Longrightarrow> get_tally (bm_upd (ms_class x) (miss_bump x) m) k =
     (if ms_class x = k then miss_bump x (Some (get_tally m k)) else get_tally m k)"
  by (auto simp: get_tally_def miss_bump_def Let_def split: option.split)

lemma misses_fold_get:
  assumes "bm_ok m"
  shows "get_tally (fold (\<lambda>x. bm_upd (ms_class x) (miss_bump x)) xs m) k =
    (let qs = filter (\<lambda>x. ms_class x = k) xs
     in \<lparr>mt_missed = mt_missed (get_tally m k) + length (filter (\<lambda>x. ms_kind x = Missed) qs),
         mt_false_positive = mt_false_positive (get_tally m k) + length (filter (\<lambda>x. ms_kind x = FalsePositive) qs)\<rparr>)"
  using assms
proof (induction xs arbitrary: m)
  case (Cons x xs)
  have "bm_ok (bm_upd (ms_class x) (miss_bump x) m)" using Cons.prems by simp
  note ih = Cons.IH [OF this]
  show ?case
    unfolding fold_Cons comp_def ih get_tally_upd [OF Cons.prems]
    by (cases "ms_kind x") (simp_all add: Let_def miss_bump_def)
qed simp

definition misses_of :: "cycle_input list \<Rightarrow> miss list" where
  "misses_of cycles = concat (map cg_misses (List.map_filter cy_grade cycles))"

lemma misses_fold: "fold misses_step cycles m = fold (\<lambda>x. bm_upd (ms_class x) (miss_bump x)) (misses_of cycles) m"
  by (induction cycles arbitrary: m) (simp_all add: misses_step_def misses_of_def List.map_filter_def split: option.split)

section \<open>Costs\<close>

fun sums_fit :: "int \<Rightarrow> int list \<Rightarrow> bool" where
  "sums_fit t [] = True"
| "sums_fit t (a # as) \<longleftrightarrow> i64_ok (t + a) \<and> sums_fit (t + a) as"

definition all_known :: "currency \<Rightarrow> cycle_input list \<Rightarrow> int list \<Rightarrow> bool" where
  "all_known cur cycles as \<longleftrightarrow> map (co_cost \<circ> cy_ops) cycles = map (\<lambda>a. CostKnown a cur) as"

lemma all_known_Nil [simp]: "all_known cur [] as \<longleftrightarrow> as = []"
  by (simp add: all_known_def)

lemma ex_all_known_Cons:
  "(\<exists>as. all_known cur (c # cs) as \<and> P as) \<longleftrightarrow>
     (\<exists>a. co_cost (cy_ops c) = CostKnown a cur \<and> (\<exists>bs. all_known cur cs bs \<and> P (a # bs)))"
  by (fastforce simp: all_known_def Cons_eq_map_conv)

lemma checked_add_eq: "minor_checked_add a b = (if i64_ok (a + b) then Inr (a + b) else Inl (Err OVERFLOW))"
  by (simp add: minor_checked_add_def fits_def)

lemma cost_step_simps:
  "cost_step x None = Some (case co_cost (cy_ops x) of CostKnown a cur \<Rightarrow> Some (a, cur) | CostUnknown _ \<Rightarrow> None)"
  "cost_step x (Some None) = Some None"
  "cost_step x (Some (Some (t, c))) = Some (case co_cost (cy_ops x) of
     CostKnown a cur \<Rightarrow> if c = cur \<and> i64_ok (t + a) then Some (t + a, c) else None | CostUnknown _ \<Rightarrow> None)"
  by (simp_all add: cost_step_def checked_add_eq split: ops_cost.split)

lemma cost_lost: "fold cost_step cs (Some None) = Some None"
  by (induction cs) (simp_all add: cost_step_simps)

lemma cost_fold:
  "fold cost_step cs (Some (Some (t, c))) = Some (Some (s, cur)) \<longleftrightarrow>
     c = cur \<and> (\<exists>as. all_known cur cs as \<and> s = t + sum_list as \<and> sums_fit t as)"
proof (induction cs arbitrary: t s c)
  case Nil
  then show ?case by auto
next
  case (Cons x cs)
  show ?case
    by (cases "co_cost (cy_ops x)")
      (auto simp: ex_all_known_Cons cost_step_simps Cons.IH [unfolded add.assoc] cost_lost add.assoc)
qed

lemma total_cost_iff:
  "total_cost cycles = Some (s, cur) \<longleftrightarrow>
     (\<exists>as. all_known cur cycles as \<and> as \<noteq> [] \<and> s = sum_list as \<and> sums_fit (hd as) (tl as))"
proof (cases cycles)
  case Nil
  then show ?thesis by (simp add: total_cost_def)
next
  case (Cons c cs)
  have "total_cost cycles = Some (s, cur) \<longleftrightarrow> fold cost_step cs (cost_step c None) = Some (Some (s, cur))"
    by (auto simp: total_cost_def Cons Option.bind_eq_Some_conv)
  then show ?thesis
    by (cases "co_cost (cy_ops c)") (auto simp: Cons ex_all_known_Cons cost_step_simps cost_fold cost_lost)
qed

section \<open>Terms of the sources\<close>

definition unclear :: "(string \<times> bool \<times> nat) list \<Rightarrow> bool" where
  "unclear m \<longleftrightarrow> (\<exists>i n. map_of m i = Some (False, n))"

definition source_upd :: "source_terms \<Rightarrow> (string \<times> bool \<times> nat) list \<Rightarrow> (string \<times> bool \<times> nat) list" where
  "source_upd s = bm_upd (te_source_id s) (\<lambda>old. case old of
     None \<Rightarrow> (terms_stated s, 1) | Some (b, n) \<Rightarrow> (b \<and> terms_stated s, n + 1))"

lemma source_upd_ok [simp]: "bm_ok m \<Longrightarrow> bm_ok (source_upd s m)"
  by (simp add: source_upd_def)

lemma unclear_upd:
  assumes "bm_ok m"
  shows "unclear (source_upd s m) \<longleftrightarrow> unclear m \<or> \<not> terms_stated s"
proof (cases "map_of m (te_source_id s)")
  case None
  then show ?thesis using assms by (auto simp: unclear_def source_upd_def) (metis option.distinct(1))
next
  case (Some e)
  then show ?thesis
    using assms by (cases e) (auto simp: unclear_def source_upd_def, metis option.inject prod.inject)
qed

lemma unclear_fold: "bm_ok m \<Longrightarrow> unclear (fold source_upd ss m) \<longleftrightarrow> unclear m \<or> list_ex (\<lambda>s. \<not> terms_stated s) ss"
  by (induction ss arbitrary: m) (auto simp: unclear_upd)

lemma first_rows_distinct:
  "distinct (map te_source_id ss) \<Longrightarrow> set seen \<inter> te_source_id ` set ss = {} \<Longrightarrow> first_rows seen ss = ss"
  by (induction ss arbitrary: seen) auto

lemma sources_fold:
  assumes "list_all (\<lambda>c. distinct (map te_source_id (cy_sources c))) cycles" "bm_ok m"
  shows "bm_ok (fold sources_step cycles m) \<and> (unclear (fold sources_step cycles m) \<longleftrightarrow>
    unclear m \<or> list_ex (\<lambda>s. \<not> terms_stated s) (concat (map cy_sources cycles)))"
  using assms
proof (induction cycles arbitrary: m)
  case (Cons c cs)
  have s: "sources_step c m = fold source_upd (cy_sources c) m"
    unfolding sources_step_def source_upd_def [abs_def] using Cons.prems(1) first_rows_distinct [of "cy_sources c" "[]"] by simp
  then have "bm_ok (sources_step c m)" using Cons.prems(2) by (simp add: bm_ok_foldr)
  then show ?case using Cons unclear_fold [OF Cons.prems(2), of "cy_sources c"] s by auto
qed simp

lemma unclear_rows:
  "bm_ok m \<Longrightarrow> unclear m \<longleftrightarrow> (\<exists>r \<in> set (map (\<lambda>(i, b, n). \<lparr>sw_source_id = i, sw_terms_stated = b, sw_cycles = n\<rparr>) m).
     \<not> sw_terms_stated r)"
  by (force simp: unclear_def bm_ok_def strict_sorted_iff dest: map_of_SomeD)

definition citation_stated :: "citation \<Rightarrow> bool" where
  "citation_stated c \<longleftrightarrow> trim (ci_license_or_terms c) \<noteq> [] \<and> valid_sha256 (ci_terms_sha256 c)"

definition packet_row_ids :: "evidence_packet \<Rightarrow> string set" where
  "packet_row_ids p = fr_record_id ` set (pk_facts p @ pk_pending p @ pk_expired p) \<union>
     wr_record_id ` set (pk_withdrawn p) \<union> ur_record_id ` set (pk_unparsed p)"

lemma packet_source_of_None: "map_of (packet_source_of p) i = None \<longleftrightarrow> i \<notin> packet_row_ids p"
  by (auto simp: packet_source_of_def map_of_bm_of map_of_eq_None_iff packet_row_ids_def image_image)

definition some_unstated :: "(string \<times> source_terms) list \<Rightarrow> bool" where
  "some_unstated m \<longleftrightarrow> (\<exists>k t. map_of m k = Some t \<and> \<not> terms_stated t)"

lemma some_unstated_insert:
  assumes "bm_ok m" and "\<And>prev. map_of m k = Some prev \<Longrightarrow> terms_stated prev"
  shows "some_unstated (bm_insert k t m) \<longleftrightarrow> some_unstated m \<or> \<not> terms_stated t"
  using assms(1) unfolding some_unstated_def bm_insert_def by (auto dest: assms(2)) (metis assms(2))

lemma packet_sources_terms:
  "distinct (map te_source_id (packet_sources p))"
  "list_ex (\<lambda>s. \<not> terms_stated s) (packet_sources p) \<longleftrightarrow>
     (\<exists>c \<in> set (pk_citations p). ci_record_id c \<in> packet_row_ids p \<and> \<not> citation_stated c)"
proof -
  define step where "step = (\<lambda>(c :: citation) by_source.
     case map_of (packet_source_of p) (ci_record_id c) of
       None \<Rightarrow> by_source
     | Some source \<Rightarrow>
         let t = \<lparr>te_source_id = source, te_license_or_terms = ci_license_or_terms c, te_terms_sha256 = ci_terms_sha256 c\<rparr>
         in case map_of by_source source of
              Some prev \<Rightarrow> if \<not> terms_stated prev \<or> terms_stated t then by_source else bm_insert source t by_source
            | None \<Rightarrow> bm_insert source t by_source)"
  define good where "good = (\<lambda>past m. bm_ok m \<and> (\<forall>k t. map_of m k = Some t \<longrightarrow> te_source_id t = k) \<and>
    (some_unstated m \<longleftrightarrow> (\<exists>c \<in> past. ci_record_id c \<in> packet_row_ids p \<and> \<not> citation_stated c)))"
  have one: "good (insert c past) (step c m)" if "good past m" for c past m
  proof (cases "map_of (packet_source_of p) (ci_record_id c)")
    case None
    then have "step c m = m" "ci_record_id c \<notin> packet_row_ids p"
      using packet_source_of_None [of p "ci_record_id c"] by (simp_all add: step_def)
    then show ?thesis using that by (simp add: good_def)
  next
    case (Some source)
    define t where "t = \<lparr>te_source_id = source, te_license_or_terms = ci_license_or_terms c, te_terms_sha256 = ci_terms_sha256 c\<rparr>"
    have t: "te_source_id t = source" "terms_stated t = citation_stated c"
      by (simp_all add: t_def terms_stated_def citation_stated_def)
    have here: "ci_record_id c \<in> packet_row_ids p" using Some packet_source_of_None [of p] by (metis option.distinct(1))
    have s: "step c m = (case map_of m source of
         Some prev \<Rightarrow> if \<not> terms_stated prev \<or> terms_stated t then m else bm_insert source t m
       | None \<Rightarrow> bm_insert source t m)"
      unfolding step_def t_def by (simp add: Some Let_def)
    show ?thesis
    proof (cases "(\<exists>prev. map_of m source = Some prev \<and> \<not> terms_stated prev) \<or>
        map_of m source \<noteq> None \<and> terms_stated t")
      case True
      then have "step c m = m" by (auto simp: s)
      moreover have "some_unstated m \<or> citation_stated c" using True t(2) by (auto simp: some_unstated_def)
      ultimately show ?thesis using that here unfolding good_def by auto
    next
      case False
      then have "step c m = bm_insert source t m" by (auto simp: s split: option.split)
      moreover have "some_unstated (bm_insert source t m) \<longleftrightarrow> some_unstated m \<or> \<not> terms_stated t"
        using that False by (intro some_unstated_insert) (auto simp: good_def)
      ultimately show ?thesis using that here t unfolding good_def by (auto simp: bm_insert_def)
    qed
  qed
  have "good (past \<union> set cs) (fold step cs m)" if "good past m" for cs past m
    using that
  proof (induction cs arbitrary: past m)
    case (Cons c cs)
    from Cons.IH [OF one [OF Cons.prems, of c]] show ?case by simp
  qed simp
  from this [of "{}" "[]" "pk_citations p"] have f: "good (set (pk_citations p)) (fold step (pk_citations p) [])"
    by (simp add: good_def some_unstated_def)
  define m where "m = fold step (pk_citations p) []"
  have ps: "packet_sources p = map snd m" by (simp add: packet_sources_def m_def step_def [abs_def])
  from f have ok: "bm_ok m" by (simp add: good_def m_def)
  then have d: "map_of m k = Some t \<longleftrightarrow> (k, t) \<in> set m" for k t
    by (simp add: bm_ok_def strict_sorted_iff)
  from f have m: "\<And>k t. (k, t) \<in> set m \<Longrightarrow> te_source_id t = k"
    "(\<exists>k t. (k, t) \<in> set m \<and> \<not> terms_stated t) \<longleftrightarrow>
      (\<exists>c \<in> set (pk_citations p). ci_record_id c \<in> packet_row_ids p \<and> \<not> citation_stated c)"
    unfolding good_def some_unstated_def m_def [symmetric] d by blast+
  have "map te_source_id (packet_sources p) = map fst m" using m(1) by (auto simp: ps)
  then show "distinct (map te_source_id (packet_sources p))" using ok by (simp add: bm_ok_def strict_sorted_iff)
  show "list_ex (\<lambda>s. \<not> terms_stated s) (packet_sources p) \<longleftrightarrow>
     (\<exists>c \<in> set (pk_citations p). ci_record_id c \<in> packet_row_ids p \<and> \<not> citation_stated c)"
    unfolding m(2) [symmetric] by (force simp: ps list_ex_iff)
qed

section \<open>What the review shows\<close>

text \<open>
  C23: the review counts every row once. For each lane, its row of the packet counts the ranked, held and rejected rows of
  all cycles whose candidate has a mechanism of the lane, and the tests among the ranked and held ones; for each failure
  class, its tally counts the operator's missed and false-positive entries; the total cost is known exactly when there
  is a cycle, the cost of every cycle is known in one currency and no running sum leaves the range of an amount, and
  then it is the sum.
\<close>

theorem review_counts_exact:
  "get_tally (rp_misses (review_packet_of cycles res)) k =
     \<lparr>mt_missed = length (filter (\<lambda>m. ms_class m = k \<and> ms_kind m = Missed) (misses_of cycles)),
      mt_false_positive = length (filter (\<lambda>m. ms_class m = k \<and> ms_kind m = FalsePositive) (misses_of cycles))\<rparr> \<and>
   get_lane (rp_lanes (review_packet_of cycles res)) l =
     \<lparr>lw_ranked = length (lane_rows l rr_id w_ranked cycles),
      lw_tests = length (filter is_test (map rr_action (lane_rows l rr_id w_ranked cycles) @
        map gr_action (lane_rows l gr_id w_held cycles))),
      lw_held = length (lane_rows l gr_id w_held cycles), lw_rejected = length (lane_rows l gr_id w_rejected cycles)\<rparr> \<and>
   (ot_cost (rp_ops (review_packet_of cycles res)) = Some (s, cur) \<longleftrightarrow>
     (\<exists>as. all_known cur cycles as \<and> as \<noteq> [] \<and> s = sum_list as \<and> sums_fit (hd as) (tl as)))"
proof -
  have "get_tally [] k = \<lparr>mt_missed = 0, mt_false_positive = 0\<rparr>" "get_lane [] l = no_lane"
    by (simp_all add: get_tally_def get_lane_def)
  then show ?thesis
    by (simp add: review_packet_of_def misses_fold misses_fold_get lanes_get total_cost_iff Let_def lane_add_def no_lane_def
        conj_commute)
qed

text \<open>
  C24: unclear terms are always flagged. When the cycles list the sources of their packets, the review raises
  \<open>SourceTermsUnclear\<close> exactly when a source row of the review lacks its terms, and exactly when some packet cites one of
  its current records without terms text or a terms hash; citations of superseded versions do not count.
\<close>

theorem unclear_terms_flagged:
  assumes "list_all2 (\<lambda>c p. cy_sources c = packet_sources p) cycles packets"
  shows "(flag_of SourceTermsUnclear \<in> set (rp_stop_flags (review_packet_of cycles res)) \<longleftrightarrow>
      (\<exists>r \<in> set (rp_sources (review_packet_of cycles res)). \<not> sw_terms_stated r)) \<and>
    (flag_of SourceTermsUnclear \<in> set (rp_stop_flags (review_packet_of cycles res)) \<longleftrightarrow>
      (\<exists>p \<in> set packets. \<exists>c \<in> set (pk_citations p). ci_record_id c \<in> packet_row_ids p \<and> \<not> citation_stated c))"
proof (intro conjI)
  have f: "flag_of SourceTermsUnclear \<in> set (rp_stop_flags (review_packet_of cycles res)) \<longleftrightarrow>
      list_ex (\<lambda>s. \<not> terms_stated s) (concat (map cy_sources cycles))"
    by (simp add: review_packet_of_def stop_flags_def Let_def flag_of_def)
  have d: "list_all (\<lambda>c. distinct (map te_source_id (cy_sources c))) cycles"
    using assms by (induction rule: list_all2_induct) (simp_all add: packet_sources_terms(1))
  show "flag_of SourceTermsUnclear \<in> set (rp_stop_flags (review_packet_of cycles res)) \<longleftrightarrow>
      (\<exists>r \<in> set (rp_sources (review_packet_of cycles res)). \<not> sw_terms_stated r)"
    using sources_fold [OF d bm_ok_Nil] unclear_rows [of "fold sources_step cycles []"]
    unfolding f by (simp add: review_packet_of_def unclear_def)
  have "map cy_sources cycles = map packet_sources packets"
    using assms by (induction rule: list_all2_induct) simp_all
  then show "flag_of SourceTermsUnclear \<in> set (rp_stop_flags (review_packet_of cycles res)) \<longleftrightarrow>
      (\<exists>p \<in> set packets. \<exists>c \<in> set (pk_citations p). ci_record_id c \<in> packet_row_ids p \<and> \<not> citation_stated c)"
    unfolding f by (simp add: packet_sources_terms(2) [symmetric] list_ex_iff)
qed

section \<open>The cost of a cycle\<close>

lemma stage_sum_from:
  "list_all (\<lambda>x. 0 \<le> x) xs \<Longrightarrow> 0 \<le> a \<Longrightarrow> foldl (sat_add 64) a xs = (if xs = [] then a else min (a + sum_list xs) (2 ^ 64 - 1))"
proof (induction xs arbitrary: a)
  case (Cons x xs)
  then have "0 \<le> sat_add 64 a x" by (simp add: sat_add_def)
  moreover have "0 \<le> sum_list xs" using Cons.prems(1) by (intro sum_list_nonneg) (simp add: list_all_iff)
  ultimately show ?case using Cons by (auto simp: sat_add_def min_def)
qed simp

lemma stage_sum_exact:
  assumes "list_all (\<lambda>s. 0 \<le> f s) stages" "i64_ok (stage_sum f stages)"
  shows "stage_sum f stages = sum_list (map f stages)"
proof -
  have "list_all (\<lambda>x. 0 \<le> x) (map f stages)" using assms(1) by (simp add: list.pred_map comp_def)
  from stage_sum_from [OF this, of 0] assms(2) show ?thesis
    by (auto simp: stage_sum_def i64_ok_def min_def split: if_splits)
qed

lemma priced_bounds:
  assumes "priced price n = Inr a"
  shows "i64_ok n \<and> price * n \<le> a * MILLION \<and> a * MILLION < price * n + MILLION"
proof -
  have n: "i64_ok n" and m: "minor_mul_div price n MILLION Outflow = Inr a"
    using assms by (auto simp: priced_def rbind_eq_Inr fits_def split: if_splits)
  then have w: "i128_ok (price * n)" and "flow_div Outflow (price * n) MILLION = Inr a"
    by (auto simp: minor_mul_div_def rbind_eq_Inr minor_from_i128_def fits_def MILLION_def split: if_splits)
  with flow_div_never_flatters(2) [OF _ w, of MILLION] n show ?thesis
    by (auto simp: MILLION_def algebra_simps)
qed

text \<open>
  C25: the cost of a cycle is never understated. When the record of a cycle gives a known cost, prices are configured and
  every stage reported its tokens, and the amount covers all tokens at their prices, by less than two minor units; a
  cycle with a stage that ended without a reply, or without prices, never has a known cost.
\<close>

theorem cycle_cost_never_understated:
  assumes "cycle_ops_of i stages failures prices = Inr co"
    and "list_all (\<lambda>s. 0 \<le> sn_prompt_tokens s \<and> 0 \<le> sn_completion_tokens s) stages"
  shows "case co_cost co of
      CostKnown a cur \<Rightarrow> \<not> list_ex sn_tokens_unknown stages \<and> (\<exists>p. prices = Some p \<and> cur = tp_currency p \<and>
        (let exact = tp_prompt_per_million p * sum_list (map sn_prompt_tokens stages) +
               tp_completion_per_million p * sum_list (map sn_completion_tokens stages)
         in exact \<le> a * MILLION \<and> a * MILLION < exact + 2 * MILLION))
    | CostUnknown _ \<Rightarrow> list_ex sn_tokens_unknown stages \<or> prices = None"
proof -
  let ?u = "map sn_stage (filter sn_tokens_unknown stages)"
  let ?p = "stage_sum sn_prompt_tokens stages" and ?c = "stage_sum sn_completion_tokens stages"
  have c: "cost_of ?u ?p ?c prices = Inr (co_cost co)"
    using assms(1) by (auto simp: cycle_ops_of_def rbind_eq_Inr Let_def)
  have none: "?u = [] \<longleftrightarrow> \<not> list_ex sn_tokens_unknown stages" by (simp add: filter_empty_conv list_ex_iff)
  have tok: "list_all (\<lambda>s. 0 \<le> sn_prompt_tokens s) stages" "list_all (\<lambda>s. 0 \<le> sn_completion_tokens s) stages"
    using assms(2) by (simp_all add: list_all_iff)
  show ?thesis
  proof (cases "?u = []")
    case False
    then show ?thesis using c none by (cases "co_cost co") (auto simp: cost_of_def)
  next
    case True
    show ?thesis
    proof (cases prices)
      case None
      then show ?thesis using c True by (cases "co_cost co") (auto simp: cost_of_def)
    next
      case (Some p)
      then obtain a b where ab: "priced (tp_prompt_per_million p) ?p = Inr a"
        "priced (tp_completion_per_million p) ?c = Inr b" and k: "co_cost co = CostKnown (a + b) (tp_currency p)"
        using c True by (auto simp: cost_of_def rbind_eq_Inr checked_add_eq split: if_splits)
      have e: "?p = sum_list (map sn_prompt_tokens stages)" "?c = sum_list (map sn_completion_tokens stages)"
        using stage_sum_exact [OF tok(1)] stage_sum_exact [OF tok(2)] priced_bounds [OF ab(1)] priced_bounds [OF ab(2)] by auto
      from priced_bounds [OF ab(1)] priced_bounds [OF ab(2)] True none Some show ?thesis
        by (simp add: k e Let_def distrib_right)
    qed
  qed
qed

section \<open>A reviewed cycle\<close>

definition sample_stages :: "stage_run list" where
  "sample_stages = [\<lparr>sn_stage = StArchitect, sn_agent = None, sn_latency_ms = 41000, sn_prompt_tokens = 18000,
      sn_completion_tokens = 3100, sn_ok = True, sn_tokens_unknown = False\<rparr>]"

definition sample_prices :: token_prices where
  "sample_prices = \<lparr>tp_currency = Eur, tp_prompt_per_million = 300, tp_completion_per_million = 1500\<rparr>"

definition sample_ops :: cycle_ops where
  "sample_ops = \<lparr>co_cycle_id = ''2026-W41'', co_stages = sample_stages, co_source_failures = [], co_latency_ms = 41000,
     co_prompt_tokens = 18000, co_completion_tokens = 3100, co_failed_stages = 0, co_tokens_unknown = [],
     co_cost = CostKnown 11 Eur\<rparr>"

lemma sample_ops_of: "cycle_ops_of ''2026-W41'' sample_stages [] (Some sample_prices) = Inr sample_ops"
  by code_simp

theorem cycle_cost_never_understated_witness:
  "cycle_ops_of ''2026-W41'' sample_stages [] (Some sample_prices) = Inr sample_ops \<and>
   10050000 \<le> 11 * MILLION \<and> 11 * MILLION < 10050000 + 2 * MILLION"
proof -
  have "list_all (\<lambda>s. 0 \<le> sn_prompt_tokens s \<and> 0 \<le> sn_completion_tokens s) sample_stages"
    by (simp add: sample_stages_def)
  from cycle_cost_never_understated [OF sample_ops_of this] sample_ops_of show ?thesis
    by (simp add: sample_ops_def sample_stages_def sample_prices_def Let_def)
qed

definition reviewed_cycle :: cycle_input where
  "reviewed_cycle = \<lparr>cy_cycle_id = ''2026-W41'', cy_portfolio = sample_week, cy_mechanisms = [], cy_unsupported_claims = 0,
     cy_sources = packet_sources (packet_build sample_input 30 Captured no_filter), cy_ops = sample_ops, cy_grade = None\<rparr>"

theorem unclear_terms_flagged_witness:
  "flag_of SourceTermsUnclear \<in> set (rp_stop_flags (review_packet_of [reviewed_cycle] [])) \<and>
   (\<exists>r \<in> set (rp_sources (review_packet_of [reviewed_cycle] [])). \<not> sw_terms_stated r)"
proof -
  let ?p = "packet_build sample_input 30 Captured no_filter"
  let ?c = "\<lparr>cu_record = sample_filing, cu_visible_ms = 25, cu_state = InForce, cu_last_fact = None\<rparr>"
  have src: "list_all2 (\<lambda>c p. cy_sources c = packet_sources p) [reviewed_cycle] [?p]"
    by (simp add: reviewed_cycle_def)
  have "pk_facts ?p = [fact_row_of ?c]" by (simp add: packet_parts sample_view)
  then have "''sec:a1:h1'' \<in> packet_row_ids ?p"
    by (simp add: packet_row_ids_def fact_row_of_def Let_def sample_filing_def)
  moreover have "pk_citations ?p = [citation_of sample_filing]"
    by (simp add: packet_build_def Let_def sample_view sample_filing_def bset_def)
  moreover have "\<not> citation_stated (citation_of sample_filing)" "ci_record_id (citation_of sample_filing) = ''sec:a1:h1''"
    by code_simp+
  ultimately show ?thesis using unclear_terms_flagged [OF src, of "[]"] by auto
qed

end
