(* ===== verification/Spec2Isabelle.thy ===== *)
theory Spec2Isabelle
  imports Soe_Allocate_Props Soe_Value_Props Soe_Forecast_Props Soe_Store_Props Soe_Cycle_Props Soe_Eval
    Soe_Review
begin

text \<open>
  The Sovereign Opportunity Engine (SOE) of the tengu cluster, and the evidence it decides on.

  \<^bold>\<open>The program.\<close> Once a week the engine turns records of public sources and the drafts of language models into a
  decision. An evidence packet says what the source records stated at the instant of the decision. A model proposes
  opportunities, with a basis for each input; another challenges them. The pure core checks both against the packet,
  merges the challenges, computes three scenarios of economic figures in checked integer arithmetic, runs eleven gates
  under a signed operator profile, ranks what passes and allocates the hours and the cash of the week. The cycle around
  it claims a run directory, writes its files, freezes them under a manifest and appends the forecasts to a
  hash-chained log; later evidence resolves them, the operator grades the weeks, and a review packet counts them.

  \<^bold>\<open>The theories\<close>, in import order, and the source files they translate (under \<open>src/src\<close>):
  \<^item> \<open>Rust_Prelude\<close>: results with errors and panics, integer widths, fallible folds and maps; \<open>Ordered_Maps\<close>: \<open>BTreeMap\<close>
    and \<open>BTreeSet\<close> as sorted lists.
  \<^item> \<open>Lineage_Values\<close>: \<open>domain/lineage/value.rs\<close>, \<open>domain/evidence.rs\<close>: ids, times and their order, locators.
  \<^item> \<open>Soe_Value\<close>, \<open>Soe_Value_Props\<close>: \<open>domain/soe/value.rs\<close>: minor units, currencies, rates, estimates, schema tags.
  \<^item> \<open>Soe_Records\<close>: \<open>record.rs\<close>, \<open>risk.rs\<close>, \<open>experiment.rs\<close>, \<open>profile.rs\<close>; the locale \<open>soe_record\<close> is the trait \<open>SoeRecord\<close>
    and is interpreted on every record type of the development. \<open>Soe_Opportunity\<close>: \<open>opportunity.rs\<close>; \<open>Soe_Sample\<close>:
    concrete records on which the properties are instantiated.
  \<^item> \<open>Soe_Economics\<close>: \<open>economics.rs\<close>; \<open>Soe_Scenarios\<close>, \<open>Soe_Totality\<close>: the order of the scenarios and the absence of
    panics; \<open>Soe_Economics_Props\<close>: what follows.
  \<^item> \<open>Soe_Gates\<close>, \<open>Soe_Gates_Props\<close>: \<open>gates.rs\<close>; \<open>Soe_Portfolio\<close>: \<open>portfolio.rs\<close>; \<open>Soe_Rank\<close>, \<open>Soe_Rank_Props\<close>: \<open>matching.rs\<close>,
    \<open>rank.rs\<close>; \<open>Soe_Allocate\<close>, \<open>Soe_Allocate_Props\<close>: \<open>allocate.rs\<close> up to \<open>allocate\<close>.
  \<^item> \<open>Untrusted\<close>: \<open>domain/untrusted.rs\<close> and the fence of \<open>domain/source/packet.rs\<close>; \<open>Source_Record\<close>, \<open>Source_Asof\<close>,
    \<open>Source_Packet\<close>: \<open>domain/source/record.rs\<close>, \<open>rules.rs\<close>, \<open>asof.rs\<close>, \<open>packet.rs\<close>.
  \<^item> \<open>Soe_Observe\<close>: \<open>observe.rs\<close>; \<open>Soe_Forecast\<close>, \<open>Soe_Forecast_Props\<close>: \<open>forecast.rs\<close>; \<open>Soe_Challenge\<close>,
    \<open>Soe_Challenge_Props\<close>: \<open>proposal.rs\<close>, \<open>challenge.rs\<close>; \<open>Soe_Decide\<close>: \<open>decide_week\<close> of \<open>allocate.rs\<close>, which composes the
    parts above.
  \<^item> \<open>Durable_Actions\<close>: programs of durable steps that may stop at any of them; \<open>Soe_Store\<close>, \<open>Soe_Store_Props\<close>:
    \<open>ports/soe.rs\<close>, \<open>adapters/outbound/soe/store.rs\<close>; \<open>Soe_Cycle\<close>, \<open>Soe_Cycle_Ledger\<close>, \<open>Soe_Cycle_Props\<close>:
    \<open>application/soe/cycle.rs\<close>, \<open>freeze.rs\<close>, \<open>submit.rs\<close>, \<open>job.rs\<close>.
  \<^item> \<open>Soe_Replay\<close>: \<open>replay.rs\<close>; \<open>Soe_Eval\<close>: \<open>eval.rs\<close>, \<open>episode.rs\<close>; \<open>Soe_Review\<close>: \<open>ops.rs\<close>, \<open>review.rs\<close>.

  \<^bold>\<open>Conventions.\<close> A Rust \<open>Result<T, ValueError>\<close> is \<open>'a vres\<close>, a sum whose left side is an error code or a panic; texts of
  errors and of failures' details are dropped, their codes and fields are kept. Integers are \<open>int\<close> with the width checked
  where the code checks it (\<open>checked_mul\<close>, \<open>try_from\<close>), saturating where it saturates, and a panic where the code would
  overflow or abort; counts (\<open>usize\<close>) are \<open>nat\<close>. Strings are lists of UTF-8 bytes; \<open>trim\<close> drops every character that is
  white space in Unicode, by its encoding. Lists of problems are returned, not
  accumulated. Hashes (\<open>sha2\<close> over \<open>serde_json\<close>), the JSON parser, the text of instants and the calendar (\<open>chrono\<close>) are
  arguments of the definitions that use them. The contents of a file of a run are what its readers take out of it. A
  crash, or a lost lease, is a budget of durable steps that runs out: a program of \<open>Durable_Actions\<close> returns the state the
  disk has then, so a statement about every budget is one about every point of interruption.

  \<^bold>\<open>Loops.\<close> Recursion is structural or has its termination proof (\<open>trim\<close> and the two strippers of \<open>Untrusted\<close> by the length of the
  text, the price search of \<open>Soe_Allocate\<close> by the width of its interval and a bound on the doublings, which the range of
  an amount gives); no definition of the model uses fuel except the step budget above, and \<open>resume_repairs\<close> shows that
  enough budget suffices.

  \<^bold>\<open>What is shown.\<close>
  \<^item> Economics: the scenarios are ordered (for a one-off deal its monthly levels; a lemma computes a deal whose base
    payback is worse than its downside), figures are unknown exactly when an input they need is, for every model, and
    paybacks are first months.
  \<^item> Gates and ranking: the verdict is exactly the documented one, does not look ahead, is never lifted by a hold; the
    ranking is the passing candidates in the documented order of each key, stated without the comparator of the code,
    the reason given for two candidates is the true one, and the fit is the weakest skill.
  \<^item> Allocation: within the budget, every candidate once, no panic, a tight minimum price; a lemma computes a week that one
    candidate no price can clear refuses.
  \<^item> Evidence: what arrives after an instant leaves the packet of that instant unchanged (\<open>arrives_after\<close> says what that
    is in each mode), what supports a candidate is sound, and a candidate the week passes rests on
    such evidence. Fences hold their text.
  \<^item> Models: a challenge only worsens, a checked one applies, a draft with a computed key is refused; a checked challenge
    that lowers an amount below zero leaves an opportunity its record rules refuse.
  \<^item> Store and cycle: a frozen run detects every change, the log of forecasts commits to its lines and survives
    crashes, a resume repairs it; a freeze that stops at one step leaves a run that never verifies.
  \<^item> After the week: resolutions and calibration are exact, the stability of a ranking is that of the perturbed weeks,
    evaluation cases never see ahead, the review counts every row once, flags unclear terms and understates no cost.

  \<^bold>\<open>Not modelled.\<close> The markdown of memos, briefs, packets and reviews; the parsers of source documents (\<open>source/ted.rs\<close>,
  \<open>sec_records.rs\<close>) and the checks and evaluation of a store; the lineage registry beyond its values and qualities;
  scheduling, calendars, agent plans and workflows; adapters, ports, configuration and the command line (I/O); Solana
  encodings; and the trading research (\<open>xm\<close>, \<open>lp\<close>, \<open>backtest\<close>, market data), which computes in binary floating point, for
  which the library at hand has no theory.
\<close>

end
